(* ===== verification/Krb_Prelude.thy ===== *)
theory Krb_Prelude
  imports Main "HOL-Library.Word"
begin

text \<open>
  Shared vocabulary of the development.

  \<^item> Rust's fixed-width integers are words (\<open>u8\<close> \dots \<open>u64\<close>); a signed integer is the same
    word read with \<open>sint\<close>. Byte slices and vectors are \<open>bytes\<close>, and a Rust \<open>String\<close> is the
    list of its UTF-8 bytes.
  \<^item> \<open>Result<T, E>\<close> is the sum \<open>'e + 'a\<close> (\<open>Inl\<close> the error), chained with \<open>rbind\<close>, the
    \<open>?\<close> operator of the source.
  \<^item> Fixed-width integer encodings (\<open>to_be_bytes\<close>, \<open>to_le_bytes\<close> and their inverses).
  \<^item> Cursors over a byte slice. A reader of the source keeps the slice and a position; here
    its state is the unread suffix, and a reader returns its value and the rest.
  \<^item> The interface \<open>codec\<close>: an encoder with a cursor decoder that undoes it. Its clients are
    the sequence decoders (a counted list of elements), proved once in the locale.
\<close>

unbundle bit_operations_syntax

section \<open>Types\<close>

type_synonym u8 = "8 word"
type_synonym u16 = "16 word"
type_synonym u32 = "32 word"
type_synonym u64 = "64 word"
type_synonym bytes = "u8 list"

named_theorems codec_simps "decoding undoes encoding, one element"
named_theorems rust_arith "definitions of the integer operations of the source language"

section \<open>Results\<close>

fun rbind :: "'e + 'a \<Rightarrow> ('a \<Rightarrow> 'e + 'b) \<Rightarrow> 'e + 'b" where
  "rbind (Inl e) f = Inl e"
| "rbind (Inr x) f = f x"

lemma rbind_eq_Inr:
  "rbind m f = Inr y \<longleftrightarrow> (\<exists>x. m = Inr x \<and> f x = Inr y)"
  by (cases m) auto

lemma rbind_eq_InrE [elim!]:
  assumes "rbind m f = Inr y"
  obtains x where "m = Inr x" "f x = Inr y"
  using assms by (auto simp: rbind_eq_Inr)

lemma rbind_eq_Inl:
  "rbind m f = Inl e \<longleftrightarrow> m = Inl e \<or> (\<exists>x. m = Inr x \<and> f x = Inl e)"
  by (cases m) auto

lemma rbind_assoc: "rbind (rbind m f) g = rbind m (\<lambda>x. rbind (f x) g)"
  by (cases m) auto

lemma rbind_cong [fundef_cong]:
  "m = m' \<Longrightarrow> (\<And>x. m' = Inr x \<Longrightarrow> f x = f' x) \<Longrightarrow> rbind m f = rbind m' f'"
  by (cases m') auto

definition is_ok :: "'e + 'a \<Rightarrow> bool" where
  "is_ok r \<longleftrightarrow> (case r of Inl _ \<Rightarrow> False | Inr _ \<Rightarrow> True)"

lemma is_ok_simps [simp]: "is_ok (Inr x)" "\<not> is_ok (Inl e)"
  by (simp_all add: is_ok_def)

text \<open>\<open>Option::is_none_or\<close> and \<open>Option::is_some_and\<close>.\<close>

definition is_none_or :: "'a option \<Rightarrow> ('a \<Rightarrow> bool) \<Rightarrow> bool" where
  "is_none_or x f \<longleftrightarrow> (case x of None \<Rightarrow> True | Some y \<Rightarrow> f y)"

lemma is_none_or_simps [simp]: "is_none_or None f" "is_none_or (Some y) f \<longleftrightarrow> f y"
  by (simp_all add: is_none_or_def)

definition is_some_and :: "'a option \<Rightarrow> ('a \<Rightarrow> bool) \<Rightarrow> bool" where
  "is_some_and x f \<longleftrightarrow> (case x of None \<Rightarrow> False | Some y \<Rightarrow> f y)"

lemma is_some_and_simps [simp]: "\<not> is_some_and None f" "is_some_and (Some y) f \<longleftrightarrow> f y"
  by (simp_all add: is_some_and_def)

section \<open>Machine arithmetic\<close>

text \<open>
  Rust's \<open>+\<close> and \<open><<\<close> panic on overflow when overflow checks are compiled in (debug
  builds) and wrap otherwise (release builds; a shift amount is reduced modulo the width).
  \<open>chk\<close> says which build is meant and \<open>None\<close> is the panic.
\<close>

definition add_u64 :: "bool \<Rightarrow> u64 \<Rightarrow> u64 \<Rightarrow> u64 option" where
  [rust_arith]: "add_u64 chk a b =
     (if chk \<and> unat a + unat b \<ge> 2 ^ 64 then None else Some (a + b))"

definition shl_u64 :: "bool \<Rightarrow> u64 \<Rightarrow> u64 \<Rightarrow> u64 option" where
  [rust_arith]: "shl_u64 chk a n =
     (if chk \<and> unat n \<ge> 64 then None else Some (push_bit (unat n mod 64) a))"

text \<open>\<open>i64::saturating_add\<close> and \<open>i64::MAX\<close>, on timestamps kept as integers.\<close>

definition i64_max :: int where "i64_max = 2 ^ 63 - 1"
definition i64_min :: int where "i64_min = - (2 ^ 63)"
definition i32_max :: int where "i32_max = 2 ^ 31 - 1"
definition i32_min :: int where "i32_min = - (2 ^ 31)"

definition sat_add_i64 :: "int \<Rightarrow> int \<Rightarrow> int" where
  [rust_arith]: "sat_add_i64 a b = max i64_min (min i64_max (a + b))"

definition sat_add_u32 :: "u32 \<Rightarrow> u32 \<Rightarrow> u32" where
  [rust_arith]: "sat_add_u32 a b = (if unat a + unat b < 2 ^ 32 then a + b else - 1)"

definition in_i64 :: "int \<Rightarrow> bool" where
  "in_i64 x \<longleftrightarrow> i64_min \<le> x \<and> x \<le> i64_max"

lemma unat_sat_add_u32:
  "unat (sat_add_u32 a b) = min (unat a + unat b) (2 ^ 32 - 1)"
proof (cases "unat a + unat b < 2 ^ 32")
  case True
  then show ?thesis
    by (simp add: sat_add_u32_def unat_word_ariths)
next
  case False
  have "unat (- 1 :: u32) = 2 ^ 32 - 1"
    by (simp add: unsigned_minus_1_eq_mask mask_eq_exp_minus_1)
  with False show ?thesis
    by (simp add: sat_add_u32_def)
qed

lemma unat_plus_one: "x \<noteq> - 1 \<Longrightarrow> unat (x + 1) = unat x + 1"
  using unatSuc [of x] minus_unique [of 1 x] by (auto simp: add.commute)

lemma unat_eq_wordD: "unat x = n \<Longrightarrow> x = word_of_nat n"
  by auto

section \<open>Fixed-width integers as bytes\<close>

fun le_bytes :: "nat \<Rightarrow> nat \<Rightarrow> bytes" where
  "le_bytes 0 x = []"
| "le_bytes (Suc n) x = word_of_nat x # le_bytes n (x div 256)"

fun le_nat :: "bytes \<Rightarrow> nat" where
  "le_nat [] = 0"
| "le_nat (b # bs) = unat b + 256 * le_nat bs"

lemma length_le_bytes [simp]: "length (le_bytes n x) = n"
  by (induction n arbitrary: x) auto

lemma unat_u8_of_nat: "unat (word_of_nat x :: u8) = x mod 256"
  by (simp add: unat_of_nat)

lemma le_nat_le_bytes: "le_nat (le_bytes n x) = x mod 256 ^ n"
proof (induction n arbitrary: x)
  case 0
  then show ?case by simp
next
  case (Suc n)
  then show ?case
    by (simp add: unat_u8_of_nat mod_mult2_eq)
qed

lemma le_nat_less: "le_nat bs < 256 ^ length bs"
proof (induction bs)
  case Nil
  then show ?case by simp
next
  case (Cons b bs)
  have "unat b < 256"
    using unsigned_less [of b, where 'a = nat] by simp
  with Cons show ?case by simp
qed

lemma le_bytes_le_nat [simp]: "le_bytes (length bs) (le_nat bs) = bs"
proof (induction bs)
  case Nil
  then show ?case by simp
next
  case (Cons b bs)
  have b: "unat b < 256"
    using unsigned_less [of b, where 'a = nat] by simp
  have "unat (word_of_nat (unat b + 256 * le_nat bs) :: u8) = unat b"
    by (simp only: unat_u8_of_nat) (simp add: b)
  then have "(word_of_nat (unat b + 256 * le_nat bs) :: u8) = b"
    by (simp only: word_unat_eq_iff)
  moreover have "(unat b + 256 * le_nat bs) div 256 = le_nat bs"
    using b by simp
  ultimately show ?case using Cons by simp
qed

definition be_bytes :: "nat \<Rightarrow> nat \<Rightarrow> bytes" where
  "be_bytes n x = rev (le_bytes n x)"

definition be_nat :: "bytes \<Rightarrow> nat" where
  "be_nat bs = le_nat (rev bs)"

lemma length_be_bytes [simp]: "length (be_bytes n x) = n"
  by (simp add: be_bytes_def)

lemma be_nat_be_bytes: "be_nat (be_bytes n x) = x mod 256 ^ n"
  by (simp add: be_nat_def be_bytes_def le_nat_le_bytes)

lemma be_bytes_be_nat [simp]: "be_bytes (length bs) (be_nat bs) = bs"
  by (metis be_bytes_def be_nat_def le_bytes_le_nat length_rev rev_rev_ident)

definition be16 :: "u16 \<Rightarrow> bytes" where "be16 w = be_bytes 2 (unat w)"
definition be32 :: "u32 \<Rightarrow> bytes" where "be32 w = be_bytes 4 (unat w)"
definition le16 :: "u16 \<Rightarrow> bytes" where "le16 w = le_bytes 2 (unat w)"
definition le32 :: "u32 \<Rightarrow> bytes" where "le32 w = le_bytes 4 (unat w)"
definition of_be16 :: "bytes \<Rightarrow> u16" where "of_be16 b = word_of_nat (be_nat b)"
definition of_be32 :: "bytes \<Rightarrow> u32" where "of_be32 b = word_of_nat (be_nat b)"
definition of_le16 :: "bytes \<Rightarrow> u16" where "of_le16 b = word_of_nat (le_nat b)"
definition of_le32 :: "bytes \<Rightarrow> u32" where "of_le32 b = word_of_nat (le_nat b)"

lemmas int_bytes_defs = be16_def be32_def le16_def le32_def
  of_be16_def of_be32_def of_le16_def of_le32_def

lemma length_int_bytes [simp]:
  "length (be16 a) = 2" "length (be32 b) = 4" "length (le16 a) = 2" "length (le32 b) = 4"
  by (simp_all add: int_bytes_defs)

lemma int_bytes_inverse [simp]:
  "of_be16 (be16 a) = a" "of_be32 (be32 b) = b" "of_le16 (le16 a) = a" "of_le32 (le32 b) = b"
proof -
  have a: "unat a mod 256 ^ 2 = unat a"
    using unsigned_less [of a, where 'a = nat] by simp
  have b: "unat b mod 256 ^ 4 = unat b"
    using unsigned_less [of b, where 'a = nat] by simp
  show "of_be16 (be16 a) = a" "of_be32 (be32 b) = b" "of_le16 (le16 a) = a" "of_le32 (le32 b) = b"
    by (simp_all only: int_bytes_defs be_nat_be_bytes le_nat_le_bytes a b of_nat_unat ucast_id)
qed

lemma be_nat_less: "be_nat bs < 256 ^ length bs"
  using le_nat_less [of "rev bs"] by (simp add: be_nat_def)

lemma bytes_int_inverse [simp]:
  "length a = 2 \<Longrightarrow> be16 (of_be16 a) = a" "length b = 4 \<Longrightarrow> be32 (of_be32 b) = b"
  "length a = 2 \<Longrightarrow> le16 (of_le16 a) = a" "length b = 4 \<Longrightarrow> le32 (of_le32 b) = b"
proof -
  have u: "length x = n \<Longrightarrow> be_bytes n (be_nat x mod 256 ^ n) = x"
    "length x = n \<Longrightarrow> le_bytes n (le_nat x mod 256 ^ n) = x" for x :: bytes and n
    using be_nat_less [of x] le_nat_less [of x] be_bytes_be_nat [of x] le_bytes_le_nat [of x] by auto
  show "length a = 2 \<Longrightarrow> be16 (of_be16 a) = a" "length b = 4 \<Longrightarrow> be32 (of_be32 b) = b"
    "length a = 2 \<Longrightarrow> le16 (of_le16 a) = a" "length b = 4 \<Longrightarrow> le32 (of_le32 b) = b"
    using u [of a 2] u [of b 4] by (simp_all add: int_bytes_defs unat_of_nat)
qed

text \<open>The byte order of the machine: \<open>from_ne_bytes\<close> and \<open>to_ne_bytes\<close>.\<close>

definition ne16 :: "bool \<Rightarrow> bytes \<Rightarrow> u16" where
  "ne16 le b = (if le then of_le16 b else of_be16 b)"

definition ne32 :: "bool \<Rightarrow> bytes \<Rightarrow> u32" where
  "ne32 le b = (if le then of_le32 b else of_be32 b)"

definition to_ne16 :: "bool \<Rightarrow> u16 \<Rightarrow> bytes" where
  "to_ne16 le w = (if le then le16 w else be16 w)"

definition to_ne32 :: "bool \<Rightarrow> u32 \<Rightarrow> bytes" where
  "to_ne32 le w = (if le then le32 w else be32 w)"

lemma ne_inverse [simp]: "ne16 le (to_ne16 le a) = a" "ne32 le (to_ne32 le b) = b"
  "length (to_ne16 le a) = 2" "length (to_ne32 le b) = 4"
  by (simp_all add: ne16_def ne32_def to_ne16_def to_ne32_def)

text \<open>Signed reading of the words the wire formats carry.\<close>

lemma sint_word_of_int32:
  "i32_min \<le> n \<Longrightarrow> n \<le> i32_max \<Longrightarrow> sint (word_of_int n :: u32) = n"
  by (simp add: signed_of_int signed_take_bit_int_eq_self i32_min_def i32_max_def)

lemma sint_word_of_int16:
  "- (2 ^ 15) \<le> n \<Longrightarrow> n < 2 ^ 15 \<Longrightarrow> sint (word_of_int n :: u16) = n"
  by (simp add: signed_of_int signed_take_bit_int_eq_self)

lemma sint_word_of_nat16: "n < 2 ^ 15 \<Longrightarrow> sint (word_of_nat n :: u16) = int n"
  using sint_word_of_int16 [of "int n"] by simp

lemma sint_word_of_nat32: "n < 2 ^ 31 \<Longrightarrow> sint (word_of_nat n :: u32) = int n"
  using sint_word_of_int32 [of "int n"] by (simp add: i32_min_def i32_max_def)

section \<open>Cursors\<close>

text \<open>\<open>rd_take e n s\<close>: the next \<open>n\<close> bytes, or error \<open>e\<close> when fewer remain.\<close>

definition rd_take :: "'e \<Rightarrow> nat \<Rightarrow> bytes \<Rightarrow> 'e + bytes \<times> bytes" where
  "rd_take e n s = (if length s < n then Inl e else Inr (take n s, drop n s))"

lemma rd_take_append [simp]: "length a = n \<Longrightarrow> rd_take e n (a @ s) = Inr (a, s)"
  by (simp add: rd_take_def)

lemma rd_take_InrD:
  "rd_take e n s = Inr (a, t) \<Longrightarrow> s = a @ t \<and> length a = n"
  by (auto simp: rd_take_def split: if_splits)

text \<open>\<open>rd_n dec n\<close>: a loop \<open>for _ in 0..n\<close> that pushes what \<open>dec\<close> reads.\<close>

fun rd_n :: "(bytes \<Rightarrow> 'e + 'a \<times> bytes) \<Rightarrow> nat \<Rightarrow> bytes \<Rightarrow> 'e + 'a list \<times> bytes" where
  "rd_n dec 0 s = Inr ([], s)"
| "rd_n dec (Suc n) s =
     rbind (dec s) (\<lambda>(x, s). rbind (rd_n dec n s) (\<lambda>(xs, s). Inr (x # xs, s)))"

lemma rd_n_length: "rd_n dec n s = Inr (xs, t) \<Longrightarrow> length xs = n"
proof (induction n arbitrary: s xs)
  case 0
  then show ?case by simp
next
  case (Suc n)
  then show ?case by (auto simp: rbind_eq_Inr)
qed

section \<open>The codec interface\<close>

locale codec =
  fixes enc :: "'a \<Rightarrow> bytes"
    and dec :: "bytes \<Rightarrow> 'e + 'a \<times> bytes"
    and wf :: "'a \<Rightarrow> bool"
  assumes dec_enc: "wf x \<Longrightarrow> dec (enc x @ s) = Inr (x, s)"
begin

lemma enc_prefix_free:
  assumes "wf x" "wf y" "enc x @ s = enc y @ t"
  shows "x = y \<and> s = t"
proof -
  have "dec (enc x @ s) = Inr (y, t)"
    by (simp only: assms(3) dec_enc [OF assms(2)])
  with dec_enc [OF assms(1)] show ?thesis by simp
qed

lemma rd_n_enc:
  "list_all wf xs \<Longrightarrow> rd_n dec (length xs) (concat (map enc xs) @ s) = Inr (xs, s)"
  by (induction xs) (auto simp: dec_enc)

lemma rd_n_enc':
  "list_all wf xs \<Longrightarrow> n = length xs \<Longrightarrow>
   rd_n dec n (concat (map enc xs) @ s) = Inr (xs, s)"
  by (simp add: rd_n_enc)

end

text \<open>A decoder that accepts only what the encoder writes.\<close>

locale exact_codec = codec enc dec wf
  for enc :: "'a \<Rightarrow> bytes" and dec :: "bytes \<Rightarrow> 'e + 'a \<times> bytes" and wf :: "'a \<Rightarrow> bool" +
  assumes enc_dec: "dec s = Inr (x, t) \<Longrightarrow> wf x \<and> s = enc x @ t"
begin

lemma rd_n_exact:
  "rd_n dec n s = Inr (xs, t) \<Longrightarrow> list_all wf xs \<and> length xs = n \<and> s = concat (map enc xs) @ t"
proof (induction n arbitrary: s xs)
  case (Suc n)
  then show ?case by (fastforce simp: rbind_eq_Inr dest: enc_dec)
qed simp

end

text \<open>\<open>Iterator::position\<close>, the range of an \<open>i32\<close>, and the maximum that a loop keeps.\<close>

fun position :: "('a \<Rightarrow> bool) \<Rightarrow> 'a list \<Rightarrow> nat option" where
  "position P [] = None"
| "position P (x # xs) = (if P x then Some 0 else map_option Suc (position P xs))"

definition in_i32 :: "int \<Rightarrow> bool" where
  "in_i32 x \<longleftrightarrow> i32_min \<le> x \<and> x \<le> i32_max"

lemma fold_max_ge: "k \<le> fold max ks k \<and> (\<forall>x\<in>set ks. x \<le> fold max ks k)" for k :: "'a :: linorder"
proof (induction ks arbitrary: k)
  case (Cons y ks)
  from Cons.IH [of "max y k"] show ?case by simp
qed simp

end
