(* ===== verification/Seq_State.thy ===== *)
theory Seq_State
  imports Krb_Prelude
begin

text \<open>
  The receive window of GSS-API per-message tokens, \<open>src/gssapi/seqstate.rs\<close>: the state
  \<open>SeqState\<close>, its constructor \<open>new\<close> and its one operation \<open>check\<close>. \<open>None\<close> is an
  overflow panic; the first argument of \<open>check\<close> says whether overflow checks are compiled in.
\<close>

datatype SeqStatus = Complete | Gap | Unseq | Old | Duplicate

record SeqState =
  do_replay :: bool
  do_sequence :: bool
  seqmask :: u64
  base :: u64
  next_seq :: u64
  recvmap :: u64

definition new_SeqState :: "u64 \<Rightarrow> bool \<Rightarrow> bool \<Rightarrow> bool \<Rightarrow> SeqState" where
  "new_SeqState b replay sequence wide =
     \<lparr>do_replay = replay, do_sequence = sequence,
      seqmask = (if wide then - 1 else 0xffffffff),
      base = b, next_seq = 0, recvmap = 0\<rparr>"

definition rel_seq :: "SeqState \<Rightarrow> u64 \<Rightarrow> u64" where
  "rel_seq st s = (s - base st) AND seqmask st"

definition check :: "bool \<Rightarrow> SeqState \<Rightarrow> u64 \<Rightarrow> (SeqStatus \<times> SeqState) option" where
  "check chk st s =
     (if \<not> do_replay st \<and> \<not> do_sequence st then Some (Complete, st)
      else
        let rel = rel_seq st s in
        if rel \<ge> next_seq st then
          let offset = rel - next_seq st in
          case (if offset \<ge> 64 then Some 1
                else map_option (\<lambda>m. m OR 1) (shl_u64 chk (recvmap st) (offset + 1))) of
            None \<Rightarrow> None
          | Some m \<Rightarrow>
              (case add_u64 chk rel 1 of
                 None \<Rightarrow> None
               | Some r1 \<Rightarrow>
                   Some (if offset > 0 \<and> do_sequence st then Gap else Complete,
                         st\<lparr>recvmap := m, next_seq := r1 AND seqmask st\<rparr>))
        else
          let offset = next_seq st - rel in
          if offset > 64 then Some (if do_sequence st then Unseq else Old, st)
          else
            let b = push_bit (unat (offset - 1)) 1 in
            if do_replay st \<and> recvmap st AND b \<noteq> 0 then Some (Duplicate, st)
            else Some (if do_sequence st then Unseq else Complete,
                       st\<lparr>recvmap := recvmap st OR b\<rparr>))"

fun check_all :: "bool \<Rightarrow> SeqState \<Rightarrow> u64 list \<Rightarrow> (SeqStatus list \<times> SeqState) option" where
  "check_all chk st [] = Some ([], st)"
| "check_all chk st (s # ss) =
     (case check chk st s of
        None \<Rightarrow> None
      | Some (r, st') \<Rightarrow>
          (case check_all chk st' ss of
             None \<Rightarrow> None
           | Some (rs, st'') \<Rightarrow> Some (r # rs, st'')))"

section \<open>The window represents the history\<close>

text \<open>
  \<open>window_of H st\<close>: \<open>H\<close> is the set of relative numbers received so far, the
  next expected number is above all of them, and bit \<open>i\<close> of the map says whether the number
  \<open>i + 1\<close> below the next one has been received.
\<close>

definition window_of :: "nat set \<Rightarrow> SeqState \<Rightarrow> bool" where
  "window_of H st \<longleftrightarrow>
     (\<forall>n \<in> H. n < unat (next_seq st)) \<and>
     (\<forall>i < 64. bit (recvmap st) i \<longleftrightarrow>
        (i < unat (next_seq st) \<and> unat (next_seq st) - 1 - i \<in> H))"

lemma window_of_new: "window_of {} (new_SeqState b r q w)"
  by (simp add: window_of_def new_SeqState_def)


text \<open>The sequence-number mask is one of the two the constructor writes.\<close>

definition wf_seq :: "SeqState \<Rightarrow> bool" where
  "wf_seq st \<longleftrightarrow> seqmask st = - 1 \<or> seqmask st = 0xffffffff"

lemma wf_seq_new: "wf_seq (new_SeqState b r q w)"
  by (simp add: wf_seq_def new_SeqState_def)

text \<open>What \<open>check\<close> is meant to do, over the set of relative numbers received so far.\<close>

definition seq_spec :: "bool \<Rightarrow> bool \<Rightarrow> nat set \<Rightarrow> nat \<Rightarrow> nat \<Rightarrow> SeqStatus" where
  "seq_spec replay sequence H nxt rel =
     (if rel \<ge> nxt then (if rel > nxt \<and> sequence then Gap else Complete)
      else if nxt - rel > 64 then (if sequence then Unseq else Old)
      else if replay \<and> rel \<in> H then Duplicate
      else if sequence then Unseq else Complete)"

lemma and_mask_succ:
  assumes "seqmask st = - 1 \<or> seqmask st = 0xffffffff"
    and "rel_seq st s \<noteq> seqmask st"
  shows "unat ((rel_seq st s + 1) AND seqmask st) = unat (rel_seq st s) + 1"
proof -
  let ?r = "rel_seq st s"
  have suc: "unat (?r + 1) = unat ?r + 1" if "?r \<noteq> - 1"
    using that by (rule unat_plus_one)
  show ?thesis
  proof (cases "seqmask st = - 1")
    case True
    with assms(2) suc show ?thesis by simp
  next
    case False
    with assms(1) have m: "seqmask st = mask 32" by (simp add: mask_eq_exp_minus_1)
    then have r: "?r = take_bit 32 (s - base st)" 
      by (simp add: rel_seq_def take_bit_eq_mask)
    have u: "unat ?r < 2 ^ 32"
      by (simp only: r unsigned_take_bit_eq take_bit_nat_less_exp)
    have "unat ?r \<noteq> 2 ^ 32 - 1"
    proof
      assume "unat ?r = 2 ^ 32 - 1"
      then have "?r = word_of_nat (2 ^ 32 - 1)" by (rule unat_eq_wordD)
      then show False using assms(2) m by (simp add: mask_eq_exp_minus_1)
    qed
    with u have u1: "unat ?r + 1 < 2 ^ 32" by simp
    then have "?r \<noteq> - 1" by (auto simp: unsigned_minus_1_eq_mask mask_eq_exp_minus_1)
    with suc have v: "unat (?r + 1) = unat ?r + 1" by simp
    have "unat ((?r + 1) AND mask 32) = (unat ?r + 1) mod 2 ^ 32"
      by (simp only: take_bit_eq_mask [symmetric] unsigned_take_bit_eq v) (simp add: take_bit_eq_mod)
    with u1 m show ?thesis by simp
  qed
qed


text \<open>The three ways a received number moves the window.\<close>

lemma window_jump:
  assumes "window_of H st" "64 \<le> rel - unat (next_seq st)"
    and "unat nxt = rel + 1"
  shows "window_of (insert rel H) (st\<lparr>recvmap := 1, next_seq := nxt\<rparr>)"
  using assms by (auto simp: window_of_def bit_simps)

lemma window_shift:
  assumes w: "window_of H st" and le: "unat (next_seq st) \<le> rel"
    and k: "k = rel - unat (next_seq st) + 1"
    and nxt: "unat nxt = rel + 1"
  shows "window_of (insert rel H) (st\<lparr>recvmap := push_bit k (recvmap st) OR 1, next_seq := nxt\<rparr>)"
proof -
  have H: "n < unat (next_seq st)" if "n \<in> H" for n
    using w that by (auto simp: window_of_def)
  have "bit (push_bit k (recvmap st) OR 1) i \<longleftrightarrow> i < rel + 1 \<and> rel - i \<in> insert rel H" if "i < 64" for i
  proof (cases "k \<le> i")
    case True
    moreover have "0 < k" using k by simp
    ultimately have "bit (push_bit k (recvmap st) OR 1) i \<longleftrightarrow> bit (recvmap st) (i - k)"
      using that by (auto simp: bit_simps)
    also have "\<dots> \<longleftrightarrow> i - k < unat (next_seq st) \<and> unat (next_seq st) - 1 - (i - k) \<in> H"
      using w that by (simp add: window_of_def)
    also have "\<dots> \<longleftrightarrow> i < rel + 1 \<and> rel - i \<in> H"
      using True le k by (auto simp: algebra_simps)
    finally show ?thesis using True le k by auto
  next
    case False
    then have "rel - i \<notin> H" using H le k by fastforce
    moreover have "bit (push_bit k (recvmap st) OR 1) i \<longleftrightarrow> i = 0"
      using False that by (auto simp: bit_simps)
    moreover have "i < rel + 1" using False k by linarith
    ultimately show ?thesis by auto
  qed
  with H nxt le show ?thesis by (fastforce simp: window_of_def)
qed

lemma window_mark:
  assumes w: "window_of H st" and lt: "rel < unat (next_seq st)"
    and k: "k = unat (next_seq st) - rel - 1" "k < 64"
  shows "window_of (insert rel H) (st\<lparr>recvmap := recvmap st OR push_bit k 1\<rparr>)"
  using assms by (auto simp: window_of_def bit_simps)

lemma window_old:
  assumes "window_of H st" "unat (next_seq st) - rel > 64"
  shows "window_of (insert rel H) st"
  using assms by (auto simp: window_of_def)

lemma window_bit:
  assumes w: "window_of H st" and lt: "rel < unat (next_seq st)"
    and k: "k = unat (next_seq st) - rel - 1" "k < 64"
  shows "recvmap st AND push_bit k 1 \<noteq> 0 \<longleftrightarrow> rel \<in> H"
proof -
  have "recvmap st AND push_bit k 1 \<noteq> 0 \<longleftrightarrow> bit (recvmap st) k"
    using k(2) by (auto simp: bit_iff_and_push_bit_not_eq_0)
  also have "\<dots> \<longleftrightarrow> rel \<in> H"
    using assms by (auto simp: window_of_def)
  finally show ?thesis .
qed


lemma check_refines_spec:
  assumes w: "window_of H st" and wf: "wf_seq st"
    and act: "do_replay st \<or> do_sequence st"
    and nw: "rel_seq st s \<noteq> seqmask st"
    and off: "chk \<or> rel_seq st s - next_seq st \<noteq> 63"
    and c: "check chk st s = Some (r, st')"
  shows "r = seq_spec (do_replay st) (do_sequence st) H (unat (next_seq st)) (unat (rel_seq st s)) \<and>
    window_of (insert (unat (rel_seq st s)) H) st' \<and>
    do_replay st' = do_replay st \<and> do_sequence st' = do_sequence st \<and>
    seqmask st' = seqmask st \<and> base st' = base st"
proof (cases "rel_seq st s \<ge> next_seq st")
  case True
  let ?rel = "rel_seq st s" and ?off = "rel_seq st s - next_seq st"
  have off_nat: "unat ?off = unat ?rel - unat (next_seq st)"
    using True by (simp add: unat_sub)
  have le: "unat (next_seq st) \<le> unat ?rel"
    using True by (simp add: word_le_nat_alt)
  have nxt: "unat ((?rel + 1) AND seqmask st) = unat ?rel + 1"
    using wf nw by (intro and_mask_succ) (auto simp: wf_seq_def)
  have r: "r = (if ?off > 0 \<and> do_sequence st then Gap else Complete)"
    using c act True by (auto simp: check_def Let_def add_u64_def split: option.splits if_splits)
  have r': "r = seq_spec (do_replay st) (do_sequence st) H (unat (next_seq st)) (unat ?rel)"
    using r le off_nat by (auto simp: seq_spec_def word_less_nat_alt)
  show ?thesis
  proof (cases "?off \<ge> 64")
    case far: True
    then have "64 \<le> unat ?rel - unat (next_seq st)"
      using off_nat by (simp add: word_le_nat_alt)
    from window_jump [OF w this nxt] show ?thesis
      using c act True far r' by (auto simp: check_def Let_def add_u64_def split: if_splits)
  next
    case near: False
    then have lt: "unat ?off < 64" by (simp add: word_less_nat_alt not_le)
    have k1: "unat (?off + 1) = unat ?off + 1"
      by (rule unat_plus_one) (use lt in \<open>auto simp: unsigned_minus_1_eq_mask mask_eq_exp_minus_1\<close>)
    have "unat ?off \<noteq> 63"
    proof
      assume u: "unat ?off = 63"
      then have "?off = 63" using unat_eq_wordD [OF u] by simp
      with off c act True near show False
        by (auto simp: check_def Let_def shl_u64_def)
    qed
    with lt k1 have "unat (?off + 1) < 64" by simp
    then have k: "unat (?off + 1) mod 64 = unat ?rel - unat (next_seq st) + 1"
      using k1 off_nat by simp
    from window_shift [OF w le k nxt] show ?thesis
      using c act True near r'
      by (auto simp: check_def Let_def add_u64_def shl_u64_def split: if_splits)
  qed
next
  case False
  let ?rel = "rel_seq st s" and ?off = "next_seq st - rel_seq st s"
  have lt: "unat ?rel < unat (next_seq st)"
    using False by (simp add: word_less_nat_alt not_le)
  have off_nat: "unat ?off = unat (next_seq st) - unat ?rel"
    using False by (simp add: unat_sub)
  show ?thesis
  proof (cases "?off > 64")
    case True
    then have "unat (next_seq st) - unat ?rel > 64"
      using off_nat by (simp add: word_less_nat_alt)
    with window_old [OF w this] show ?thesis
      using c act False True lt by (auto simp: check_def Let_def seq_spec_def)
  next
    case near: False
    then have n64: "\<not> unat (next_seq st) - unat ?rel > 64"
      using off_nat by (simp add: word_less_nat_alt)
    have "unat (?off - 1) = unat ?off - 1"
      using lt off_nat by (intro unat_minus_one) auto
    then have k: "unat (?off - 1) = unat (next_seq st) - unat ?rel - 1"
      and k64: "unat (?off - 1) < 64"
      using off_nat n64 lt by simp_all
    show ?thesis
      using c act False near lt n64 window_mark [OF w lt k k64] window_bit [OF w lt k k64]
        insert_absorb [of "unat ?rel" H] w
      by (auto simp: check_def Let_def seq_spec_def split: if_splits)
  qed
qed


section \<open>Replay protection over a run\<close>

lemma seq_spec_seen:
  assumes "window_of H st" "n \<in> H" "do_replay st"
  shows "seq_spec (do_replay st) q H (unat (next_seq st)) n \<notin> {Complete, Gap}"
  using assms by (auto simp: seq_spec_def window_of_def)

lemma check_all_seen:
  assumes "window_of H st" "wf_seq st" "do_replay st"
    and "check_all True st ss = Some (rs, st')"
    and "\<forall>s \<in> set ss. rel_seq st s \<noteq> seqmask st"
    and "j < length ss"
    and "unat (rel_seq st (ss ! j)) \<in> H \<union> (\<lambda>i. unat (rel_seq st (ss ! i))) ` {..<j}"
  shows "rs ! j \<notin> {Complete, Gap}"
  using assms
proof (induction ss arbitrary: H st rs j)
  case Nil
  then show ?case by simp
next
  case (Cons s ss)
  from Cons.prems(4) obtain r st1 rs1 where c: "check True st s = Some (r, st1)"
    and ca: "check_all True st1 ss = Some (rs1, st')" and rs: "rs = r # rs1"
    by (auto split: option.splits)
  let ?n = "unat (rel_seq st s)"
  have nw: "rel_seq st s \<noteq> seqmask st" using Cons.prems(5) by simp
  have act: "do_replay st \<or> do_sequence st" using Cons.prems(3) by simp
  have off: "True \<or> rel_seq st s - next_seq st \<noteq> 63" by simp
  note step = check_refines_spec [OF Cons.prems(1,2) act nw off c]
  have rel: "rel_seq st1 = rel_seq st"
    using step by (simp add: rel_seq_def fun_eq_iff)
  show ?case
  proof (cases j)
    case 0
    then have "?n \<in> H" using Cons.prems(7) by simp
    with seq_spec_seen [OF Cons.prems(1) this Cons.prems(3)] step rs 0 show ?thesis by simp
  next
    case (Suc j')
    have "rs1 ! j' \<notin> {Complete, Gap}"
    proof (rule Cons.IH [OF _ _ _ ca])
      show "window_of (insert ?n H) st1" using step by simp
      show "wf_seq st1" using step Cons.prems(2) by (simp add: wf_seq_def)
      show "do_replay st1" using step Cons.prems(3) by simp
      show "\<forall>s\<in>set ss. rel_seq st1 s \<noteq> seqmask st1" using Cons.prems(5) step rel by simp
      show "j' < length ss" using Cons.prems(6) Suc by simp
      show "unat (rel_seq st1 (ss ! j')) \<in> insert ?n H \<union> (\<lambda>i. unat (rel_seq st1 (ss ! i))) ` {..<j'}"
        using Cons.prems(7) Suc by (auto simp: rel lessThan_Suc_eq_insert_0)
    qed
    with Suc rs show ?thesis by simp
  qed
qed

section \<open>Properties\<close>






text \<open>
  when \<open>check\<close> panics with overflow checks compiled in: exactly when the number is 63
  ahead of the next expected one (a shift by the word size) or is the last 64-bit number.
\<close>

theorem check_panics_iff:
  "check True st s = None \<longleftrightarrow>
     (do_replay st \<or> do_sequence st) \<and> rel_seq st s \<ge> next_seq st \<and>
     (rel_seq st s - next_seq st = 63 \<or> rel_seq st s = - 1)"
proof -
  let ?off = "rel_seq st s - next_seq st"
  have shl: "shl_u64 True (recvmap st) (?off + 1) = None \<longleftrightarrow> ?off = 63" if "\<not> 64 \<le> ?off"
  proof -
    have lt: "unat ?off < 64" using that by (simp add: word_le_nat_alt)
    have "unat (?off + 1) = unat ?off + 1"
      by (rule unat_plus_one) (use lt in \<open>auto simp: unsigned_minus_1_eq_mask mask_eq_exp_minus_1\<close>)
    with lt have "shl_u64 True (recvmap st) (?off + 1) = None \<longleftrightarrow> unat ?off = 63"
      by (auto simp: shl_u64_def)
    also have "\<dots> \<longleftrightarrow> ?off = 63"
      by (auto dest: unat_eq_wordD)
    finally show ?thesis .
  qed
  have add: "add_u64 True x 1 = None \<longleftrightarrow> x = - 1" for x
  proof (cases "x = - 1")
    case True
    then show ?thesis by (simp add: add_u64_def unsigned_minus_1_eq_mask mask_eq_exp_minus_1)
  next
    case False
    then have "unat x + 1 < 2 ^ 64"
      using unat_plus_one [OF False] unsigned_less [of "x + 1", where 'a = nat] by simp
    with False show ?thesis by (simp add: add_u64_def)
  qed
  have add': "(case add_u64 True x 1 of None \<Rightarrow> None | Some y \<Rightarrow> Some (f y)) = None \<longleftrightarrow> x = - 1"
    for x and f :: "u64 \<Rightarrow> SeqStatus \<times> SeqState"
    using add [of x] by (cases "add_u64 True x 1") auto
  show ?thesis
  proof (cases "64 \<le> ?off")
    case True
    then have "?off \<noteq> 63" by (auto simp: word_le_nat_alt)
    with True show ?thesis by (simp add: check_def Let_def add')
  next
    case False
    from shl [OF False] show ?thesis
      by (cases "shl_u64 True (recvmap st) (?off + 1)") (simp_all add: check_def Let_def add' False)
  qed
qed

text \<open>
  without overflow checks the same shift is by zero, so the old bits stay in the map at
  the wrong place: after 0, 1 and 65 the number 64, which was never received, is reported as
  a duplicate. The guard of the source is \<open>offset >= 64\<close>, the shift is by \<open>offset + 1\<close>.
\<close>

theorem check_release_false_duplicate:
  "\<exists>st'. check_all False (new_SeqState 0 True False True) [0, 1, 65, 64]
     = Some ([Complete, Complete, Complete, Duplicate], st')"
  by (simp add: check_def rel_seq_def new_SeqState_def Let_def shl_u64_def add_u64_def
      word_le_nat_alt word_less_nat_alt)

end
