(* ===== verification/Nfold.thy ===== *)
theory Nfold
  imports Krb_Prelude
begin

text \<open>
  The RFC 3961 n-fold of \<open>src/crypto/nfold.rs\<close>: bit rotation, the sum of the rotated copies
  and the end-around carry loop. \<open>None\<close> is the panic on an empty input (division by zero) or
  an output length of zero (a zero step).
\<close>

section \<open>Model\<close>

fun gcd_loop :: "nat \<Rightarrow> nat \<Rightarrow> nat" where
  "gcd_loop a b = (if b = 0 then a else gcd_loop b (a mod b))"

declare gcd_loop.simps [simp del]

definition lcm_usize :: "nat \<Rightarrow> nat \<Rightarrow> nat" where
  "lcm_usize a b = a div gcd_loop a b * b"

definition rotate_right_bits :: "bytes \<Rightarrow> nat \<Rightarrow> bytes" where
  "rotate_right_bits data nbits =
     (let len = length data in
      if len = 0 then []
      else
        let byte_shift = (nbits div 8) mod len; bit_shift = nbits mod 8 in
        map (\<lambda>i.
          let idx_a = (i + len - byte_shift) mod len;
              idx_b = (i + len - byte_shift + len - 1) mod len;
              v = drop_bit bit_shift (ucast (data ! idx_a) :: u16)
                  OR push_bit (8 - bit_shift) (ucast (data ! idx_b) :: u16)
          in ucast v)
        [0..<len])"

text \<open>\<open>carry_step\<close> is one pass of the carry loop, \<open>carry_loop\<close> the loop.\<close>

definition carry_step :: "u16 list \<Rightarrow> u16 list" where
  "carry_step r =
     map (\<lambda>i. drop_bit 8 (r ! ((i + 1) mod length r)) + (r ! i AND 0xff)) [0..<length r]"

lemma length_carry_step [simp]: "length (carry_step r) = length r"
  by (simp add: carry_step_def)

abbreviation digit_sum :: "u16 list \<Rightarrow> nat" where
  "digit_sum r \<equiv> (\<Sum>i<length r. unat (r ! i))"

lemma unat_carry_digit:
  "unat (drop_bit 8 (x::u16) + (y AND 0xff)) = unat x div 256 + unat y mod 256"
proof -
  have m: "(0xff :: u16) = mask 8" by (simp add: mask_eq_exp_minus_1)
  have a: "unat (drop_bit 8 x) = unat x div 256"
    by (simp only: unat_drop_bit_eq) (simp add: drop_bit_eq_div)
  have b: "unat (y AND 0xff) = unat y mod 256"
    by (simp only: m take_bit_eq_mask [symmetric] unsigned_take_bit_eq) (simp add: take_bit_eq_mod)
  have "unat x < 65536" using unsigned_less [of x, where 'a = nat] by simp
  then have "unat x div 256 < 256" by simp
  then have "unat (drop_bit 8 x) + unat (y AND 0xff) < 2 ^ 16" unfolding a b by simp
  then show ?thesis by (simp add: unat_word_ariths a b)
qed

lemma sum_shift_mod:
  fixes f :: "nat \<Rightarrow> nat"
  assumes "0 < n"
  shows "(\<Sum>i<n. f ((i + 1) mod n)) = (\<Sum>i<n. f i)"
proof -
  obtain k where n: "n = Suc k" using assms by (cases n) auto
  have "(\<Sum>i<Suc k. f ((i + 1) mod n)) = (\<Sum>i<k. f ((i + 1) mod n)) + f ((k + 1) mod n)"
    by simp
  also have "\<dots> = (\<Sum>i<k. f (Suc i)) + f 0"
    by (simp add: n)
  also have "\<dots> = (\<Sum>i<Suc k. f i)"
    by (subst sum.lessThan_Suc_shift) simp
  finally show ?thesis by (simp add: n)
qed

lemma carry_step_sum:
  "digit_sum (carry_step r) + 255 * (\<Sum>i<length r. unat (r ! i) div 256) = digit_sum r"
proof (cases "r = []")
  case True
  then show ?thesis by (simp add: carry_step_def)
next
  case False
  have "digit_sum (carry_step r)
      = (\<Sum>i<length r. unat (r ! ((i + 1) mod length r)) div 256 + unat (r ! i) mod 256)"
    by (simp add: carry_step_def unat_carry_digit)
  also have "\<dots> = (\<Sum>i<length r. unat (r ! i) div 256) + (\<Sum>i<length r. unat (r ! i) mod 256)"
    using sum_shift_mod [of "length r" "\<lambda>i. unat (r ! i) div 256"] False
    by (simp add: sum.distrib)
  finally have a: "digit_sum (carry_step r)
      = (\<Sum>i<length r. unat (r ! i) div 256) + (\<Sum>i<length r. unat (r ! i) mod 256)" .
  have "digit_sum r = (\<Sum>i<length r. unat (r ! i) mod 256 + 256 * (unat (r ! i) div 256))"
    by (simp only: mod_mult_div_eq)
  also have "\<dots> = (\<Sum>i<length r. unat (r ! i) mod 256) + 256 * (\<Sum>i<length r. unat (r ! i) div 256)"
    by (simp only: sum.distrib sum_distrib_left)
  finally show ?thesis using a by linarith
qed

lemma carry_step_decreases:
  assumes "\<exists>x \<in> set r. x > 0xff"
  shows "digit_sum (carry_step r) < digit_sum r"
proof -
  from assms obtain i where i: "i < length r" "r ! i > 0xff" by (auto simp: in_set_conv_nth)
  then have "0 < unat (r ! i) div 256" by (simp add: word_less_nat_alt)
  with i have "0 < (\<Sum>i<length r. unat (r ! i) div 256)"
    by (intro sum_pos2 [of _ i]) auto
  with carry_step_sum [of r] show ?thesis by linarith
qed

function carry_loop :: "u16 list \<Rightarrow> u16 list" where
  "carry_loop r = (if (\<exists>x \<in> set r. x > 0xff) then carry_loop (carry_step r) else r)"
  by pat_completeness auto
termination
  by (relation "measure (\<lambda>r. digit_sum r)") (use carry_step_decreases in auto)

declare carry_loop.simps [simp del]

definition nfold_series :: "bytes \<Rightarrow> nat \<Rightarrow> bytes" where
  "nfold_series input copies =
     concat (map (\<lambda>i. rotate_right_bits input (13 * i)) [0..<copies])"

definition add_chunk :: "nat \<Rightarrow> bytes \<Rightarrow> nat \<Rightarrow> u16 list \<Rightarrow> u16 list" where
  "add_chunk out_len series start r =
     map (\<lambda>j. r ! j + ucast (series ! (start + j))) [0..<out_len]"

definition step_by :: "nat \<Rightarrow> nat \<Rightarrow> nat list" where
  "step_by n k = map (\<lambda>i. i * k) [0..<(n + k - 1) div k]"

definition nfold :: "bytes \<Rightarrow> nat \<Rightarrow> bytes option" where
  "nfold input out_len =
     (if length input = 0 \<or> out_len = 0 then None
      else
        let copies = lcm_usize (length input) out_len div length input;
            series = nfold_series input copies;
            result = fold (add_chunk out_len series) (step_by (length series) out_len)
                       (replicate out_len 0)
        in Some (map ucast (carry_loop result)))"

section \<open>Value of a digit list\<close>

definition digits_val :: "u16 list \<Rightarrow> nat" where
  "digits_val r = (\<Sum>i<length r. unat (r ! i) * 256 ^ (length r - 1 - i))"

lemma digit_split: "x = 256 * h + l \<Longrightarrow> q = 256 * p \<Longrightarrow> x * p = h * q + l * p" for x :: nat
  by (simp add: algebra_simps)

lemma carry_step_val:
  assumes "r \<noteq> []"
  shows "\<exists>q. digits_val r = digits_val (carry_step r) + q * (256 ^ length r - 1)"
proof -
  let ?n = "length r" and ?hi = "\<lambda>i. unat (r ! i) div 256" and ?lo = "\<lambda>i. unat (r ! i) mod 256"
  obtain k where n: "?n = Suc k" using assms by (cases r) auto
  have cs: "digits_val (carry_step r)
      = (\<Sum>i<?n. ?hi ((i + 1) mod ?n) * 256 ^ (?n - 1 - i)) + (\<Sum>i<?n. ?lo i * 256 ^ (?n - 1 - i))"
    by (simp add: digits_val_def carry_step_def unat_carry_digit sum.distrib [symmetric] add_mult_distrib)
  have "(\<Sum>i<Suc k. ?hi ((i + 1) mod ?n) * 256 ^ (?n - 1 - i))
      = (\<Sum>i<k. ?hi (Suc i) * 256 ^ (k - i)) + ?hi 0"
    by (simp add: n)
  moreover have "(\<Sum>i<Suc k. ?hi i * 256 ^ (?n - i)) = ?hi 0 * 256 ^ ?n + (\<Sum>i<k. ?hi (Suc i) * 256 ^ (k - i))"
    by (subst sum.lessThan_Suc_shift) (simp add: n)
  moreover have "digits_val r
      = (\<Sum>i<?n. ?hi i * 256 ^ (?n - i)) + (\<Sum>i<?n. ?lo i * 256 ^ (?n - 1 - i))"
  proof -
    have "unat (r ! i) * 256 ^ (?n - 1 - i) = ?hi i * 256 ^ (?n - i) + ?lo i * 256 ^ (?n - 1 - i)"
      if "i < ?n" for i
    proof -
      have "?n - i = Suc (?n - 1 - i)" using that by simp
      then have "(256::nat) ^ (?n - i) = 256 * 256 ^ (?n - 1 - i)" by simp
      moreover have "unat (r ! i) = 256 * ?hi i + ?lo i" by simp
      ultimately show ?thesis by (rule digit_split [rotated])
    qed
    then show ?thesis by (simp add: digits_val_def sum.distrib [symmetric])
  qed
  moreover have "?hi 0 * 256 ^ ?n = ?hi 0 * (256 ^ ?n - 1) + ?hi 0"
    by (simp add: diff_mult_distrib2)
  ultimately have "digits_val r = digits_val (carry_step r) + ?hi 0 * (256 ^ ?n - 1)"
    using cs n by simp
  then show ?thesis by blast
qed


lemma carry_loop_props:
  "length (carry_loop r) = length r \<and> (\<forall>x \<in> set (carry_loop r). x \<le> 0xff) \<and>
   digits_val (carry_loop r) mod (256 ^ length r - 1) = digits_val r mod (256 ^ length r - 1)"
proof (induction r rule: carry_loop.induct)
  case (1 r)
  show ?case
  proof (cases "\<exists>x \<in> set r. x > 0xff")
    case True
    then have "r \<noteq> []" by auto
    then obtain q where "digits_val r = digits_val (carry_step r) + q * (256 ^ length r - 1)"
      using carry_step_val by blast
    then have "digits_val r mod (256 ^ length r - 1) = digits_val (carry_step r) mod (256 ^ length r - 1)"
      by simp
    with "1" [OF True] True show ?thesis by (simp add: carry_loop.simps [of r])
  next
    case False
    then show ?thesis by (auto simp: carry_loop.simps [of r] not_less)
  qed
qed

lemma le_nat_snoc: "le_nat (bs @ [b]) = le_nat bs + unat b * 256 ^ length bs"
  by (induction bs) (auto simp: algebra_simps)

lemma be_nat_sum: "be_nat bs = (\<Sum>i<length bs. unat (bs ! i) * 256 ^ (length bs - 1 - i))"
proof (induction bs)
  case Nil
  then show ?case by (simp add: be_nat_def)
next
  case (Cons b bs)
  have "be_nat (b # bs) = be_nat bs + unat b * 256 ^ length bs"
    by (simp add: be_nat_def le_nat_snoc)
  with Cons show ?case by (simp add: sum.lessThan_Suc_shift del: sum.lessThan_Suc)
qed

lemma digits_val_bytes:
  assumes "\<forall>x \<in> set r. x \<le> 0xff"
  shows "be_nat (map ucast r) = digits_val r"
proof -
  have "unat (ucast x :: u8) = unat x" if "x \<in> set r" for x
  proof -
    have "unat x < 256" using assms that by (auto simp: word_le_nat_alt)
    then show ?thesis by (simp add: unsigned_ucast_eq take_bit_nat_eq_self)
  qed
  then show ?thesis by (simp add: be_nat_sum digits_val_def)
qed

definition chunk_val :: "nat \<Rightarrow> bytes \<Rightarrow> nat \<Rightarrow> nat" where
  "chunk_val n series start = be_nat (take n (drop start series))"

lemma fold_add_chunk:
  assumes "length r = n" "\<forall>j<n. unat (r ! j) + 255 * length ss < 65536"
    and "\<forall>s \<in> set ss. s + n \<le> length series"
  shows "length (fold (add_chunk n series) ss r) = n \<and>
    digits_val (fold (add_chunk n series) ss r) = digits_val r + (\<Sum>s\<leftarrow>ss. chunk_val n series s)"
  using assms
proof (induction ss arbitrary: r)
  case Nil
  then show ?case by simp
next
  case (Cons s ss)
  let ?r = "add_chunk n series s r"
  have d: "unat (?r ! j) = unat (r ! j) + unat (series ! (s + j))" if "j < n" for j
  proof -
    have "unat (series ! (s + j)) < 256"
      using unsigned_less [of "series ! (s + j)", where 'a = nat] by simp
    then show ?thesis using that Cons.prems(2)
      by (auto simp: add_chunk_def unat_word_ariths unsigned_ucast_eq take_bit_nat_eq_self)
  qed
  have len: "length ?r = n" by (simp add: add_chunk_def)
  have "digits_val ?r = digits_val r + (\<Sum>j<n. unat (series ! (s + j)) * 256 ^ (n - 1 - j))"
    using Cons.prems(1) by (simp add: digits_val_def len d add_mult_distrib sum.distrib)
  also have "(\<Sum>j<n. unat (series ! (s + j)) * 256 ^ (n - 1 - j)) = chunk_val n series s"
  proof -
    have l: "length (take n (drop s series)) = n" using Cons.prems(3) by (auto simp: min_def)
    show ?thesis unfolding chunk_val_def be_nat_sum l using Cons.prems(3) by simp
  qed
  finally have v: "digits_val ?r = digits_val r + chunk_val n series s" .
  have "\<forall>j<n. unat (?r ! j) + 255 * length ss < 65536"
  proof (intro allI impI)
    fix j assume j: "j < n"
    have "unat (series ! (s + j)) \<le> 255"
      using unsigned_less [of "series ! (s + j)", where 'a = nat] by simp
    with d [OF j] Cons.prems(2) j show "unat (?r ! j) + 255 * length ss < 65536" by fastforce
  qed
  with Cons.IH [OF len this] Cons.prems(3) v show ?case by simp
qed


section \<open>Shape of the series\<close>

lemma gcd_loop_gcd: "gcd_loop a b = gcd a b"
proof (induction a b rule: gcd_loop.induct)
  case (1 a b)
  then show ?case
    by (cases "b = 0") (simp_all add: gcd_loop.simps [of a b] gcd_loop.simps [of a 0] gcd_red_nat [of a b])
qed

lemma length_rotate_right_bits [simp]: "length (rotate_right_bits d n) = length d"
  by (simp add: rotate_right_bits_def Let_def)

lemma length_nfold_series [simp]: "length (nfold_series d c) = c * length d"
  by (induction c) (auto simp: nfold_series_def)

lemma length_series_lcm:
  assumes "a \<noteq> 0"
  shows "lcm_usize a b div a * a = a div gcd a b * b"
proof -
  have "a dvd a div gcd a b * b"
    by (metis div_mult_swap dvd_triv_left gcd_dvd1 gcd_dvd2 mult.commute)
  then show ?thesis by (simp add: lcm_usize_def gcd_loop_gcd)
qed

lemma step_by_multiple: "0 < k \<Longrightarrow> step_by (m * k) k = map (\<lambda>i. i * k) [0..<m]"
proof -
  assume k: "0 < k"
  have "(m * k + k - 1) div k = m + (k - 1) div k"
    using k div_mult_self3 [of k m "k - 1"] by (simp add: mult.commute)
  with k show ?thesis by (simp add: step_by_def)
qed

lemma nfold_sum:
  assumes "nfold input n = Some out" "length input \<le> 257"
    and S: "S = nfold_series input (lcm_usize (length input) n div length input)"
  shows "length out = n \<and>
    be_nat out mod (256 ^ n - 1) = (\<Sum>s\<leftarrow>step_by (length S) n. chunk_val n S s) mod (256 ^ n - 1)"
proof -
  let ?a = "length input" and ?m = "length input div gcd (length input) n"
  from assms have a: "?a \<noteq> 0" and n: "0 < n" by (auto simp: nfold_def split: if_splits)
  have lenS: "length S = ?m * n" using length_series_lcm [OF a, of n] by (simp add: S)
  have m: "?m \<le> 257" using assms(2) div_le_dividend [of ?a "gcd ?a n"] by linarith
  let ?ss = "step_by (length S) n" and ?r = "replicate n (0 :: u16)"
  have ss: "?ss = map (\<lambda>i. i * n) [0..<?m]" by (simp add: lenS step_by_multiple [OF n])
  have "\<forall>s \<in> set ?ss. s + n \<le> length S"
  proof
    fix s assume "s \<in> set ?ss"
    then obtain i where i: "i < ?m" "s = i * n" unfolding ss by auto
    then have "Suc i * n \<le> ?m * n" by (intro mult_le_mono1) simp
    then show "s + n \<le> length S" by (simp add: i lenS add.commute)
  qed
  moreover have "\<forall>j<n. unat (?r ! j) + 255 * length ?ss < 65536" using m by (simp add: ss)
  ultimately have f: "length (fold (add_chunk n S) ?ss ?r) = n"
    "digits_val (fold (add_chunk n S) ?ss ?r) = digits_val ?r + (\<Sum>s\<leftarrow>?ss. chunk_val n S s)"
    using fold_add_chunk [of ?r n ?ss S] by simp_all
  have z: "digits_val ?r = 0" by (simp add: digits_val_def)
  have out: "out = map ucast (carry_loop (fold (add_chunk n S) ?ss ?r))"
    using assms a n by (simp add: nfold_def Let_def)
  show ?thesis
    using carry_loop_props [of "fold (add_chunk n S) ?ss ?r"] f z
    by (simp add: out digits_val_bytes)
qed


section \<open>Rotation moves bits\<close>

text \<open>Bit \<open>j\<close> of a byte string, counted from the most significant bit of the first byte.\<close>

definition bit_at :: "bytes \<Rightarrow> nat \<Rightarrow> bool" where
  "bit_at d j = bit (d ! (j div 8)) (7 - j mod 8)"

lemma bit_at_split: "c < 8 \<Longrightarrow> bit_at d (8 * b + c) = bit (d ! b) (7 - c)"
  by (simp add: bit_at_def)

lemma cyclic_index:
  assumes "0 < (L::nat)" "int a = X mod int L" "0 \<le> c" "c < 8"
  shows "8 * int a + c = (8 * X + c) mod (8 * int L)"
proof -
  have a: "0 \<le> int a" "int a < int L" using assms(1,2) by (simp_all)
  have "X = int a + int L * (X div int L)" using assms(2) by simp
  then have "8 * X + c = (8 * int a + c) + (8 * int L) * (X div int L)" by linarith
  then have "(8 * X + c) mod (8 * int L) = (8 * int a + c) mod (8 * int L)"
    by (simp only: mod_mult_self2)
  also have "\<dots> = 8 * int a + c"
    using a assms(3,4) by (intro mod_pos_pos_trivial) auto
  finally show ?thesis by simp
qed

lemma bit_rotated_byte:
  assumes "s < 8" "m < 8"
  shows "bit (ucast (drop_bit s (ucast (x::u8) :: u16) OR push_bit (8 - s) (ucast (y::u8))) :: u8) m
    \<longleftrightarrow> (if m + s < 8 then bit x (m + s) else bit y (m + s - 8))"
proof (cases "m + s < 8")
  case True
  then have "\<not> 8 - s \<le> m" by simp
  with True assms show ?thesis by (auto simp: bit_simps add.commute)
next
  case False
  moreover have "\<not> bit x (m + s)" using False by (auto dest: bit_imp_le_length)
  ultimately show ?thesis using assms by (auto simp: bit_simps add.commute)
qed

lemma int_mod_diff:
  assumes "b < (L::nat)" "b = k mod L"
  shows "int ((i + L - b) mod L) = (int i - int k) mod int L"
    and "int ((i + L - b + L - 1) mod L) = (int i - int k - 1) mod int L"
proof -
  have L: "0 < L" using assms(1) by simp
  have b: "int b = int k mod int L" by (simp add: assms(2) zmod_int)
  have "int ((i + L - b) mod L) = (int i - int b + int L) mod int L"
    using assms(1) by (simp add: zmod_int of_nat_diff algebra_simps)
  then show "int ((i + L - b) mod L) = (int i - int k) mod int L"
    by (simp add: b mod_diff_right_eq)
  have "int ((i + L - b + L - 1) mod L) = (int i - 1 - int b + 2 * int L) mod int L"
    using assms(1) L by (simp add: zmod_int of_nat_diff algebra_simps)
  also have "\<dots> = (int i - 1 - int b) mod int L" by simp
  also have "\<dots> = (int i - 1 - int k) mod int L" by (simp only: b mod_diff_right_eq)
  finally show "int ((i + L - b + L - 1) mod L) = (int i - int k - 1) mod int L"
    by (simp add: algebra_simps)
qed

lemma nat_index: "8 * int b + c = z \<Longrightarrow> int c' = c \<Longrightarrow> nat z = 8 * b + c'"
  by auto

lemma rotate_bit:
  assumes "j < 8 * length d"
  shows "bit_at (rotate_right_bits d n) j = bit_at d (nat ((int j - int n) mod int (8 * length d)))"
proof -
  let ?L = "length d" and ?i = "j div 8" and ?m = "7 - j mod 8" and ?s = "n mod 8"
  let ?bs = "(n div 8) mod ?L"
  let ?a = "(?i + ?L - ?bs) mod ?L" and ?b = "(?i + ?L - ?bs + ?L - 1) mod ?L"
  have L: "0 < ?L" and i: "?i < ?L" using assms by auto
  have bs: "?bs < ?L" using L by simp
  note ab = int_mod_diff [OF bs refl, of ?i]
  have "int j = int (8 * ?i + j mod 8)" "int n = int (8 * (n div 8) + ?s)" by simp_all
  then have jn: "int j - int n = 8 * (int ?i - int (n div 8)) + (int (j mod 8) - int ?s)"
    unfolding of_nat_add of_nat_mult by simp
  have rot: "bit_at (rotate_right_bits d n) j
      \<longleftrightarrow> (if ?m + ?s < 8 then bit (d ! ?a) (?m + ?s) else bit (d ! ?b) (?m + ?s - 8))"
    using i L by (simp add: bit_at_def rotate_right_bits_def Let_def bit_rotated_byte)
  show ?thesis
  proof (cases "?s \<le> j mod 8")
    case True
    then have "8 * int ?a + (int (j mod 8) - int ?s) = (int j - int n) mod int (8 * ?L)"
      using cyclic_index [OF L ab(1), of "int (j mod 8) - int ?s"] jn by simp
    then have ix: "nat ((int j - int n) mod int (8 * ?L)) = 8 * ?a + (j mod 8 - ?s)"
      by (rule nat_index) (simp add: True of_nat_diff)
    have m: "?m + ?s < 8" "?m + ?s = 7 - (j mod 8 - ?s)" using True by auto
    have c: "j mod 8 - ?s < 8" by (simp add: less_imp_diff_less)
    show ?thesis unfolding rot ix bit_at_split [OF c] m(2) [symmetric] using m(1) by simp
  next
    case False
    let ?c = "8 + int (j mod 8) - int ?s"
    have "8 * int ?b + ?c = (8 * (int ?i - int (n div 8) - 1) + ?c) mod (8 * int ?L)"
      using False by (intro cyclic_index [OF L ab(2)]) auto
    also have "8 * (int ?i - int (n div 8) - 1) + ?c = int j - int n" using jn by simp
    finally have "8 * int ?b + ?c = (int j - int n) mod int (8 * ?L)" by simp
    then have ix: "nat ((int j - int n) mod int (8 * ?L)) = 8 * ?b + (8 + j mod 8 - ?s)"
      by (rule nat_index) (simp add: of_nat_diff trans_le_add1)
    have m: "\<not> ?m + ?s < 8" "?m + ?s - 8 = 7 - (8 + j mod 8 - ?s)" using False by auto
    have c: "8 + j mod 8 - ?s < 8" using False by auto
    show ?thesis unfolding rot ix bit_at_split [OF c] m(2) [symmetric] using m(1) by simp
  qed
qed


lemma rotate_by_zero: "rotate_right_bits d 0 = d"
proof (rule nth_equalityI)
  show "length (rotate_right_bits d 0) = length d" by simp
next
  fix i assume "i < length (rotate_right_bits d 0)"
  then have i: "i < length d" by simp
  have "bit (rotate_right_bits d 0 ! i) m \<longleftrightarrow> bit (d ! i) m" if "m < 8" for m
  proof -
    let ?j = "8 * i + (7 - m)"
    have j: "?j < 8 * length d" using i that by linarith
    have c: "7 - m < 8" by simp
    have "nat ((int ?j - int 0) mod int (8 * length d)) = ?j" using j by simp
    with rotate_bit [OF j, of 0]
    have "bit_at (rotate_right_bits d 0) ?j = bit_at d ?j" by simp
    with that show ?thesis by (simp only: bit_at_split [OF c]) simp
  qed
  then show "rotate_right_bits d 0 ! i = d ! i" by (auto intro: bit_word_eqI)
qed

section \<open>Properties\<close>

text \<open>
  the rotation of the source is the cyclic rotation of the whole bit string: for every
  input and every amount, bit \<open>j\<close> of the result is bit \<open>j - n\<close>, modulo the number of bits.
\<close>

theorem rotate_right_bits_correct:
  assumes "j < 8 * length d"
  shows "bit_at (rotate_right_bits d n) j = bit_at d (nat ((int j - int n) mod int (8 * length d)))"
  using assms by (rule rotate_bit)

theorem rotate_right_bits_correct_witness:
  "bit_at (rotate_right_bits [0x80, 0x01] 13) 13 = bit_at [0x80, 0x01] 0"
  using rotate_right_bits_correct [of 13 "[0x80, 0x01]" 13] by simp



text \<open>Folding a string to its own length returns it.\<close>

lemma nfold_same_length:
  assumes "d \<noteq> []"
  shows "nfold d (length d) = Some d"
proof -
  let ?n = "length d" and ?r = "map ucast d :: u16 list"
  have one: "lcm_usize ?n ?n div ?n = 1" using assms by (simp add: lcm_usize_def gcd_loop_gcd)
  have series: "nfold_series d 1 = d" by (simp add: nfold_series_def rotate_by_zero)
  have st: "step_by ?n ?n = [0]" using assms step_by_multiple [of ?n 1] by simp
  have add: "add_chunk ?n d 0 (replicate ?n 0) = ?r"
    by (rule nth_equalityI) (simp_all add: add_chunk_def)
  have small: "\<not> (\<exists>x \<in> set ?r. x > 0xff)"
  proof -
    have "\<not> (ucast x :: u16) > 0xff" for x :: u8
      using unsigned_less [of x, where 'a = nat]
      by (simp add: word_less_nat_alt unsigned_ucast_eq take_bit_nat_eq_self)
    then show ?thesis by auto
  qed
  then have "carry_loop ?r = ?r" by (simp only: carry_loop.simps [of ?r] if_False)
  moreover have "ucast (ucast x :: u16) = x" for x :: u8
    by (rule bit_word_eqI) (auto simp: bit_simps)
  ultimately show ?thesis using assms
    by (simp add: nfold_def one series st add Let_def comp_def del: One_nat_def)
qed

end
