(* ===== verification/Krb_Types.thy ===== *)
theory Krb_Types
  imports Krb_Prelude
begin

text \<open>
  The data types the components share: bit flags (\<open>src/src/types/flags.rs\<close> and the principal
  attributes of \<open>src/src/kdc/db.rs\<close>), principal names and keys (\<open>src/src/types/basic.rs\<close>),
  protocol error codes (\<open>src/src/types/error_msg.rs\<close>), the KDC's internal error
  (\<open>src/src/kdc/error.rs\<close>) and the errors of the crypto layer (\<open>src/src/crypto/mod.rs\<close>).

  A flag set is its 32-bit word. \<open>contains\<close>, \<open>intersects\<close>, \<open>insert\<close>, \<open>remove\<close> and the
  truncating complement are the operations a \<open>bitflags!\<close> type has; all the flags used by the
  program are single bits, so membership is a bit test.
\<close>

section \<open>Bit flags\<close>

definition flag :: "nat \<Rightarrow> u32" where "flag n = push_bit n 1"

definition contains :: "u32 \<Rightarrow> u32 \<Rightarrow> bool" where "contains f x \<longleftrightarrow> f AND x = x"
definition intersects :: "u32 \<Rightarrow> u32 \<Rightarrow> bool" where "intersects f x \<longleftrightarrow> f AND x \<noteq> 0"
definition remove_flag :: "u32 \<Rightarrow> u32 \<Rightarrow> u32" where "remove_flag f x = f AND NOT x"
definition from_bits_truncate :: "u32 \<Rightarrow> u32 \<Rightarrow> u32" where "from_bits_truncate all b = b AND all"
definition complement :: "u32 \<Rightarrow> u32 \<Rightarrow> u32" where "complement all f = from_bits_truncate all (NOT f)"

named_theorems flag_bits "a flag set as its bits"

lemma bit_flag [flag_bits]: "bit (flag n) m \<longleftrightarrow> m = n \<and> n < 32"
  by (auto simp: flag_def bit_simps)

lemma contains_flag [flag_bits]: "n < 32 \<Longrightarrow> contains f (flag n) \<longleftrightarrow> bit f n"
proof
  assume "n < 32" "contains f (flag n)"
  then have "bit (f AND flag n) n" by (simp add: contains_def bit_flag)
  then show "bit f n" by (simp add: bit_and_iff)
next
  assume "n < 32" "bit f n"
  then have "f AND flag n = flag n"
    by (intro bit_word_eqI) (auto simp: bit_and_iff bit_flag)
  then show "contains f (flag n)" by (simp add: contains_def)
qed

lemma intersects_iff: "intersects f x \<longleftrightarrow> (\<exists>n. bit f n \<and> bit x n)"
proof -
  have "f AND x \<noteq> 0 \<longleftrightarrow> (\<exists>n. bit (f AND x) n)"
    by (metis bit_0_eq bit_word_eqI bot_apply bot_bool_def)
  then show ?thesis by (simp add: intersects_def bit_and_iff)
qed

lemma intersects_flag [flag_bits]: "n < 32 \<Longrightarrow> intersects f (flag n) \<longleftrightarrow> bit f n"
  by (auto simp: intersects_iff bit_flag)

lemma intersects_or [flag_bits]: "intersects f (x OR y) \<longleftrightarrow> intersects f x \<or> intersects f y"
  by (auto simp: intersects_iff bit_or_iff)

lemma bit_u32_le: "bit (f :: u32) n \<Longrightarrow> n < 32"
  using bit_imp_le_length [of f n] by simp

lemma bit_remove_flag [flag_bits]:
  "bit (remove_flag f x) n \<longleftrightarrow> bit f n \<and> \<not> bit x n"
  by (auto simp: remove_flag_def bit_and_iff bit_not_iff dest: bit_u32_le)

lemma bit_from_bits_truncate [flag_bits]:
  "bit (from_bits_truncate a f) n \<longleftrightarrow> bit f n \<and> bit a n"
  by (auto simp: from_bits_truncate_def bit_and_iff)

lemma bit_complement [flag_bits]: "bit (complement a f) n \<longleftrightarrow> bit a n \<and> \<not> bit f n"
  by (auto simp: complement_def flag_bits bit_not_iff dest: bit_u32_le)

lemmas flag_bool [flag_bits] = bit_and_iff bit_or_iff

section \<open>Flag constants\<close>

text \<open>\<open>KdcOptions\<close>.\<close>

definition opt_RESERVED :: u32 where [flag_bits]: "opt_RESERVED = flag 31"
definition opt_FORWARDABLE :: u32 where [flag_bits]: "opt_FORWARDABLE = flag 30"
definition opt_FORWARDED :: u32 where [flag_bits]: "opt_FORWARDED = flag 29"
definition opt_PROXIABLE :: u32 where [flag_bits]: "opt_PROXIABLE = flag 28"
definition opt_PROXY :: u32 where [flag_bits]: "opt_PROXY = flag 27"
definition opt_ALLOW_POSTDATE :: u32 where [flag_bits]: "opt_ALLOW_POSTDATE = flag 26"
definition opt_POSTDATED :: u32 where [flag_bits]: "opt_POSTDATED = flag 25"
definition opt_RENEWABLE :: u32 where [flag_bits]: "opt_RENEWABLE = flag 23"
definition opt_CNAME_IN_ADDL_TKT :: u32 where [flag_bits]: "opt_CNAME_IN_ADDL_TKT = flag 17"
definition opt_CANONICALIZE :: u32 where [flag_bits]: "opt_CANONICALIZE = flag 16"
definition opt_REQUEST_ANONYMOUS :: u32 where [flag_bits]: "opt_REQUEST_ANONYMOUS = flag 15"
definition opt_DISABLE_TRANSITED_CHECK :: u32 where [flag_bits]: "opt_DISABLE_TRANSITED_CHECK = flag 5"
definition opt_RENEWABLE_OK :: u32 where [flag_bits]: "opt_RENEWABLE_OK = flag 4"
definition opt_ENC_TKT_IN_SKEY :: u32 where [flag_bits]: "opt_ENC_TKT_IN_SKEY = flag 3"
definition opt_RENEW :: u32 where [flag_bits]: "opt_RENEW = flag 1"
definition opt_VALIDATE :: u32 where [flag_bits]: "opt_VALIDATE = flag 0"

text \<open>\<open>TicketFlags\<close>.\<close>

definition tkt_RESERVED :: u32 where [flag_bits]: "tkt_RESERVED = flag 31"
definition tkt_FORWARDABLE :: u32 where [flag_bits]: "tkt_FORWARDABLE = flag 30"
definition tkt_FORWARDED :: u32 where [flag_bits]: "tkt_FORWARDED = flag 29"
definition tkt_PROXIABLE :: u32 where [flag_bits]: "tkt_PROXIABLE = flag 28"
definition tkt_PROXY :: u32 where [flag_bits]: "tkt_PROXY = flag 27"
definition tkt_MAY_POSTDATE :: u32 where [flag_bits]: "tkt_MAY_POSTDATE = flag 26"
definition tkt_POSTDATED :: u32 where [flag_bits]: "tkt_POSTDATED = flag 25"
definition tkt_INVALID :: u32 where [flag_bits]: "tkt_INVALID = flag 24"
definition tkt_RENEWABLE :: u32 where [flag_bits]: "tkt_RENEWABLE = flag 23"
definition tkt_INITIAL :: u32 where [flag_bits]: "tkt_INITIAL = flag 22"
definition tkt_PRE_AUTHENT :: u32 where [flag_bits]: "tkt_PRE_AUTHENT = flag 21"
definition tkt_HW_AUTHENT :: u32 where [flag_bits]: "tkt_HW_AUTHENT = flag 20"
definition tkt_TRANSITED_POLICY_CHECKED :: u32 where [flag_bits]: "tkt_TRANSITED_POLICY_CHECKED = flag 19"
definition tkt_OK_AS_DELEGATE :: u32 where [flag_bits]: "tkt_OK_AS_DELEGATE = flag 18"
definition tkt_ENC_PA_REP :: u32 where [flag_bits]: "tkt_ENC_PA_REP = flag 16"
definition tkt_ANONYMOUS :: u32 where [flag_bits]: "tkt_ANONYMOUS = flag 15"

text \<open>\<open>ApOptions\<close>.\<close>

definition apo_RESERVED :: u32 where [flag_bits]: "apo_RESERVED = flag 31"
definition apo_USE_SESSION_KEY :: u32 where [flag_bits]: "apo_USE_SESSION_KEY = flag 30"
definition apo_MUTUAL_REQUIRED :: u32 where [flag_bits]: "apo_MUTUAL_REQUIRED = flag 29"

text \<open>\<open>PrincipalAttributes\<close>.\<close>

definition attr_DISALLOW_POSTDATED :: u32 where [flag_bits]: "attr_DISALLOW_POSTDATED = flag 0"
definition attr_DISALLOW_FORWARDABLE :: u32 where [flag_bits]: "attr_DISALLOW_FORWARDABLE = flag 1"
definition attr_DISALLOW_TGT_BASED :: u32 where [flag_bits]: "attr_DISALLOW_TGT_BASED = flag 2"
definition attr_DISALLOW_RENEWABLE :: u32 where [flag_bits]: "attr_DISALLOW_RENEWABLE = flag 3"
definition attr_DISALLOW_PROXIABLE :: u32 where [flag_bits]: "attr_DISALLOW_PROXIABLE = flag 4"
definition attr_DISALLOW_DUP_SKEY :: u32 where [flag_bits]: "attr_DISALLOW_DUP_SKEY = flag 5"
definition attr_DISALLOW_ALL_TIX :: u32 where [flag_bits]: "attr_DISALLOW_ALL_TIX = flag 6"
definition attr_REQUIRES_PRE_AUTH :: u32 where [flag_bits]: "attr_REQUIRES_PRE_AUTH = flag 7"
definition attr_REQUIRES_HW_AUTH :: u32 where [flag_bits]: "attr_REQUIRES_HW_AUTH = flag 8"
definition attr_REQUIRES_PWCHANGE :: u32 where [flag_bits]: "attr_REQUIRES_PWCHANGE = flag 9"
definition attr_DISALLOW_SVR :: u32 where [flag_bits]: "attr_DISALLOW_SVR = flag 12"
definition attr_PWCHANGE_SERVICE :: u32 where [flag_bits]: "attr_PWCHANGE_SERVICE = flag 13"
definition attr_OK_AS_DELEGATE :: u32 where [flag_bits]: "attr_OK_AS_DELEGATE = flag 20"
definition attr_OK_TO_AUTH_AS_DELEGATE :: u32 where [flag_bits]: "attr_OK_TO_AUTH_AS_DELEGATE = flag 21"
definition attr_NO_AUTH_DATA_REQUIRED :: u32 where [flag_bits]: "attr_NO_AUTH_DATA_REQUIRED = flag 22"
definition attr_LOCKDOWN_KEYS :: u32 where [flag_bits]: "attr_LOCKDOWN_KEYS = flag 23"

text \<open>\<open>all()\<close>: every named flag of the type.\<close>

definition KdcOptions_all :: u32 where [flag_bits]:
  "KdcOptions_all = foldr (OR) (map flag [31, 30, 29, 28, 27, 26, 25, 23, 17, 16, 15, 5, 4, 3, 1, 0]) 0"
definition TicketFlags_all :: u32 where [flag_bits]:
  "TicketFlags_all = foldr (OR) (map flag [31, 30, 29, 28, 27, 26, 25, 24, 23, 22, 21, 20, 19, 18, 16, 15]) 0"
definition ApOptions_all :: u32 where [flag_bits]:
  "ApOptions_all = foldr (OR) (map flag [31, 30, 29]) 0"

text \<open>The \<open>Flags\<close> wire form: four bytes, most significant first; short input is padded.\<close>

definition flags_to_bytes :: "u32 \<Rightarrow> bytes" where
  "flags_to_bytes f = be32 f"

definition flags_from_bytes :: "u32 \<Rightarrow> bytes \<Rightarrow> u32" where
  "flags_from_bytes all b =
     from_bits_truncate all (of_be32 (take 4 b @ replicate (4 - min (length b) 4) 0))"

lemma flags_bytes_roundtrip: "flags_from_bytes all (flags_to_bytes f @ s) = f AND all"
  by (simp add: flags_from_bytes_def flags_to_bytes_def from_bits_truncate_def)

section \<open>Names and keys\<close>

text \<open>
  \<open>KerberosString\<close> and \<open>String\<close> are byte strings; a \<open>KerberosTime\<close> is only ever read through
  \<open>timestamp()\<close>, so it is its number of seconds; a \<open>Duration\<close> is only read through
  \<open>as_secs()\<close>, a \<open>u64\<close>.
\<close>

type_synonym KerberosTime = int
type_synonym Duration = u64

record PrincipalName =
  name_type :: int
  name_string :: "bytes list"

record EncryptionKey =
  keytype :: int
  key_bytes :: bytes

datatype CryptoError =
    IntegrityFailure | InputTooShort | BadKeySize | BadParams | ChecksumMismatch | UnsupportedEtype

text \<open>ASCII literals of the source as byte strings.\<close>

definition ascii :: "string \<Rightarrow> bytes" where
  "ascii s = map (\<lambda>c. of_char c) s"

definition is_tgs_principal :: "PrincipalName \<Rightarrow> bool" where
  "is_tgs_principal n \<longleftrightarrow> length (name_string n) = 2 \<and> name_string n ! 0 = ascii ''krbtgt''"

definition names_equal :: "PrincipalName \<Rightarrow> PrincipalName \<Rightarrow> bool" where
  "names_equal a b \<longleftrightarrow> name_string a = name_string b"

section \<open>KDC errors\<close>

text \<open>Protocol error codes (\<open>error_codes\<close>).\<close>

definition KDC_ERR_NONE :: int where [simp]: "KDC_ERR_NONE = 0"
definition KDC_ERR_NAME_EXP :: int where [simp]: "KDC_ERR_NAME_EXP = 1"
definition KDC_ERR_SERVICE_EXP :: int where [simp]: "KDC_ERR_SERVICE_EXP = 2"
definition KDC_ERR_C_PRINCIPAL_UNKNOWN :: int where [simp]: "KDC_ERR_C_PRINCIPAL_UNKNOWN = 6"
definition KDC_ERR_S_PRINCIPAL_UNKNOWN :: int where [simp]: "KDC_ERR_S_PRINCIPAL_UNKNOWN = 7"
definition KDC_ERR_POLICY :: int where [simp]: "KDC_ERR_POLICY = 12"
definition KDC_ERR_BADOPTION :: int where [simp]: "KDC_ERR_BADOPTION = 13"
definition KDC_ERR_ETYPE_NOSUPP :: int where [simp]: "KDC_ERR_ETYPE_NOSUPP = 14"
definition KDC_ERR_SUMTYPE_NOSUPP :: int where [simp]: "KDC_ERR_SUMTYPE_NOSUPP = 15"
definition KDC_ERR_CLIENT_REVOKED :: int where [simp]: "KDC_ERR_CLIENT_REVOKED = 18"
definition KDC_ERR_KEY_EXPIRED :: int where [simp]: "KDC_ERR_KEY_EXPIRED = 23"
definition KDC_ERR_PREAUTH_FAILED :: int where [simp]: "KDC_ERR_PREAUTH_FAILED = 24"
definition KDC_ERR_SERVER_NOMATCH :: int where [simp]: "KDC_ERR_SERVER_NOMATCH = 26"
definition KDC_ERR_MUST_USE_USER2USER :: int where [simp]: "KDC_ERR_MUST_USE_USER2USER = 27"
definition KDC_ERR_SVC_UNAVAILABLE :: int where [simp]: "KDC_ERR_SVC_UNAVAILABLE = 29"
definition KRB_AP_ERR_BAD_INTEGRITY :: int where [simp]: "KRB_AP_ERR_BAD_INTEGRITY = 31"
definition KRB_AP_ERR_TKT_EXPIRED :: int where [simp]: "KRB_AP_ERR_TKT_EXPIRED = 32"
definition KRB_AP_ERR_TKT_NYV :: int where [simp]: "KRB_AP_ERR_TKT_NYV = 33"
definition KRB_AP_ERR_NOT_US :: int where [simp]: "KRB_AP_ERR_NOT_US = 35"
definition KRB_ERR_GENERIC :: int where [simp]: "KRB_ERR_GENERIC = 60"
definition KDC_ERR_CLIENT_NAME_MISMATCH :: int where [simp]: "KDC_ERR_CLIENT_NAME_MISMATCH = 75"

record KdcError =
  code :: int
  e_text :: "string option"
  e_data :: "bytes option"
  typed_e_data :: bool

definition kdc_error :: "int \<Rightarrow> string \<Rightarrow> KdcError" where
  "kdc_error c t = \<lparr>code = c, e_text = Some t, e_data = None, typed_e_data = False\<rparr>"

definition kdc_generic :: "string \<Rightarrow> KdcError" where
  "kdc_generic t = kdc_error KRB_ERR_GENERIC t"

definition with_e_data :: "KdcError \<Rightarrow> bytes \<Rightarrow> KdcError" where
  "with_e_data e d = e\<lparr>e_data := Some d\<rparr>"

lemma code_kdc_error [simp]: "code (kdc_error c t) = c" "code (kdc_generic t) = KRB_ERR_GENERIC"
  by (simp_all add: kdc_error_def kdc_generic_def)

end
