(* ===== verification/Aes_Cts.thy ===== *)
theory Aes_Cts
  imports Krb_Types
begin

text \<open>
  AES in ciphertext-stealing mode with a chained IV, \<open>src/crypto/aes_cts.rs\<close>. The block
  cipher itself is the \<open>aes\<close> crate: it is a parameter, a pair \<open>(E, D)\<close> of functions from a
  key and a block to a block. What the mode relies on is the named hypothesis
  \<open>block_cipher E D\<close>: blocks stay 16 bytes and \<open>D\<close> undoes \<open>E\<close>. The chained \<open>iv\<close>
  is an in-out argument of the source and is returned beside the result.
\<close>

section \<open>Model\<close>

type_synonym block_fun = "bytes \<Rightarrow> bytes \<Rightarrow> bytes"

definition AES_BLOCK :: nat where [simp]: "AES_BLOCK = 16"

definition xor_bytes :: "bytes \<Rightarrow> bytes \<Rightarrow> bytes" where
  "xor_bytes a b = map2 (XOR) a b"

definition aes_ecb_encrypt_block :: "block_fun \<Rightarrow> bytes \<Rightarrow> bytes \<Rightarrow> CryptoError + bytes" where
  "aes_ecb_encrypt_block E key block =
     (if length block \<noteq> AES_BLOCK then Inl InputTooShort
      else if length key = 16 \<or> length key = 32 then Inr (E key block)
      else Inl BadKeySize)"

definition aes_ecb_decrypt_block :: "block_fun \<Rightarrow> bytes \<Rightarrow> bytes \<Rightarrow> CryptoError + bytes" where
  "aes_ecb_decrypt_block D key block =
     (if length block \<noteq> AES_BLOCK then Inl InputTooShort
      else if length key = 16 \<or> length key = 32 then Inr (D key block)
      else Inl BadKeySize)"

text \<open>\<open>as_chunks::<16>().0\<close>: the full 16-byte chunks.\<close>

fun as_chunks :: "bytes \<Rightarrow> bytes list" where
  "as_chunks d = (if length d < AES_BLOCK then [] else take AES_BLOCK d # as_chunks (drop AES_BLOCK d))"

declare as_chunks.simps [simp del]

fun cbc_encrypt_loop :: "block_fun \<Rightarrow> bytes \<Rightarrow> bytes \<Rightarrow> bytes list \<Rightarrow> CryptoError + bytes" where
  "cbc_encrypt_loop E key prev [] = Inr []"
| "cbc_encrypt_loop E key prev (chunk # chunks) =
     rbind (aes_ecb_encrypt_block E key (xor_bytes chunk prev)) (\<lambda>encrypted.
     rbind (cbc_encrypt_loop E key encrypted chunks) (\<lambda>rest. Inr (encrypted @ rest)))"

definition aes_cbc_encrypt :: "block_fun \<Rightarrow> bytes \<Rightarrow> bytes \<Rightarrow> bytes \<Rightarrow> CryptoError + bytes" where
  "aes_cbc_encrypt E key iv data =
     (if length data mod AES_BLOCK \<noteq> 0 then Inl InputTooShort
      else cbc_encrypt_loop E key iv (as_chunks data))"

fun cbc_decrypt_loop :: "block_fun \<Rightarrow> bytes \<Rightarrow> bytes \<Rightarrow> bytes list \<Rightarrow> CryptoError + bytes" where
  "cbc_decrypt_loop D key prev [] = Inr []"
| "cbc_decrypt_loop D key prev (chunk # chunks) =
     rbind (aes_ecb_decrypt_block D key chunk) (\<lambda>decrypted.
     rbind (cbc_decrypt_loop D key chunk chunks) (\<lambda>rest. Inr (xor_bytes decrypted prev @ rest)))"

definition aes_cbc_decrypt :: "block_fun \<Rightarrow> bytes \<Rightarrow> bytes \<Rightarrow> bytes \<Rightarrow> CryptoError + bytes" where
  "aes_cbc_decrypt D key iv data =
     (if length data mod AES_BLOCK \<noteq> 0 then Inl InputTooShort
      else cbc_decrypt_loop D key iv (as_chunks data))"

definition zero_block :: bytes where "zero_block = replicate AES_BLOCK 0"

text \<open>\<open>slice d a b\<close> is \<open>&d[a..b]\<close>.\<close>

abbreviation slice :: "bytes \<Rightarrow> nat \<Rightarrow> nat \<Rightarrow> bytes" where
  "slice d a b \<equiv> take (b - a) (drop a d)"

definition aes_cts_encrypt_iv ::
  "block_fun \<Rightarrow> bytes \<Rightarrow> bytes \<Rightarrow> bytes \<Rightarrow> CryptoError + (bytes \<times> bytes)" where
  "aes_cts_encrypt_iv E key iv plaintext =
     (if length plaintext < AES_BLOCK then Inl InputTooShort
      else if length plaintext = AES_BLOCK then
        rbind (aes_cbc_encrypt E key zero_block plaintext) (\<lambda>c. Inr (c, iv))
      else
        let pad_len = (AES_BLOCK - length plaintext mod AES_BLOCK) mod AES_BLOCK;
            padded = plaintext @ replicate pad_len 0
        in rbind (aes_cbc_encrypt E key iv padded) (\<lambda>cbc_out.
          let nblocks = length cbc_out div AES_BLOCK;
              iv' = drop ((nblocks - 1) * AES_BLOCK) cbc_out;
              prefix = (if nblocks > 2 then take ((nblocks - 2) * AES_BLOCK) cbc_out else []);
              second_last = slice cbc_out ((nblocks - 2) * AES_BLOCK) ((nblocks - 1) * AES_BLOCK);
              last_block = slice cbc_out ((nblocks - 1) * AES_BLOCK) (nblocks * AES_BLOCK);
              actual_tail_len = length plaintext - (nblocks - 1) * AES_BLOCK
          in Inr (prefix @ last_block @ take actual_tail_len second_last, iv')))"

definition aes_cts_encrypt :: "block_fun \<Rightarrow> bytes \<Rightarrow> bytes \<Rightarrow> CryptoError + bytes" where
  "aes_cts_encrypt E key plaintext = rbind (aes_cts_encrypt_iv E key zero_block plaintext) (\<lambda>(c, _). Inr c)"

definition aes_cts_decrypt_iv ::
  "block_fun \<Rightarrow> bytes \<Rightarrow> bytes \<Rightarrow> bytes \<Rightarrow> CryptoError + (bytes \<times> bytes)" where
  "aes_cts_decrypt_iv D key iv ciphertext =
     (if length ciphertext < AES_BLOCK then Inl InputTooShort
      else if length ciphertext = AES_BLOCK then
        rbind (aes_cbc_decrypt D key zero_block ciphertext) (\<lambda>p. Inr (p, iv))
      else
        let nblocks = (length ciphertext + AES_BLOCK - 1) div AES_BLOCK;
            tail_len = length ciphertext - (nblocks - 1) * AES_BLOCK;
            prefix_end = (nblocks - 2) * AES_BLOCK
        in rbind
          (if nblocks > 2 then
             rbind (aes_cbc_decrypt D key iv (take prefix_end ciphertext)) (\<lambda>prefix_plain.
               Inr (prefix_plain, slice ciphertext (prefix_end - AES_BLOCK) prefix_end))
           else Inr ([], iv)) (\<lambda>(plaintext, prev_iv).
          let cn1 = slice ciphertext ((nblocks - 2) * AES_BLOCK) ((nblocks - 1) * AES_BLOCK);
              cn2_partial = drop ((nblocks - 1) * AES_BLOCK) ciphertext
          in rbind (aes_ecb_decrypt_block D key cn1) (\<lambda>ecb_dec.
            let final_plain_block = xor_bytes (take tail_len ecb_dec) cn2_partial;
                cn2_full = cn2_partial @ slice ecb_dec tail_len AES_BLOCK
            in rbind (aes_ecb_decrypt_block D key cn2_full) (\<lambda>pen_dec.
              let penultimate_plain = xor_bytes pen_dec prev_iv
              in Inr (plaintext @ penultimate_plain @ final_plain_block, cn1)))))"

definition aes_cts_decrypt :: "block_fun \<Rightarrow> bytes \<Rightarrow> bytes \<Rightarrow> CryptoError + bytes" where
  "aes_cts_decrypt D key ciphertext = rbind (aes_cts_decrypt_iv D key zero_block ciphertext) (\<lambda>(p, _). Inr p)"

section \<open>The block cipher the mode relies on\<close>

definition block_cipher :: "block_fun \<Rightarrow> block_fun \<Rightarrow> bool" where
  "block_cipher E D \<longleftrightarrow>
     (\<forall>k b. length b = 16 \<longrightarrow> length (E k b) = 16 \<and> length (D k b) = 16 \<and> D k (E k b) = b)"

lemma block_cipherD:
  assumes "block_cipher E D" "length b = 16"
  shows "length (E k b) = 16" "length (D k b) = 16" "D k (E k b) = b"
  using assms by (auto simp: block_cipher_def)

definition key_ok :: "bytes \<Rightarrow> bool" where
  "key_ok key \<longleftrightarrow> length key = 16 \<or> length key = 32"

section \<open>Cipher block chaining\<close>

lemma length_xor_bytes [simp]: "length (xor_bytes a b) = min (length a) (length b)"
  by (simp add: xor_bytes_def)

lemma xor_bytes_cancel:
  "length a = length b \<Longrightarrow> xor_bytes (xor_bytes a b) b = a"
  by (rule nth_equalityI) (auto simp: xor_bytes_def ac_simps)

lemma xor_bytes_take: "take n (xor_bytes a b) = xor_bytes (take n a) (take n b)"
  by (simp add: xor_bytes_def take_map take_zip)

lemma xor_bytes_drop: "drop n (xor_bytes a b) = xor_bytes (drop n a) (drop n b)"
  by (simp add: xor_bytes_def drop_map drop_zip)

lemma xor_bytes_zero: "length b \<le> n \<Longrightarrow> xor_bytes (replicate n 0) b = b"
  by (rule nth_equalityI) (auto simp: xor_bytes_def)

text \<open>The state of the chain after some blocks: the IV, or the last ciphertext block.\<close>

fun cbc_blocks :: "block_fun \<Rightarrow> bytes \<Rightarrow> bytes \<Rightarrow> bytes list \<Rightarrow> bytes list" where
  "cbc_blocks E key prev [] = []"
| "cbc_blocks E key prev (p # ps) =
     (let c = E key (xor_bytes p prev) in c # cbc_blocks E key c ps)"

definition chain :: "bytes \<Rightarrow> bytes list \<Rightarrow> bytes" where
  "chain iv cs = (if cs = [] then iv else last cs)"

abbreviation blocks16 :: "bytes list \<Rightarrow> bool" where
  "blocks16 ps \<equiv> \<forall>p \<in> set ps. length p = 16"

lemma cbc_blocks_append:
  "cbc_blocks E key iv (ps @ qs) =
     cbc_blocks E key iv ps @ cbc_blocks E key (chain iv (cbc_blocks E key iv ps)) qs"
  by (induction ps arbitrary: iv) (auto simp: chain_def Let_def)

lemma length_cbc_blocks [simp]: "length (cbc_blocks E key iv ps) = length ps"
  by (induction ps arbitrary: iv) (auto simp: Let_def)

lemma cbc_blocks16:
  "block_cipher E D \<Longrightarrow> length iv = 16 \<Longrightarrow> blocks16 ps \<Longrightarrow> blocks16 (cbc_blocks E key iv ps)"
proof (induction ps arbitrary: iv)
  case (Cons p ps)
  have "length (E key (xor_bytes p iv)) = 16"
    by (rule block_cipherD(1) [OF Cons.prems(1)]) (use Cons.prems in simp)
  with Cons show ?case by (simp add: Let_def)
qed simp

lemma length_chain:
  "length iv = 16 \<Longrightarrow> blocks16 cs \<Longrightarrow> length (chain iv cs) = 16"
  by (simp add: chain_def)

lemma as_chunks_concat: "blocks16 ps \<Longrightarrow> as_chunks (concat ps) = ps"
proof (induction ps)
  case Nil
  then show ?case by (simp add: as_chunks.simps)
next
  case (Cons p ps)
  then show ?case by (simp add: as_chunks.simps [of "p @ concat ps"])
qed

lemma length_concat16: "blocks16 ps \<Longrightarrow> length (concat ps) = 16 * length ps"
  by (induction ps) auto

lemma cbc_encrypt_concat:
  assumes "block_cipher E D" "key_ok key" "length iv = 16" "blocks16 ps"
  shows "aes_cbc_encrypt E key iv (concat ps) = Inr (concat (cbc_blocks E key iv ps))"
proof -
  have "cbc_encrypt_loop E key iv ps = Inr (concat (cbc_blocks E key iv ps))"
    using assms(3,4)
  proof (induction ps arbitrary: iv)
    case (Cons p ps)
    with assms(1,2) show ?case
      by (simp add: aes_ecb_encrypt_block_def key_ok_def block_cipherD [OF assms(1)] Let_def)
  qed simp
  with assms(4) show ?thesis
    by (simp add: aes_cbc_encrypt_def as_chunks_concat length_concat16)
qed

lemma cbc_decrypt_concat:
  assumes "block_cipher E D" "key_ok key" "length iv = 16" "blocks16 ps"
  shows "aes_cbc_decrypt D key iv (concat (cbc_blocks E key iv ps)) = Inr (concat ps)"
proof -
  have "cbc_decrypt_loop D key iv (cbc_blocks E key iv ps) = Inr (concat ps)"
    using assms(3,4)
  proof (induction ps arbitrary: iv)
    case (Cons p ps)
    with assms(1,2) show ?case
      by (simp add: aes_ecb_decrypt_block_def key_ok_def block_cipherD [OF assms(1)] Let_def xor_bytes_cancel)
  qed simp
  moreover have "blocks16 (cbc_blocks E key iv ps)" using assms by (intro cbc_blocks16)
  ultimately show ?thesis
    by (simp add: aes_cbc_decrypt_def as_chunks_concat length_concat16)
qed


section \<open>Ciphertext stealing\<close>

text \<open>
  A plaintext longer than a block is some full blocks \<open>ps\<close>, one more block \<open>a\<close> and a
  tail \<open>b\<close> of 1 to 16 bytes.
\<close>

lemma split_plaintext_ex:
  "length p > 16 \<Longrightarrow>
   \<exists>ps a b. p = concat ps @ a @ b \<and> blocks16 ps \<and> length a = 16 \<and> b \<noteq> [] \<and> length b \<le> 16"
proof (induction p rule: length_induct)
  case (1 p)
  show ?case
  proof (cases "length p \<le> 32")
    case True
    with "1.prems" show ?thesis
      by (intro exI [of _ "[]"] exI [of _ "take 16 p"] exI [of _ "drop 16 p"]) auto
  next
    case False
    then have "length (drop 16 p) < length p" "length (drop 16 p) > 16" by auto
    with "1.IH" obtain ps a b where d: "drop 16 p = concat ps @ a @ b" "blocks16 ps"
      "length a = 16" "b \<noteq> []" "length b \<le> 16" by blast
    have "p = concat (take 16 p # ps) @ a @ b"
      using append_take_drop_id [of 16 p] by (simp add: d(1))
    with d False show ?thesis
      by (intro exI [of _ "take 16 p # ps"] exI [of _ a] exI [of _ b]) auto
  qed
qed

lemma split_plaintext:
  assumes "length p > 16"
  obtains ps a b where "p = concat ps @ a @ b" "blocks16 ps" "length a = 16" "b \<noteq> []" "length b \<le> 16"
  using split_plaintext_ex [OF assms] by blast

lemma div_ceil16: "0 < t \<Longrightarrow> t \<le> 16 \<Longrightarrow> (16 * m + 16 + t + 15) div 16 = m + (2::nat)"
  by linarith

lemma mod16: "(16 * m + 16 + t) mod 16 = t mod (16::nat)"
proof -
  have "16 * m + 16 + t = t + 16 * (m + 1)" by simp
  then show ?thesis by (simp only: mod_mult_self2)
qed

text \<open>Encryption of such a plaintext, in terms of the CBC blocks.\<close>

lemma cts_encrypt_split:
  assumes bc: "block_cipher E D" and key: "key_ok key" and iv: "length iv = 16"
    and ps: "blocks16 ps" and a: "length a = 16" and b: "b \<noteq> []" "length b \<le> 16"
    and cs: "cs = cbc_blocks E key iv ps"
    and c1: "c1 = E key (xor_bytes a (chain iv cs))"
    and c2: "c2 = E key (xor_bytes (b @ replicate (16 - length b) 0) c1)"
  shows "aes_cts_encrypt_iv E key iv (concat ps @ a @ b)
    = Inr (concat cs @ c2 @ take (length b) c1, c2)"
proof -
  let ?p = "concat ps @ a @ b" and ?m = "length ps" and ?pb = "b @ replicate (16 - length b) 0"
  have lp: "length ?p = 16 * ?m + 16 + length b" using ps a by (simp add: length_concat16)
  have t: "0 < length b" using b by simp
  have lm: "length ?p mod 16 = length b mod 16" unfolding lp by (rule mod16)
  have pad: "(16 - length ?p mod 16) mod 16 = 16 - length b"
    unfolding lm using t b(2) by (cases "length b = 16") auto
  have padded: "?p @ replicate (16 - length b) 0 = concat (ps @ [a, ?pb])" by simp
  have bl: "blocks16 (ps @ [a, ?pb])" using ps a b by auto
  have blocks: "cbc_blocks E key iv (ps @ [a, ?pb]) = cs @ [c1, c2]"
    by (simp add: cbc_blocks_append Let_def chain_def c1 c2 cs)
  have cbc: "aes_cbc_encrypt E key iv (?p @ replicate (16 - length b) 0) = Inr (concat cs @ c1 @ c2)"
    unfolding padded cbc_encrypt_concat [OF bc key iv bl] blocks by simp
  have len: "blocks16 cs" "length c1 = 16" "length c2 = 16"
  proof -
    have "blocks16 (cs @ [c1, c2])" using cbc_blocks16 [OF bc iv bl, of key] unfolding blocks .
    then show "blocks16 cs" "length c1 = 16" "length c2 = 16" by auto
  qed
  have lcs: "length (concat cs) = 16 * ?m" using len(1) by (simp add: length_concat16 cs)
  define P where "P = ?p"
  define X where "X = concat cs @ c1 @ c2"
  have lX: "length X = 16 * ?m + 32" unfolding X_def by (simp add: lcs len)
  have X: "length X div 16 = ?m + 2" "take (?m * 16) X = concat cs"
    "drop (?m * 16) X = c1 @ c2" "drop (16 + ?m * 16) X = c2"
    unfolding lX by (simp_all add: X_def lcs len mult.commute)
  have P: "length P = 16 * ?m + 16 + length b" "(16 - length P mod 16) mod 16 = 16 - length b"
    "aes_cbc_encrypt E key iv (P @ replicate (16 - length b) 0) = Inr X"
    unfolding P_def X_def by (fact lp pad cbc)+
  have "aes_cts_encrypt_iv E key iv P = Inr (concat cs @ c2 @ take (length b) c1, c2)"
  proof -
    have g: "(length P < 16) = False" "(length P = 16) = False" using P(1) t by simp_all
    have tl: "length P - (?m + 2 - 1) * 16 = length b" using P(1) by simp
    have pre: "(if ?m + 2 > 2 then take ((?m + 2 - 2) * 16) X else []) = concat cs"
      by (cases "?m = 0") (simp_all add: X cs)
    have sl: "take ((?m + 2 - 1) * 16 - (?m + 2 - 2) * 16) (drop ((?m + 2 - 2) * 16) X) = c1"
      "take ((?m + 2) * 16 - (?m + 2 - 1) * 16) c2 = c2"
      "drop ((?m + 2 - 1) * 16) X = c2"
      by (simp_all add: X len)
    show ?thesis
      by (simp only: aes_cts_encrypt_iv_def AES_BLOCK_def Let_def g if_False P(2,3) rbind.simps
          X(1) pre sl tl)
  qed
  then show ?thesis unfolding P_def .
qed


lemma cts_decrypt_split:
  assumes bc: "block_cipher E D" and key: "key_ok key" and iv: "length iv = 16"
    and ps: "blocks16 ps" and a: "length a = 16" and b: "b \<noteq> []" "length b \<le> 16"
    and cs: "cs = cbc_blocks E key iv ps"
    and c1: "c1 = E key (xor_bytes a (chain iv cs))"
    and c2: "c2 = E key (xor_bytes (b @ replicate (16 - length b) 0) c1)"
  shows "aes_cts_decrypt_iv D key iv (concat cs @ c2 @ take (length b) c1)
    = Inr (concat ps @ a @ b, c2)"
proof -
  let ?ct = "concat cs @ c2 @ take (length b) c1" and ?m = "length ps" and ?t = "length b"
  let ?pb = "b @ replicate (16 - ?t) 0" and ?prev = "chain iv cs"
  have t: "0 < ?t" using b by simp
  have bcs: "blocks16 cs" unfolding cs by (rule cbc_blocks16 [OF bc iv ps])
  have lprev: "length ?prev = 16" by (rule length_chain [OF iv bcs])
  have l1: "length c1 = 16" unfolding c1
    by (rule block_cipherD(1) [OF bc]) (simp add: a lprev)
  have l2: "length c2 = 16" unfolding c2
    by (rule block_cipherD(1) [OF bc]) (simp add: b l1)
  have lcs: "length (concat cs) = 16 * ?m" using bcs by (simp add: length_concat16 cs)
  have lct: "length ?ct = 16 * ?m + 16 + ?t" using b by (simp add: lcs l1 l2 min_def)
  have n: "(length ?ct + 16 - 1) div 16 = ?m + 2"
    unfolding lct using div_ceil16 [OF t b(2), of ?m] by simp
  have d2: "D key c2 = xor_bytes ?pb c1" unfolding c2
    by (rule block_cipherD(3) [OF bc]) (simp add: b l1)
  have d1: "D key c1 = xor_bytes a ?prev" unfolding c1
    by (rule block_cipherD(3) [OF bc]) (simp add: a lprev)
  have ecb2: "aes_ecb_decrypt_block D key c2 = Inr (xor_bytes ?pb c1)"
    using key l2 by (simp add: aes_ecb_decrypt_block_def key_ok_def d2)
  have fin: "xor_bytes (take ?t (xor_bytes ?pb c1)) (take ?t c1) = b"
    using b l1 by (simp add: xor_bytes_take xor_bytes_cancel)
  have full: "take ?t c1 @ take (16 - ?t) (drop ?t (xor_bytes ?pb c1)) = c1"
    using b l1 by (simp add: xor_bytes_drop xor_bytes_zero)
  have ecb1: "aes_ecb_decrypt_block D key c1 = Inr (xor_bytes a ?prev)"
    using key l1 by (simp add: aes_ecb_decrypt_block_def key_ok_def d1)
  have pen: "xor_bytes (xor_bytes a ?prev) ?prev = a"
    using a lprev by (simp add: xor_bytes_cancel)
  have pre: "(if ?m + 2 > 2 then
        rbind (aes_cbc_decrypt D key iv (take (?m * 16) ?ct)) (\<lambda>p. Inr (p, take (?m * 16 - (?m * 16 - 16)) (drop (?m * 16 - 16) ?ct)))
      else Inr ([], iv)) = Inr (concat ps, ?prev)"
  proof (cases "?m = 0")
    case True
    then show ?thesis by (simp add: chain_def cs)
  next
    case False
    moreover have "length cs = ?m" by (simp add: cs)
    ultimately have ne: "cs \<noteq> []" by auto
    then have "concat cs = concat (butlast cs) @ last cs"
      using append_butlast_last_id [OF ne] concat_append [of "butlast cs" "[last cs]"] by simp
    moreover have l: "length (last cs) = 16" using bcs ne by simp
    ultimately have "drop (?m * 16 - 16) (concat cs) = last cs" using lcs by (simp add: mult.commute)
    moreover have "?m * 16 - 16 \<le> length (concat cs)" using lcs by simp
    moreover have w: "?m * 16 - (?m * 16 - 16) = 16" using \<open>?m \<noteq> 0\<close> by (cases ?m) auto
    ultimately have dr: "take (?m * 16 - (?m * 16 - 16)) (drop (?m * 16 - 16) ?ct) = chain iv cs"
      unfolding w using l by (simp add: chain_def ne)
    have tk: "take (?m * 16) ?ct = concat cs" using lcs by (simp add: mult.commute)
    have dec: "aes_cbc_decrypt D key iv (concat cs) = Inr (concat ps)"
      unfolding cs by (rule cbc_decrypt_concat [OF bc key iv ps])
    have m: "?m + 2 > 2" using False by simp
    show ?thesis by (simp only: m if_True tk dec dr rbind.simps)
  qed
  define C where "C = ?ct"
  have C: "length C = 16 * ?m + 16 + ?t" "(length C + 16 - 1) div 16 = ?m + 2"
    "drop (?m * 16) C = c2 @ take ?t c1" "drop (16 + ?m * 16) C = take ?t c1"
    unfolding C_def by (fact lct n)+ (simp_all add: lcs l2 mult.commute)
  have "aes_cts_decrypt_iv D key iv C = Inr (concat ps @ a @ b, c2)"
  proof -
    have g: "(length C < 16) = False" "(length C = 16) = False" using C(1) t by simp_all
    have tl: "length C - (?m + 2 - 1) * 16 = ?t" using C(1) by simp
    have sl: "take ((?m + 2 - 1) * 16 - ?m * 16) (drop (?m * 16) C) = c2"
      "drop ((?m + 2 - 1) * 16) C = take ?t c1" "?m + 2 - 2 = ?m"
      by (simp_all add: C l2)
    show ?thesis
      by (simp only: aes_cts_decrypt_iv_def AES_BLOCK_def Let_def g if_False C(2) sl tl
          pre [folded C_def] rbind.simps prod.case ecb2 fin full ecb1 pen)
  qed
  then show ?thesis unfolding C_def .
qed


lemma cts_roundtrip_step:
  assumes bc: "block_cipher E D" and key: "key_ok key" and iv: "length iv = 16"
    and p: "16 \<le> length p"
  shows "\<exists>c iv'. aes_cts_encrypt_iv E key iv p = Inr (c, iv') \<and> length c = length p \<and>
    length iv' = 16 \<and> aes_cts_decrypt_iv D key iv c = Inr (p, iv')"
proof (cases "length p = 16")
  case True
  let ?c = "E key (xor_bytes p zero_block)"
  have z: "length zero_block = 16" by (simp add: zero_block_def)
  have lc: "length ?c = 16" by (rule block_cipherD(1) [OF bc]) (simp add: True z)
  have e: "aes_cbc_encrypt E key zero_block p = Inr ?c"
    using cbc_encrypt_concat [OF bc key z, of "[p]"] True by (simp add: Let_def)
  have d: "aes_cbc_decrypt D key zero_block ?c = Inr p"
    using cbc_decrypt_concat [OF bc key z, of "[p]"] True by (simp add: Let_def)
  from True lc e d iv show ?thesis
    by (simp add: aes_cts_encrypt_iv_def aes_cts_decrypt_iv_def)
next
  case False
  with p have "length p > 16" by simp
  then obtain ps a b where s: "p = concat ps @ a @ b" "blocks16 ps" "length a = 16" "b \<noteq> []" "length b \<le> 16"
    by (rule split_plaintext)
  define cs where "cs = cbc_blocks E key iv ps"
  define c1 where "c1 = E key (xor_bytes a (chain iv cs))"
  define c2 where "c2 = E key (xor_bytes (b @ replicate (16 - length b) 0) c1)"
  note defs = cs_def c1_def c2_def
  have bcs: "blocks16 cs" unfolding cs_def by (rule cbc_blocks16 [OF bc iv s(2)])
  have l1: "length c1 = 16" unfolding c1_def
    by (rule block_cipherD(1) [OF bc]) (simp add: s(3) length_chain [OF iv bcs])
  have l2: "length c2 = 16" unfolding c2_def
    by (rule block_cipherD(1) [OF bc]) (simp add: s(5) l1)
  have lcs: "length (concat cs) = length (concat ps)"
    using bcs s(2) by (simp add: length_concat16 cs_def)
  show ?thesis
    using cts_encrypt_split [OF bc key iv s(2-5) defs] cts_decrypt_split [OF bc key iv s(2-5) defs]
      s(3,5) l1 l2 lcs
    by (simp add: s(1))
qed

text \<open>Messages encrypted one after the other under a chained IV.\<close>

fun cts_encrypt_stream :: "block_fun \<Rightarrow> bytes \<Rightarrow> bytes \<Rightarrow> bytes list \<Rightarrow> CryptoError + bytes list" where
  "cts_encrypt_stream E key iv [] = Inr []"
| "cts_encrypt_stream E key iv (p # ps) =
     rbind (aes_cts_encrypt_iv E key iv p) (\<lambda>(c, iv').
     rbind (cts_encrypt_stream E key iv' ps) (\<lambda>cs. Inr (c # cs)))"

fun cts_decrypt_stream :: "block_fun \<Rightarrow> bytes \<Rightarrow> bytes \<Rightarrow> bytes list \<Rightarrow> CryptoError + bytes list" where
  "cts_decrypt_stream D key iv [] = Inr []"
| "cts_decrypt_stream D key iv (c # cs) =
     rbind (aes_cts_decrypt_iv D key iv c) (\<lambda>(p, iv').
     rbind (cts_decrypt_stream D key iv' cs) (\<lambda>ps. Inr (p # ps)))"

section \<open>Properties\<close>



text \<open>
  C32: a whole sequence of messages encrypted under the chained IV (as the propagation protocol
  does) decrypts to the same sequence.
\<close>

theorem cts_stream_roundtrip:
  assumes "block_cipher E D" "length key = 16 \<or> length key = 32" "length iv = 16"
    and "\<forall>p \<in> set ps. 16 \<le> length p"
  shows "\<exists>cs. cts_encrypt_stream E key iv ps = Inr cs \<and> cts_decrypt_stream D key iv cs = Inr ps"
  using assms(3,4)
proof (induction ps arbitrary: iv)
  case (Cons p ps)
  have key: "key_ok key" using assms(2) by (simp add: key_ok_def)
  have p: "16 \<le> length p" using Cons.prems by simp
  obtain c iv' where c: "aes_cts_encrypt_iv E key iv p = Inr (c, iv')" "length iv' = 16"
    "aes_cts_decrypt_iv D key iv c = Inr (p, iv')"
    using cts_roundtrip_step [OF assms(1) key Cons.prems(1) p] by blast
  from Cons.IH [OF c(2)] Cons.prems(2) obtain cs where "cts_encrypt_stream E key iv' ps = Inr cs"
    "cts_decrypt_stream D key iv' cs = Inr ps" by auto
  with c show ?case by simp
qed simp

theorem cts_stream_roundtrip_witness:
  "\<exists>cs. cts_encrypt_stream (\<lambda>_ b. rev b) (replicate 32 7) (replicate 16 0) [replicate 20 9, replicate 16 3] = Inr cs
     \<and> cts_decrypt_stream (\<lambda>_ b. rev b) (replicate 32 7) (replicate 16 0) cs = Inr [replicate 20 9, replicate 16 3]"
proof -
  have bc: "block_cipher (\<lambda>_ b. rev b) (\<lambda>_ b. rev b)" by (simp add: block_cipher_def)
  show ?thesis
    using cts_stream_roundtrip [OF bc, of "replicate 32 7" "replicate 16 0" "[replicate 20 9, replicate 16 3]"]
    by simp
qed

end
