(* ===== verification/Utf8.thy ===== *)
theory Utf8
  imports Krb_Prelude
begin

text \<open>
  The UTF-8 part of the Rust standard library that the program uses: validity
  (\<open>String::from_utf8\<close>, \<open>str::from_utf8\<close>) and \<open>String::from_utf8_lossy\<close>, which replaces every
  maximal ill-formed prefix by U+FFFD. \<open>utf8_chunk\<close> is the decoder step: whether the input starts
  with a well-formed sequence, and how many bytes that sequence or the ill-formed prefix has.
\<close>

definition in_range :: "nat \<Rightarrow> nat \<Rightarrow> u8 \<Rightarrow> bool" where
  "in_range a b x \<longleftrightarrow> a \<le> unat x \<and> unat x \<le> b"

text \<open>The \<open>k\<close>-th byte, \<open>0\<close> past the end (as \<open>safe_get\<close> of the standard library).\<close>

definition safe_get :: "bytes \<Rightarrow> nat \<Rightarrow> u8" where
  "safe_get s k = (if k < length s then s ! k else 0)"

abbreviation cont_byte :: "u8 \<Rightarrow> bool" where "cont_byte \<equiv> in_range 0x80 0xBF"

definition second3 :: "u8 \<Rightarrow> u8 \<Rightarrow> bool" where
  "second3 b c \<longleftrightarrow> in_range (if unat b = 0xE0 then 0xA0 else 0x80) (if unat b = 0xED then 0x9F else 0xBF) c"

definition second4 :: "u8 \<Rightarrow> u8 \<Rightarrow> bool" where
  "second4 b c \<longleftrightarrow> in_range (if unat b = 0xF0 then 0x90 else 0x80) (if unat b = 0xF4 then 0x8F else 0xBF) c"

definition utf8_chunk :: "bytes \<Rightarrow> bool \<times> nat" where
  "utf8_chunk s = (let b = safe_get s 0 in
     if in_range 0 0x7F b then (True, 1)
     else if in_range 0xC2 0xDF b then
       if cont_byte (safe_get s 1) then (True, 2) else (False, 1)
     else if in_range 0xE0 0xEF b then
       if \<not> second3 b (safe_get s 1) then (False, 1)
       else if \<not> cont_byte (safe_get s 2) then (False, 2)
       else (True, 3)
     else if in_range 0xF0 0xF4 b then
       if \<not> second4 b (safe_get s 1) then (False, 1)
       else if \<not> cont_byte (safe_get s 2) then (False, 2)
       else if \<not> cont_byte (safe_get s 3) then (False, 3)
       else (True, 4)
     else (False, 1))"

lemma utf8_chunk_pos: "utf8_chunk s = (v, n) \<Longrightarrow> 0 < n"
  by (auto simp: utf8_chunk_def Let_def split: if_splits)

definition U_FFFD :: bytes where "U_FFFD = [0xEF, 0xBF, 0xBD]"

function valid_utf8 :: "bytes \<Rightarrow> bool" where
  "valid_utf8 s = (if s = [] then True else
     (case utf8_chunk s of (v, n) \<Rightarrow> v \<and> valid_utf8 (drop n s)))"
  by auto
termination
  by (relation "measure length") (auto dest!: utf8_chunk_pos [OF sym])

function from_utf8_lossy :: "bytes \<Rightarrow> bytes" where
  "from_utf8_lossy s = (if s = [] then [] else
     (case utf8_chunk s of (v, n) \<Rightarrow>
        (if v then take n s else U_FFFD) @ from_utf8_lossy (drop n s)))"
  by auto
termination
  by (relation "measure length") (auto dest!: utf8_chunk_pos [OF sym])

declare valid_utf8.simps [simp del] from_utf8_lossy.simps [simp del]

lemma valid_utf8_Nil [simp]: "valid_utf8 []"
  by (simp add: valid_utf8.simps)

lemma from_utf8_lossy_Nil [simp]: "from_utf8_lossy [] = []"
  by (simp add: from_utf8_lossy.simps)

lemma from_utf8_lossy_valid [simp]: "valid_utf8 s \<Longrightarrow> from_utf8_lossy s = s"
proof (induction s rule: from_utf8_lossy.induct)
  case (1 s)
  show ?case
  proof (cases "s = []")
    case False
    obtain v n where c: "utf8_chunk s = (v, n)" by fastforce
    with 1 False have "v" "valid_utf8 (drop n s)"
      by (auto simp: valid_utf8.simps [of s])
    with 1 c False show ?thesis
      by (simp add: from_utf8_lossy.simps [of s])
  qed simp
qed

lemma safe_get_append: "k < length a \<Longrightarrow> safe_get (a @ s) k = safe_get a k"
  by (simp add: safe_get_def nth_append)

lemma in_range_0 [simp]: "in_range a b 0 \<longleftrightarrow> a = 0"
  by (auto simp: in_range_def)

text \<open>A well-formed first sequence lies inside the input, and what follows it is irrelevant.\<close>

lemma second_pos: "second3 b c \<Longrightarrow> c \<noteq> 0" "second4 b c \<Longrightarrow> c \<noteq> 0"
  by (auto simp: second3_def second4_def split: if_splits)

lemma safe_get_nz: "safe_get s k \<noteq> 0 \<Longrightarrow> k < length s"
  by (auto simp: safe_get_def split: if_splits)

lemma cont_nz: "cont_byte c \<Longrightarrow> c \<noteq> 0"
  by auto

lemma utf8_chunk_local:
  assumes "utf8_chunk s = (True, n)" "\<forall>k<n. safe_get s' k = safe_get s k"
  shows "utf8_chunk s' = (True, n)"
  using assms by (auto simp: utf8_chunk_def Let_def split: if_splits)

lemma utf8_chunk_valid:
  assumes "utf8_chunk s = (True, n)" "s \<noteq> []"
  shows "n \<le> length s" "utf8_chunk (take n s @ t) = (True, n)"
proof -
  show n: "n \<le> length s"
    using assms
    by (auto simp: utf8_chunk_def Let_def Suc_le_eq split: if_splits
        dest!: cont_nz second_pos dest: safe_get_nz)
  then have "\<forall>k<n. safe_get (take n s @ t) k = safe_get s k"
    by (simp add: safe_get_def nth_append)
  then show "utf8_chunk (take n s @ t) = (True, n)"
    by (rule utf8_chunk_local [OF assms(1)])
qed

lemma utf8_chunk_append:
  assumes "utf8_chunk s = (True, n)" "s \<noteq> []"
  shows "utf8_chunk (s @ t) = (True, n)"
  using utf8_chunk_valid(2) [OF assms, of "drop n s @ t"]
  by (simp flip: append_assoc)

lemma valid_utf8_append: "valid_utf8 s \<Longrightarrow> valid_utf8 t \<Longrightarrow> valid_utf8 (s @ t)"
proof (induction s rule: valid_utf8.induct)
  case (1 s)
  show ?case
  proof (cases "s = []")
    case False
    obtain n where c: "utf8_chunk s = (True, n)" and v: "valid_utf8 (drop n s)"
      using 1 False by (auto simp: valid_utf8.simps [of s])
    have n: "n \<le> length s" by (rule utf8_chunk_valid(1) [OF c False])
    have "valid_utf8 (drop n s @ t)"
      using 1 False c v by auto
    then show ?thesis
      using utf8_chunk_append [OF c False, of t] False n by (simp add: valid_utf8.simps [of "s @ t"])
  qed (use 1 in simp)
qed

lemma valid_utf8_chunk:
  assumes "utf8_chunk s = (True, n)" "s \<noteq> []"
  shows "valid_utf8 (take n s)"
proof -
  have "utf8_chunk (take n s) = (True, n)"
    using utf8_chunk_valid(2) [OF assms, of "[]"] by simp
  then show ?thesis
    using utf8_chunk_valid(1) [OF assms] utf8_chunk_pos [OF assms(1)]
    by (auto simp: valid_utf8.simps [of "take n s"])
qed

lemma valid_U_FFFD: "valid_utf8 U_FFFD"
  by (simp add: U_FFFD_def valid_utf8.simps utf8_chunk_def safe_get_def in_range_def second3_def Let_def)

lemma from_utf8_lossy_is_valid [simp]: "valid_utf8 (from_utf8_lossy s)"
proof (induction s rule: from_utf8_lossy.induct)
  case (1 s)
  show ?case
  proof (cases "s = []")
    case False
    obtain v n where c: "utf8_chunk s = (v, n)" by fastforce
    have "valid_utf8 (if v then take n s else U_FFFD)"
      using valid_utf8_chunk [of s n] c False valid_U_FFFD by auto
    with 1 c False show ?thesis
      by (simp add: from_utf8_lossy.simps [of s] valid_utf8_append)
  qed simp
qed

text \<open>ASCII text is valid.\<close>

lemma valid_utf8_ascii: "list_all (\<lambda>b. unat b < 0x80) s \<Longrightarrow> valid_utf8 s"
proof (induction s)
  case (Cons b s)
  then have "utf8_chunk (b # s) = (True, 1)"
    by (auto simp: utf8_chunk_def safe_get_def in_range_def)
  with Cons show ?case by (simp add: valid_utf8.simps [of "b # s"])
qed simp

end
