(* ===== verification/Keytab.thy ===== *)
theory Keytab
  imports Krb_Types Utf8 "HOL-Library.Multiset"
begin

text \<open>
  Keytabs, \<open>src/src/keytab/mod.rs\<close> and \<open>src/src/keytab/memory.rs\<close>: entries, the selection rule of
  \<open>get_entry_in\<close>, the key source of the AP exchange built on it, and the in-memory keytab.

  The trait \<open>Keytab\<close> is the locale \<open>keytab\<close>: a state with its list of entries, an addition
  and a removal. The lemmas about lookups after an update are proved there, for the memory
  keytab (interpreted here) and for the file keytab (interpreted in its own theory).
\<close>

section \<open>Entries and selection\<close>

record KeytabEntry =
  kte_principal :: PrincipalName
  kte_realm :: bytes
  kte_timestamp :: u32
  kte_kvno :: u32
  kte_key :: EncryptionKey

datatype KtError = Kt_NotFound | Kt_KvnoNotFound | Kt_Format | Kt_End | Kt_Io

definition more_recent :: "KeytabEntry \<Rightarrow> KeytabEntry \<Rightarrow> bool" where
  "more_recent k1 k2 \<longleftrightarrow>
     (if kte_timestamp k2 \<le> kte_timestamp k1 \<and> kte_kvno k1 < 128 \<and> 240 < kte_kvno k2 then True
      else if kte_timestamp k1 \<le> kte_timestamp k2 \<and> 240 < kte_kvno k1 \<and> kte_kvno k2 < 128 then False
      else kte_kvno k2 < kte_kvno k1)"

text \<open>The loop of \<open>get_entry_in\<close>; its state is \<open>cur\<close> and \<open>found_wrong_kvno\<close>.\<close>

fun get_entry_loop ::
  "PrincipalName \<Rightarrow> bytes \<Rightarrow> u32 option \<Rightarrow> int option \<Rightarrow>
   KeytabEntry option \<Rightarrow> bool \<Rightarrow> KeytabEntry list \<Rightarrow> KeytabEntry option \<times> bool" where
  "get_entry_loop princ realm kvno etype cur wrong [] = (cur, wrong)"
| "get_entry_loop princ realm kvno etype cur wrong (e # es) =
     (if name_string (kte_principal e) \<noteq> name_string princ \<or> kte_realm e \<noteq> realm then
        get_entry_loop princ realm kvno etype cur wrong es
      else if \<not> is_none_or etype (\<lambda>t. t = keytype (kte_key e)) then
        get_entry_loop princ realm kvno etype cur wrong es
      else case kvno of
        None \<Rightarrow> get_entry_loop princ realm kvno etype
                  (if is_none_or cur (more_recent e) then Some e else cur) wrong es
      | Some k \<Rightarrow>
          if kte_kvno e = 0 then
            get_entry_loop princ realm kvno etype
              (if is_none_or cur (more_recent e) then Some e else cur) wrong es
          else if kte_kvno e = k then (Some e, wrong)
          else if kte_kvno e = k AND 0xff \<and> cur = None then
            get_entry_loop princ realm kvno etype (Some e) wrong es
          else get_entry_loop princ realm kvno etype cur True es)"

definition get_entry_in ::
  "KeytabEntry list \<Rightarrow> PrincipalName \<Rightarrow> bytes \<Rightarrow> u32 option \<Rightarrow> int option \<Rightarrow> KtError + KeytabEntry" where
  "get_entry_in entries princ realm kvno etype =
     (case get_entry_loop princ realm kvno etype None False entries of
        (Some e, _) \<Rightarrow> Inr e
      | (None, wrong) \<Rightarrow> if wrong then Inl Kt_KvnoNotFound else Inl Kt_NotFound)"

text \<open>
  \<open>ap_key_for\<close> over a keytab whose \<open>get_entry\<close> is the argument. The errors are the two of
  \<open>ApError\<close> this function returns.
\<close>

datatype KeySourceError = BadKeyver | NoKey

definition kt_to_ap :: "KtError \<Rightarrow> KeySourceError" where
  "kt_to_ap e = (case e of Kt_KvnoNotFound \<Rightarrow> BadKeyver | _ \<Rightarrow> NoKey)"

definition ap_key_for ::
  "(PrincipalName \<Rightarrow> bytes \<Rightarrow> u32 option \<Rightarrow> int option \<Rightarrow> KtError + KeytabEntry) \<Rightarrow>
   PrincipalName \<Rightarrow> bytes \<Rightarrow> int option \<Rightarrow> int \<Rightarrow> KeySourceError + EncryptionKey" where
  "ap_key_for get_entry server realm_bytes kvno_i etype =
     (let realm = from_utf8_lossy realm_bytes;
          kvno = map_option word_of_int kvno_i
      in case get_entry server realm kvno (Some etype) of
           Inr e \<Rightarrow> Inr (kte_key e)
         | Inl Kt_NotFound \<Rightarrow>
             (case get_entry server realm kvno None of
                Inr _ \<Rightarrow> Inl BadKeyver
              | Inl Kt_KvnoNotFound \<Rightarrow> Inl BadKeyver
              | Inl _ \<Rightarrow> Inl NoKey)
         | Inl e \<Rightarrow> Inl (kt_to_ap e))"

definition key_for_principal ::
  "(PrincipalName \<Rightarrow> bytes \<Rightarrow> u32 option \<Rightarrow> int option \<Rightarrow> KtError + KeytabEntry) \<Rightarrow>
   PrincipalName \<Rightarrow> bytes \<Rightarrow> KtError + EncryptionKey" where
  "key_for_principal get_entry princ realm =
     rbind (get_entry princ realm None None) (\<lambda>e. Inr (kte_key e))"

section \<open>The in-memory keytab\<close>

type_synonym MemoryKeytab = "KeytabEntry list"

definition same_entry :: "KeytabEntry \<Rightarrow> KeytabEntry \<Rightarrow> bool" where
  "same_entry e entry \<longleftrightarrow>
     name_string (kte_principal e) = name_string (kte_principal entry) \<and>
     kte_realm e = kte_realm entry \<and> kte_kvno e = kte_kvno entry \<and>
     keytype (kte_key e) = keytype (kte_key entry)"

definition mem_entries :: "MemoryKeytab \<Rightarrow> KtError + KeytabEntry list" where
  "mem_entries kt = Inr kt"

definition mem_add_entry :: "MemoryKeytab \<Rightarrow> KeytabEntry \<Rightarrow> KtError + MemoryKeytab" where
  "mem_add_entry kt e = Inr (kt @ [e])"

text \<open>\<open>iter().position(..)\<close>: the index of the first element with the property.\<close>

definition mem_remove_entry :: "MemoryKeytab \<Rightarrow> KeytabEntry \<Rightarrow> KtError + MemoryKeytab" where
  "mem_remove_entry kt e =
     (case position (\<lambda>x. same_entry x e) kt of
        Some i \<Rightarrow> Inr (take i kt @ drop (i + 1) kt)
      | None \<Rightarrow> Inl Kt_NotFound)"

section \<open>Selection lemmas\<close>

definition candidate :: "PrincipalName \<Rightarrow> bytes \<Rightarrow> int option \<Rightarrow> KeytabEntry \<Rightarrow> bool" where
  "candidate princ realm etype e \<longleftrightarrow>
     name_string (kte_principal e) = name_string princ \<and> kte_realm e = realm \<and>
     is_none_or etype (\<lambda>t. t = keytype (kte_key e))"

text \<open>The kvnos an explicit request accepts: the exact one, a stored 0, and the low 8 bits.\<close>

definition kvno_ok :: "u32 option \<Rightarrow> KeytabEntry \<Rightarrow> bool" where
  "kvno_ok kvno e \<longleftrightarrow> is_none_or kvno (\<lambda>k. kte_kvno e \<in> {0, k, k AND 0xff})"

lemma get_entry_loop_skip:
  "\<not> candidate p r t e \<Longrightarrow> get_entry_loop p r k t cur w (e # es) = get_entry_loop p r k t cur w es"
  by (auto simp: candidate_def)

lemma get_entry_loop_result:
  assumes "get_entry_loop p r k t cur w es = (Some e, w')"
  shows "cur = Some e \<or> (e \<in> set es \<and> candidate p r t e \<and> kvno_ok k e)"
  using assms
proof (induction es arbitrary: cur w)
  case (Cons x es)
  show ?case
  proof (cases "candidate p r t x")
    case True
    with Cons.prems Cons.IH show ?thesis
      by (fastforce simp: candidate_def kvno_ok_def split: option.splits if_splits)
  next
    case False
    with Cons show ?thesis by (auto simp: get_entry_loop_skip simp del: get_entry_loop.simps)
  qed
qed simp

lemma get_entry_loop_None:
  "fst (get_entry_loop p r k t cur w es) = None \<longleftrightarrow>
     cur = None \<and> (\<forall>e\<in>set es. \<not> (candidate p r t e \<and> kvno_ok k e))"
proof (induction es arbitrary: cur w)
  case (Cons x es)
  show ?case
  proof (cases "candidate p r t x")
    case True
    with Cons show ?thesis
      by (cases cur) (auto simp: candidate_def kvno_ok_def split: option.splits)
  next
    case False
    with Cons show ?thesis by (auto simp: get_entry_loop_skip simp del: get_entry_loop.simps)
  qed
qed simp

lemma get_entry_loop_wrong:
  assumes "get_entry_loop p r k t None w es = (None, w')"
  shows "w' \<longleftrightarrow> w \<or> (\<exists>e\<in>set es. candidate p r t e)"
  using assms
proof (induction es arbitrary: w)
  case (Cons x es)
  show ?case
  proof (cases "candidate p r t x")
    case True
    have "\<not> kvno_ok k x"
      using get_entry_loop_None [of p r k t None w "x # es"] Cons.prems True by simp
    with True have "get_entry_loop p r k t None w (x # es) = get_entry_loop p r k t None True es"
      by (cases k) (simp_all add: candidate_def kvno_ok_def)
    with Cons.IH [of True] Cons.prems True show ?thesis by (simp del: get_entry_loop.simps)
  next
    case False
    with Cons show ?thesis by (auto simp: get_entry_loop_skip simp del: get_entry_loop.simps)
  qed
qed simp

lemma get_entry_loop_exact:
  assumes "e \<in> set es" "candidate p r t e" "kte_kvno e = k" "k \<noteq> 0"
  shows "fst (get_entry_loop p r (Some k) t cur w es) =
         find (\<lambda>x. candidate p r t x \<and> kte_kvno x = k) es"
  using assms
proof (induction es arbitrary: cur w)
  case (Cons x es)
  show ?case
  proof (cases "candidate p r t x")
    case True
    then show ?thesis
      using Cons by (auto simp: candidate_def)
  next
    case False
    with Cons.prems have "e \<in> set es" by auto
    with Cons False show ?thesis by (auto simp: get_entry_loop_skip simp del: get_entry_loop.simps)
  qed
qed simp

text \<open>Without wrap-around candidates, \<open>more_recent\<close> is the order of the kvnos.\<close>

lemma more_recent_no_wrap:
  "kte_kvno a \<le> 240 \<Longrightarrow> kte_kvno b \<le> 240 \<Longrightarrow> more_recent a b \<longleftrightarrow> kte_kvno b < kte_kvno a"
  by (auto simp: more_recent_def)

lemma get_entry_loop_newest:
  assumes "\<forall>x\<in>set es. candidate p r t x \<longrightarrow> kte_kvno x \<le> 240"
    and "is_none_or cur (\<lambda>c. kte_kvno c \<le> 240)"
    and "get_entry_loop p r None t cur w es = (Some e, w')"
  shows "(\<forall>x\<in>set es. candidate p r t x \<longrightarrow> kte_kvno x \<le> kte_kvno e) \<and>
         is_none_or cur (\<lambda>c. kte_kvno c \<le> kte_kvno e)"
  using assms
proof (induction es arbitrary: cur w)
  case (Cons x es)
  show ?case
  proof (cases "candidate p r t x")
    case True
    define cur' where "cur' = (if is_none_or cur (more_recent x) then Some x else cur)"
    have step: "get_entry_loop p r None t cur' w es = (Some e, w')"
      using Cons.prems(3) True by (auto simp: candidate_def cur'_def)
    have x: "kte_kvno x \<le> 240" using Cons.prems(1) True by simp
    have c': "is_none_or cur' (\<lambda>c. kte_kvno c \<le> 240)"
      using Cons.prems(2) x by (auto simp: cur'_def)
    have "(\<forall>y\<in>set es. candidate p r t y \<longrightarrow> kte_kvno y \<le> kte_kvno e) \<and>
          is_none_or cur' (\<lambda>c. kte_kvno c \<le> kte_kvno e)"
      using Cons.IH [OF _ c' step] Cons.prems(1) by auto
    then show ?thesis
      using Cons.prems(2) x by (cases cur) (auto simp: cur'_def more_recent_no_wrap split: if_splits)
  next
    case False
    with Cons show ?thesis by (auto simp: get_entry_loop_skip simp del: get_entry_loop.simps)
  qed
qed simp

lemma get_entry_in_result:
  assumes "get_entry_in es p r k t = Inr e"
  shows "e \<in> set es" "candidate p r t e" "kvno_ok k e"
proof -
  obtain w where "get_entry_loop p r k t None False es = (Some e, w)"
    using assms by (auto simp: get_entry_in_def split: prod.splits option.splits if_splits)
  from get_entry_loop_result [OF this] show "e \<in> set es" "candidate p r t e" "kvno_ok k e" by auto
qed

lemma get_entry_in_error:
  "get_entry_in es p r k t = Inl Kt_NotFound \<longleftrightarrow> (\<forall>e\<in>set es. \<not> candidate p r t e)"
  "get_entry_in es p r k t = Inl Kt_KvnoNotFound \<longleftrightarrow>
     (\<exists>e\<in>set es. candidate p r t e) \<and> (\<forall>e\<in>set es. candidate p r t e \<longrightarrow> \<not> kvno_ok k e)"
  "get_entry_in es p r k t \<notin> Inl ` {Kt_Format, Kt_End, Kt_Io}"
proof -
  obtain c w where l: "get_entry_loop p r k t None False es = (c, w)" by fastforce
  have n: "c = None \<longleftrightarrow> (\<forall>e\<in>set es. \<not> (candidate p r t e \<and> kvno_ok k e))"
    using get_entry_loop_None [of p r k t None False es] l by simp
  have w: "w \<longleftrightarrow> (\<exists>e\<in>set es. candidate p r t e)" if "c = None"
    using get_entry_loop_wrong [of p r k t False es w] l that by simp
  show "get_entry_in es p r k t = Inl Kt_NotFound \<longleftrightarrow> (\<forall>e\<in>set es. \<not> candidate p r t e)"
    using n w l by (auto simp: get_entry_in_def split: option.splits if_splits)
  show "get_entry_in es p r k t = Inl Kt_KvnoNotFound \<longleftrightarrow>
     (\<exists>e\<in>set es. candidate p r t e) \<and> (\<forall>e\<in>set es. candidate p r t e \<longrightarrow> \<not> kvno_ok k e)"
    using n w l by (auto simp: get_entry_in_def split: option.splits if_splits)
  show "get_entry_in es p r k t \<notin> Inl ` {Kt_Format, Kt_End, Kt_Io}"
    using l by (auto simp: get_entry_in_def split: option.splits if_splits)
qed

lemma get_entry_in_exact:
  assumes "e \<in> set es" "candidate p r t e" "kte_kvno e = k" "k \<noteq> 0"
  obtains x where "find (\<lambda>x. candidate p r t x \<and> kte_kvno x = k) es = Some x"
    "get_entry_in es p r (Some k) t = Inr x"
proof -
  obtain x where x: "find (\<lambda>x. candidate p r t x \<and> kte_kvno x = k) es = Some x"
    using assms(1-3) by (cases "find (\<lambda>x. candidate p r t x \<and> kte_kvno x = k) es")
      (auto simp: find_None_iff)
  obtain w where "get_entry_loop p r (Some k) t None False es = (Some x, w)"
    using get_entry_loop_exact [OF assms, of None False] x by (metis prod.collapse)
  then have "get_entry_in es p r (Some k) t = Inr x"
    by (simp add: get_entry_in_def)
  with x that show thesis by blast
qed

lemma get_entry_in_newest:
  assumes "\<forall>x\<in>set es. candidate p r t x \<longrightarrow> kte_kvno x \<le> 240"
    and "get_entry_in es p r None t = Inr e" "x \<in> set es" "candidate p r t x"
  shows "kte_kvno x \<le> kte_kvno e"
proof -
  obtain w where "get_entry_loop p r None t None False es = (Some e, w)"
    using assms(2) by (auto simp: get_entry_in_def split: prod.splits option.splits if_splits)
  from get_entry_loop_newest [OF assms(1) _ this] assms(3,4) show ?thesis by simp
qed

section \<open>The keytab interface\<close>

lemma position_Some:
  "position P xs = Some i \<longleftrightarrow> i < length xs \<and> P (xs ! i) \<and> (\<forall>j<i. \<not> P (xs ! j))"
proof (induction xs arbitrary: i)
  case (Cons x xs)
  show ?case
    by (cases i) (use Cons in \<open>auto simp: less_Suc_eq_0_disj\<close>)
qed simp

lemma position_None: "position P xs = None \<longleftrightarrow> (\<forall>x\<in>set xs. \<not> P x)"
  by (induction xs) auto

lemma mset_remove_nth:
  "i < length xs \<Longrightarrow> add_mset (xs ! i) (mset (take i xs @ drop (i + 1) xs)) = mset xs"
  by (metis Suc_eq_plus1 add_mset_add_single id_take_nth_drop mset.simps(2) mset_append
      union_mset_add_mset_right)

text \<open>
  \<open>ents s\<close> is what \<open>entries\<close> returns in a well-formed state \<open>s\<close>; an addition of a storable entry
  does not panic (\<open>None\<close>) and adds the entry, at an unspecified place; a removal deletes the first
  entry that matches.
\<close>

locale keytab =
  fixes ents :: "'s \<Rightarrow> KtError + KeytabEntry list"
    and add :: "'s \<Rightarrow> KeytabEntry \<Rightarrow> (KtError + 's) option"
    and remove :: "'s \<Rightarrow> KeytabEntry \<Rightarrow> KtError + 's"
    and wf :: "'s \<Rightarrow> bool"
    and storable :: "KeytabEntry \<Rightarrow> bool"
  assumes ents_ok: "wf s \<Longrightarrow> \<exists>es. ents s = Inr es"
    and add_ok: "wf s \<Longrightarrow> storable e \<Longrightarrow> ents s = Inr es \<Longrightarrow>
      \<exists>s' es'. add s e = Some (Inr s') \<and> wf s' \<and> ents s' = Inr es' \<and> mset es' = add_mset e (mset es)"
    and remove_ok: "wf s \<Longrightarrow> ents s = Inr es \<Longrightarrow> position (\<lambda>x. same_entry x e) es = Some i \<Longrightarrow>
      \<exists>s'. remove s e = Inr s' \<and> wf s' \<and> ents s' = Inr (take i es @ drop (i + 1) es)"
    and remove_none: "wf s \<Longrightarrow> ents s = Inr es \<Longrightarrow> position (\<lambda>x. same_entry x e) es = None \<Longrightarrow>
      \<exists>err. remove s e = Inl err"
begin

definition get_entry where
  "get_entry s p r k t = rbind (ents s) (\<lambda>es. get_entry_in es p r k t)"

lemma ap_key_after_add:
  assumes wf: "wf s" and st: "storable e" and es: "ents s = Inr es"
    and fresh: "\<forall>x\<in>set es. \<not> same_entry x e" and k: "kte_kvno e \<noteq> 0"
    and r: "valid_utf8 (kte_realm e)"
  shows "\<exists>s'. add s e = Some (Inr s') \<and> wf s' \<and>
    ap_key_for (get_entry s') (kte_principal e) (kte_realm e) (Some (uint (kte_kvno e)))
      (keytype (kte_key e)) = Inr (kte_key e)"
proof -
  obtain s' es' where s': "add s e = Some (Inr s')" "wf s'" "ents s' = Inr es'"
    and m: "mset es' = add_mset e (mset es)"
    using add_ok [OF wf st es] by blast
  let ?t = "Some (keytype (kte_key e))"
  have e: "e \<in> set es'" using m by (metis set_mset_mset union_single_eq_member)
  have c: "candidate (kte_principal e) (kte_realm e) ?t e" by (simp add: candidate_def)
  obtain x where x: "find (\<lambda>x. candidate (kte_principal e) (kte_realm e) ?t x \<and> kte_kvno x = kte_kvno e) es' = Some x"
    and g: "get_entry_in es' (kte_principal e) (kte_realm e) (Some (kte_kvno e)) ?t = Inr x"
    using get_entry_in_exact [OF e c refl k] by blast
  have "x \<in> set es'" "same_entry x e"
    using x by (auto simp: find_Some_iff same_entry_def candidate_def)
  moreover have "set es' = insert e (set es)"
    using arg_cong [OF m, of set_mset] by simp
  ultimately have "x = e" using fresh by auto
  with g s' r show ?thesis
    by (auto simp: ap_key_for_def get_entry_def)
qed

lemma remove_after_add:
  assumes wf: "wf s" and st: "storable e" and es: "ents s = Inr es"
    and fresh: "\<forall>x\<in>set es. \<not> same_entry x e"
  shows "\<exists>s' s'' es''. add s e = Some (Inr s') \<and> remove s' e = Inr s'' \<and> wf s'' \<and>
    ents s'' = Inr es'' \<and> mset es'' = mset es"
proof -
  obtain s' es' where s': "add s e = Some (Inr s')" "wf s'" "ents s' = Inr es'"
    and m: "mset es' = add_mset e (mset es)"
    using add_ok [OF wf st es] by blast
  have set: "set es' = insert e (set es)"
    using arg_cong [OF m, of set_mset] by simp
  obtain i where i: "position (\<lambda>x. same_entry x e) es' = Some i"
    using position_None [of "\<lambda>x. same_entry x e" es'] set
    by (cases "position (\<lambda>x. same_entry x e) es'") (auto simp: same_entry_def)
  obtain s'' where s'': "remove s' e = Inr s''" "wf s''" "ents s'' = Inr (take i es' @ drop (i + 1) es')"
    using remove_ok [OF s'(2,3) i] by blast
  have il: "i < length es'" "same_entry (es' ! i) e" using i by (auto simp: position_Some)
  then have "es' ! i = e" using set fresh nth_mem by blast
  then have "mset (take i es' @ drop (i + 1) es') = mset es"
    using mset_remove_nth [OF il(1)] m by simp
  with s' s'' show ?thesis by blast
qed

end

definition mem_get_entry :: "MemoryKeytab \<Rightarrow> PrincipalName \<Rightarrow> bytes \<Rightarrow> u32 option \<Rightarrow> int option \<Rightarrow> KtError + KeytabEntry" where
  "mem_get_entry kt p r k t = get_entry_in kt p r k t"

interpretation mkt: keytab mem_entries "\<lambda>kt e. Some (mem_add_entry kt e)" mem_remove_entry "\<lambda>_. True" "\<lambda>_. True"
  by unfold_locales
    (auto simp: mem_entries_def mem_add_entry_def mem_remove_entry_def)

lemma mkt_get_entry [simp]: "mkt.get_entry = mem_get_entry"
  by (intro ext) (simp add: mkt.get_entry_def mem_get_entry_def mem_entries_def)

section \<open>Properties\<close>

text \<open>A concrete entry, host key 3 of a one-component service, for the witnesses.\<close>

definition example_entry :: KeytabEntry where
  "example_entry = \<lparr>kte_principal = \<lparr>name_type = 1, name_string = [[0x68, 0x6f, 0x73, 0x74]]\<rparr>,
     kte_realm = [0x52], kte_timestamp = 7, kte_kvno = 3, kte_key = \<lparr>keytype = 18, key_bytes = [1, 2]\<rparr>\<rparr>"

text \<open>
  the outcome of a keytab lookup. It fails with \<open>NotFound\<close> exactly when no entry has the
  principal, realm and (if given) enctype, with \<open>KvnoNotFound\<close> exactly when such entries exist but
  none has an acceptable kvno (the requested one, a stored 0, or its low 8 bits), and never with
  another error; an entry it returns is one of the keytab that matches.
\<close>

theorem get_entry_in_outcome:
  "(get_entry_in es p r k t = Inl Kt_NotFound \<longleftrightarrow> (\<forall>e\<in>set es. \<not> candidate p r t e)) \<and>
   (get_entry_in es p r k t = Inl Kt_KvnoNotFound \<longleftrightarrow>
      (\<exists>e\<in>set es. candidate p r t e) \<and> (\<forall>e\<in>set es. candidate p r t e \<longrightarrow> \<not> kvno_ok k e)) \<and>
   get_entry_in es p r k t \<notin> Inl ` {Kt_Format, Kt_End, Kt_Io} \<and>
   (\<forall>e. get_entry_in es p r k t = Inr e \<longrightarrow> e \<in> set es \<and> candidate p r t e \<and> kvno_ok k e)"
  using get_entry_in_error [of es p r k t] get_entry_in_result [of es p r k t] by blast

theorem get_entry_in_outcome_witness:
  "get_entry_in [example_entry] (kte_principal example_entry) [0x52] (Some 4) None = Inl Kt_KvnoNotFound"
  using get_entry_in_outcome [of "[example_entry]" "kte_principal example_entry" "[0x52]" "Some 4" None]
  by (simp add: example_entry_def candidate_def kvno_ok_def)

text \<open>
  an explicit request for kvno \<open>k\<close> (other than 0) returns the first matching entry whose kvno is
  exactly \<open>k\<close> whenever there is one, whatever legacy entries (kvno 0 or the low 8 bits) precede it.
\<close>

theorem get_entry_in_exact_kvno:
  assumes "e \<in> set es" "candidate p r t e" "kte_kvno e = k" "k \<noteq> 0"
  shows "\<exists>x. get_entry_in es p r (Some k) t = Inr x \<and>
    find (\<lambda>x. candidate p r t x \<and> kte_kvno x = k) es = Some x"
  using get_entry_in_exact [OF assms] by blast

theorem get_entry_in_exact_kvno_witness:
  "get_entry_in [example_entry\<lparr>kte_kvno := 0\<rparr>, example_entry\<lparr>kte_kvno := 2\<rparr>, example_entry\<lparr>kte_kvno := 258\<rparr>]
     (kte_principal example_entry) [0x52] (Some 258) (Some 18) = Inr (example_entry\<lparr>kte_kvno := 258\<rparr>)"
  using get_entry_in_exact_kvno [of "example_entry\<lparr>kte_kvno := 258\<rparr>"
      "[example_entry\<lparr>kte_kvno := 0\<rparr>, example_entry\<lparr>kte_kvno := 2\<rparr>, example_entry\<lparr>kte_kvno := 258\<rparr>]"
      "kte_principal example_entry" "[0x52]" "Some 18" 258]
  by (simp add: example_entry_def candidate_def)

text \<open>
  Without a kvno the lookup returns the entry of the highest kvno, as long as no matching kvno
  exceeds 240 (above it the wrap-around heuristic of \<open>more_recent\<close> may prefer a small kvno).
\<close>

lemma get_entry_in_newest_kvno:
  assumes "\<forall>x\<in>set es. candidate p r t x \<longrightarrow> kte_kvno x \<le> 240" "\<exists>x\<in>set es. candidate p r t x"
  shows "\<exists>e\<in>set es. get_entry_in es p r None t = Inr e \<and> candidate p r t e \<and>
    (\<forall>x\<in>set es. candidate p r t x \<longrightarrow> kte_kvno x \<le> kte_kvno e)"
proof -
  have "get_entry_in es p r None t \<noteq> Inl err" for err
    using get_entry_in_error [of es p r None t] assms(2)
    by (cases err) (auto simp: kvno_ok_def)
  then obtain e where e: "get_entry_in es p r None t = Inr e"
    by (cases "get_entry_in es p r None t") auto
  with get_entry_in_result [OF e] get_entry_in_newest [OF assms(1) e] show ?thesis by blast
qed

text \<open>
  Adding an entry to an in-memory keytab that has no entry for the same principal, kvno and
  enctype makes the key source of the AP exchange return its key; removing it again restores
  the keytab.
\<close>

lemma mem_add_lookup_remove:
  assumes "\<forall>x\<in>set kt. \<not> same_entry x e" "kte_kvno e \<noteq> 0" "valid_utf8 (kte_realm e)"
  shows "\<exists>kt' kt''. mem_add_entry kt e = Inr kt' \<and>
    ap_key_for (mem_get_entry kt') (kte_principal e) (kte_realm e) (Some (uint (kte_kvno e)))
      (keytype (kte_key e)) = Inr (kte_key e) \<and>
    mem_remove_entry kt' e = Inr kt'' \<and> mset kt'' = mset kt"
  using mkt.ap_key_after_add [where s = kt and e = e and es = kt]
    mkt.remove_after_add [where s = kt and e = e and es = kt] assms
  by (auto simp: mem_entries_def)

end
