(* ===== verification/Keytab_File.thy ===== *)
theory Keytab_File
  imports Keytab
begin

text \<open>
  The FILE keytab, \<open>src/src/keytab/file.rs\<close>. The file is \<open>bytes option\<close> (\<open>None\<close>: it does not
  exist); other I/O failures are outside the model. \<open>None\<close> as the result of \<open>file_add_entry\<close> is
  a panic (an out-of-range slice). Parameters: \<open>le\<close>, the byte order of the target machine, used by
  the version 1 format, and \<open>gs\<close>, the strings \<open>GeneralString::from_bytes\<close> accepts.

  The last part relates the bytes to a list of records (holes and entry bodies) and interprets
  the interface \<open>keytab\<close> for well-formed version 2 files.
\<close>

type_synonym FileKeytab = "bytes option"

section \<open>Reading\<close>

definition i16r :: "bool \<Rightarrow> bool \<Rightarrow> bytes \<Rightarrow> KtError + u16 \<times> bytes" where
  "i16r le v1 s = rbind (rd_take Kt_Format 2 s) (\<lambda>(b, s). Inr (if v1 then ne16 le b else of_be16 b, s))"

definition i32r :: "bool \<Rightarrow> bool \<Rightarrow> bytes \<Rightarrow> KtError + u32 \<times> bytes" where
  "i32r le v1 s = rbind (rd_take Kt_Format 4 s) (\<lambda>(b, s). Inr (if v1 then ne32 le b else of_be32 b, s))"

text \<open>One iteration of the component loop of \<open>parse_entry\<close>.\<close>

definition parse_comp :: "bool \<Rightarrow> (bytes \<Rightarrow> bool) \<Rightarrow> bool \<Rightarrow> bytes \<Rightarrow> KtError + bytes \<times> bytes" where
  "parse_comp le gs v1 s =
     rbind (i16r le v1 s) (\<lambda>(len, s).
       if sint len \<le> 0 then Inl Kt_End
       else rbind (rd_take Kt_Format (nat (sint len)) s) (\<lambda>(b, s).
         if gs b then Inr (b, s) else Inl Kt_Format))"

definition parse_entry :: "bool \<Rightarrow> (bytes \<Rightarrow> bool) \<Rightarrow> bytes \<Rightarrow> bool \<Rightarrow> KtError + KeytabEntry" where
  "parse_entry le gs d v1 =
     rbind (i16r le v1 d) (\<lambda>(count0, s).
     let count = (if v1 then count0 - 1 else count0) in
     if sint count \<le> 0 then Inl Kt_End else
     rbind (i16r le v1 s) (\<lambda>(realm_len, s).
     if sint realm_len \<le> 0 then Inl Kt_End else
     rbind (rd_take Kt_Format (nat (sint realm_len)) s) (\<lambda>(rb, s).
     let realm = from_utf8_lossy rb in
     rbind (rd_n (parse_comp le gs v1) (nat (sint count)) s) (\<lambda>(comps, s).
     rbind (if v1 then Inr (0, s) else i32r le v1 s) (\<lambda>(ntype, s).
     rbind (i32r le v1 s) (\<lambda>(timestamp, s).
     rbind (rd_take Kt_Format 1 s) (\<lambda>(kv, s).
     rbind (i16r le v1 s) (\<lambda>(etype, s).
     rbind (i16r le v1 s) (\<lambda>(klen, s).
     if sint klen \<le> 0 then Inl Kt_End else
     rbind (rd_take Kt_Format (nat (sint klen)) s) (\<lambda>(key, s).
     let vno32 = (if 4 \<le> length s then
                    if v1 then ne32 le (take 4 s) else of_be32 (take 4 s) else 0);
         kvno = (if vno32 \<noteq> 0 then vno32 else ucast (kv ! 0))
     in Inr \<lparr>kte_principal = \<lparr>name_type = sint ntype, name_string = comps\<rparr>,
             kte_realm = realm, kte_timestamp = timestamp, kte_kvno = kvno,
             kte_key = \<lparr>keytype = sint etype, key_bytes = key\<rparr>\<rparr>))))))))))"

text \<open>The loop of \<open>records\<close> from offset \<open>pos\<close>.\<close>

function records_loop ::
  "bool \<Rightarrow> (bytes \<Rightarrow> bool) \<Rightarrow> bool \<Rightarrow> bytes \<Rightarrow> nat \<Rightarrow> KtError + (nat \<times> nat \<times> KeytabEntry option) list" where
  "records_loop le gs v1 data pos =
     (if pos + 4 \<le> length data then
        let raw = take 4 (drop pos data);
            size = sint (if v1 then ne32 le raw else of_be32 raw) in
        if size = i32_min then Inl Kt_Format
        else if size = 0 then Inr []
        else let n = nat \<bar>size\<bar> in
          if length data < pos + 4 + n then Inl Kt_Format
          else if size < 0 then
            rbind (records_loop le gs v1 data (pos + 4 + n)) (\<lambda>out. Inr ((pos, n, None) # out))
          else (case parse_entry le gs (take n (drop (pos + 4) data)) v1 of
              Inr e \<Rightarrow> rbind (records_loop le gs v1 data (pos + 4 + n)) (\<lambda>out. Inr ((pos, n, Some e) # out))
            | Inl Kt_End \<Rightarrow> Inr []
            | Inl e \<Rightarrow> Inl e)
      else Inr [])"
  by pat_completeness auto
termination
  by (relation "measure (\<lambda>(le, gs, v1, data, pos). length data - pos)") auto

declare records_loop.simps [simp del]

definition records :: "bool \<Rightarrow> (bytes \<Rightarrow> bool) \<Rightarrow> FileKeytab \<Rightarrow> KtError + (nat \<times> nat \<times> KeytabEntry option) list" where
  "records le gs f = (case f of
     None \<Rightarrow> Inr []
   | Some data \<Rightarrow>
       if length data < 2 then Inl Kt_Format
       else let vno = of_be16 (take 2 data) in
         if vno = 0x0501 then records_loop le gs True data 2
         else if vno = 0x0502 then records_loop le gs False data 2
         else Inl Kt_Format)"

definition file_entries :: "bool \<Rightarrow> (bytes \<Rightarrow> bool) \<Rightarrow> FileKeytab \<Rightarrow> KtError + KeytabEntry list" where
  "file_entries le gs f =
     rbind (records le gs f) (\<lambda>rs. Inr (List.map_filter (\<lambda>(_, _, e). e) rs))"

definition file_get_entry ::
  "bool \<Rightarrow> (bytes \<Rightarrow> bool) \<Rightarrow> FileKeytab \<Rightarrow> PrincipalName \<Rightarrow> bytes \<Rightarrow> u32 option \<Rightarrow> int option \<Rightarrow> KtError + KeytabEntry" where
  "file_get_entry le gs f p r k t = rbind (file_entries le gs f) (\<lambda>es. get_entry_in es p r k t)"

section \<open>Writing\<close>

text \<open>\<open>x as i16\<close> of a length is its low 16 bits, and \<open>x as i32\<close> its low 32 bits.\<close>

definition entry_body :: "KeytabEntry \<Rightarrow> bytes" where
  "entry_body e =
     be16 (word_of_nat (length (name_string (kte_principal e)))) @
     be16 (word_of_nat (length (kte_realm e))) @ kte_realm e @
     concat (map (\<lambda>c. be16 (word_of_nat (length c)) @ c) (name_string (kte_principal e))) @
     be32 (word_of_int (name_type (kte_principal e))) @
     be32 (kte_timestamp e) @
     [ucast (kte_kvno e)] @
     be16 (word_of_int (keytype (kte_key e))) @
     be16 (word_of_nat (length (key_bytes (kte_key e)))) @ key_bytes (kte_key e) @
     be32 (kte_kvno e)"

definition ensure_writable :: "FileKeytab \<Rightarrow> KtError + unit" where
  "ensure_writable f = (case f of
     Some d \<Rightarrow> if 2 \<le> length d then
                  if of_be16 (take 2 d) = 0x0501 then Inl Kt_Format else Inr ()
                else Inl Kt_Format
   | None \<Rightarrow> Inr ())"

definition usize_of_i32 :: "u32 \<Rightarrow> nat" where
  "usize_of_i32 w = (if 0 \<le> sint w then nat (sint w) else nat (sint w + 2 ^ 64))"

text \<open>
  The slot search of \<open>add_entry\<close>: \<open>(pos, Some hole)\<close> when the hole at \<open>pos\<close> is reused, and
  \<open>(pos, None)\<close> when the loop ends at \<open>pos\<close>.
\<close>

function find_slot :: "bytes \<Rightarrow> u32 \<Rightarrow> nat \<Rightarrow> KtError + (nat \<times> nat option)" where
  "find_slot data needed pos =
     (if pos + 4 \<le> length data then
        let size = sint (of_be32 (take 4 (drop pos data))) in
        if size = i32_min then Inl Kt_Format
        else if size < 0 \<and> usize_of_i32 needed \<le> nat (- size) then Inr (pos, Some (nat (- size)))
        else if size = 0 then Inr (pos, None)
        else find_slot data needed (pos + 4 + nat \<bar>size\<bar>)
      else Inr (pos, None))"
  by pat_completeness auto
termination
  by (relation "measure (\<lambda>(data, needed, pos). length data - pos)") auto

declare find_slot.simps [simp del]

text \<open>\<open>data[pos..pos + len].copy_from_slice(new)\<close>, for a range inside \<open>data\<close>.\<close>

definition overwrite :: "bytes \<Rightarrow> nat \<Rightarrow> bytes \<Rightarrow> bytes" where
  "overwrite data pos new = take pos data @ new @ drop (pos + length new) data"

definition file_add_entry :: "FileKeytab \<Rightarrow> KeytabEntry \<Rightarrow> (KtError + FileKeytab) option" where
  "file_add_entry f e = (case ensure_writable f of Inl err \<Rightarrow> Some (Inl err) | Inr _ \<Rightarrow>
     let data = (case f of None \<Rightarrow> [0x05, 0x02] | Some d \<Rightarrow> d);
         body = entry_body e;
         needed = (word_of_nat (length body) :: u32)
     in case find_slot data needed 2 of
          Inl err \<Rightarrow> Some (Inl err)
        | Inr (pos, Some hole) \<Rightarrow>
            if length data < pos + 4 + length body \<or> length data < pos + 4 + hole \<or> hole < length body
            then None
            else Some (Inr (Some (overwrite data pos
                   (be32 (word_of_nat hole) @ body @ replicate (hole - length body) 0))))
        | Inr (pos, None) \<Rightarrow>
            let rec = be32 needed @ body in
            if pos + 4 \<le> length data
            then Some (Inr (Some (take pos data @ rec @ drop (pos + 4) data)))
            else Some (Inr (Some (data @ rec))))"

definition file_remove_entry :: "bool \<Rightarrow> (bytes \<Rightarrow> bool) \<Rightarrow> FileKeytab \<Rightarrow> KeytabEntry \<Rightarrow> KtError + FileKeytab" where
  "file_remove_entry le gs f entry =
     rbind (ensure_writable f) (\<lambda>_.
       case f of None \<Rightarrow> Inl Kt_Io | Some data \<Rightarrow>
       rbind (records le gs f) (\<lambda>rs.
         case find (\<lambda>(_, _, r). case r of None \<Rightarrow> False | Some e \<Rightarrow> same_entry e entry) rs of
           None \<Rightarrow> Inl Kt_NotFound
         | Some (off, n, _) \<Rightarrow>
             Inr (Some (overwrite data off (be32 (- word_of_nat n) @ replicate n 0)))))"

section \<open>Entries survive the file\<close>

text \<open>What an entry must satisfy to be written without truncation and read back.\<close>

definition len16 :: "bytes \<Rightarrow> bool" where
  "len16 b \<longleftrightarrow> 0 < length b \<and> length b < 2 ^ 15"

definition storable :: "(bytes \<Rightarrow> bool) \<Rightarrow> KeytabEntry \<Rightarrow> bool" where
  "storable gs e \<longleftrightarrow>
     0 < length (name_string (kte_principal e)) \<and> length (name_string (kte_principal e)) < 2 ^ 15 \<and>
     list_all (\<lambda>c. len16 c \<and> gs c) (name_string (kte_principal e)) \<and>
     len16 (kte_realm e) \<and> valid_utf8 (kte_realm e) \<and>
     i32_min \<le> name_type (kte_principal e) \<and> name_type (kte_principal e) \<le> i32_max \<and>
     - (2 ^ 15) \<le> keytype (kte_key e) \<and> keytype (kte_key e) < 2 ^ 15 \<and>
     len16 (key_bytes (kte_key e))"

lemma i16r_be16 [simp]: "i16r le False (be16 w @ s) = Inr (w, s)"
  by (simp add: i16r_def)

lemma i32r_be32 [simp]: "i32r le False (be32 w @ s) = Inr (w, s)"
  by (simp add: i32r_def)

lemma len16_sint: "len16 c \<Longrightarrow> sint (word_of_nat (length c) :: u16) = int (length c) \<and> c \<noteq> []"
  by (auto simp: len16_def sint_word_of_nat16)

interpretation kt_comp: codec
  "\<lambda>c. be16 (word_of_nat (length c)) @ c" "parse_comp le gs False" "\<lambda>c. len16 c \<and> gs c" for le gs
  by unfold_locales (simp add: parse_comp_def len16_sint)

lemma parse_entry_body:
  assumes "storable gs e"
  shows "parse_entry le gs (entry_body e @ z) False = Inr e"
proof -
  let ?c = "\<lambda>c. be16 (word_of_nat (length c)) @ c"
  let ?n = "name_string (kte_principal e)"
  have n: "sint (word_of_nat (length ?n) :: u16) = int (length ?n)"
    using assms by (simp add: storable_def sint_word_of_nat16)
  have wf: "list_all (\<lambda>c. len16 c \<and> gs c) ?n" and n0: "?n \<noteq> []"
    using assms by (auto simp: storable_def)
  have t: "sint (word_of_int (name_type (kte_principal e)) :: u32) = name_type (kte_principal e)"
    "sint (word_of_int (keytype (kte_key e)) :: u16) = keytype (kte_key e)"
    using assms by (auto simp: storable_def sint_word_of_int32 sint_word_of_int16)
  have l: "len16 (kte_realm e)" "len16 (key_bytes (kte_key e))" "valid_utf8 (kte_realm e)"
    using assms by (auto simp: storable_def)
  have rd: "rd_n (parse_comp le gs False) (length ?n) (concat (map ?c ?n) @ s) = Inr (?n, s)" for s
    by (rule kt_comp.rd_n_enc [OF wf])
  have one: "rd_take Kt_Format (Suc 0) (b # s) = Inr ([b], s)" for b s
    by (simp add: rd_take_def)
  show ?thesis
    using n0 by (simp add: parse_entry_def entry_body_def n rd t one Let_def
        len16_sint [OF l(1)] len16_sint [OF l(2)] l(3))
qed

lemma sum_list_bound: "\<forall>x\<in>set xs. f x \<le> (b::nat) \<Longrightarrow> sum_list (map f xs) \<le> length xs * b"
  by (induction xs) auto

lemma length_entry_body:
  assumes "storable gs e"
  shows "0 < length (entry_body e)" "length (entry_body e) < 2 ^ 31"
proof -
  show "0 < length (entry_body e)" by (simp add: entry_body_def)
  let ?n = "name_string (kte_principal e)"
  have "sum_list (map (\<lambda>c. length c + 2) ?n) \<le> length ?n * 32769"
    using assms by (intro sum_list_bound) (auto simp: storable_def len16_def list_all_iff)
  moreover have "length ?n < 2 ^ 15" "length (kte_realm e) < 2 ^ 15" "length (key_bytes (kte_key e)) < 2 ^ 15"
    using assms by (auto simp: storable_def len16_def)
  ultimately show "length (entry_body e) < 2 ^ 31"
    by (simp add: entry_body_def length_concat comp_def add.commute)
qed

section \<open>The file as a list of records\<close>

datatype frec = FHole (rbody: bytes) | FEnt (rbody: bytes)

fun enc_rec :: "frec \<Rightarrow> bytes" where
  "enc_rec (FHole b) = be32 (- word_of_nat (length b)) @ b"
| "enc_rec (FEnt b) = be32 (word_of_nat (length b)) @ b"

definition enc_recs :: "frec list \<Rightarrow> bytes" where
  "enc_recs rs = concat (map enc_rec rs)"

lemma enc_recs_simps [simp]:
  "enc_recs [] = []" "enc_recs (r # rs) = enc_rec r @ enc_recs rs"
  "enc_recs (as @ bs) = enc_recs as @ enc_recs bs"
  by (simp_all add: enc_recs_def)

lemma length_enc_rec [simp]: "length (enc_rec r) = 4 + length (rbody r)"
  by (cases r) auto

fun rentry :: "bool \<Rightarrow> (bytes \<Rightarrow> bool) \<Rightarrow> frec \<Rightarrow> KeytabEntry option" where
  "rentry le gs (FHole b) = None"
| "rentry le gs (FEnt b) = (case parse_entry le gs b False of Inr e \<Rightarrow> Some e | Inl _ \<Rightarrow> None)"

fun wf_rec :: "bool \<Rightarrow> (bytes \<Rightarrow> bool) \<Rightarrow> frec \<Rightarrow> bool" where
  "wf_rec le gs (FHole b) \<longleftrightarrow> 0 < length b \<and> length b < 2 ^ 31"
| "wf_rec le gs (FEnt b) \<longleftrightarrow> 0 < length b \<and> length b < 2 ^ 31 \<and> (\<exists>e. parse_entry le gs b False = Inr e)"

fun offs :: "bool \<Rightarrow> (bytes \<Rightarrow> bool) \<Rightarrow> nat \<Rightarrow> frec list \<Rightarrow> (nat \<times> nat \<times> KeytabEntry option) list" where
  "offs le gs pos [] = []"
| "offs le gs pos (r # rs) =
     (pos, length (rbody r), rentry le gs r) # offs le gs (pos + 4 + length (rbody r)) rs"

lemma sint_neg_len: "n < 2 ^ 31 \<Longrightarrow> sint (- word_of_nat n :: u32) = - int n"
  using sint_word_of_int32 [of "- int n"] by (simp add: i32_min_def i32_max_def)

lemma enc_rec_size:
  assumes "wf_rec le gs r"
  shows "sint (of_be32 (take 4 (enc_rec r @ s))) =
    (case r of FHole b \<Rightarrow> - int (length b) | FEnt b \<Rightarrow> int (length b))"
  using assms by (cases r) (auto simp: sint_neg_len sint_word_of_nat32)

lemma drop_rec: "drop (length pre + 4) (pre @ enc_rec r @ s) = rbody r @ s"
  by (cases r) auto

lemma records_loop_enc:
  "list_all (wf_rec le gs) rs \<Longrightarrow>
   records_loop le gs False (pre @ enc_recs rs) (length pre) = Inr (offs le gs (length pre) rs)"
proof (induction rs arbitrary: pre)
  case Nil
  then show ?case by (simp add: records_loop.simps)
next
  case (Cons r rs)
  let ?d = "pre @ enc_rec r @ enc_recs rs"
  have wf: "wf_rec le gs r" using Cons.prems by simp
  have IH: "records_loop le gs False ?d (length pre + 4 + length (rbody r)) =
    Inr (offs le gs (length pre + 4 + length (rbody r)) rs)"
    using Cons.IH [of "pre @ enc_rec r"] Cons.prems by (simp add: add.assoc)
  have sz: "sint (of_be32 (take 4 (drop (length pre) ?d))) =
    (case r of FHole b \<Rightarrow> - int (length b) | FEnt b \<Rightarrow> int (length b))"
    using enc_rec_size [OF wf, of "enc_recs rs"] by simp
  have body: "take (length (rbody r)) (drop (length pre + 4) ?d) = rbody r"
    by (simp only: drop_rec) simp
  have "records_loop le gs False ?d (length pre) = Inr (offs le gs (length pre) (r # rs))"
  proof (cases r)
    case (FHole b)
    then have "length b < 2 ^ 31" "b \<noteq> []" "sint (of_be32 (take 4 (drop (length pre) ?d))) = - int (length b)"
      using wf sz by auto
    then show ?thesis
      unfolding records_loop.simps [of le gs False ?d "length pre"]
      using IH by (simp add: Let_def i32_min_def FHole del: enc_rec.simps)
  next
    case (FEnt b)
    then obtain e where "parse_entry le gs b False = Inr e" using wf by auto
    moreover have "length b < 2 ^ 31" "b \<noteq> []" "sint (of_be32 (take 4 (drop (length pre) ?d))) = int (length b)"
      using wf sz FEnt by auto
    ultimately show ?thesis
      unfolding records_loop.simps [of le gs False ?d "length pre"] body [unfolded FEnt]
      using IH body by (simp add: Let_def i32_min_def FEnt del: enc_rec.simps)
  qed
  then show ?case by simp
qed

lemma find_slot_enc:
  assumes "list_all (wf_rec le gs) rs"
  shows "(\<exists>as b bs. rs = as @ FHole b # bs \<and> usize_of_i32 needed \<le> length b \<and>
            find_slot (pre @ enc_recs rs) needed (length pre) =
              Inr (length pre + length (enc_recs as), Some (length b))) \<or>
         find_slot (pre @ enc_recs rs) needed (length pre) =
           Inr (length pre + length (enc_recs rs), None)"
  using assms
proof (induction rs arbitrary: pre)
  case Nil
  then show ?case by (simp add: find_slot.simps)
next
  case (Cons r rs)
  let ?d = "pre @ enc_rec r @ enc_recs rs"
  have wf: "wf_rec le gs r" using Cons.prems by simp
  have sz: "sint (of_be32 (take 4 (drop (length pre) ?d))) =
    (case r of FHole b \<Rightarrow> - int (length b) | FEnt b \<Rightarrow> int (length b))"
    using enc_rec_size [OF wf, of "enc_recs rs"] by simp
  have len: "0 < length (rbody r)" "length (rbody r) < 2 ^ 31" using wf by (cases r; auto)+
  show ?case
  proof (cases "\<exists>b. r = FHole b \<and> usize_of_i32 needed \<le> length b")
    case True
    then obtain b where b: "r = FHole b" "usize_of_i32 needed \<le> length b" by blast
    then have "sint (of_be32 (take 4 (drop (length pre) ?d))) = - int (length b)" "b \<noteq> []" "length b < 2 ^ 31"
      using sz len by auto
    then have "find_slot ?d needed (length pre) = Inr (length pre, Some (length b))"
      unfolding find_slot.simps [of ?d needed "length pre"]
      using b by (simp add: Let_def i32_min_def del: enc_rec.simps)
    with b have "r # rs = [] @ FHole b # rs \<and> usize_of_i32 needed \<le> length b \<and>
        find_slot (pre @ enc_recs (r # rs)) needed (length pre) =
          Inr (length pre + length (enc_recs []), Some (length b))"
      by simp
    then show ?thesis by blast
  next
    case False
    have "find_slot ?d needed (length pre) = find_slot ?d needed (length pre + 4 + length (rbody r))"
      unfolding find_slot.simps [of ?d needed "length pre"]
      using sz len False by (cases r) (simp_all add: Let_def i32_min_def del: enc_rec.simps)
    then have step: "find_slot (pre @ enc_recs (r # rs)) needed (length pre) =
        find_slot ((pre @ enc_rec r) @ enc_recs rs) needed (length (pre @ enc_rec r))"
      by (simp add: add.assoc)
    have "list_all (wf_rec le gs) rs" using Cons.prems by simp
    from Cons.IH [OF this, of "pre @ enc_rec r"] show ?thesis
    proof (elim disjE exE conjE)
      fix as b bs
      assume rs: "rs = as @ FHole b # bs" "usize_of_i32 needed \<le> length b"
        and f: "find_slot ((pre @ enc_rec r) @ enc_recs rs) needed (length (pre @ enc_rec r)) =
          Inr (length (pre @ enc_rec r) + length (enc_recs as), Some (length b))"
      have "find_slot (pre @ enc_recs (r # rs)) needed (length pre) =
            Inr (length pre + length (enc_recs (r # as)), Some (length b))"
        unfolding step f by simp
      moreover have "r # rs = (r # as) @ FHole b # bs" using rs by simp
      ultimately show ?thesis using rs(2) by blast
    next
      assume "find_slot ((pre @ enc_rec r) @ enc_recs rs) needed (length (pre @ enc_rec r)) =
        Inr (length (pre @ enc_rec r) + length (enc_recs rs), None)"
      then show ?thesis
        by (intro disjI2) (simp only: step, simp)
    qed
  qed
qed

section \<open>The file keytab implements the interface\<close>

definition wf_file :: "bool \<Rightarrow> (bytes \<Rightarrow> bool) \<Rightarrow> FileKeytab \<Rightarrow> bool" where
  "wf_file le gs f \<longleftrightarrow>
     f = None \<or> (\<exists>rs. f = Some ([0x05, 0x02] @ enc_recs rs) \<and> list_all (wf_rec le gs) rs)"

definition rents :: "bool \<Rightarrow> (bytes \<Rightarrow> bool) \<Rightarrow> frec list \<Rightarrow> KeytabEntry list" where
  "rents le gs rs = List.map_filter (rentry le gs) rs"

lemma rents_simps [simp]:
  "rents le gs [] = []"
  "rents le gs (r # rs) = (case rentry le gs r of None \<Rightarrow> rents le gs rs | Some e \<Rightarrow> e # rents le gs rs)"
  "rents le gs (as @ bs) = rents le gs as @ rents le gs bs"
  by (auto simp: rents_def map_filter_def)

lemma map_filter_offs: "List.map_filter (\<lambda>(_, _, e). e) (offs le gs pos rs) = rents le gs rs"
  by (induction rs arbitrary: pos) (auto simp: map_filter_def split: option.splits)

lemma header_vno: "of_be16 [0x05, 0x02] = 0x0502"
  by (simp add: of_be16_def be_nat_def)

lemma records_file:
  assumes "list_all (wf_rec le gs) rs"
  shows "records le gs (Some ([0x05, 0x02] @ enc_recs rs)) = Inr (offs le gs 2 rs)"
  using records_loop_enc [OF assms, of "[0x05, 0x02]"] header_vno
  by (simp add: records_def numeral_2_eq_2)

lemma file_entries_enc:
  assumes "list_all (wf_rec le gs) rs"
  shows "file_entries le gs (Some ([0x05, 0x02] @ enc_recs rs)) = Inr (rents le gs rs)"
  by (simp only: file_entries_def records_file [OF assms] rbind.simps map_filter_offs)

lemma ensure_writable_enc: "ensure_writable (Some ([0x05, 0x02] @ enc_recs rs)) = Inr ()"
  using header_vno by (simp add: ensure_writable_def)

lemma overwrite_rec:
  assumes "length new = length (enc_rec r)"
  shows "overwrite (pre @ enc_recs as @ enc_rec r @ s) (length pre + length (enc_recs as)) new =
         pre @ enc_recs as @ new @ s"
  using assms by (simp add: overwrite_def)

lemma usize_of_i32_len: "n < 2 ^ 31 \<Longrightarrow> usize_of_i32 (word_of_nat n) = n"
  by (simp add: usize_of_i32_def sint_word_of_nat32)

lemma rentry_body:
  assumes "storable gs e" "length (entry_body e @ z) < 2 ^ 31"
  shows "rentry le gs (FEnt (entry_body e @ z)) = Some e" "wf_rec le gs (FEnt (entry_body e @ z))"
  using assms length_entry_body [OF assms(1)] by (auto simp: parse_entry_body)

lemma file_add_enc:
  assumes wf: "list_all (wf_rec le gs) rs" and st: "storable gs e"
    and data: "data = [0x05, 0x02] @ enc_recs rs" and f: "f = Some data \<or> f = None \<and> rs = []"
  shows "\<exists>rs'. file_add_entry f e = Some (Inr (Some ([0x05, 0x02] @ enc_recs rs'))) \<and>
    list_all (wf_rec le gs) rs' \<and> mset (rents le gs rs') = add_mset e (mset (rents le gs rs))"
proof -
  let ?hd = "[0x05, 0x02] :: bytes"
  let ?body = "entry_body e"
  let ?needed = "word_of_nat (length ?body) :: u32"
  note len = length_entry_body [OF st]
  have n: "usize_of_i32 ?needed = length ?body" by (rule usize_of_i32_len [OF len(2)])
  have ew: "ensure_writable f = Inr ()"
    using f data ensure_writable_enc [of rs] by (auto simp: ensure_writable_def)
  have d: "(case f of None \<Rightarrow> [0x05, 0x02] | Some d \<Rightarrow> d) = data"
    using f data by auto
  have add: "file_add_entry f e = (case find_slot data ?needed 2 of
          Inl err \<Rightarrow> Some (Inl err)
        | Inr (pos, Some hole) \<Rightarrow>
            if length data < pos + 4 + length ?body \<or> length data < pos + 4 + hole \<or> hole < length ?body
            then None
            else Some (Inr (Some (overwrite data pos
                   (be32 (word_of_nat hole) @ ?body @ replicate (hole - length ?body) 0))))
        | Inr (pos, None) \<Rightarrow>
            if pos + 4 \<le> length data
            then Some (Inr (Some (take pos data @ (be32 ?needed @ ?body) @ drop (pos + 4) data)))
            else Some (Inr (Some (data @ be32 ?needed @ ?body))))"
    unfolding file_add_entry_def ew d Let_def sum.case by (rule refl)
  have two: "length ?hd = 2" by simp
  from find_slot_enc [OF wf, of ?needed ?hd, unfolded two n, folded data] show ?thesis
  proof (elim disjE exE conjE)
    fix as b bs
    assume rs: "rs = as @ FHole b # bs" and fit: "length ?body \<le> length b"
      and slot: "find_slot data ?needed 2 = Inr (2 + length (enc_recs as), Some (length b))"
    let ?new = "?body @ replicate (length b - length ?body) 0"
    have lb: "length b < 2 ^ 31" "b \<noteq> []" using wf rs by auto
    have ln: "length ?new = length b" using fit by simp
    have "overwrite data (2 + length (enc_recs as)) (enc_rec (FEnt ?new)) =
        ?hd @ enc_recs as @ enc_rec (FEnt ?new) @ enc_recs bs"
      using overwrite_rec [of "enc_rec (FEnt ?new)" "FHole b" ?hd as "enc_recs bs"] ln rs data
      by simp
    moreover have "enc_rec (FEnt ?new) = be32 (word_of_nat (length b)) @ ?new"
      using ln by simp
    ultimately have "file_add_entry f e = Some (Inr (Some (?hd @ enc_recs (as @ FEnt ?new # bs))))"
      using fit rs data unfolding add slot by simp
    moreover have "rentry le gs (FEnt ?new) = Some e" "wf_rec le gs (FEnt ?new)"
      using rentry_body [OF st, of "replicate (length b - length ?body) 0" le] ln lb by auto
    ultimately show ?thesis
      using wf rs by (intro exI [of _ "as @ FEnt ?new # bs"]) (simp del: rentry.simps(2) wf_rec.simps enc_rec.simps)
  next
    assume slot: "find_slot data ?needed 2 = Inr (2 + length (enc_recs rs), None)"
    have "file_add_entry f e = Some (Inr (Some (?hd @ enc_recs (rs @ [FEnt ?body]))))"
      unfolding add slot using data by simp
    moreover have "rentry le gs (FEnt ?body) = Some e" "wf_rec le gs (FEnt ?body)"
      using rentry_body [OF st, of "[]" le] len by auto
    ultimately show ?thesis
      using wf by (intro exI [of _ "rs @ [FEnt ?body]"]) (simp del: rentry.simps wf_rec.simps enc_rec.simps)
  qed
qed

lemma find_offs:
  assumes "position (\<lambda>x. same_entry x e) (rents le gs rs) = Some i"
  shows "\<exists>as b bs x. rs = as @ FEnt b # bs \<and> rentry le gs (FEnt b) = Some x \<and>
    find (\<lambda>(_, _, r). case r of None \<Rightarrow> False | Some x \<Rightarrow> same_entry x e) (offs le gs pos rs) =
       Some (pos + length (enc_recs as), length b, Some x) \<and>
    take i (rents le gs rs) @ drop (i + 1) (rents le gs rs) = rents le gs as @ rents le gs bs"
  using assms
proof (induction rs arbitrary: pos i)
  case (Cons r rs)
  consider (none) "rentry le gs r = None"
    | (hit) b x where "r = FEnt b" "rentry le gs (FEnt b) = Some x" "same_entry x e"
    | (miss) x where "rentry le gs r = Some x" "\<not> same_entry x e"
    by (cases r; cases "rentry le gs r") (auto simp del: rentry.simps(2))
  then show ?case
  proof cases
    case hit
    then have "i = 0" using Cons.prems by (simp del: rentry.simps(2))
    with hit have "r # rs = [] @ FEnt b # rs \<and> rentry le gs (FEnt b) = Some x \<and>
      find (\<lambda>(_, _, r). case r of None \<Rightarrow> False | Some x \<Rightarrow> same_entry x e) (offs le gs pos (r # rs)) =
         Some (pos + length (enc_recs []), length b, Some x) \<and>
      take i (rents le gs (r # rs)) @ drop (i + 1) (rents le gs (r # rs)) = rents le gs [] @ rents le gs rs"
      by (simp del: rentry.simps(2))
    then show ?thesis by blast
  next
    case none
    then have p: "position (\<lambda>x. same_entry x e) (rents le gs rs) = Some i"
      using Cons.prems by simp
    obtain as b bs x where 1: "rs = as @ FEnt b # bs" "rentry le gs (FEnt b) = Some x"
      "find (\<lambda>(_, _, r). case r of None \<Rightarrow> False | Some x \<Rightarrow> same_entry x e)
         (offs le gs (pos + 4 + length (rbody r)) rs) =
         Some (pos + 4 + length (rbody r) + length (enc_recs as), length b, Some x)"
      "take i (rents le gs rs) @ drop (i + 1) (rents le gs rs) = rents le gs as @ rents le gs bs"
      using Cons.IH [OF p] by blast
    show ?thesis
      by (rule exI [of _ "r # as"], rule exI [of _ b], rule exI [of _ bs], rule exI [of _ x])
        (use 1(2-4) none in \<open>simp add: 1(1) del: rentry.simps(2) enc_rec.simps rents_simps(3)\<close>)
  next
    case miss
    then obtain j where j: "i = Suc j" "position (\<lambda>x. same_entry x e) (rents le gs rs) = Some j"
      using Cons.prems by auto
    obtain as b bs y where 1: "rs = as @ FEnt b # bs" "rentry le gs (FEnt b) = Some y"
      "find (\<lambda>(_, _, r). case r of None \<Rightarrow> False | Some x \<Rightarrow> same_entry x e)
         (offs le gs (pos + 4 + length (rbody r)) rs) =
         Some (pos + 4 + length (rbody r) + length (enc_recs as), length b, Some y)"
      "take j (rents le gs rs) @ drop (j + 1) (rents le gs rs) = rents le gs as @ rents le gs bs"
      using Cons.IH [OF j(2)] by blast
    show ?thesis
      by (rule exI [of _ "r # as"], rule exI [of _ b], rule exI [of _ bs], rule exI [of _ y])
        (use 1(2-4) miss j in \<open>simp add: 1(1) del: rentry.simps(2) enc_rec.simps rents_simps(3)\<close>)
  qed
qed simp

lemma find_offs_none:
  "position (\<lambda>x. same_entry x e) (rents le gs rs) = None \<Longrightarrow>
   find (\<lambda>(_, _, r). case r of None \<Rightarrow> False | Some x \<Rightarrow> same_entry x e) (offs le gs pos rs) = None"
  by (induction rs arbitrary: pos) (auto split: option.splits if_splits simp del: rentry.simps)

lemma file_remove_enc:
  assumes wf: "list_all (wf_rec le gs) rs"
    and p: "position (\<lambda>x. same_entry x e) (rents le gs rs) = Some i"
  shows "\<exists>rs'. file_remove_entry le gs (Some ([0x05, 0x02] @ enc_recs rs)) e =
      Inr (Some ([0x05, 0x02] @ enc_recs rs')) \<and> list_all (wf_rec le gs) rs' \<and>
    rents le gs rs' = take i (rents le gs rs) @ drop (i + 1) (rents le gs rs)"
proof -
  let ?hd = "[0x05, 0x02] :: bytes"
  obtain as b bs x where rs: "rs = as @ FEnt b # bs"
    and f: "find (\<lambda>(_, _, r). case r of None \<Rightarrow> False | Some x \<Rightarrow> same_entry x e) (offs le gs 2 rs) =
         Some (2 + length (enc_recs as), length b, Some x)"
    and es: "take i (rents le gs rs) @ drop (i + 1) (rents le gs rs) = rents le gs as @ rents le gs bs"
    using find_offs [OF p, of 2] by blast
  let ?hole = "FHole (replicate (length b) 0)"
  have hole: "enc_rec ?hole = be32 (- word_of_nat (length b)) @ replicate (length b) 0"
    by simp
  have "overwrite (?hd @ enc_recs rs) (2 + length (enc_recs as)) (enc_rec ?hole) =
      ?hd @ enc_recs as @ enc_rec ?hole @ enc_recs bs"
    using overwrite_rec [of "enc_rec ?hole" "FEnt b" ?hd as "enc_recs bs"] rs
    by (simp del: enc_rec.simps)
  then have "file_remove_entry le gs (Some (?hd @ enc_recs rs)) e =
      Inr (Some (?hd @ enc_recs (as @ ?hole # bs)))"
    by (simp only: file_remove_entry_def ensure_writable_enc rbind.simps option.case
        records_file [OF wf] f prod.case hole enc_recs_simps)
  moreover have "list_all (wf_rec le gs) (as @ ?hole # bs)"
    using wf rs by auto
  moreover have "rents le gs (as @ ?hole # bs) = rents le gs as @ rents le gs bs" by simp
  ultimately show ?thesis using es by metis
qed

lemma file_entries_None [simp]: "file_entries le gs None = Inr []"
  by (simp add: file_entries_def records_def map_filter_def)

interpretation fkt: keytab
  "file_entries le gs" file_add_entry "file_remove_entry le gs" "wf_file le gs" "storable gs" for le gs
proof
  fix s :: FileKeytab
  assume "wf_file le gs s"
  then show "\<exists>es. file_entries le gs s = Inr es"
    by (auto simp: wf_file_def file_entries_enc [simplified])
next
  fix s :: FileKeytab and e es
  assume wf: "wf_file le gs s" and st: "storable gs e" and es: "file_entries le gs s = Inr es"
  obtain rs where rs: "list_all (wf_rec le gs) rs"
    "s = Some ([0x05, 0x02] @ enc_recs rs) \<or> s = None \<and> rs = []" "rents le gs rs = es"
    using wf es file_entries_enc [of le gs]
    by (auto simp: wf_file_def simp del: append_Cons append_Nil)
  obtain rs' where "file_add_entry s e = Some (Inr (Some ([0x05, 0x02] @ enc_recs rs')))"
    "list_all (wf_rec le gs) rs'" "mset (rents le gs rs') = add_mset e (mset es)"
    using file_add_enc [OF rs(1) st refl rs(2)] rs(3) by blast
  then show "\<exists>s' es'. file_add_entry s e = Some (Inr s') \<and> wf_file le gs s' \<and>
      file_entries le gs s' = Inr es' \<and> mset es' = add_mset e (mset es)"
    using file_entries_enc wf_file_def by blast
next
  fix s :: FileKeytab and e es i
  assume wf: "wf_file le gs s" and es: "file_entries le gs s = Inr es"
    and p: "position (\<lambda>x. same_entry x e) es = Some i"
  obtain rs where rs: "list_all (wf_rec le gs) rs" "s = Some ([0x05, 0x02] @ enc_recs rs)" "rents le gs rs = es"
    using wf es p file_entries_enc [of le gs]
    by (auto simp: wf_file_def simp del: append_Cons append_Nil)
  then show "\<exists>s'. file_remove_entry le gs s e = Inr s' \<and> wf_file le gs s' \<and>
      file_entries le gs s' = Inr (take i es @ drop (i + 1) es)"
    using file_remove_enc [OF rs(1), of e i] p file_entries_enc wf_file_def by metis
next
  fix s :: FileKeytab and e es
  assume wf: "wf_file le gs s" and es: "file_entries le gs s = Inr es"
    and p: "position (\<lambda>x. same_entry x e) es = None"
  show "\<exists>err. file_remove_entry le gs s e = Inl err"
  proof (cases s)
    case None
    then show ?thesis by (simp add: file_remove_entry_def ensure_writable_def)
  next
    case (Some d)
    then obtain rs where rs: "list_all (wf_rec le gs) rs" "s = Some ([0x05, 0x02] @ enc_recs rs)" "rents le gs rs = es"
      using wf es file_entries_enc [of le gs]
      by (auto simp: wf_file_def simp del: append_Cons append_Nil)
    then show ?thesis
      using p find_offs_none [of e le gs rs 2]
      by (simp only: file_remove_entry_def ensure_writable_enc rbind.simps option.case records_file) simp
  qed
qed

lemma fkt_get_entry [simp]: "fkt.get_entry le gs = file_get_entry le gs"
  by (intro ext) (simp add: fkt.get_entry_def file_get_entry_def)

section \<open>Properties\<close>

text \<open>
  C37: a keytab entry written by \<open>entry_body\<close> is read back unchanged by \<open>parse_entry\<close>, also when it
  is followed by the padding of a reused hole.
\<close>

theorem keytab_entry_roundtrip:
  assumes "storable gs e"
  shows "parse_entry le gs (entry_body e @ z) False = Inr e"
  using assms by (rule parse_entry_body)

lemma storable_example: "storable (\<lambda>_. True) example_entry"
  using valid_utf8_ascii [of "[0x52]"]
  by (simp add: storable_def example_entry_def len16_def i32_min_def i32_max_def)

theorem keytab_entry_roundtrip_witness:
  "parse_entry True (\<lambda>_. True) (entry_body example_entry @ [0, 0]) False = Inr example_entry"
  by (rule keytab_entry_roundtrip [OF storable_example])

text \<open>
  C15: adding a storable entry to a well-formed (or missing) FILE keytab that has no entry for the
  same principal, kvno and enctype succeeds without a panic, keeps the file well formed, and makes
  the key source of the AP exchange return the added key, whether the entry was appended or
  written into the hole of a deleted entry. Removing it leaves the entries as they were.
\<close>

theorem file_add_lookup_remove:
  assumes "wf_file le gs f" "storable gs e" "file_entries le gs f = Inr es"
    "\<forall>x\<in>set es. \<not> same_entry x e" "kte_kvno e \<noteq> 0"
  shows "\<exists>f' f'' es''. file_add_entry f e = Some (Inr f') \<and> wf_file le gs f' \<and>
    ap_key_for (file_get_entry le gs f') (kte_principal e) (kte_realm e) (Some (uint (kte_kvno e)))
      (keytype (kte_key e)) = Inr (kte_key e) \<and>
    file_remove_entry le gs f' e = Inr f'' \<and> file_entries le gs f'' = Inr es'' \<and> mset es'' = mset es"
proof -
  have "valid_utf8 (kte_realm e)" using assms(2) by (simp add: storable_def)
  with fkt.ap_key_after_add [OF assms] fkt.remove_after_add [OF assms(1-4)] show ?thesis
    by auto
qed

theorem file_add_lookup_remove_witness:
  "\<exists>f' f'' es''. file_add_entry (Some ([0x05, 0x02] @ enc_recs [FHole (replicate 64 0)])) example_entry = Some (Inr f') \<and>
    wf_file True (\<lambda>_. True) f' \<and>
    ap_key_for (file_get_entry True (\<lambda>_. True) f') (kte_principal example_entry) [0x52] (Some 3) 18 =
      Inr \<lparr>keytype = 18, key_bytes = [1, 2]\<rparr> \<and>
    file_remove_entry True (\<lambda>_. True) f' example_entry = Inr f'' \<and>
    file_entries True (\<lambda>_. True) f'' = Inr es'' \<and> mset es'' = {#}"
proof -
  have wf: "list_all (wf_rec True (\<lambda>_. True)) [FHole (replicate 64 0)]" by simp
  then have "wf_file True (\<lambda>_. True) (Some ([0x05, 0x02] @ enc_recs [FHole (replicate 64 0)]))"
    unfolding wf_file_def by blast
  from file_add_lookup_remove [OF this storable_example file_entries_enc [OF wf]]
  show ?thesis by (simp add: example_entry_def)
qed

text \<open>
  on a truncated file whose last record header announces a hole that the file does not
  contain, \<open>add_entry\<close> panics (it slices past the end) where reading the same file is a format error.
\<close>

theorem add_entry_truncated_hole_panics:
  assumes "length (entry_body e) \<le> 256"
  shows "file_add_entry (Some ([0x05, 0x02] @ be32 (- 256))) e = None \<and>
    file_entries le gs (Some ([0x05, 0x02] @ be32 (- 256))) = Inl Kt_Format"
proof
  have s: "sint (- 256 :: u32) = - 256"
    using sint_neg_len [of 256] by simp
  have be: "take 4 (be32 (- 256)) = be32 (- 256)" by simp
  have u: "usize_of_i32 (word_of_nat (length (entry_body e))) = length (entry_body e)"
    using assms by (intro usize_of_i32_len) simp
  have w: "ensure_writable (Some ([0x05, 0x02] @ be32 (- 256))) = Inr ()"
    using header_vno by (simp add: ensure_writable_def)
  have "find_slot ([0x05, 0x02] @ be32 (- 256)) (word_of_nat (length (entry_body e))) 2 = Inr (2, Some 256)"
    unfolding find_slot.simps [of "[0x05, 0x02] @ be32 (- 256)" _ 2]
    using assms u s be by (simp add: numeral_2_eq_2 i32_min_def)
  then show "file_add_entry (Some ([0x05, 0x02] @ be32 (- 256))) e = None"
    using w by (simp add: file_add_entry_def Let_def)
  have "records_loop le gs False ([0x05, 0x02] @ be32 (- 256)) 2 = Inl Kt_Format"
    unfolding records_loop.simps [of le gs False "[0x05, 0x02] @ be32 (- 256)" 2]
    using s be by (simp add: numeral_2_eq_2 i32_min_def)
  then show "file_entries le gs (Some ([0x05, 0x02] @ be32 (- 256))) = Inl Kt_Format"
    using header_vno by (simp add: file_entries_def records_def)
qed

theorem add_entry_truncated_hole_panics_witness:
  "file_add_entry (Some ([0x05, 0x02] @ be32 (- 256))) example_entry = None \<and>
   file_entries True (\<lambda>_. True) (Some ([0x05, 0x02] @ be32 (- 256))) = Inl Kt_Format"
proof -
  have "length (entry_body example_entry) \<le> 256"
    by (simp add: entry_body_def example_entry_def)
  from add_entry_truncated_hole_panics [OF this] show ?thesis by blast
qed

end
