(* ===== verification/Kdb_Entry.thy ===== *)
theory Kdb_Entry
  imports Keytab
begin

text \<open>
  Principal database entries and the in-memory store, \<open>src/src/kdc/db.rs\<close>: long-term keys and the
  key search, salts, password-derived keys, \<open>MemoryStore\<close> with its insertion and keytab import.

  Key derivation (\<open>string_to_key\<close> of the enctype profile) is the argument \<open>s2k\<close>, from an
  enctype, a password and a salt.
\<close>

section \<open>Entries\<close>

record KeyEntry =
  ke_kvno :: u32
  ke_key :: EncryptionKey
  ke_salt :: "bytes option"
  ke_s2kparams :: "bytes option"

record PrincipalEntry =
  pe_name :: PrincipalName
  pe_realm :: bytes
  attributes :: u32
  max_life :: "Duration option"
  max_renewable_life :: "Duration option"
  expiration :: "KerberosTime option"
  pw_expiration :: "KerberosTime option"
  pe_keys :: "KeyEntry list"
  allowed_to_delegate_to :: "bytes list"
  allowed_to_delegate_from :: "bytes list"
  require_auth :: "bytes option"
  pe_policy :: "bytes option"
  security_epoch :: u64
  last_admin_unlock :: "KerberosTime option"

datatype KvnoSel = Highest | Any | Exact u32

text \<open>\<open>iter().max()\<close> over the kvnos.\<close>

definition current_kvno :: "PrincipalEntry \<Rightarrow> u32 option" where
  "current_kvno e = (case map ke_kvno (pe_keys e) of [] \<Rightarrow> None | k # ks \<Rightarrow> Some (fold max ks k))"

definition find_key :: "PrincipalEntry \<Rightarrow> int option \<Rightarrow> KvnoSel \<Rightarrow> (int \<Rightarrow> bool) \<Rightarrow> KeyEntry option" where
  "find_key e etype sel permitted =
     (let search = (\<lambda>want. find (\<lambda>k. is_none_or etype (\<lambda>t. keytype (ke_key k) = t) \<and>
            is_none_or want (\<lambda>w. ke_kvno k = w) \<and> permitted (keytype (ke_key k))) (pe_keys e))
      in case sel of
           Highest \<Rightarrow> (case current_kvno e of None \<Rightarrow> None | Some k \<Rightarrow> search (Some k))
         | Any \<Rightarrow> search None
         | Exact k \<Rightarrow> search (Some k))"

section \<open>Salts and password keys\<close>

datatype SaltType = Normal | NoRealm | OnlyRealm

definition component_bytes :: "PrincipalName \<Rightarrow> bytes list" where
  "component_bytes n = name_string n"

definition default_salt :: "bytes \<Rightarrow> bytes list \<Rightarrow> bytes" where
  "default_salt realm comps = realm @ concat comps"

definition salt_bytes :: "PrincipalName \<Rightarrow> bytes \<Rightarrow> SaltType \<Rightarrow> bytes" where
  "salt_bytes n realm t = (case t of
     Normal \<Rightarrow> default_salt realm (component_bytes n)
   | NoRealm \<Rightarrow> concat (component_bytes n)
   | OnlyRealm \<Rightarrow> realm)"

definition salt_for :: "PrincipalEntry \<Rightarrow> KeyEntry \<Rightarrow> bytes" where
  "salt_for e k = (case ke_salt k of
     Some s \<Rightarrow> s
   | None \<Rightarrow> default_salt (pe_realm e) (component_bytes (pe_name e)))"

text \<open>The enctypes of the registry (\<open>ETYPE_REGISTRY\<close>): 17, 18, 19, 20.\<close>

definition find_etype :: "int \<Rightarrow> CryptoError + int" where
  "find_etype etype = (if etype \<in> {17, 18, 19, 20} then Inr etype else Inl UnsupportedEtype)"

datatype Krb5Error = Krb5_UnsupportedEtype int | Krb5_Crypto CryptoError | Krb5_Keytab KtError

fun keys_from_password ::
  "(int \<Rightarrow> bytes \<Rightarrow> bytes \<Rightarrow> CryptoError + bytes) \<Rightarrow> PrincipalName \<Rightarrow> bytes \<Rightarrow> bytes \<Rightarrow> u32 \<Rightarrow>
   (int \<times> SaltType) list \<Rightarrow> Krb5Error + KeyEntry list" where
  "keys_from_password s2k n realm password kvno [] = Inr []"
| "keys_from_password s2k n realm password kvno ((etype, salt_type) # keysalts) =
     (case find_etype etype of Inl _ \<Rightarrow> Inl (Krb5_UnsupportedEtype etype) | Inr profile \<Rightarrow>
      let salt = salt_bytes n realm salt_type in
      case s2k profile password salt of Inl err \<Rightarrow> Inl (Krb5_Crypto err) | Inr key \<Rightarrow>
      rbind (keys_from_password s2k n realm password kvno keysalts) (\<lambda>keys.
        Inr (\<lparr>ke_kvno = kvno, ke_key = \<lparr>keytype = etype, key_bytes = key\<rparr>,
              ke_salt = (if salt_type \<noteq> Normal then Some salt else None), ke_s2kparams = None\<rparr> # keys)))"

text \<open>
  \<open>random_keys\<close>; \<open>rnd i\<close> is what \<open>random_to_key\<close> makes of the bytes drawn for the \<open>i\<close>-th key.
\<close>

fun random_keys :: "(nat \<Rightarrow> int \<Rightarrow> CryptoError + bytes) \<Rightarrow> u32 \<Rightarrow> int list \<Rightarrow> nat \<Rightarrow> Krb5Error + KeyEntry list" where
  "random_keys rnd kvno [] i = Inr []"
| "random_keys rnd kvno (etype # etypes) i =
     (case find_etype etype of Inl _ \<Rightarrow> Inl (Krb5_UnsupportedEtype etype) | Inr profile \<Rightarrow>
      case rnd i profile of Inl err \<Rightarrow> Inl (Krb5_Crypto err) | Inr key \<Rightarrow>
      rbind (random_keys rnd kvno etypes (Suc i)) (\<lambda>keys.
        Inr (\<lparr>ke_kvno = kvno, ke_key = \<lparr>keytype = etype, key_bytes = key\<rparr>,
              ke_salt = None, ke_s2kparams = None\<rparr> # keys)))"

section \<open>Policies\<close>

text \<open>\<open>Policy\<close> of \<open>src/src/kdc/store.rs\<close>.\<close>

record PolicyTlData =
  tl_kind :: u16
  tl_content :: bytes

record Policy =
  pol_name :: bytes
  pw_min_life :: u32
  pw_max_life :: u32
  pw_min_length :: u32
  pw_min_classes :: u32
  pw_history_num :: u32
  pw_max_fail :: u32
  pw_failcnt_interval :: u32
  pw_lockout_duration :: u32
  pol_attributes :: u32
  pol_max_life :: u32
  pol_max_renewable_life :: u32
  allowed_keysalts :: "bytes option"
  pol_security_epoch :: u64
  pol_tl_data :: "PolicyTlData list"

section \<open>The in-memory store\<close>

type_synonym StoreKey = "bytes list \<times> bytes"

definition store_key :: "PrincipalName \<Rightarrow> bytes \<Rightarrow> StoreKey" where
  "store_key n realm = (component_bytes n, realm)"

record MemoryStore =
  ms_entries :: "StoreKey \<rightharpoonup> PrincipalEntry"
  ms_policies :: "bytes \<rightharpoonup> Policy"

text \<open>A stable sort by descending kvno: \<open>sort_by_key(|k| Reverse(k.kvno))\<close>.\<close>

definition sort_keys :: "KeyEntry list \<Rightarrow> KeyEntry list" where
  "sort_keys ks = sort_key (\<lambda>k. - int (unat (ke_kvno k))) ks"

definition store_insert :: "MemoryStore \<Rightarrow> PrincipalEntry \<Rightarrow> MemoryStore" where
  "store_insert st e = st\<lparr>ms_entries := (ms_entries st)
     (store_key (pe_name e) (pe_realm e) \<mapsto> e\<lparr>pe_keys := sort_keys (pe_keys e)\<rparr>)\<rparr>"

definition store_get :: "MemoryStore \<Rightarrow> PrincipalName \<Rightarrow> bytes \<Rightarrow> PrincipalEntry option" where
  "store_get st n realm = ms_entries st (store_key n realm)"

definition insert_policy :: "MemoryStore \<Rightarrow> Policy \<Rightarrow> MemoryStore" where
  "insert_policy st p = st\<lparr>ms_policies := (ms_policies st)(pol_name p \<mapsto> p)\<rparr>"

definition store_policy :: "MemoryStore \<Rightarrow> bytes \<Rightarrow> Policy option" where
  "store_policy st n = ms_policies st n"

definition new_entry :: "PrincipalName \<Rightarrow> bytes \<Rightarrow> u32 \<Rightarrow> KeyEntry list \<Rightarrow> PrincipalEntry" where
  "new_entry n realm attrs keys =
     \<lparr>pe_name = n, pe_realm = realm, attributes = attrs, max_life = None, max_renewable_life = None,
      expiration = None, pw_expiration = None, pe_keys = keys, allowed_to_delegate_to = [],
      allowed_to_delegate_from = [], require_auth = None, pe_policy = None, security_epoch = 0,
      last_admin_unlock = None\<rparr>"

definition add_with_password ::
  "(int \<Rightarrow> bytes \<Rightarrow> bytes \<Rightarrow> CryptoError + bytes) \<Rightarrow> MemoryStore \<Rightarrow> PrincipalName \<Rightarrow> bytes \<Rightarrow> bytes \<Rightarrow>
   u32 \<Rightarrow> int list \<Rightarrow> u32 \<Rightarrow> Krb5Error + MemoryStore" where
  "add_with_password s2k st n realm password kvno etypes attrs =
     rbind (keys_from_password s2k n realm password kvno (map (\<lambda>e. (e, Normal)) etypes)) (\<lambda>keys.
       Inr (store_insert st (new_entry n realm attrs keys)))"

definition add_random_key ::
  "(nat \<Rightarrow> int \<Rightarrow> CryptoError + bytes) \<Rightarrow> MemoryStore \<Rightarrow> PrincipalName \<Rightarrow> bytes \<Rightarrow> u32 \<Rightarrow> int list \<Rightarrow> u32 \<Rightarrow>
   Krb5Error + MemoryStore" where
  "add_random_key rnd st n realm kvno etypes attrs =
     rbind (random_keys rnd kvno etypes 0) (\<lambda>keys. Inr (store_insert st (new_entry n realm attrs keys)))"

text \<open>
  The grouping loop of \<open>import_keytab\<close>: an entry's key goes to the first group of the same
  principal, or starts a new group.
\<close>

fun group_push :: "u32 \<Rightarrow> KeytabEntry \<Rightarrow> PrincipalEntry list \<Rightarrow> PrincipalEntry list" where
  "group_push attrs e [] =
     [new_entry (kte_principal e) (kte_realm e) attrs
        [\<lparr>ke_kvno = kte_kvno e, ke_key = kte_key e, ke_salt = None, ke_s2kparams = None\<rparr>]]"
| "group_push attrs e (g # gs) =
     (if store_key (pe_name g) (pe_realm g) = store_key (kte_principal e) (kte_realm e)
      then g\<lparr>pe_keys := pe_keys g @
        [\<lparr>ke_kvno = kte_kvno e, ke_key = kte_key e, ke_salt = None, ke_s2kparams = None\<rparr>]\<rparr> # gs
      else g # group_push attrs e gs)"

definition import_keytab ::
  "MemoryStore \<Rightarrow> KtError + KeytabEntry list \<Rightarrow> u32 \<Rightarrow> Krb5Error + MemoryStore" where
  "import_keytab st entries attrs = (case entries of
     Inl err \<Rightarrow> Inl (Krb5_Keytab err)
   | Inr es \<Rightarrow>
       let grouped = foldl (\<lambda>gs e. group_push attrs e gs) [] es
       in Inr (foldl store_insert st grouped))"

section \<open>Lemmas\<close>

lemma fold_max_in: "fold max ks k \<in> insert k (set ks)" for k :: "'a :: linorder"
proof (induction ks arbitrary: k)
  case (Cons y ks)
  from Cons.IH [of "max y k"] show ?case by (auto simp: max_def split: if_splits)
qed simp

lemma current_kvno_Some:
  "current_kvno e = Some k \<longleftrightarrow>
     k \<in> ke_kvno ` set (pe_keys e) \<and> (\<forall>x\<in>set (pe_keys e). ke_kvno x \<le> k)"
proof (cases "pe_keys e")
  case (Cons x xs)
  have "fold max (map ke_kvno xs) (ke_kvno x) \<in> ke_kvno ` set (pe_keys e)"
    using fold_max_in [of "map ke_kvno xs" "ke_kvno x"] Cons by auto
  moreover have "ke_kvno y \<le> fold max (map ke_kvno xs) (ke_kvno x)" if "y \<in> set (pe_keys e)" for y
    using that Cons fold_max_ge [of "ke_kvno x" "map ke_kvno xs"] by auto
  moreover have "current_kvno e = Some (fold max (map ke_kvno xs) (ke_kvno x))"
    using Cons by (simp add: current_kvno_def)
  ultimately show ?thesis by (auto intro: antisym)
qed (simp add: current_kvno_def)

lemma current_kvno_None: "current_kvno e = None \<longleftrightarrow> pe_keys e = []"
  by (auto simp: current_kvno_def split: list.splits)

definition pe_key :: "PrincipalEntry \<Rightarrow> StoreKey" where
  "pe_key g = store_key (pe_name g) (pe_realm g)"

definition kte_store_key :: "KeytabEntry \<Rightarrow> StoreKey" where
  "kte_store_key e = store_key (kte_principal e) (kte_realm e)"

definition key_of_keytab :: "KeytabEntry \<Rightarrow> KeyEntry" where
  "key_of_keytab e = \<lparr>ke_kvno = kte_kvno e, ke_key = kte_key e, ke_salt = None, ke_s2kparams = None\<rparr>"

lemma pe_key_new_entry [simp]: "pe_key (new_entry n r a ks) = store_key n r"
  by (simp add: pe_key_def new_entry_def)

lemma group_push_find:
  "find (\<lambda>g. pe_key g = q) (group_push attrs e gs) =
     (if q = kte_store_key e then
        (case find (\<lambda>g. pe_key g = q) gs of
           None \<Rightarrow> Some (new_entry (kte_principal e) (kte_realm e) attrs [key_of_keytab e])
         | Some g \<Rightarrow> Some (g\<lparr>pe_keys := pe_keys g @ [key_of_keytab e]\<rparr>))
      else find (\<lambda>g. pe_key g = q) gs)"
  by (induction gs) (auto simp: pe_key_def kte_store_key_def key_of_keytab_def new_entry_def)

lemma group_push_keys: "pe_key ` set (group_push attrs e gs) = insert (kte_store_key e) (pe_key ` set gs)"
  by (induction gs) (auto simp: pe_key_def kte_store_key_def new_entry_def)

lemma group_push_distinct:
  "distinct (map pe_key gs) \<Longrightarrow> distinct (map pe_key (group_push attrs e gs))"
proof (induction gs)
  case (Cons g gs)
  show ?case
  proof (cases "pe_key g = kte_store_key e")
    case False
    with Cons have "pe_key g \<notin> pe_key ` set (group_push attrs e gs)"
      by (auto simp: group_push_keys)
    with Cons False show ?thesis by (auto simp: pe_key_def kte_store_key_def)
  qed (use Cons in \<open>auto simp: pe_key_def kte_store_key_def\<close>)
qed simp

definition group_of :: "u32 \<Rightarrow> StoreKey \<Rightarrow> KeytabEntry list \<Rightarrow> PrincipalEntry option" where
  "group_of attrs q es = (case filter (\<lambda>e. kte_store_key e = q) es of
     [] \<Rightarrow> None
   | e # es' \<Rightarrow> Some (new_entry (kte_principal e) (kte_realm e) attrs (map key_of_keytab (e # es'))))"

lemma grouped_spec:
  "distinct (map pe_key (foldl (\<lambda>gs e. group_push attrs e gs) [] es)) \<and>
   find (\<lambda>g. pe_key g = q) (foldl (\<lambda>gs e. group_push attrs e gs) [] es) = group_of attrs q es"
proof (induction es rule: rev_induct)
  case (snoc e es)
  then show ?case
    by (auto simp: group_push_distinct group_push_find group_of_def new_entry_def split: list.splits)
qed (simp add: group_of_def)

lemma foldl_store_insert:
  "distinct (map pe_key gs) \<Longrightarrow>
   ms_entries (foldl store_insert st gs) q =
     (case find (\<lambda>g. pe_key g = q) gs of
        None \<Rightarrow> ms_entries st q
      | Some g \<Rightarrow> Some (g\<lparr>pe_keys := sort_keys (pe_keys g)\<rparr>))"
proof (induction gs arbitrary: st)
  case (Cons g gs)
  have "find (\<lambda>g. pe_key g = q) gs = None" if "pe_key g = q"
    using Cons.prems that by (auto simp: find_None_iff image_iff)
  with Cons show ?case
    by (auto simp: store_insert_def pe_key_def split: option.splits)
qed simp

lemma sort_keys_mset [simp]: "mset (sort_keys ks) = mset ks"
  by (simp add: sort_keys_def)

lemma keys_from_password_length:
  "keys_from_password s2k n realm pw kvno ksl = Inr keys \<Longrightarrow> length keys = length ksl"
  by (induction s2k n realm pw kvno ksl arbitrary: keys rule: keys_from_password.induct)
    (auto simp: Let_def split: sum.splits)

lemma keys_from_password_nth:
  assumes "keys_from_password s2k n realm pw kvno ksl = Inr keys" "i < length ksl"
  shows "ke_kvno (keys ! i) = kvno \<and> keytype (ke_key (keys ! i)) = fst (ksl ! i) \<and>
    ke_salt (keys ! i) = (if snd (ksl ! i) \<noteq> Normal then Some (salt_bytes n realm (snd (ksl ! i))) else None) \<and>
    fst (ksl ! i) \<in> {17, 18, 19, 20} \<and>
    s2k (fst (ksl ! i)) pw (salt_bytes n realm (snd (ksl ! i))) = Inr (key_bytes (ke_key (keys ! i)))"
  using assms
proof (induction ksl arbitrary: keys i)
  case (Cons x ksl)
  obtain etype st where x: "x = (etype, st)" by fastforce
  from Cons.prems(1) obtain key ks where
    e: "find_etype etype = Inr etype" "s2k etype pw (salt_bytes n realm st) = Inr key"
    "keys_from_password s2k n realm pw kvno ksl = Inr ks" and
    k: "keys = \<lparr>ke_kvno = kvno, ke_key = \<lparr>keytype = etype, key_bytes = key\<rparr>,
        ke_salt = (if st \<noteq> Normal then Some (salt_bytes n realm st) else None), ke_s2kparams = None\<rparr> # ks"
    unfolding x by (auto simp: Let_def find_etype_def split: sum.splits if_splits)
  show ?case
  proof (cases i)
    case 0
    then show ?thesis using e k x by (auto simp: find_etype_def split: if_splits)
  next
    case (Suc j)
    then show ?thesis using Cons.IH [OF e(3), of j] Cons.prems(2) k by auto
  qed
qed simp

section \<open>Properties\<close>

text \<open>
  the key the KDC picks with \<open>find_key(.., Highest, ..)\<close> belongs to the entry, has the entry's
  highest kvno, a permitted enctype and the requested one; no key is returned exactly when no key of
  the highest kvno qualifies. So a key of a superseded kvno is never picked.
\<close>

theorem find_key_highest:
  "(\<forall>k. find_key e t Highest perm = Some k \<longrightarrow>
      k \<in> set (pe_keys e) \<and> (\<forall>x\<in>set (pe_keys e). ke_kvno x \<le> ke_kvno k) \<and>
      perm (keytype (ke_key k)) \<and> is_none_or t (\<lambda>t. keytype (ke_key k) = t)) \<and>
   (find_key e t Highest perm = None \<longleftrightarrow>
      (\<forall>k\<in>set (pe_keys e). (\<forall>x\<in>set (pe_keys e). ke_kvno x \<le> ke_kvno k) \<longrightarrow>
         \<not> (perm (keytype (ke_key k)) \<and> is_none_or t (\<lambda>t. keytype (ke_key k) = t))))"
proof (cases "current_kvno e")
  case None
  then have "pe_keys e = []" by (simp add: current_kvno_None)
  with None show ?thesis by (simp add: find_key_def)
next
  case (Some c)
  then have c: "c \<in> ke_kvno ` set (pe_keys e)" "\<forall>x\<in>set (pe_keys e). ke_kvno x \<le> c"
    by (auto simp: current_kvno_Some)
  have top: "(\<forall>x\<in>set (pe_keys e). ke_kvno x \<le> ke_kvno k) \<longleftrightarrow> ke_kvno k = c" if "k \<in> set (pe_keys e)" for k
    using c that by (auto intro: antisym)
  show ?thesis
    using Some c top
    by (auto simp: find_key_def find_Some_iff find_None_iff)
qed

definition example_key :: "u32 \<Rightarrow> int \<Rightarrow> KeyEntry" where
  "example_key v t = \<lparr>ke_kvno = v, ke_key = \<lparr>keytype = t, key_bytes = []\<rparr>, ke_salt = None, ke_s2kparams = None\<rparr>"

theorem find_key_highest_witness:
  "find_key (new_entry \<lparr>name_type = 1, name_string = []\<rparr> [] 0 [example_key 3 18, example_key 2 17]) (Some 17)
     Highest (\<lambda>_. True) = None"
  using find_key_highest [of "new_entry \<lparr>name_type = 1, name_string = []\<rparr> [] 0 [example_key 3 18, example_key 2 17]"
      "Some 17" "\<lambda>_. True"]
  by (simp add: example_key_def new_entry_def)

text \<open>
  importing a keytab replaces exactly the entries of the principals the keytab names. Each of
  them gets all its keys of the keytab, in descending kvno order with ties in keytab order, under
  the name of its first keytab entry; every other principal, and every policy, is left alone.
\<close>

theorem import_keytab_entries:
  "\<exists>st'. import_keytab st (Inr es) attrs = Inr st' \<and> ms_policies st' = ms_policies st \<and>
     (\<forall>q. ms_entries st' q =
        (case filter (\<lambda>e. kte_store_key e = q) es of
           [] \<Rightarrow> ms_entries st q
         | e # es' \<Rightarrow> Some (new_entry (kte_principal e) (kte_realm e) attrs
                             (sort_keys (map key_of_keytab (e # es'))))))"
proof -
  define gs where "gs = foldl (\<lambda>gs e. group_push attrs e gs) [] es"
  have pol: "ms_policies (foldl store_insert s gs') = ms_policies s" for s gs'
    by (induction gs' arbitrary: s) (auto simp: store_insert_def)
  have "ms_entries (foldl store_insert st gs) q =
     (case group_of attrs q es of None \<Rightarrow> ms_entries st q
      | Some g \<Rightarrow> Some (g\<lparr>pe_keys := sort_keys (pe_keys g)\<rparr>))" for q
    using grouped_spec [of attrs es q] foldl_store_insert [of gs st q] by (simp add: gs_def)
  moreover have "import_keytab st (Inr es) attrs = Inr (foldl store_insert st gs)"
    by (simp add: import_keytab_def gs_def)
  ultimately show ?thesis
    using pol by (auto simp: group_of_def new_entry_def split: list.splits)
qed

text \<open>
  password-derived keys. On success there is one key per requested enctype and salt type, in
  order, each under the given kvno and of a registered enctype; the key is what \<open>string_to_key\<close>
  derives from the password and that salt type's salt, and the salt the KDC later announces for
  the stored key (\<open>salt_for\<close>) is the one it was derived with.
\<close>

theorem keys_from_password_salts:
  assumes "keys_from_password s2k n realm pw kvno ksl = Inr keys"
    and "pe_name e = n" "pe_realm e = realm"
  shows "length keys = length ksl \<and>
    (\<forall>i<length ksl. ke_kvno (keys ! i) = kvno \<and> keytype (ke_key (keys ! i)) = fst (ksl ! i) \<and>
       find_etype (fst (ksl ! i)) = Inr (fst (ksl ! i)) \<and>
       salt_for e (keys ! i) = salt_bytes n realm (snd (ksl ! i)) \<and>
       s2k (fst (ksl ! i)) pw (salt_for e (keys ! i)) = Inr (key_bytes (ke_key (keys ! i))))"
proof (intro conjI allI impI)
  show "length keys = length ksl" by (rule keys_from_password_length [OF assms(1)])
next
  fix i assume i: "i < length ksl"
  note k = keys_from_password_nth [OF assms(1) i]
  have "salt_for e (keys ! i) = salt_bytes n realm (snd (ksl ! i))"
    using k assms(2,3) by (cases "snd (ksl ! i)") (auto simp: salt_for_def salt_bytes_def)
  with k show "ke_kvno (keys ! i) = kvno" "keytype (ke_key (keys ! i)) = fst (ksl ! i)"
    "find_etype (fst (ksl ! i)) = Inr (fst (ksl ! i))"
    "salt_for e (keys ! i) = salt_bytes n realm (snd (ksl ! i))"
    "s2k (fst (ksl ! i)) pw (salt_for e (keys ! i)) = Inr (key_bytes (ke_key (keys ! i)))"
    by (auto simp: find_etype_def)
qed

theorem keys_from_password_salts_witness:
  "\<exists>keys. keys_from_password (\<lambda>t p s. Inr (p @ s)) \<lparr>name_type = 1, name_string = [[0x75]]\<rparr> [0x52] [0x70] 1
      [(18, Normal), (17, NoRealm)] = Inr keys \<and>
    key_bytes (ke_key (keys ! 0)) = [0x70, 0x52, 0x75] \<and> key_bytes (ke_key (keys ! 1)) = [0x70, 0x75]"
proof -
  let ?n = "\<lparr>name_type = 1, name_string = [[0x75]]\<rparr>"
  obtain keys where k: "keys_from_password (\<lambda>t p s. Inr (p @ s)) ?n [0x52] [0x70] 1
      [(18, Normal), (17, NoRealm)] = Inr keys"
    by (simp add: find_etype_def Let_def)
  from keys_from_password_salts [OF k, of "new_entry ?n [0x52] 0 []"] k
  show ?thesis
    by (auto simp: new_entry_def salt_bytes_def default_salt_def component_bytes_def All_less_Suc)
qed

end
