(* ===== verification/Auth_State.thy ===== *)
theory Auth_State
  imports Kdb_Entry
begin

text \<open>
  Per-principal authentication state, \<open>src/src/kdc/store.rs\<close>: the counters and their update,
  policy TL data, the in-memory store and the store shared by several KDCs with its local fallback.

  The trait \<open>AuthStateStore\<close> is the locale \<open>auth_store\<close>. A store is a state with two operations
  that return a result and the next state (reading may change the state: the shared store copies
  what it reads into its fallback). \<open>view\<close> is the state of every principal, and \<open>up\<close> says that
  the store can be reached. The shared store is a \<open>sublocale\<close>: whatever its parts are, while its
  shared part is reachable it is a store with the shared part's view.
\<close>

section \<open>Store errors\<close>

datatype StoreErrorKind =
    SE_NotFound | SE_Conflict | SE_Unavailable | SE_Corrupt | SE_Stale | SE_Rejected | SE_Backend
  | SE_Unsupported | SE_NameMismatch

record StoreError =
  se_kind :: StoreErrorKind
  se_message :: string
  se_code :: "u32 option"

definition store_error :: "StoreErrorKind \<Rightarrow> string \<Rightarrow> StoreError" where
  "store_error k msg = \<lparr>se_kind = k, se_message = msg, se_code = None\<rparr>"

definition with_code :: "StoreError \<Rightarrow> u32 \<Rightarrow> StoreError" where
  "with_code e c = e\<lparr>se_code := Some c\<rparr>"

definition se_rejected :: "string \<Rightarrow> StoreError" where "se_rejected msg = store_error SE_Rejected msg"
definition se_corrupt :: "string \<Rightarrow> StoreError" where "se_corrupt msg = store_error SE_Corrupt msg"
definition se_unavailable :: "string \<Rightarrow> StoreError" where "se_unavailable msg = store_error SE_Unavailable msg"
definition se_backend :: "string \<Rightarrow> StoreError" where "se_backend msg = store_error SE_Backend msg"
definition se_not_found :: "string \<Rightarrow> StoreError" where "se_not_found msg = store_error SE_NotFound msg"
definition se_stale :: "string \<Rightarrow> StoreError" where "se_stale msg = store_error SE_Stale msg"
definition se_conflict :: "string \<Rightarrow> StoreError" where "se_conflict msg = store_error SE_Conflict msg"

section \<open>Policy TL data\<close>

text \<open>\<open>u16::try_from(len)\<close>.\<close>

definition u16_len :: "nat \<Rightarrow> StoreError + u16" where
  "u16_len n = (if n < 2 ^ 16 then Inr (word_of_nat n) else Inl (se_rejected ''policy tl-data too large''))"

fun tl_elements_bytes :: "PolicyTlData list \<Rightarrow> StoreError + bytes" where
  "tl_elements_bytes [] = Inr []"
| "tl_elements_bytes (t # ts) =
     rbind (u16_len (length (tl_content t))) (\<lambda>len.
     rbind (tl_elements_bytes ts) (\<lambda>rest.
       Inr (le16 (tl_kind t) @ le16 len @ tl_content t @ rest)))"

definition tl_data_bytes :: "PolicyTlData list \<Rightarrow> StoreError + bytes" where
  "tl_data_bytes ts =
     (if ts = [] then Inr []
      else rbind (u16_len (length ts)) (\<lambda>n.
           rbind (tl_elements_bytes ts) (\<lambda>body. Inr (le16 n @ body))))"

definition tl_truncated :: StoreError where
  "tl_truncated = se_corrupt ''truncated policy tl-data''"

definition tl_u16 :: "bytes \<Rightarrow> StoreError + u16 \<times> bytes" where
  "tl_u16 s = rbind (rd_take tl_truncated 2 s) (\<lambda>(b, s). Inr (of_le16 b, s))"

definition tl_element :: "bytes \<Rightarrow> StoreError + PolicyTlData \<times> bytes" where
  "tl_element s =
     rbind (tl_u16 s) (\<lambda>(kind, s).
     rbind (tl_u16 s) (\<lambda>(len, s).
     rbind (rd_take tl_truncated (unat len) s) (\<lambda>(d, s).
       Inr (\<lparr>tl_kind = kind, tl_content = d\<rparr>, s))))"

definition tl_data_from_bytes :: "bytes \<Rightarrow> StoreError + PolicyTlData list" where
  "tl_data_from_bytes b =
     (if b = [] then Inr []
      else rbind (tl_u16 b) (\<lambda>(n, s).
           rbind (rd_n tl_element (unat n) s) (\<lambda>(out, s).
             if s \<noteq> [] then Inl tl_truncated else Inr out)))"

section \<open>Counters\<close>

record AuthState =
  fail_count :: u32
  last_failed :: int
  last_success :: int

definition default_AuthState :: AuthState where
  "default_AuthState = \<lparr>fail_count = 0, last_failed = 0, last_success = 0\<rparr>"

datatype AuthStateUpdate =
    Success int bool bool
  | Failure int u32 "int option"
  | SetState AuthState

fun auth_apply :: "AuthState \<Rightarrow> AuthStateUpdate \<Rightarrow> AuthState" where
  "auth_apply s (Success stamp clear_failures record_success) =
     (let s = (if clear_failures \<and> fail_count s \<noteq> 0 then s\<lparr>fail_count := 0\<rparr> else s)
      in if record_success then s\<lparr>last_success := stamp\<rparr> else s)"
| "auth_apply s (Failure stamp interval unlock) =
     (let s = (if is_some_and unlock (\<lambda>u. last_failed s \<le> u) then s\<lparr>fail_count := 0\<rparr> else s);
          s = (if interval \<noteq> 0 \<and> sat_add_i64 (last_failed s) (int (unat interval)) < stamp
               then s\<lparr>fail_count := 0\<rparr> else s)
      in s\<lparr>last_failed := stamp, fail_count := sat_add_u32 (fail_count s) 1\<rparr>)"
| "auth_apply s (SetState s') = s'"

section \<open>The store interface\<close>

type_synonym 's auth_get = "'s \<Rightarrow> PrincipalName \<Rightarrow> bytes \<Rightarrow> (StoreError + AuthState) \<times> 's"
type_synonym 's auth_update = "'s \<Rightarrow> PrincipalName \<Rightarrow> bytes \<Rightarrow> AuthStateUpdate \<Rightarrow> (StoreError + AuthState) \<times> 's"

locale auth_store =
  fixes get :: "'s auth_get"
    and apply_update :: "'s auth_update"
    and view :: "'s \<Rightarrow> StoreKey \<Rightarrow> AuthState"
    and up :: "'s \<Rightarrow> bool"
  assumes get_up: "up s \<Longrightarrow>
      \<exists>s'. get s n r = (Inr (view s (store_key n r)), s') \<and> view s' = view s \<and> up s'"
    and apply_up: "up s \<Longrightarrow>
      \<exists>s'. apply_update s n r u = (Inr (auth_apply (view s (store_key n r)) u), s') \<and>
           view s' = (view s)(store_key n r := auth_apply (view s (store_key n r)) u) \<and> up s'"

section \<open>The in-memory store\<close>

type_synonym MemoryAuthState = "StoreKey \<rightharpoonup> AuthState"

definition mas_get :: "MemoryAuthState auth_get" where
  "mas_get m n r = (Inr (case m (store_key n r) of None \<Rightarrow> default_AuthState | Some s \<Rightarrow> s), m)"

definition mas_apply :: "MemoryAuthState auth_update" where
  "mas_apply m n r u =
     (let s = auth_apply (case m (store_key n r) of None \<Rightarrow> default_AuthState | Some s \<Rightarrow> s) u
      in (Inr s, m(store_key n r \<mapsto> s)))"

definition mas_view :: "MemoryAuthState \<Rightarrow> StoreKey \<Rightarrow> AuthState" where
  "mas_view m k = (case m k of None \<Rightarrow> default_AuthState | Some s \<Rightarrow> s)"

interpretation mas: auth_store mas_get mas_apply mas_view "\<lambda>_. True"
  by unfold_locales (auto simp: mas_get_def mas_apply_def mas_view_def Let_def)

section \<open>The shared store\<close>

record ('s, 'l) SharedAuthState =
  shared :: 's
  local_store :: 'l
  fallbacks :: u64

definition fell_back :: "('s, 'l) SharedAuthState \<Rightarrow> ('s, 'l) SharedAuthState" where
  "fell_back st = st\<lparr>fallbacks := fallbacks st + 1\<rparr>"

definition falls_back :: "StoreError \<Rightarrow> bool" where
  "falls_back e \<longleftrightarrow> se_kind e = SE_Unavailable"

definition mirror ::
  "'l auth_get \<Rightarrow> 'l auth_update \<Rightarrow> 'l \<Rightarrow> PrincipalName \<Rightarrow> bytes \<Rightarrow> AuthState \<Rightarrow> 'l" where
  "mirror lget lapply l n r sh = (case lget l n r of
     (Inr lo, l) \<Rightarrow>
        if lo \<noteq> sh \<and> fail_count lo \<noteq> - 1 then snd (lapply l n r (SetState sh)) else l
   | (Inl _, l) \<Rightarrow> l)"

definition shared_get ::
  "'s auth_get \<Rightarrow> 'l auth_get \<Rightarrow> 'l auth_update \<Rightarrow> ('s, 'l) SharedAuthState auth_get" where
  "shared_get sget lget lapply st n r = (case sget (shared st) n r of
     (Inr state, sh) \<Rightarrow>
       (Inr state, st\<lparr>shared := sh, local_store := mirror lget lapply (local_store st) n r state\<rparr>)
   | (Inl e, sh) \<Rightarrow>
       let st = st\<lparr>shared := sh\<rparr> in
       if falls_back e then
         (case lget (local_store st) n r of (res, l) \<Rightarrow> (res, (fell_back st)\<lparr>local_store := l\<rparr>))
       else (Inl e, st))"

definition shared_apply ::
  "'s auth_update \<Rightarrow> 'l auth_get \<Rightarrow> 'l auth_update \<Rightarrow> ('s, 'l) SharedAuthState auth_update" where
  "shared_apply sapply lget lapply st n r u = (case sapply (shared st) n r u of
     (Inr state, sh) \<Rightarrow>
       (Inr state, st\<lparr>shared := sh, local_store := mirror lget lapply (local_store st) n r state\<rparr>)
   | (Inl e, sh) \<Rightarrow>
       let st = st\<lparr>shared := sh\<rparr> in
       if falls_back e then
         (case lapply (local_store st) n r u of (res, l) \<Rightarrow> (res, (fell_back st)\<lparr>local_store := l\<rparr>))
       else (Inl e, st))"

locale shared_auth_store = auth_store sget sapply sview sup
  for sget :: "'s auth_get" and sapply sview sup +
  fixes lget :: "'l auth_get" and lapply :: "'l auth_update"

sublocale shared_auth_store \<subseteq> sh: auth_store
  "shared_get sget lget lapply" "shared_apply sapply lget lapply"
  "\<lambda>st. sview (shared st)" "\<lambda>st. sup (shared st)"
proof
  fix st :: "('s, 'l) SharedAuthState" and n r
  assume "sup (shared st)"
  then obtain sh where "sget (shared st) n r = (Inr (sview (shared st) (store_key n r)), sh)"
    "sview sh = sview (shared st)" "sup sh"
    using get_up by blast
  then show "\<exists>st'. shared_get sget lget lapply st n r = (Inr (sview (shared st) (store_key n r)), st') \<and>
      sview (shared st') = sview (shared st) \<and> sup (shared st')"
    by (simp add: shared_get_def)
next
  fix st :: "('s, 'l) SharedAuthState" and n r u
  assume "sup (shared st)"
  then obtain sh where "sapply (shared st) n r u = (Inr (auth_apply (sview (shared st) (store_key n r)) u), sh)"
    "sview sh = (sview (shared st))(store_key n r := auth_apply (sview (shared st) (store_key n r)) u)" "sup sh"
    using apply_up by blast
  then show "\<exists>st'. shared_apply sapply lget lapply st n r u =
        (Inr (auth_apply (sview (shared st) (store_key n r)) u), st') \<and>
      sview (shared st') = (sview (shared st))(store_key n r := auth_apply (sview (shared st) (store_key n r)) u) \<and>
      sup (shared st')"
    by (simp add: shared_apply_def)
qed

interpretation sas: shared_auth_store mas_get mas_apply mas_view "\<lambda>_. True" mas_get mas_apply
  by unfold_locales

section \<open>Lemmas\<close>

definition tl_enc :: "PolicyTlData \<Rightarrow> bytes" where
  "tl_enc t = le16 (tl_kind t) @ le16 (word_of_nat (length (tl_content t))) @ tl_content t"

definition tl_wf :: "PolicyTlData \<Rightarrow> bool" where
  "tl_wf t \<longleftrightarrow> length (tl_content t) < 2 ^ 16"

lemma tl_u16_le16 [simp]: "tl_u16 (le16 w @ s) = Inr (w, s)"
  by (simp add: tl_u16_def)

lemma tl_u16_InrD: "tl_u16 s = Inr (w, t) \<Longrightarrow> s = le16 w @ t"
  by (auto simp: tl_u16_def dest!: rd_take_InrD)

interpretation tl: exact_codec tl_enc tl_element tl_wf
proof
  fix t :: PolicyTlData and s
  assume "tl_wf t"
  then show "tl_element (tl_enc t @ s) = Inr (t, s)"
    by (simp add: tl_element_def tl_enc_def tl_wf_def unat_of_nat)
next
  fix s :: bytes and x t
  assume "tl_element s = Inr (x, t)"
  then obtain kind len d s1 s2 where s: "s = le16 kind @ s1" "s1 = le16 len @ s2" "s2 = d @ t"
    and d: "length d = unat len" and x: "x = \<lparr>tl_kind = kind, tl_content = d\<rparr>"
    by (auto simp: tl_element_def dest!: tl_u16_InrD rd_take_InrD)
  have "unat len < 2 ^ 16" using unsigned_less [of len, where 'a = nat] by simp
  with s d x show "tl_wf x \<and> s = tl_enc x @ t"
    by (simp add: tl_wf_def tl_enc_def)
qed

lemma u16_len_Inr: "u16_len n = Inr w \<longleftrightarrow> n < 2 ^ 16 \<and> w = word_of_nat n"
  by (auto simp: u16_len_def)

lemma tl_elements_bytes_Inr:
  "tl_elements_bytes ts = Inr b \<longleftrightarrow> list_all tl_wf ts \<and> b = concat (map tl_enc ts)"
  by (induction ts arbitrary: b)
    (auto simp: rbind_eq_Inr u16_len_Inr tl_wf_def tl_enc_def)

lemma auth_apply_failure_count:
  "unat (fail_count (auth_apply s (Failure stamp i u))) \<le> unat (fail_count s) + 1"
  by (auto simp: Let_def unat_sat_add_u32)

text \<open>The fallback after a successful shared operation that left the principal in state \<open>s\<close>.\<close>

definition mirrored :: "MemoryAuthState \<Rightarrow> StoreKey \<Rightarrow> AuthState \<Rightarrow> StoreKey \<Rightarrow> AuthState" where
  "mirrored l k s = (if fail_count (mas_view l k) = - 1 then mas_view l else (mas_view l)(k := s))"

lemma mirror_view: "mas_view (mirror mas_get mas_apply l n r s) = mirrored l (store_key n r) s"
  by (auto simp: mirror_def mirrored_def mas_get_def mas_apply_def mas_view_def fun_eq_iff split: option.splits)

section \<open>Properties\<close>

text \<open>
  policy TL data and its encoding determine each other: what \<open>tl_data_bytes\<close> writes is read back
  unchanged, and the reader accepts no other bytes for a non-empty list (in particular none with a
  truncated element or trailing bytes). Writing fails exactly for more than 65535 elements or for an
  element of more than 65535 bytes.
\<close>

theorem tl_data_roundtrip:
  "(\<forall>b. tl_data_bytes ts = Inr b \<longrightarrow> tl_data_from_bytes b = Inr ts) \<and>
   (\<forall>b. tl_data_from_bytes b = Inr ts \<and> ts \<noteq> [] \<longrightarrow> tl_data_bytes ts = Inr b) \<and>
   (is_ok (tl_data_bytes ts) \<longleftrightarrow> length ts < 2 ^ 16 \<and> list_all tl_wf ts)"
proof (cases "ts = []")
  case True
  then show ?thesis by (simp add: tl_data_bytes_def tl_data_from_bytes_def)
next
  case False
  have enc: "tl_data_bytes ts = Inr b \<longleftrightarrow>
      length ts < 2 ^ 16 \<and> list_all tl_wf ts \<and> b = le16 (word_of_nat (length ts)) @ concat (map tl_enc ts)" for b
    using False by (auto simp: tl_data_bytes_def rbind_eq_Inr u16_len_Inr tl_elements_bytes_Inr)
  have ne: "le16 w @ x \<noteq> []" for w x by (metis append_is_Nil_conv length_int_bytes(3) list.size(3) zero_neq_numeral)
  have 1: "tl_data_from_bytes b = Inr ts" if "tl_data_bytes ts = Inr b" for b
    using that ne tl.rd_n_enc [of ts "[]"] by (auto simp: enc tl_data_from_bytes_def unat_of_nat)
  have 2: "tl_data_bytes ts = Inr b" if b: "tl_data_from_bytes b = Inr ts" for b
  proof -
    from b False obtain n s where n: "tl_u16 b = Inr (n, s)" and r: "rd_n tl_element (unat n) s = Inr (ts, [])"
      by (auto simp: tl_data_from_bytes_def split: if_splits)
    have "unat n < 2 ^ 16" using unsigned_less [of n, where 'a = nat] by simp
    with tl.rd_n_exact [OF r] tl_u16_InrD [OF n] show ?thesis by (auto simp: enc)
  qed
  have "is_ok (tl_data_bytes ts) \<longleftrightarrow> length ts < 2 ^ 16 \<and> list_all tl_wf ts"
    using enc by (cases "tl_data_bytes ts") auto
  with 1 2 show ?thesis by blast
qed

theorem tl_data_roundtrip_witness:
  "tl_data_from_bytes (le16 1 @ le16 7 @ le16 2 @ [1, 2]) = Inr [\<lparr>tl_kind = 7, tl_content = [1, 2]\<rparr>]"
  using tl_data_roundtrip [of "[\<lparr>tl_kind = 7, tl_content = [1, 2]\<rparr>]"]
  by (simp add: tl_data_bytes_def u16_len_def)


end
