(* ===== verification/Kdc_Policy.thy ===== *)
theory Kdc_Policy
  imports Kdb_Entry
begin

text \<open>
  KDC request policy, \<open>src/src/kdc/policy.rs\<close>: request validation, ticket flags, end and renewal
  times, and the times and flags steps of the two request handlers
  (\<open>process_as_req_inner\<close> of \<open>src/src/kdc/as_req.rs\<close> and \<open>process_tgs_req\<close> of
  \<open>src/src/kdc/tgs_req.rs\<close>). Times are integers (\<open>i64\<close> seconds in the source, \<open>0\<close> for an absent
  time); that the subtractions and additions of \<open>get_ticket_endtime\<close> stay inside \<open>i64\<close> is proved.
\<close>

section \<open>Limits and times\<close>

definition KDC_INFINITY :: int where "KDC_INFINITY = 2 ^ 32 - 1"

definition AS_INVALID_OPTIONS :: u32 where [flag_bits]:
  "AS_INVALID_OPTIONS = opt_FORWARDED OR opt_PROXY OR opt_RENEW OR opt_VALIDATE OR
     opt_ENC_TKT_IN_SKEY OR opt_CNAME_IN_ADDL_TKT"

definition UNSUPPORTED_OPTIONS :: u32 where [flag_bits]:
  "UNSUPPORTED_OPTIONS = opt_ALLOW_POSTDATE OR opt_POSTDATED OR opt_VALIDATE OR opt_PROXY"

record RealmLimits =
  rl_max_life :: int
  rl_max_renewable_life :: int

record Times =
  authtime :: int
  starttime :: int
  endtime :: int
  renew_till :: int

definition secs :: "Duration \<Rightarrow> int" where
  "secs d = (if int (unat d) \<le> i64_max then int (unat d) else i64_max)"

text \<open>\<open>representable\<close>: the seconds chrono's \<open>from_timestamp\<close> accepts.\<close>

definition kerberos_time :: "(int \<Rightarrow> bool) \<Rightarrow> int \<Rightarrow> KerberosTime" where
  "kerberos_time representable t = (if representable t then t else 0)"

definition lifetime_cap :: "Duration option \<Rightarrow> int option" where
  "lifetime_cap d = (case d of None \<Rightarrow> None | Some d \<Rightarrow> if secs d \<noteq> 0 then Some (secs d) else None)"

definition cap_life :: "int option \<Rightarrow> int \<Rightarrow> int" where
  "cap_life cap life = (case cap of None \<Rightarrow> life | Some c \<Rightarrow> min life c)"

definition request_till :: "int \<Rightarrow> int" where
  "request_till till = (if till \<le> 0 then KDC_INFINITY else min till KDC_INFINITY)"

definition get_ticket_endtime ::
  "RealmLimits \<Rightarrow> int \<Rightarrow> int \<Rightarrow> int \<Rightarrow> PrincipalEntry option \<Rightarrow> PrincipalEntry \<Rightarrow> int" where
  "get_ticket_endtime limits start endt till client server =
     (let till = request_till till;
          until = min till endt;
          life = max (until - start) i32_min;
          life = (if start < until then min life i32_max else life);
          life = cap_life (Option.bind client (\<lambda>c. lifetime_cap (max_life c))) life;
          life = cap_life (lifetime_cap (max_life server)) life;
          life = (if rl_max_life limits \<noteq> 0 then min life (rl_max_life limits) else life)
      in start + life)"

record HeaderRenewal =
  hr_flags :: u32
  hr_renew_till :: int

text \<open>\<open>flags\<close> and \<open>times\<close>, mutable arguments of the source, are returned updated.\<close>

definition get_ticket_renewtime ::
  "RealmLimits \<Rightarrow> u32 \<Rightarrow> int \<Rightarrow> int \<Rightarrow> HeaderRenewal option \<Rightarrow> PrincipalEntry option \<Rightarrow> PrincipalEntry \<Rightarrow>
   u32 \<Rightarrow> Times \<Rightarrow> u32 \<times> Times" where
  "get_ticket_renewtime limits opts req_rtime req_till tgt client server flags0 times0 =
     (let flags = remove_flag flags0 tkt_RENEWABLE;
          times = times0\<lparr>renew_till := 0\<rparr>
      in
      if contains (attributes server) attr_DISALLOW_RENEWABLE then (flags, times)
      else if is_some_and client (\<lambda>c. contains (attributes c) attr_DISALLOW_RENEWABLE) then (flags, times)
      else if is_some_and tgt (\<lambda>t. \<not> contains (hr_flags t) tkt_RENEWABLE) then (flags, times)
      else if \<not> contains opts opt_RENEWABLE \<and>
              \<not> (contains opts opt_RENEWABLE_OK \<and> endtime times < req_till) then (flags, times)
      else
        let rtime = (if contains opts opt_RENEWABLE then
                       if 0 < req_rtime then min req_rtime KDC_INFINITY else KDC_INFINITY
                     else min req_till KDC_INFINITY);
            rtime = (case tgt of None \<Rightarrow> rtime | Some t \<Rightarrow> min rtime (hr_renew_till t));
            max_rlife = rl_max_renewable_life limits;
            max_rlife = cap_life (map_option secs (max_renewable_life server)) max_rlife;
            max_rlife = cap_life (map_option secs (Option.bind client max_renewable_life)) max_rlife;
            rtime = min rtime (sat_add_i64 (starttime times) max_rlife)
        in if \<not> contains opts opt_RENEWABLE \<and> rtime \<le> endtime times then (flags, times)
           else (flags OR tkt_RENEWABLE, times\<lparr>renew_till := rtime\<rparr>))"

section \<open>Request validation\<close>

definition expired :: "KerberosTime option \<Rightarrow> int \<Rightarrow> bool" where
  "expired limit now \<longleftrightarrow> (case limit of None \<Rightarrow> False | Some l \<Rightarrow> l \<noteq> 0 \<and> l < now)"

definition validate_as_request ::
  "u32 \<Rightarrow> PrincipalEntry \<Rightarrow> PrincipalEntry \<Rightarrow> int \<Rightarrow> KdcError + unit" where
  "validate_as_request opts client server now =
     (if intersects opts (AS_INVALID_OPTIONS OR UNSUPPORTED_OPTIONS) then
        Inl (kdc_error KDC_ERR_BADOPTION ''INVALID AS OPTIONS'')
      else if expired (expiration client) now then
        Inl (kdc_error KDC_ERR_NAME_EXP ''CLIENT EXPIRED'')
      else if expired (pw_expiration client) now \<and> \<not> contains (attributes server) attr_PWCHANGE_SERVICE then
        Inl (kdc_error KDC_ERR_KEY_EXPIRED ''CLIENT KEY EXPIRED'')
      else if expired (expiration server) now then
        Inl (kdc_error KDC_ERR_SERVICE_EXP ''SERVICE EXPIRED'')
      else if contains (attributes client) attr_REQUIRES_PWCHANGE \<and>
              \<not> contains (attributes server) attr_PWCHANGE_SERVICE then
        Inl (kdc_error KDC_ERR_KEY_EXPIRED ''REQUIRED PWCHANGE'')
      else if contains (attributes client) attr_DISALLOW_ALL_TIX then
        Inl (kdc_error KDC_ERR_CLIENT_REVOKED ''CLIENT LOCKED OUT'')
      else if contains (attributes server) attr_DISALLOW_ALL_TIX then
        Inl (kdc_error KDC_ERR_S_PRINCIPAL_UNKNOWN ''SERVICE LOCKED OUT'')
      else if contains (attributes server) attr_DISALLOW_SVR then
        Inl (kdc_error KDC_ERR_MUST_USE_USER2USER ''SERVICE NOT ALLOWED'')
      else Inr ())"

section \<open>Ticket flags\<close>

definition option_flags :: "(u32 \<times> u32) list" where
  "option_flags =
     [(opt_FORWARDABLE, tkt_FORWARDABLE), (opt_FORWARDED, tkt_FORWARDED), (opt_PROXIABLE, tkt_PROXIABLE),
      (opt_PROXY, tkt_PROXY), (opt_ALLOW_POSTDATE, tkt_MAY_POSTDATE), (opt_POSTDATED, tkt_POSTDATED),
      (opt_REQUEST_ANONYMOUS, tkt_ANONYMOUS)]"

definition get_ticket_flags :: "u32 \<Rightarrow> PrincipalEntry option \<Rightarrow> PrincipalEntry \<Rightarrow> u32 option \<Rightarrow> u32" where
  "get_ticket_flags opts client server header =
     (if intersects opts (opt_VALIDATE OR opt_RENEW) \<and> header \<noteq> None
      then the header AND complement TicketFlags_all tkt_INVALID
      else
        let flags = foldl (\<lambda>f (opt, fl). if contains opts opt then f OR fl else f)
                      tkt_ENC_PA_REP option_flags;
            flags = (case header of
                Some h \<Rightarrow>
                  let f = flags OR (h AND (tkt_FORWARDED OR tkt_PROXY OR tkt_PRE_AUTHENT OR
                                           tkt_HW_AUTHENT OR tkt_ANONYMOUS))
                  in if contains (attributes server) attr_OK_AS_DELEGATE then f OR tkt_OK_AS_DELEGATE else f
              | None \<Rightarrow> flags OR tkt_INITIAL);
            denies = (\<lambda>attr. is_some_and client (\<lambda>c. contains (attributes c) attr) \<or>
                             contains (attributes server) attr);
            lacks = (\<lambda>fl. is_some_and header (\<lambda>h. \<not> contains h fl));
            flags = (if denies attr_DISALLOW_PROXIABLE \<or> lacks tkt_PROXIABLE
                     then remove_flag flags tkt_PROXIABLE else flags);
            flags = (if denies attr_DISALLOW_FORWARDABLE \<or> lacks tkt_FORWARDABLE
                     then remove_flag flags tkt_FORWARDABLE else flags)
        in if lacks tkt_ANONYMOUS then remove_flag flags tkt_ANONYMOUS else flags)"

definition select_session_keytype :: "PrincipalEntry \<Rightarrow> int list \<Rightarrow> (int \<Rightarrow> bool) \<Rightarrow> int option" where
  "select_session_keytype server requested permitted =
     find (\<lambda>etype. is_ok (find_etype etype) \<and> permitted etype \<and>
            (etype = 18 \<or> find_key server (Some etype) Highest permitted \<noteq> None)) requested"

section \<open>TGS checks\<close>

definition tgs_opt_rules :: "(u32 \<times> u32 \<times> string) list" where
  "tgs_opt_rules =
     [(opt_FORWARDED, tkt_FORWARDABLE, ''TGT NOT FORWARDABLE''),
      (opt_PROXY, tkt_PROXIABLE, ''TGT NOT PROXIABLE''),
      (opt_ALLOW_POSTDATE OR opt_POSTDATED, tkt_MAY_POSTDATE, ''TGT NOT POSTDATABLE''),
      (opt_VALIDATE, tkt_INVALID, ''VALIDATE VALID TICKET''),
      (opt_RENEW, tkt_RENEWABLE, ''TICKET NOT RENEWABLE'')]"

fun check_opt_rules :: "u32 \<Rightarrow> u32 \<Rightarrow> (u32 \<times> u32 \<times> string) list \<Rightarrow> KdcError + unit" where
  "check_opt_rules opts header_flags [] = Inr ()"
| "check_opt_rules opts header_flags ((req, chk, status) # rules) =
     (if intersects opts req \<and> \<not> intersects header_flags chk
      then Inl (kdc_error KDC_ERR_BADOPTION status)
      else check_opt_rules opts header_flags rules)"

definition check_tgs_opts :: "u32 \<Rightarrow> u32 \<Rightarrow> KdcError + unit" where
  "check_tgs_opts opts header_flags =
     rbind (check_opt_rules opts header_flags tgs_opt_rules) (\<lambda>_.
       if contains header_flags tkt_INVALID \<and> \<not> contains opts opt_VALIDATE
       then Inl (kdc_error KRB_AP_ERR_TKT_NYV ''TICKET NOT VALID'') else Inr ())"

definition check_tgs_times :: "u32 \<Rightarrow> int \<Rightarrow> int \<Rightarrow> KdcError + unit" where
  "check_tgs_times opts header_renew_till now =
     (if contains opts opt_RENEW \<and> header_renew_till < now
      then Inl (kdc_error KRB_AP_ERR_TKT_EXPIRED ''TKT_EXPIRED'') else Inr ())"

definition check_tgs_svc_policy ::
  "u32 \<Rightarrow> PrincipalEntry \<Rightarrow> u32 \<Rightarrow> bool \<Rightarrow> int \<Rightarrow> KdcError + unit" where
  "check_tgs_svc_policy opts server header_flags header_is_tgs now =
     (let attrs = attributes server in
      if contains opts opt_RENEWABLE \<and> contains attrs attr_DISALLOW_RENEWABLE then
        Inl (kdc_error KDC_ERR_POLICY ''NON-RENEWABLE TICKET'')
      else if contains opts opt_ENC_TKT_IN_SKEY \<and> contains attrs attr_DISALLOW_DUP_SKEY then
        Inl (kdc_error KDC_ERR_POLICY ''DUP_SKEY DISALLOWED'')
      else if contains attrs attr_DISALLOW_ALL_TIX then
        Inl (kdc_error KDC_ERR_S_PRINCIPAL_UNKNOWN ''SERVER LOCKED OUT'')
      else if contains attrs attr_DISALLOW_SVR \<and> \<not> contains opts opt_ENC_TKT_IN_SKEY then
        Inl (kdc_error KDC_ERR_MUST_USE_USER2USER ''SERVER NOT ALLOWED'')
      else if contains attrs attr_DISALLOW_TGT_BASED \<and> header_is_tgs then
        Inl (kdc_error KDC_ERR_POLICY ''TGT BASED NOT ALLOWED'')
      else if contains attrs attr_REQUIRES_HW_AUTH \<and> \<not> contains header_flags tkt_HW_AUTHENT then
        Inl (kdc_generic ''NO HW PREAUTH'')
      else if contains attrs attr_REQUIRES_PRE_AUTH \<and> \<not> contains header_flags tkt_PRE_AUTHENT then
        Inl (kdc_generic ''NO PREAUTH'')
      else if expired (expiration server) now then
        Inl (kdc_error KDC_ERR_SERVICE_EXP ''SERVICE EXPIRED'')
      else Inr ())"

section \<open>The times step of the handlers\<close>

definition limits_of :: "Duration \<Rightarrow> Duration \<Rightarrow> RealmLimits" where
  "limits_of realm_max_life realm_max_renewable_life =
     \<lparr>rl_max_life = secs realm_max_life, rl_max_renewable_life = secs realm_max_renewable_life\<rparr>"

text \<open>\<open>process_as_req_inner\<close>: flags and times of the ticket before pre-authentication.\<close>

definition as_flags_times ::
  "RealmLimits \<Rightarrow> u32 \<Rightarrow> int \<Rightarrow> int \<Rightarrow> int \<Rightarrow> PrincipalEntry \<Rightarrow> PrincipalEntry \<Rightarrow> u32 \<times> Times" where
  "as_flags_times limits opts kdc_time req_till req_rtime client server =
     (let flags = get_ticket_flags opts (Some client) server None;
          endt = get_ticket_endtime limits kdc_time KDC_INFINITY req_till (Some client) server;
          times = \<lparr>authtime = kdc_time, starttime = kdc_time, endtime = endt, renew_till = 0\<rparr>;
          (flags, times) = get_ticket_renewtime limits opts req_rtime req_till None (Some client) server flags times
      in (flags, if starttime times = authtime times then times\<lparr>starttime := 0\<rparr> else times))"

text \<open>\<open>process_tgs_req\<close>: the same step from the header ticket.\<close>

record HeaderTicket =
  ht_flags :: u32
  ht_starttime :: "KerberosTime option"
  ht_authtime :: KerberosTime
  ht_endtime :: KerberosTime
  ht_renew_till :: "KerberosTime option"

definition tgs_flags_times ::
  "RealmLimits \<Rightarrow> u32 \<Rightarrow> int \<Rightarrow> int \<Rightarrow> int \<Rightarrow> HeaderTicket \<Rightarrow> KerberosTime \<Rightarrow> PrincipalEntry option \<Rightarrow>
   PrincipalEntry \<Rightarrow> u32 \<times> Times" where
  "tgs_flags_times limits opts kdc_time req_till req_rtime header subject_authtime client server =
     (let header_renew_till = (case ht_renew_till header of None \<Rightarrow> 0 | Some t \<Rightarrow> t);
          header_start = (case ht_starttime header of None \<Rightarrow> ht_authtime header | Some t \<Rightarrow> t);
          flags = get_ticket_flags opts client server (Some (ht_flags header));
          endt = (if contains opts opt_RENEW
                  then min header_renew_till (kdc_time + (ht_endtime header - header_start))
                  else get_ticket_endtime limits kdc_time (ht_endtime header) req_till client server);
          times = \<lparr>authtime = subject_authtime, starttime = kdc_time, endtime = endt, renew_till = 0\<rparr>;
          (flags, times) = get_ticket_renewtime limits opts req_rtime req_till
            (Some \<lparr>hr_flags = ht_flags header, hr_renew_till = header_renew_till\<rparr>) client server flags times
      in (flags, if starttime times = authtime times then times\<lparr>starttime := 0\<rparr> else times))"

section \<open>Flags bit by bit\<close>

text \<open>A conditional insertion or removal as a condition on the bit, instead of a case split.\<close>

lemma bit_if_remove: "bit (if b then remove_flag x y else x) n \<longleftrightarrow> bit x n \<and> \<not> (b \<and> bit y n)"
  by (auto simp: flag_bits)

lemma bit_if_insert: "bit (if b then x OR y else x) n \<longleftrightarrow> bit x n \<or> (b \<and> bit y n)"
  by (auto simp: flag_bits)

lemma bit_option_flags:
  "bit (foldl (\<lambda>f (opt, fl). if contains opts opt then f OR fl else f) f0 l) n \<longleftrightarrow>
     bit f0 n \<or> (\<exists>(opt, fl)\<in>set l. contains opts opt \<and> bit fl n)"
  by (induction l arbitrary: f0) (auto simp: bit_or_iff split: if_splits)

definition denied :: "u32 \<Rightarrow> PrincipalEntry option \<Rightarrow> PrincipalEntry \<Rightarrow> bool" where
  "denied attr client server \<longleftrightarrow>
     is_some_and client (\<lambda>c. contains (attributes c) attr) \<or> contains (attributes server) attr"

lemma bit_ticket_flags_tgs:
  assumes "\<not> intersects opts (opt_VALIDATE OR opt_RENEW)"
  shows "bit (get_ticket_flags opts client server (Some h)) n \<longleftrightarrow>
    (bit tkt_ENC_PA_REP n \<or> (\<exists>(opt, fl)\<in>set option_flags. contains opts opt \<and> bit fl n) \<or>
     bit h n \<and> bit (tkt_FORWARDED OR tkt_PROXY OR tkt_PRE_AUTHENT OR tkt_HW_AUTHENT OR tkt_ANONYMOUS) n \<or>
     contains (attributes server) attr_OK_AS_DELEGATE \<and> bit tkt_OK_AS_DELEGATE n) \<and>
    \<not> ((denied attr_DISALLOW_PROXIABLE client server \<or> \<not> contains h tkt_PROXIABLE) \<and> bit tkt_PROXIABLE n) \<and>
    \<not> ((denied attr_DISALLOW_FORWARDABLE client server \<or> \<not> contains h tkt_FORWARDABLE) \<and> bit tkt_FORWARDABLE n) \<and>
    \<not> (\<not> contains h tkt_ANONYMOUS \<and> bit tkt_ANONYMOUS n)"
  using assms
  by (simp add: get_ticket_flags_def Let_def bit_if_remove bit_if_insert bit_option_flags
      bit_and_iff bit_or_iff [of _ "h AND _"] denied_def split del: if_split)

lemma bit_ticket_flags_as:
  "bit (get_ticket_flags opts (Some client) server None) n \<longleftrightarrow>
    (bit tkt_ENC_PA_REP n \<or> (\<exists>(opt, fl)\<in>set option_flags. contains opts opt \<and> bit fl n) \<or>
     bit tkt_INITIAL n) \<and>
    \<not> (denied attr_DISALLOW_PROXIABLE (Some client) server \<and> bit tkt_PROXIABLE n) \<and>
    \<not> (denied attr_DISALLOW_FORWARDABLE (Some client) server \<and> bit tkt_FORWARDABLE n)"
  by (simp add: get_ticket_flags_def Let_def bit_if_remove bit_option_flags
      bit_or_iff denied_def split del: if_split)

section \<open>Properties\<close>

text \<open>
  the flags of a ticket issued from a header ticket (no renewal or validation), bit by bit. A
  ticket is forwardable or proxiable only if it was asked for, the header ticket is, and neither
  principal forbids it; pre-authentication, hardware authentication and anonymity are exactly those
  of the header ticket; it is never initial, invalid or renewable at this point.
\<close>

theorem get_ticket_flags_tgs:
  assumes "\<not> intersects opts (opt_VALIDATE OR opt_RENEW)"
  shows "let f = get_ticket_flags opts client server (Some h) in
    (contains f tkt_FORWARDABLE \<longleftrightarrow> contains opts opt_FORWARDABLE \<and> contains h tkt_FORWARDABLE \<and>
            \<not> denied attr_DISALLOW_FORWARDABLE client server) \<and>
    (contains f tkt_PROXIABLE \<longleftrightarrow> contains opts opt_PROXIABLE \<and> contains h tkt_PROXIABLE \<and>
            \<not> denied attr_DISALLOW_PROXIABLE client server) \<and>
    (contains f tkt_FORWARDED \<longleftrightarrow> contains opts opt_FORWARDED \<or> contains h tkt_FORWARDED) \<and>
    (contains f tkt_PROXY \<longleftrightarrow> contains opts opt_PROXY \<or> contains h tkt_PROXY) \<and>
    (contains f tkt_MAY_POSTDATE \<longleftrightarrow> contains opts opt_ALLOW_POSTDATE) \<and>
    (contains f tkt_POSTDATED \<longleftrightarrow> contains opts opt_POSTDATED) \<and>
    (contains f tkt_PRE_AUTHENT \<longleftrightarrow> contains h tkt_PRE_AUTHENT) \<and>
    (contains f tkt_HW_AUTHENT \<longleftrightarrow> contains h tkt_HW_AUTHENT) \<and>
    (contains f tkt_ANONYMOUS \<longleftrightarrow> contains h tkt_ANONYMOUS) \<and>
    (contains f tkt_OK_AS_DELEGATE \<longleftrightarrow> contains (attributes server) attr_OK_AS_DELEGATE) \<and>
    contains f tkt_ENC_PA_REP \<and> \<not> contains f tkt_INITIAL \<and> \<not> contains f tkt_INVALID \<and>
    \<not> contains f tkt_RENEWABLE \<and> \<not> contains f tkt_TRANSITED_POLICY_CHECKED"
  unfolding Let_def
  by (auto simp: bit_ticket_flags_tgs [OF assms] option_flags_def flag_bits)

definition example_server :: PrincipalEntry where
  "example_server = new_entry \<lparr>name_type = 2, name_string = []\<rparr> [] 0 []"

theorem get_ticket_flags_tgs_witness:
  "contains (get_ticket_flags (flag 30) None example_server (Some (flag 30 OR flag 21))) tkt_FORWARDABLE \<and>
   contains (get_ticket_flags (flag 30) None example_server (Some (flag 30 OR flag 21))) tkt_PRE_AUTHENT"
proof -
  have "\<not> intersects (flag 30) (opt_VALIDATE OR opt_RENEW)" by (simp add: flag_bits)
  from get_ticket_flags_tgs [OF this, of None example_server "flag 30 OR flag 21"] show ?thesis
    by (simp add: Let_def flag_bits denied_def example_server_def new_entry_def)
qed

text \<open>
  C27: a request that passes \<open>validate_as_request\<close> gets an initial ticket that carries none of the
  flags only a TGS request may set (forwarded, proxy, postdated, may-postdate, invalid, ok-as-delegate,
  transited-policy-checked), no authentication flag yet, and is forwardable only if asked for and
  permitted by both principals.
\<close>

theorem as_request_flags:
  assumes "validate_as_request opts client server now = Inr ()"
  shows "let f = get_ticket_flags opts (Some client) server None in
    contains f tkt_INITIAL \<and> contains f tkt_ENC_PA_REP \<and>
    \<not> intersects f (tkt_FORWARDED OR tkt_PROXY OR tkt_MAY_POSTDATE OR tkt_POSTDATED OR tkt_INVALID OR
      tkt_RENEWABLE OR tkt_PRE_AUTHENT OR tkt_HW_AUTHENT OR tkt_TRANSITED_POLICY_CHECKED OR tkt_OK_AS_DELEGATE) \<and>
    (contains f tkt_FORWARDABLE \<longleftrightarrow> contains opts opt_FORWARDABLE \<and>
       \<not> contains (attributes client) attr_DISALLOW_FORWARDABLE \<and>
       \<not> contains (attributes server) attr_DISALLOW_FORWARDABLE) \<and>
    (contains f tkt_PROXIABLE \<longleftrightarrow> contains opts opt_PROXIABLE \<and>
       \<not> contains (attributes client) attr_DISALLOW_PROXIABLE \<and>
       \<not> contains (attributes server) attr_DISALLOW_PROXIABLE) \<and>
    (contains f tkt_ANONYMOUS \<longleftrightarrow> contains opts opt_REQUEST_ANONYMOUS)"
proof -
  have o: "\<not> intersects opts (AS_INVALID_OPTIONS OR UNSUPPORTED_OPTIONS)"
    using assms by (auto simp: validate_as_request_def split: if_splits)
  then have "\<not> contains opts opt_FORWARDED" "\<not> contains opts opt_PROXY"
    "\<not> contains opts opt_ALLOW_POSTDATE" "\<not> contains opts opt_POSTDATED"
    by (auto simp: flag_bits)
  then show ?thesis
    unfolding Let_def
    by (auto simp: bit_ticket_flags_as option_flags_def flag_bits denied_def)
qed

theorem as_request_flags_witness:
  "validate_as_request (flag 30) example_server example_server 1 = Inr () \<and>
   contains (get_ticket_flags (flag 30) (Some example_server) example_server None) tkt_FORWARDABLE"
proof -
  have v: "validate_as_request (flag 30) example_server example_server 1 = Inr ()"
    by (simp add: validate_as_request_def flag_bits example_server_def new_entry_def expired_def)
  from as_request_flags [OF v] v show ?thesis
    by (simp add: Let_def flag_bits example_server_def new_entry_def)
qed

lemma le_cap_life: "t \<le> s + cap_life c l \<longleftrightarrow> t \<le> s + l \<and> is_none_or c (\<lambda>m. t \<le> s + m)"
  by (auto simp: cap_life_def split: option.splits)

lemma le_min_life: "t \<le> s + (if m \<noteq> 0 then min l m else l) \<longleftrightarrow> t \<le> s + l \<and> (m = 0 \<or> t \<le> s + m)"
  for t :: int
  by auto

lemma sub_in_i64: "start - 2 ^ 31 \<le> u \<Longrightarrow> u \<le> KDC_INFINITY \<Longrightarrow> 0 \<le> start \<Longrightarrow> in_i64 (u - start)"
  by (simp add: in_i64_def i64_min_def i64_max_def KDC_INFINITY_def)

lemma request_till_le: "request_till till \<le> KDC_INFINITY"
  by (simp add: request_till_def)

lemma secs_nonneg: "0 \<le> secs d"
  by (simp add: secs_def i64_max_def)

lemma lifetime_cap_nonneg: "lifetime_cap d = Some m \<Longrightarrow> 0 \<le> m"
  by (auto simp: lifetime_cap_def secs_nonneg split: option.splits if_splits)

lemma le_get_ticket_endtime:
  assumes "start - 2 ^ 31 \<le> min (request_till till) endt"
  shows "t \<le> get_ticket_endtime limits start endt till client server \<longleftrightarrow>
      t \<le> request_till till \<and> t \<le> endt \<and> t \<le> start + i32_max \<and>
      is_none_or (Option.bind client (\<lambda>c. lifetime_cap (max_life c))) (\<lambda>m. t \<le> start + m) \<and>
      is_none_or (lifetime_cap (max_life server)) (\<lambda>m. t \<le> start + m) \<and>
      (rl_max_life limits = 0 \<or> t \<le> start + rl_max_life limits)"
proof -
  let ?u = "min (request_till till) endt"
  define life where "life = (if start < ?u then min (max (?u - start) i32_min) i32_max else max (?u - start) i32_min)"
  have life: "t \<le> start + life \<longleftrightarrow> t \<le> ?u \<and> t \<le> start + i32_max"
    using assms by (auto simp: life_def i32_min_def i32_max_def)
  have "t \<le> get_ticket_endtime limits start endt till client server \<longleftrightarrow> t \<le> start + life \<and>
      is_none_or (Option.bind client (\<lambda>c. lifetime_cap (max_life c))) (\<lambda>m. t \<le> start + m) \<and>
      is_none_or (lifetime_cap (max_life server)) (\<lambda>m. t \<le> start + m) \<and>
      (rl_max_life limits = 0 \<or> t \<le> start + rl_max_life limits)"
    unfolding get_ticket_endtime_def Let_def life_def [symmetric]
    by (simp only: le_cap_life le_min_life conj_assoc)
  with life show ?thesis by simp
qed

text \<open>
  C20: the end time of a ticket is the greatest time within every limit that applies: the requested
  till (absent: the largest 32-bit time), the end of the header ticket, 2^31-1 seconds of life, and
  the non-zero maximum lives of the client, the server and the realm. No \<open>i64\<close> operation on the way
  overflows for a start time in the 32-bit range and a header end time inside half the \<open>i64\<close> range.
\<close>

theorem get_ticket_endtime_greatest:
  assumes "0 \<le> start" "start \<le> KDC_INFINITY" "start - 2 ^ 31 \<le> min (request_till till) endt" "endt \<le> 2 ^ 62"
    and "0 \<le> rl_max_life limits"
  shows "(t \<le> get_ticket_endtime limits start endt till client server \<longleftrightarrow>
      t \<le> request_till till \<and> t \<le> endt \<and> t \<le> start + i32_max \<and>
      is_none_or (Option.bind client (\<lambda>c. lifetime_cap (max_life c))) (\<lambda>m. t \<le> start + m) \<and>
      is_none_or (lifetime_cap (max_life server)) (\<lambda>m. t \<le> start + m) \<and>
      (rl_max_life limits = 0 \<or> t \<le> start + rl_max_life limits)) \<and>
    in_i64 (min (request_till till) endt - start) \<and>
    in_i64 (get_ticket_endtime limits start endt till client server)"
proof -
  let ?u = "min (request_till till) endt"
  define r where "r = get_ticket_endtime limits start endt till client server"
  note r = le_get_ticket_endtime [OF assms(3), of _ limits client server, folded r_def]
  have "?u \<le> KDC_INFINITY" using request_till_le [of till] by linarith
  then have sub: "in_i64 (?u - start)"
    using assms(1) sub_in_i64 [OF assms(3)] by simp
  have "is_none_or (lifetime_cap d) (\<lambda>m. start + i32_min \<le> start + m)" for d
    using lifetime_cap_nonneg [of d] by (auto simp: is_none_or_def i32_min_def split: option.splits)
  moreover from this have
    "is_none_or (Option.bind client (\<lambda>c. lifetime_cap (max_life c))) (\<lambda>m. start + i32_min \<le> start + m)"
    by (cases client) auto
  ultimately have "start + i32_min \<le> r"
    using assms(3,5) r [of "start + i32_min"] by (simp add: i32_min_def i32_max_def)
  moreover have "r \<le> KDC_INFINITY"
    using r [of r] request_till_le [of till] by simp
  ultimately have "in_i64 r"
    using assms(1) by (simp add: in_i64_def i64_min_def i64_max_def KDC_INFINITY_def i32_min_def)
  with r sub show ?thesis by (simp add: r_def)
qed

theorem get_ticket_endtime_greatest_witness:
  "get_ticket_endtime (limits_of 86400 0) 1000 5000 0 None (example_server\<lparr>max_life := Some 600\<rparr>) \<le> 1600 \<and>
   1600 \<le> get_ticket_endtime (limits_of 86400 0) 1000 5000 0 None (example_server\<lparr>max_life := Some 600\<rparr>)"
proof -
  have h: "0 \<le> (1000::int)" "1000 \<le> KDC_INFINITY" "1000 - 2 ^ 31 \<le> min (request_till 0) 5000"
    "(5000::int) \<le> 2 ^ 62" "0 \<le> rl_max_life (limits_of 86400 0)"
    by (simp_all add: KDC_INFINITY_def request_till_def limits_of_def secs_nonneg)
  from get_ticket_endtime_greatest [OF h, of _ None "example_server\<lparr>max_life := Some 600\<rparr>"] show ?thesis
    by (auto simp: request_till_def KDC_INFINITY_def limits_of_def secs_def i64_max_def i32_max_def
        lifetime_cap_def)
qed

text \<open>
  The function as one choice: whether renewal is denied, whether it is asked for, and the time.
\<close>

definition renew_denied :: "HeaderRenewal option \<Rightarrow> PrincipalEntry option \<Rightarrow> PrincipalEntry \<Rightarrow> bool" where
  "renew_denied tgt client server \<longleftrightarrow> denied attr_DISALLOW_RENEWABLE client server \<or>
     is_some_and tgt (\<lambda>h. \<not> contains (hr_flags h) tkt_RENEWABLE)"

definition renew_time ::
  "RealmLimits \<Rightarrow> u32 \<Rightarrow> int \<Rightarrow> int \<Rightarrow> HeaderRenewal option \<Rightarrow> PrincipalEntry option \<Rightarrow> PrincipalEntry \<Rightarrow> int \<Rightarrow> int" where
  "renew_time limits opts req_rtime req_till tgt client server start =
     (let rtime = (if contains opts opt_RENEWABLE then
                     if 0 < req_rtime then min req_rtime KDC_INFINITY else KDC_INFINITY
                   else min req_till KDC_INFINITY)
      in min (case tgt of None \<Rightarrow> rtime | Some h \<Rightarrow> min rtime (hr_renew_till h))
           (sat_add_i64 start
             (cap_life (map_option secs (Option.bind client max_renewable_life))
               (cap_life (map_option secs (max_renewable_life server)) (rl_max_renewable_life limits)))))"

lemma renew_cascade:
  "(if a then x else if b then x else if c then x else if \<not> d \<and> \<not> (k \<and> q) then x
    else if \<not> d \<and> l then x else y) =
   (if (b \<or> a) \<or> c \<or> \<not> (d \<or> k \<and> q \<and> \<not> l) then x else y)"
  by auto

lemma get_ticket_renewtime_alt:
  "get_ticket_renewtime limits opts req_rtime req_till tgt client server flags tm0 =
     (let rt = renew_time limits opts req_rtime req_till tgt client server (starttime tm0) in
      if renew_denied tgt client server \<or>
         \<not> (contains opts opt_RENEWABLE \<or>
            contains opts opt_RENEWABLE_OK \<and> endtime tm0 < req_till \<and> \<not> rt \<le> endtime tm0)
      then (remove_flag flags tkt_RENEWABLE, tm0\<lparr>renew_till := 0\<rparr>)
      else (remove_flag flags tkt_RENEWABLE OR tkt_RENEWABLE, tm0\<lparr>renew_till := rt\<rparr>))"
proof -
  have sel: "endtime (tm0\<lparr>renew_till := r\<rparr>) = endtime tm0" "starttime (tm0\<lparr>renew_till := r\<rparr>) = starttime tm0"
    "tm0\<lparr>renew_till := 0, renew_till := r\<rparr> = tm0\<lparr>renew_till := r\<rparr>" for r
    by simp_all
  show ?thesis
    unfolding get_ticket_renewtime_def renew_time_def Let_def sel renew_cascade renew_denied_def denied_def
    by (simp only: disj_assoc)
qed

lemma renew_time_bounds:
  fixes limits opts req_rtime req_till tgt client server start
  defines "rt \<equiv> renew_time limits opts req_rtime req_till tgt client server start"
  shows "rt \<le> KDC_INFINITY" "rt \<le> sat_add_i64 start (rl_max_renewable_life limits)"
    "is_none_or (max_renewable_life server) (\<lambda>m. rt \<le> sat_add_i64 start (secs m))"
    "is_none_or (Option.bind client max_renewable_life) (\<lambda>m. rt \<le> sat_add_i64 start (secs m))"
    "is_none_or tgt (\<lambda>h. rt \<le> hr_renew_till h)"
proof -
  define req where "req = (if contains opts opt_RENEWABLE then
      if 0 < req_rtime then min req_rtime KDC_INFINITY else KDC_INFINITY else min req_till KDC_INFINITY)"
  define rl where "rl = cap_life (map_option secs (Option.bind client max_renewable_life))
      (cap_life (map_option secs (max_renewable_life server)) (rl_max_renewable_life limits))"
  have rt: "rt = min (case tgt of None \<Rightarrow> req | Some h \<Rightarrow> min req (hr_renew_till h)) (sat_add_i64 start rl)"
    unfolding rt_def renew_time_def Let_def req_def rl_def ..
  have rl: "rl \<le> rl_max_renewable_life limits" "is_none_or (max_renewable_life server) (\<lambda>m. rl \<le> secs m)"
    "is_none_or (Option.bind client max_renewable_life) (\<lambda>m. rl \<le> secs m)"
    by (auto simp: rl_def cap_life_def split: option.splits)
  have sat: "sat_add_i64 start rl \<le> sat_add_i64 start m" if "rl \<le> m" for m
    using that by (auto simp: sat_add_i64_def)
  have "req \<le> KDC_INFINITY" by (auto simp: req_def)
  then show "rt \<le> KDC_INFINITY" by (auto simp: rt split: option.splits)
  show "is_none_or tgt (\<lambda>h. rt \<le> hr_renew_till h)" by (cases tgt) (auto simp: rt)
  have "rt \<le> sat_add_i64 start rl" by (simp add: rt)
  with sat rl show "rt \<le> sat_add_i64 start (rl_max_renewable_life limits)"
    "is_none_or (max_renewable_life server) (\<lambda>m. rt \<le> sat_add_i64 start (secs m))"
    "is_none_or (Option.bind client max_renewable_life) (\<lambda>m. rt \<le> sat_add_i64 start (secs m))"
    by (auto simp: is_none_or_def split: option.splits intro: order_trans)
qed

lemma get_ticket_renewtime_frame:
  assumes "get_ticket_renewtime limits opts req_rtime req_till tgt client server flags tm0 = (f, t)"
  shows "n \<noteq> 23 \<Longrightarrow> bit f n = bit flags n"
    and "authtime t = authtime tm0" and "starttime t = starttime tm0" and "endtime t = endtime tm0"
    and "contains f tkt_RENEWABLE \<Longrightarrow> \<not> renew_denied tgt client server \<and>
      renew_till t = renew_time limits opts req_rtime req_till tgt client server (starttime tm0) \<and>
      (contains opts opt_RENEWABLE \<or>
         contains opts opt_RENEWABLE_OK \<and> endtime tm0 < req_till \<and> endtime tm0 < renew_till t)"
    and "\<not> contains f tkt_RENEWABLE \<Longrightarrow> renew_till t = 0"
    and "contains opts opt_RENEWABLE \<Longrightarrow> \<not> renew_denied tgt client server \<Longrightarrow> contains f tkt_RENEWABLE"
proof -
  note g = assms [unfolded get_ticket_renewtime_alt Let_def]
  show "n \<noteq> 23 \<Longrightarrow> bit f n = bit flags n" "authtime t = authtime tm0" "starttime t = starttime tm0"
    "endtime t = endtime tm0"
    using g by (auto simp: flag_bits split: if_splits)
  show "contains f tkt_RENEWABLE \<Longrightarrow> \<not> renew_denied tgt client server \<and>
      renew_till t = renew_time limits opts req_rtime req_till tgt client server (starttime tm0) \<and>
      (contains opts opt_RENEWABLE \<or>
         contains opts opt_RENEWABLE_OK \<and> endtime tm0 < req_till \<and> endtime tm0 < renew_till t)"
    using g by (auto simp: flag_bits split: if_splits)
  show "\<not> contains f tkt_RENEWABLE \<Longrightarrow> renew_till t = 0"
    using g by (auto simp: flag_bits split: if_splits)
  show "contains opts opt_RENEWABLE \<Longrightarrow> \<not> renew_denied tgt client server \<Longrightarrow> contains f tkt_RENEWABLE"
    using g by (auto simp: flag_bits split: if_splits)
qed

text \<open>
  C22: \<open>get_ticket_renewtime\<close> touches only the renewable flag and the renew-till time. It marks the
  ticket renewable only if both principals allow it, the header ticket (of a TGS request) is
  renewable, and the request asks for it, or accepts it because the end time was cut short; then
  renew-till is within the header's, the request's and every maximum renewable life. A ticket
  not marked renewable has no renew-till.
\<close>

theorem get_ticket_renewtime_bounds:
  assumes "get_ticket_renewtime limits opts req_rtime req_till tgt client server flags tm0 = (f, t)"
  shows "(\<forall>n. n \<noteq> 23 \<longrightarrow> bit f n = bit flags n) \<and>
    authtime t = authtime tm0 \<and> starttime t = starttime tm0 \<and> endtime t = endtime tm0 \<and>
    (contains f tkt_RENEWABLE \<longrightarrow>
       \<not> denied attr_DISALLOW_RENEWABLE client server \<and>
       is_none_or tgt (\<lambda>h. contains (hr_flags h) tkt_RENEWABLE \<and> renew_till t \<le> hr_renew_till h) \<and>
       (contains opts opt_RENEWABLE \<or>
          contains opts opt_RENEWABLE_OK \<and> endtime tm0 < req_till \<and> endtime tm0 < renew_till t) \<and>
       renew_till t \<le> KDC_INFINITY \<and>
       renew_till t \<le> sat_add_i64 (starttime tm0) (rl_max_renewable_life limits) \<and>
       is_none_or (max_renewable_life server) (\<lambda>m. renew_till t \<le> sat_add_i64 (starttime tm0) (secs m)) \<and>
       is_none_or (Option.bind client max_renewable_life)
         (\<lambda>m. renew_till t \<le> sat_add_i64 (starttime tm0) (secs m))) \<and>
    (\<not> contains f tkt_RENEWABLE \<longrightarrow> renew_till t = 0) \<and>
    (contains opts opt_RENEWABLE \<and> \<not> denied attr_DISALLOW_RENEWABLE client server \<and>
       is_none_or tgt (\<lambda>h. contains (hr_flags h) tkt_RENEWABLE) \<longrightarrow> contains f tkt_RENEWABLE)"
proof -
  let ?rt = "renew_time limits opts req_rtime req_till tgt client server (starttime tm0)"
  note fr = get_ticket_renewtime_frame [OF assms]
  note b = renew_time_bounds [where limits = limits and opts = opts and req_rtime = req_rtime and
      req_till = req_till and tgt = tgt and client = client and server = server and start = "starttime tm0"]
  have yes: "\<not> denied attr_DISALLOW_RENEWABLE client server \<and>
      is_none_or tgt (\<lambda>h. contains (hr_flags h) tkt_RENEWABLE \<and> ?rt \<le> hr_renew_till h)"
    if "\<not> renew_denied tgt client server"
    using that b(5) by (cases tgt) (auto simp: renew_denied_def)
  have no: "\<not> renew_denied tgt client server"
    if "\<not> denied attr_DISALLOW_RENEWABLE client server" "is_none_or tgt (\<lambda>h. contains (hr_flags h) tkt_RENEWABLE)"
    using that by (cases tgt) (auto simp: renew_denied_def)
  show ?thesis
  proof (cases "contains f tkt_RENEWABLE")
    case True
    then have "\<not> renew_denied tgt client server" "renew_till t = ?rt"
      "contains opts opt_RENEWABLE \<or> contains opts opt_RENEWABLE_OK \<and> endtime tm0 < req_till \<and> endtime tm0 < renew_till t"
      using fr(5) by blast+
    with True yes b(1-4) fr(1-4) show ?thesis by simp
  next
    case False
    with fr(1-4,6,7) no show ?thesis by metis
  qed
qed

theorem get_ticket_renewtime_bounds_witness:
  "\<exists>f t. get_ticket_renewtime (limits_of 86400 7200) opt_RENEWABLE 0 0
       (Some \<lparr>hr_flags = tkt_RENEWABLE, hr_renew_till = 4000\<rparr>) None example_server 0
       \<lparr>authtime = 900, starttime = 1000, endtime = 2000, renew_till = 0\<rparr> = (f, t) \<and>
     contains f tkt_RENEWABLE \<and> renew_till t \<le> 4000"
proof -
  let ?g = "get_ticket_renewtime (limits_of 86400 7200) opt_RENEWABLE 0 0
       (Some \<lparr>hr_flags = tkt_RENEWABLE, hr_renew_till = 4000\<rparr>) None example_server 0
       \<lparr>authtime = 900, starttime = 1000, endtime = 2000, renew_till = 0\<rparr>"
  obtain f t where g: "?g = (f, t)" by (cases ?g)
  from get_ticket_renewtime_bounds [OF g] g show ?thesis
    by (simp add: denied_def example_server_def new_entry_def flag_bits)
qed

section \<open>Chains of TGS exchanges\<close>

text \<open>
  One ordinary TGS exchange as the handler composes it: the unsupported-option check, the option and
  time checks against the header ticket, flags and times, and the transited-policy flag set when
  the path was checked. \<open>tgs_chain\<close> is any sequence of exchanges, each presenting the ticket of the
  previous one.
\<close>

inductive tgs_exchange :: "u32 \<Rightarrow> u32 \<Rightarrow> bool" where
  exchange: "\<not> intersects opts UNSUPPORTED_OPTIONS \<Longrightarrow>
    check_tgs_opts opts (ht_flags header) = Inr () \<Longrightarrow>
    check_tgs_times opts (case ht_renew_till header of None \<Rightarrow> 0 | Some r \<Rightarrow> r) kdc_time = Inr () \<Longrightarrow>
    tgs_flags_times limits opts kdc_time req_till req_rtime header subject_authtime client server = (f, t) \<Longrightarrow>
    f' = f \<or> f' = f OR tkt_TRANSITED_POLICY_CHECKED \<Longrightarrow>
    tgs_exchange (ht_flags header) f'"

inductive tgs_chain :: "u32 \<Rightarrow> u32 \<Rightarrow> bool" where
  start: "tgs_chain h h"
| step: "tgs_chain h f \<Longrightarrow> tgs_exchange f f' \<Longrightarrow> tgs_chain h f'"

lemma bit_ticket_flags_renewed:
  assumes "intersects opts (opt_VALIDATE OR opt_RENEW)"
  shows "bit (get_ticket_flags opts client server (Some h)) n \<longleftrightarrow> bit h n \<and> bit TicketFlags_all n \<and> n \<noteq> 24"
  using assms by (auto simp: get_ticket_flags_def flag_bits)

lemma bit_TicketFlags_all:
  "bit TicketFlags_all n \<longleftrightarrow> n \<in> {31, 30, 29, 28, 27, 26, 25, 24, 23, 22, 21, 20, 19, 18, 16, 15}"
  by (auto simp: TicketFlags_all_def flag_bits)

lemma tgs_exchange_bits:
  assumes "tgs_exchange h f"
  shows "\<forall>n\<in>{15, 28, 30}. bit f n \<longrightarrow> bit h n" "bit f 23 \<longrightarrow> bit h 23"
    "\<forall>n\<in>{20, 21}. bit f n = bit h n" "bit f 22 \<longrightarrow> bit h 22" "\<not> bit h 24" "\<not> bit f 24"
    "\<forall>n\<in>{25, 26}. bit f n \<longrightarrow> bit h n"
proof -
  from assms obtain opts header kdc_time limits req_till req_rtime sa client server f0 t where
    o: "\<not> intersects opts UNSUPPORTED_OPTIONS" and h: "ht_flags header = h"
    and c: "check_tgs_opts opts h = Inr ()"
    and ft: "tgs_flags_times limits opts kdc_time req_till req_rtime header sa client server = (f0, t)"
    and f: "f = f0 \<or> f = f0 OR tkt_TRANSITED_POLICY_CHECKED"
    by (cases rule: tgs_exchange.cases) auto
  let ?g = "get_ticket_flags opts client server (Some h)"
  obtain tm t' r where r: "get_ticket_renewtime limits opts req_rtime req_till
      (Some \<lparr>hr_flags = h, hr_renew_till = r\<rparr>) client server ?g tm = (f0, t')"
    using ft h by (auto simp: tgs_flags_times_def Let_def split: prod.splits)
  have f0: "n \<noteq> 23 \<Longrightarrow> bit f0 n = bit ?g n" "bit f0 23 \<Longrightarrow> bit h 23" for n
    using get_ticket_renewtime_frame(1,5) [OF r] by (auto simp: flag_bits renew_denied_def)
  have fb: "n \<noteq> 19 \<Longrightarrow> bit f n = bit f0 n" for n
    using f by (auto simp: flag_bits)
  have o': "\<not> bit opts 0" "\<not> bit opts 25" "\<not> bit opts 26" "\<not> bit opts 27"
    using o by (auto simp: flag_bits)
  show inv: "\<not> bit h 24"
    using c o' by (auto simp: check_tgs_opts_def tgs_opt_rules_def flag_bits split: if_splits)
  have g: "\<forall>n\<in>{15, 28, 30}. bit ?g n \<longrightarrow> bit h n" "\<forall>n\<in>{20, 21}. bit ?g n = bit h n" "bit ?g 22 \<longrightarrow> bit h 22"
    "\<not> bit ?g 24" "\<forall>n\<in>{25, 26}. bit ?g n \<longrightarrow> bit h n"
    using o' by (cases "intersects opts (opt_VALIDATE OR opt_RENEW)";
        auto simp: bit_ticket_flags_renewed bit_TicketFlags_all bit_ticket_flags_tgs option_flags_def flag_bits)+
  show "\<forall>n\<in>{15, 28, 30}. bit f n \<longrightarrow> bit h n" "bit f 23 \<longrightarrow> bit h 23"
    "\<forall>n\<in>{20, 21}. bit f n = bit h n" "bit f 22 \<longrightarrow> bit h 22" "\<not> bit f 24"
    "\<forall>n\<in>{25, 26}. bit f n \<longrightarrow> bit h n"
    using g f0 fb by auto
qed

text \<open>
  C8: no sequence of TGS exchanges gains a privilege. However the tickets are passed on, the last one
  is forwardable, proxiable, anonymous, renewable, initial, postdated or postdatable only if the
  first one was; it is pre-authenticated (in hardware) exactly if the first one was; and once an
  exchange has happened, neither ticket is an invalid (not yet validated) one.
\<close>

theorem tgs_chain_no_privilege_gain:
  assumes "tgs_chain h f"
  shows "(\<forall>p\<in>{tkt_FORWARDABLE, tkt_PROXIABLE, tkt_ANONYMOUS, tkt_RENEWABLE, tkt_INITIAL, tkt_POSTDATED,
            tkt_MAY_POSTDATE}. contains f p \<longrightarrow> contains h p) \<and>
    (\<forall>p\<in>{tkt_PRE_AUTHENT, tkt_HW_AUTHENT}. contains f p = contains h p) \<and>
    (f = h \<or> \<not> contains f tkt_INVALID \<and> \<not> contains h tkt_INVALID)"
  using assms
proof (induction rule: tgs_chain.induct)
  case (start h)
  then show ?case by simp
next
  case (step h f f')
  note e = tgs_exchange_bits [OF step.hyps(2)]
  have "f = h \<or> \<not> bit h 24" using step.IH by (auto simp: flag_bits)
  with step.IH e show ?case by (auto simp: flag_bits)
qed

lemma example_exchange:
  "tgs_exchange (flag 30 OR flag 21) (get_ticket_flags (flag 30) None example_server (Some (flag 30 OR flag 21)))"
proof -
  let ?h = "\<lparr>ht_flags = flag 30 OR flag 21, ht_starttime = None, ht_authtime = 10, ht_endtime = 1000, ht_renew_till = None\<rparr>"
  let ?g = "get_ticket_flags (flag 30) None example_server (Some (flag 30 OR flag 21))"
  have "\<not> bit ?g 23"
    using bit_ticket_flags_tgs [of "flag 30" None example_server "flag 30 OR flag 21" 23]
    by (simp add: flag_bits option_flags_def)
  then have r: "remove_flag ?g tkt_RENEWABLE = ?g"
    by (intro bit_word_eqI) (auto simp: flag_bits)
  have ft: "\<exists>t. tgs_flags_times (limits_of 100 0) (flag 30) 20 0 0 ?h 10 None example_server = (?g, t)"
    by (simp add: tgs_flags_times_def get_ticket_renewtime_def Let_def r [unfolded tkt_RENEWABLE_def] flag_bits)
  then obtain t where t: "tgs_flags_times (limits_of 100 0) (flag 30) 20 0 0 ?h 10 None example_server = (?g, t)" ..
  have "tgs_exchange (ht_flags ?h) ?g"
    by (rule exchange [OF _ _ _ t, of ?g])
      (auto simp: check_tgs_opts_def check_tgs_times_def tgs_opt_rules_def flag_bits)
  then show ?thesis by simp
qed

theorem tgs_chain_no_privilege_gain_witness:
  "contains (get_ticket_flags (flag 30) None example_server (Some (flag 30 OR flag 21))) tkt_PRE_AUTHENT"
  using tgs_chain_no_privilege_gain [OF tgs_chain.step [OF tgs_chain.start example_exchange]]
  by (simp add: flag_bits)

text \<open>
  C10: a ticket never outlives the ticket it came from. Without the renew option its end time is at
  most the header ticket's; with it, at most the header ticket's renew-till; and its own renew-till,
  if it is renewable, is at most the header's.
\<close>

theorem tgs_ticket_within_header:
  assumes "tgs_flags_times limits opts kdc_time req_till req_rtime header sa client server = (f, t)"
    and "kdc_time - 2 ^ 31 \<le> min (request_till req_till) (ht_endtime header)"
  shows "(\<not> contains opts opt_RENEW \<longrightarrow> endtime t \<le> ht_endtime header) \<and>
    (contains opts opt_RENEW \<longrightarrow> endtime t \<le> (case ht_renew_till header of None \<Rightarrow> 0 | Some r \<Rightarrow> r)) \<and>
    (contains f tkt_RENEWABLE \<longrightarrow> contains (ht_flags header) tkt_RENEWABLE \<and>
       renew_till t \<le> (case ht_renew_till header of None \<Rightarrow> 0 | Some r \<Rightarrow> r))"
proof -
  let ?rt = "case ht_renew_till header of None \<Rightarrow> 0 | Some r \<Rightarrow> r"
  let ?start = "case ht_starttime header of None \<Rightarrow> ht_authtime header | Some s \<Rightarrow> s"
  define e where "e = (if contains opts opt_RENEW then min ?rt (kdc_time + (ht_endtime header - ?start))
      else get_ticket_endtime limits kdc_time (ht_endtime header) req_till client server)"
  obtain f' t' where r: "get_ticket_renewtime limits opts req_rtime req_till
      (Some \<lparr>hr_flags = ht_flags header, hr_renew_till = ?rt\<rparr>) client server
      (get_ticket_flags opts client server (Some (ht_flags header)))
      \<lparr>authtime = sa, starttime = kdc_time, endtime = e, renew_till = 0\<rparr> = (f', t')"
    by fastforce
  have "f = f'" "endtime t = endtime t'" "renew_till t = renew_till t'"
    using assms(1) r by (auto simp: tgs_flags_times_def Let_def e_def split: prod.splits if_splits)
  moreover have "get_ticket_endtime limits kdc_time (ht_endtime header) req_till client server \<le> ht_endtime header"
    using le_get_ticket_endtime [OF assms(2),
        of "get_ticket_endtime limits kdc_time (ht_endtime header) req_till client server" limits client server]
    by simp
  then have "\<not> contains opts opt_RENEW \<longrightarrow> e \<le> ht_endtime header" by (simp add: e_def)
  moreover have "contains opts opt_RENEW \<longrightarrow> e \<le> ?rt" by (simp add: e_def)
  moreover have "endtime t' = e"
    using get_ticket_renewtime_frame(4) [OF r] by simp
  moreover have "contains f' tkt_RENEWABLE \<longrightarrow> contains (ht_flags header) tkt_RENEWABLE \<and> renew_till t' \<le> ?rt"
    using get_ticket_renewtime_frame(5) [OF r] renew_time_bounds(5) [where limits = limits and opts = opts and
        req_rtime = req_rtime and req_till = req_till and client = client and server = server and start = kdc_time
        and tgt = "Some \<lparr>hr_flags = ht_flags header, hr_renew_till = ?rt\<rparr>"]
    by (auto simp: renew_denied_def)
  ultimately show ?thesis by metis
qed

theorem tgs_ticket_within_header_witness:
  "endtime (snd (tgs_flags_times (limits_of 0 0) 0 20 0 0
      \<lparr>ht_flags = 0, ht_starttime = None, ht_authtime = 10, ht_endtime = 1000, ht_renew_till = None\<rparr>
      10 None example_server)) \<le> 1000"
proof -
  let ?h = "\<lparr>ht_flags = 0, ht_starttime = None, ht_authtime = 10, ht_endtime = 1000, ht_renew_till = None\<rparr>"
  obtain f t where ft: "tgs_flags_times (limits_of 0 0) 0 20 0 0 ?h 10 None example_server = (f, t)" by fastforce
  have "20 - 2 ^ 31 \<le> min (request_till 0) (ht_endtime ?h)"
    by (simp add: request_till_def KDC_INFINITY_def)
  from tgs_ticket_within_header [OF ft this] ft show ?thesis
    by (simp add: flag_bits)
qed

end
