(* ===== verification/Lockout.thy ===== *)
theory Lockout
  imports Auth_State Kdc_Policy
begin

text \<open>
  Principal lockout, \<open>src/src/kdc/lockout.rs\<close>. The KDC's services are arguments: \<open>policies\<close> is the
  policy store and \<open>get\<close>, \<open>apply_update\<close> the authentication-state store, whose state is threaded through.
  \<open>audit_as\<close> returns the new store and the lockout report it sends, if any. Timing of store calls
  (\<open>measure_store\<close>) is not modelled.

  The bound on guessing is proved in the context of the interface \<open>auth_store\<close> and used for the
  in-memory store and for the store shared between KDCs.
\<close>

section \<open>Checks\<close>

record LockoutPolicy =
  max_fail :: u32
  failcnt_interval :: u32
  lockout_duration :: u32

definition default_LockoutPolicy :: LockoutPolicy where
  "default_LockoutPolicy = \<lparr>max_fail = 0, failcnt_interval = 0, lockout_duration = 0\<rparr>"

definition locked_check_p :: "int \<Rightarrow> LockoutPolicy \<Rightarrow> AuthState \<Rightarrow> int option \<Rightarrow> bool" where
  "locked_check_p now pol state last_unlock =
     (if last_failed state \<le> (case last_unlock of None \<Rightarrow> 0 | Some u \<Rightarrow> u) then False
      else if max_fail pol = 0 \<or> fail_count state < max_fail pol then False
      else if lockout_duration pol = 0 then True
      else now < sat_add_i64 (last_failed state) (int (unat (lockout_duration pol))))"

definition unlock_time :: "PrincipalEntry \<Rightarrow> int option" where
  "unlock_time e = (case last_admin_unlock e of None \<Rightarrow> None | Some t \<Rightarrow> if t \<noteq> 0 then Some t else None)"

text \<open>The two configuration switches the lockout code reads.\<close>

record LockoutConfig =
  disable_lockout :: bool
  disable_last_success :: bool

type_synonym policy_store = "bytes \<Rightarrow> StoreError + Policy option"

definition lockout_policy :: "policy_store \<Rightarrow> PrincipalEntry \<Rightarrow> KdcError + LockoutPolicy" where
  "lockout_policy policies e = (case pe_policy e of
     None \<Rightarrow> Inr default_LockoutPolicy
   | Some n \<Rightarrow> (case policies n of
       Inr (Some p) \<Rightarrow> Inr \<lparr>max_fail = pw_max_fail p, failcnt_interval = pw_failcnt_interval p,
                           lockout_duration = pw_lockout_duration p\<rparr>
     | Inr None \<Rightarrow> Inr default_LockoutPolicy
     | Inl _ \<Rightarrow> Inl (kdc_error KDC_ERR_SVC_UNAVAILABLE ''LOOKING_UP_POLICY'')))"

definition check_lockout ::
  "LockoutConfig \<Rightarrow> policy_store \<Rightarrow> 's auth_get \<Rightarrow> 's \<Rightarrow> PrincipalEntry \<Rightarrow> int \<Rightarrow> (KdcError + unit) \<times> 's" where
  "check_lockout cfg policies get st client now =
     (if disable_lockout cfg then (Inr (), st)
      else case lockout_policy policies client of
        Inl e \<Rightarrow> (Inl e, st)
      | Inr pol \<Rightarrow>
          if max_fail pol = 0 then (Inr (), st)
          else case get st (pe_name client) (pe_realm client) of
            (Inl _, st) \<Rightarrow> (Inl (kdc_error KDC_ERR_SVC_UNAVAILABLE ''LOOKING_UP_AUTH_STATE''), st)
          | (Inr state, st) \<Rightarrow>
              if locked_check_p now pol state (unlock_time client)
              then (Inl (kdc_error KDC_ERR_CLIENT_REVOKED ''LOCKED_OUT''), st)
              else (Inr (), st))"

definition recheck_tgs_client ::
  "LockoutConfig \<Rightarrow> policy_store \<Rightarrow> 's auth_get \<Rightarrow> 's \<Rightarrow> PrincipalEntry \<Rightarrow> int \<Rightarrow> (KdcError + unit) \<times> 's" where
  "recheck_tgs_client cfg policies get st client now =
     (if expired (expiration client) now then (Inl (kdc_error KDC_ERR_NAME_EXP ''CLIENT EXPIRED''), st)
      else if contains (attributes client) attr_DISALLOW_ALL_TIX
      then (Inl (kdc_error KDC_ERR_CLIENT_REVOKED ''CLIENT LOCKED OUT''), st)
      else check_lockout cfg policies get st client now)"

section \<open>Audit\<close>

record LockoutReport =
  lr_principal :: PrincipalName
  lr_realm :: bytes
  lr_stamp :: int
  lr_fail_count :: u32
  lr_duration :: u32

definition failure_code :: "int \<Rightarrow> bool" where
  "failure_code c \<longleftrightarrow> c = KDC_ERR_PREAUTH_FAILED \<or> c = KRB_AP_ERR_BAD_INTEGRITY"

text \<open>The update \<open>audit_as\<close> chooses, or none (its early returns).\<close>

definition audit_update ::
  "LockoutConfig \<Rightarrow> LockoutPolicy \<Rightarrow> AuthState \<Rightarrow> PrincipalEntry \<Rightarrow> int \<Rightarrow> int \<Rightarrow> AuthStateUpdate option" where
  "audit_update cfg pol state client now c =
     (if c = 0 \<and> contains (attributes client) attr_REQUIRES_PRE_AUTH then
        let clear_failures = (\<not> disable_lockout cfg \<and> fail_count state \<noteq> 0);
            record_success = (\<not> disable_last_success cfg)
        in if \<not> clear_failures \<and> \<not> record_success then None
           else Some (Success now clear_failures record_success)
      else if \<not> disable_lockout cfg \<and> failure_code c then
        Some (Failure now (failcnt_interval pol) (unlock_time client))
      else None)"

definition audit_as ::
  "LockoutConfig \<Rightarrow> policy_store \<Rightarrow> 's auth_get \<Rightarrow> 's auth_update \<Rightarrow> 's \<Rightarrow> PrincipalEntry \<Rightarrow> int \<Rightarrow> int \<Rightarrow>
   's \<times> LockoutReport option" where
  "audit_as cfg policies get apply_update st client now c =
     (if \<not> (c = 0 \<or> failure_code c) then (st, None)
      else case (if disable_lockout cfg then Inr default_LockoutPolicy else lockout_policy policies client) of
        Inl _ \<Rightarrow> (st, None)
      | Inr pol \<Rightarrow> (case get st (pe_name client) (pe_realm client) of
          (Inl _, st) \<Rightarrow> (st, None)
        | (Inr state, st) \<Rightarrow>
            if locked_check_p now pol state (unlock_time client) then (st, None)
            else (case audit_update cfg pol state client now c of
              None \<Rightarrow> (st, None)
            | Some update \<Rightarrow> (case apply_update st (pe_name client) (pe_realm client) update of
                (Inl _, st) \<Rightarrow> (st, None)
              | (Inr after, st) \<Rightarrow>
                  if (case update of Failure _ _ _ \<Rightarrow> True | _ \<Rightarrow> False) \<and>
                     locked_check_p now pol after (unlock_time client)
                  then (st, Some \<lparr>lr_principal = pe_name client, lr_realm = pe_realm client, lr_stamp = now,
                                  lr_fail_count = fail_count after, lr_duration = lockout_duration pol\<rparr>)
                  else (st, None)))))"

section \<open>Attempts\<close>

text \<open>
  An AS attempt as \<open>process_as_req\<close> runs it: the lockout check first, and on passing it the rest of the
  request, which ends with a protocol code that \<open>audit_as\<close> records. (A request that the check refuses
  ends with a code the audit ignores.) \<open>guesses\<close> counts the attempts of a run that got past
  the check and then failed pre-authentication.
\<close>

fun guesses ::
  "LockoutConfig \<Rightarrow> policy_store \<Rightarrow> 's auth_get \<Rightarrow> 's auth_update \<Rightarrow> PrincipalEntry \<Rightarrow> 's \<Rightarrow> (int \<times> int) list \<Rightarrow> nat" where
  "guesses cfg policies get upd client st [] = 0"
| "guesses cfg policies get upd client st ((now, c) # es) =
     (case check_lockout cfg policies get st client now of
        (Inl e, st) \<Rightarrow> guesses cfg policies get upd client (fst (audit_as cfg policies get upd st client now (code e))) es
      | (Inr _, st) \<Rightarrow> (if failure_code c then 1 else 0) +
          guesses cfg policies get upd client (fst (audit_as cfg policies get upd st client now c)) es)"

text \<open>The store after the same run.\<close>

fun attempts ::
  "LockoutConfig \<Rightarrow> policy_store \<Rightarrow> 's auth_get \<Rightarrow> 's auth_update \<Rightarrow> PrincipalEntry \<Rightarrow> 's \<Rightarrow> (int \<times> int) list \<Rightarrow> 's" where
  "attempts cfg policies get upd client st [] = st"
| "attempts cfg policies get upd client st ((now, c) # es) =
     (case check_lockout cfg policies get st client now of
        (Inl e, st) \<Rightarrow> attempts cfg policies get upd client (fst (audit_as cfg policies get upd st client now (code e))) es
      | (Inr _, st) \<Rightarrow> attempts cfg policies get upd client (fst (audit_as cfg policies get upd st client now c)) es)"

section \<open>A window of time\<close>

text \<open>
  \<open>window pol u T W\<close>: the \<open>W\<close> seconds from \<open>T\<close> fall inside the policy's failure interval and lockout
  duration (where they are limited), after the last administrative unlock \<open>u\<close>.
\<close>

definition window :: "LockoutPolicy \<Rightarrow> int option \<Rightarrow> int \<Rightarrow> int \<Rightarrow> bool" where
  "window pol u T W \<longleftrightarrow> max_fail pol \<noteq> 0 \<and> 0 < T \<and> T + W < i64_max \<and> is_none_or u (\<lambda>u. u < T) \<and>
     (failcnt_interval pol = 0 \<or> W \<le> int (unat (failcnt_interval pol))) \<and>
     (lockout_duration pol = 0 \<or> W < int (unat (lockout_duration pol)))"

lemma sat_add_ge: "x \<le> i64_max \<Longrightarrow> x \<le> a + b \<Longrightarrow> i64_min \<le> x \<Longrightarrow> x \<le> sat_add_i64 a b"
  by (auto simp: sat_add_i64_def i64_max_def i64_min_def)

lemma sat_add_gt: "x < i64_max \<Longrightarrow> x < a + b \<Longrightarrow> i64_min \<le> x \<Longrightarrow> x < sat_add_i64 a b"
  by (auto simp: sat_add_i64_def i64_max_def i64_min_def)

lemma window_failure:
  assumes "window pol u T W" "T \<le> now" "now \<le> T + W" "T \<le> last_failed s"
  shows "unat (fail_count (auth_apply s (Failure now (failcnt_interval pol) u))) =
      min (unat (fail_count s) + 1) (2 ^ 32 - 1)"
    "last_failed (auth_apply s (Failure now (failcnt_interval pol) u)) = now"
proof -
  have "\<not> is_some_and u (\<lambda>u. last_failed s \<le> u)"
    using assms by (cases u) (auto simp: window_def)
  moreover have "failcnt_interval pol = 0 \<or>
      now \<le> sat_add_i64 (last_failed s) (int (unat (failcnt_interval pol)))"
    using assms by (auto simp: window_def i64_min_def intro!: sat_add_ge)
  ultimately show "unat (fail_count (auth_apply s (Failure now (failcnt_interval pol) u))) =
      min (unat (fail_count s) + 1) (2 ^ 32 - 1)"
    "last_failed (auth_apply s (Failure now (failcnt_interval pol) u)) = now"
    by (auto simp: Let_def unat_sat_add_u32)
qed

lemma failure_last: "last_failed (auth_apply s (Failure now i u)) = now"
  "1 \<le> unat (fail_count (auth_apply s (Failure now i u)))"
  by (auto simp: Let_def unat_sat_add_u32)

lemma window_locked:
  assumes "window pol u T W" "T \<le> now" "now \<le> T + W" "T \<le> last_failed s"
  shows "locked_check_p now pol s u \<longleftrightarrow> max_fail pol \<le> fail_count s"
proof -
  have "(case u of None \<Rightarrow> 0 | Some u \<Rightarrow> u) < last_failed s"
    using assms by (cases u) (auto simp: window_def)
  moreover have "lockout_duration pol = 0 \<or>
      now < sat_add_i64 (last_failed s) (int (unat (lockout_duration pol)))"
    using assms by (auto simp: window_def i64_min_def intro!: sat_add_gt)
  ultimately show ?thesis
    using assms(1) by (auto simp: locked_check_p_def window_def)
qed

section \<open>The bound, for every store\<close>

definition under_policy :: "LockoutConfig \<Rightarrow> policy_store \<Rightarrow> PrincipalEntry \<Rightarrow> LockoutPolicy \<Rightarrow> bool" where
  "under_policy cfg policies client pol \<longleftrightarrow>
     \<not> disable_lockout cfg \<and> lockout_policy policies client = Inr pol \<and> max_fail pol \<noteq> 0"

context auth_store
begin

lemma check_lockout_up:
  assumes "up st" "under_policy cfg policies client pol"
  shows "\<exists>st'. check_lockout cfg policies get st client now =
      (if locked_check_p now pol (view st (store_key (pe_name client) (pe_realm client))) (unlock_time client)
       then Inl (kdc_error KDC_ERR_CLIENT_REVOKED ''LOCKED_OUT'') else Inr (), st') \<and> view st' = view st \<and> up st'"
  using get_up [OF assms(1), of "pe_name client" "pe_realm client"] assms(2)
  by (auto simp: check_lockout_def under_policy_def)

lemma audit_failure_up:
  assumes "up st" "under_policy cfg policies client pol" "failure_code c"
    and "\<not> locked_check_p now pol (view st (store_key (pe_name client) (pe_realm client))) (unlock_time client)"
  shows "\<exists>st' rep. audit_as cfg policies get apply_update st client now c = (st', rep) \<and> up st' \<and>
    view st' = (view st)(store_key (pe_name client) (pe_realm client) :=
      auth_apply (view st (store_key (pe_name client) (pe_realm client)))
        (Failure now (failcnt_interval pol) (unlock_time client)))"
proof -
  let ?k = "store_key (pe_name client) (pe_realm client)"
  let ?u = "Failure now (failcnt_interval pol) (unlock_time client)"
  obtain s1 where g: "get st (pe_name client) (pe_realm client) = (Inr (view st ?k), s1)"
    "view s1 = view st" "up s1"
    using get_up [OF assms(1)] by blast
  obtain s2 where a: "apply_update s1 (pe_name client) (pe_realm client) ?u = (Inr (auth_apply (view st ?k) ?u), s2)"
    "view s2 = (view st)(?k := auth_apply (view st ?k) ?u)" "up s2"
    using apply_up [OF g(3), of "pe_name client" "pe_realm client" ?u] g(2) by auto
  have c: "c \<noteq> 0" using assms(3) by (auto simp: failure_code_def)
  have up: "audit_update cfg pol (view st ?k) client now c = Some ?u"
    using assms(2,3) c by (simp add: audit_update_def under_policy_def)
  show ?thesis
    using assms(2,3,4) c g a up by (simp add: audit_as_def under_policy_def del: auth_apply.simps)
qed

lemma audit_other: "c \<noteq> 0 \<Longrightarrow> \<not> failure_code c \<Longrightarrow> audit_as cfg policies get apply_update st client now c = (st, None)"
  by (simp add: audit_as_def)

lemma guesses_locked_step:
  assumes "up st" "under_policy cfg policies client pol"
    and "locked_check_p now pol (view st (store_key (pe_name client) (pe_realm client))) (unlock_time client)"
  shows "\<exists>st'. guesses cfg policies get apply_update client st ((now, c) # es) =
      guesses cfg policies get apply_update client st' es \<and> view st' = view st \<and> up st'"
  using check_lockout_up [OF assms(1,2), of now] assms(3)
  by (auto simp: audit_other failure_code_def)

lemma admitted_step:
  assumes "up st" "under_policy cfg policies client pol" "c \<noteq> 0"
    and "\<not> locked_check_p now pol (view st (store_key (pe_name client) (pe_realm client))) (unlock_time client)"
  shows "\<exists>s1 st' rep. check_lockout cfg policies get st client now = (Inr (), s1) \<and>
      audit_as cfg policies get apply_update s1 client now c = (st', rep) \<and> up st' \<and>
      view st' = (if failure_code c then (view st)(store_key (pe_name client) (pe_realm client) :=
        auth_apply (view st (store_key (pe_name client) (pe_realm client)))
          (Failure now (failcnt_interval pol) (unlock_time client))) else view st)"
proof -
  obtain s1 where 1: "check_lockout cfg policies get st client now = (Inr (), s1)" "view s1 = view st" "up s1"
    using check_lockout_up [OF assms(1,2), of now] assms(4) by auto
  show ?thesis
  proof (cases "failure_code c")
    case True
    with audit_failure_up [OF 1(3) assms(2) True, of now] assms(4) 1 show ?thesis
      by (auto simp del: auth_apply.simps)
  next
    case False
    with 1 audit_other [OF assms(3) False] show ?thesis by auto
  qed
qed

lemma guesses_admitted_step:
  assumes "up st" "under_policy cfg policies client pol" "c \<noteq> 0"
    and "\<not> locked_check_p now pol (view st (store_key (pe_name client) (pe_realm client))) (unlock_time client)"
  shows "\<exists>st'. guesses cfg policies get apply_update client st ((now, c) # es) =
      (if failure_code c then 1 else 0) + guesses cfg policies get apply_update client st' es \<and> up st' \<and>
      view st' = (if failure_code c then (view st)(store_key (pe_name client) (pe_realm client) :=
        auth_apply (view st (store_key (pe_name client) (pe_realm client)))
          (Failure now (failcnt_interval pol) (unlock_time client))) else view st)"
  using admitted_step [OF assms] by auto

lemma attempts_admitted_step:
  assumes "up st" "under_policy cfg policies client pol" "c \<noteq> 0"
    and "\<not> locked_check_p now pol (view st (store_key (pe_name client) (pe_realm client))) (unlock_time client)"
  shows "\<exists>st'. attempts cfg policies get apply_update client st ((now, c) # es) =
      attempts cfg policies get apply_update client st' es \<and> up st' \<and>
      view st' = (if failure_code c then (view st)(store_key (pe_name client) (pe_realm client) :=
        auth_apply (view st (store_key (pe_name client) (pe_realm client)))
          (Failure now (failcnt_interval pol) (unlock_time client))) else view st)"
  using admitted_step [OF assms] by auto

text \<open>After the first failure of the window the count only grows.\<close>

lemma guesses_hot:
  assumes "up st" "under_policy cfg policies client pol" "window pol (unlock_time client) T W"
    and "\<forall>(now, c)\<in>set es. T \<le> now \<and> now \<le> T + W \<and> c \<noteq> 0"
    and "T \<le> last_failed (view st (store_key (pe_name client) (pe_realm client)))"
  shows "guesses cfg policies get apply_update client st es \<le>
    unat (max_fail pol) - unat (fail_count (view st (store_key (pe_name client) (pe_realm client))))"
  using assms(1,4,5)
proof (induction es arbitrary: st)
  case (Cons e es)
  let ?k = "store_key (pe_name client) (pe_realm client)"
  obtain now c where e: "e = (now, c)" by fastforce
  have t: "T \<le> now" "now \<le> T + W" "c \<noteq> 0" using Cons.prems(2) e by auto
  note w = window_locked [OF assms(3) t(1,2) Cons.prems(3)] window_failure [OF assms(3) t(1,2) Cons.prems(3)]
  have rest: "\<forall>(now, c)\<in>set es. T \<le> now \<and> now \<le> T + W \<and> c \<noteq> 0" using Cons.prems(2) by simp
  show ?case
  proof (cases "locked_check_p now pol (view st ?k) (unlock_time client)")
    case True
    obtain st' where "guesses cfg policies get apply_update client st (e # es) =
        guesses cfg policies get apply_update client st' es" "view st' = view st" "up st'"
      using guesses_locked_step [OF Cons.prems(1) assms(2) True, of c es] e by blast
    with Cons.IH [of st'] rest Cons.prems(3) show ?thesis by simp
  next
    case False
    then have lt: "unat (fail_count (view st ?k)) < unat (max_fail pol)"
      using w(1) by (simp add: word_less_nat_alt not_le)
    obtain st' where st': "up st'" "guesses cfg policies get apply_update client st (e # es) =
        (if failure_code c then 1 else 0) + guesses cfg policies get apply_update client st' es"
      "view st' = (if failure_code c then (view st)(?k := auth_apply (view st ?k)
          (Failure now (failcnt_interval pol) (unlock_time client))) else view st)"
      using guesses_admitted_step [OF Cons.prems(1) assms(2) t(3) False, of es] e by blast
    show ?thesis
    proof (cases "failure_code c")
      case f: True
      have v: "view st' ?k = auth_apply (view st ?k) (Failure now (failcnt_interval pol) (unlock_time client))"
        using st'(3) f by simp
      have "unat (max_fail pol) < 2 ^ 32" using unsigned_less [of "max_fail pol", where 'a = nat] by simp
      then have "unat (fail_count (view st' ?k)) = unat (fail_count (view st ?k)) + 1"
        using lt by (simp only: v w(2))
      moreover have "T \<le> last_failed (view st' ?k)" using t(1) by (simp only: v w(3))
      ultimately show ?thesis using Cons.IH [OF st'(1) rest] st'(2) f lt by simp
    next
      case f: False
      then have "view st' = view st" using st'(3) by simp
      then show ?thesis using Cons.IH [OF st'(1) rest] st'(2) f Cons.prems(3) by simp
    qed
  qed
qed simp

lemma guesses_bound:
  assumes "up st" "under_policy cfg policies client pol" "window pol (unlock_time client) T W"
    and "\<forall>(now, c)\<in>set es. T \<le> now \<and> now \<le> T + W \<and> c \<noteq> 0"
  shows "guesses cfg policies get apply_update client st es \<le> unat (max_fail pol)"
  using assms(1,4)
proof (induction es arbitrary: st)
  case (Cons e es)
  let ?k = "store_key (pe_name client) (pe_realm client)"
  obtain now c where e: "e = (now, c)" by fastforce
  have t: "T \<le> now" "now \<le> T + W" "c \<noteq> 0" using Cons.prems(2) e by auto
  have rest: "\<forall>(now, c)\<in>set es. T \<le> now \<and> now \<le> T + W \<and> c \<noteq> 0" using Cons.prems(2) by simp
  show ?case
  proof (cases "locked_check_p now pol (view st ?k) (unlock_time client)")
    case True
    obtain st' where "guesses cfg policies get apply_update client st (e # es) =
        guesses cfg policies get apply_update client st' es" "view st' = view st" "up st'"
      using guesses_locked_step [OF Cons.prems(1) assms(2) True, of c es] e by blast
    with Cons.IH [of st'] rest show ?thesis by simp
  next
    case False
    obtain st' where st': "up st'" "guesses cfg policies get apply_update client st (e # es) =
        (if failure_code c then 1 else 0) + guesses cfg policies get apply_update client st' es"
      "view st' = (if failure_code c then (view st)(?k := auth_apply (view st ?k)
          (Failure now (failcnt_interval pol) (unlock_time client))) else view st)"
      using guesses_admitted_step [OF Cons.prems(1) assms(2) t(3) False, of es] e by blast
    show ?thesis
    proof (cases "failure_code c")
      case f: True
      have v: "view st' ?k = auth_apply (view st ?k) (Failure now (failcnt_interval pol) (unlock_time client))"
        using st'(3) f by simp
      have "T \<le> last_failed (view st' ?k)" "1 \<le> unat (fail_count (view st' ?k))"
        using t(1) by (simp_all only: v failure_last)
      moreover have "0 < unat (max_fail pol)"
        using assms(2) by (simp add: under_policy_def unat_gt_0)
      ultimately show ?thesis
        using guesses_hot [OF st'(1) assms(2,3) rest] st'(2) f by simp
    next
      case f: False
      then show ?thesis using Cons.IH [OF st'(1) rest] st'(2) by simp
    qed
  qed
qed simp

lemma attempts_hot:
  assumes "up st" "under_policy cfg policies client pol" "window pol (unlock_time client) T W"
    and "\<forall>(now, c)\<in>set es. T \<le> now \<and> now \<le> T + W \<and> c \<noteq> 0"
    and "T \<le> last_failed (view st (store_key (pe_name client) (pe_realm client))) \<or>
      fail_count (view st (store_key (pe_name client) (pe_realm client))) < max_fail pol"
    and "filter (\<lambda>(_, c). failure_code c) es \<noteq> [] \<or>
      T \<le> last_failed (view st (store_key (pe_name client) (pe_realm client)))"
  shows "\<exists>st'. attempts cfg policies get apply_update client st es = st' \<and> up st' \<and>
    T \<le> last_failed (view st' (store_key (pe_name client) (pe_realm client))) \<and>
    min (unat (max_fail pol)) (length (filter (\<lambda>(_, c). failure_code c) es) +
      (if T \<le> last_failed (view st (store_key (pe_name client) (pe_realm client)))
       then unat (fail_count (view st (store_key (pe_name client) (pe_realm client)))) else 0))
      \<le> unat (fail_count (view st' (store_key (pe_name client) (pe_realm client))))"
  using assms(1,4-6)
proof (induction es arbitrary: st)
  case (Cons e es)
  let ?k = "store_key (pe_name client) (pe_realm client)"
  let ?n = "length (filter (\<lambda>(_, c). failure_code c) es)"
  obtain now c where e: "e = (now, c)" by fastforce
  have t: "T \<le> now" "now \<le> T + W" "c \<noteq> 0" using Cons.prems(2) e by auto
  have rest: "\<forall>(now, c)\<in>set es. T \<le> now \<and> now \<le> T + W \<and> c \<noteq> 0" using Cons.prems(2) by simp
  show ?case
  proof (cases "locked_check_p now pol (view st ?k) (unlock_time client)")
    case True
    have full: "max_fail pol \<le> fail_count (view st ?k)"
      using True by (auto simp: locked_check_p_def not_less split: if_splits)
    then have hot: "T \<le> last_failed (view st ?k)" using Cons.prems(3) by auto
    obtain st' where st': "attempts cfg policies get apply_update client st (e # es) =
        attempts cfg policies get apply_update client st' es" "view st' = view st" "up st'"
      using check_lockout_up [OF Cons.prems(1) assms(2), of now] True
      by (auto simp: e audit_other failure_code_def)
    from Cons.IH [OF st'(3) rest] hot show ?thesis
      using full by (auto simp: st' word_le_nat_alt)
  next
    case False
    obtain st' where st': "up st'" "attempts cfg policies get apply_update client st (e # es) =
        attempts cfg policies get apply_update client st' es"
      "view st' = (if failure_code c then (view st)(?k := auth_apply (view st ?k)
          (Failure now (failcnt_interval pol) (unlock_time client))) else view st)"
      using attempts_admitted_step [OF Cons.prems(1) assms(2) t(3) False, of es] e by blast
    show ?thesis
    proof (cases "failure_code c")
      case f: True
      have v: "view st' ?k = auth_apply (view st ?k) (Failure now (failcnt_interval pol) (unlock_time client))"
        using st'(3) f by simp
      have hot: "T \<le> last_failed (view st' ?k)" and one: "1 \<le> unat (fail_count (view st' ?k))"
        using t(1) by (simp_all only: v failure_last)
      have inc: "min (unat (max_fail pol)) (unat (fail_count (view st ?k)) + 1) \<le> unat (fail_count (view st' ?k))"
        if "T \<le> last_failed (view st ?k)"
        using window_failure(1) [OF assms(3) t(1,2) that] unsigned_less [of "max_fail pol", where 'a = nat]
        by (simp only: v) simp
      from Cons.IH [OF st'(1) rest] hot obtain st'' where
        "attempts cfg policies get apply_update client st' es = st''" "up st''" "T \<le> last_failed (view st'' ?k)"
        "min (unat (max_fail pol)) (?n + unat (fail_count (view st' ?k))) \<le> unat (fail_count (view st'' ?k))"
        by auto
      with st'(2) one inc f e show ?thesis by auto
    next
      case f: False
      then have same: "view st' = view st" using st'(3) by simp
      have "filter (\<lambda>(_, c). failure_code c) es \<noteq> [] \<or> T \<le> last_failed (view st ?k)"
        using Cons.prems(4) f e by simp
      from Cons.IH [OF st'(1) rest, unfolded same, OF Cons.prems(3) this] f e show ?thesis
        by (simp only: st'(2) [unfolded e] filter.simps case_prod_conv if_False)
    qed
  qed
qed simp

end

section \<open>Properties\<close>


text \<open>A client under a policy of three failures, one-hour interval and two-hour lockout.\<close>

definition example_policy :: Policy where
  "example_policy = \<lparr>pol_name = [0x70], pw_min_life = 0, pw_max_life = 0, pw_min_length = 1, pw_min_classes = 1,
     pw_history_num = 1, pw_max_fail = 3, pw_failcnt_interval = 3600, pw_lockout_duration = 7200,
     pol_attributes = 0, pol_max_life = 0, pol_max_renewable_life = 0, allowed_keysalts = None,
     pol_security_epoch = 0, pol_tl_data = []\<rparr>"

definition example_client :: PrincipalEntry where
  "example_client = (new_entry \<lparr>name_type = 1, name_string = [[0x61]]\<rparr> [0x52] 0 [])\<lparr>pe_policy := Some [0x70]\<rparr>"

abbreviation example_cfg :: LockoutConfig where
  "example_cfg \<equiv> \<lparr>disable_lockout = False, disable_last_success = False\<rparr>"

abbreviation example_pol :: LockoutPolicy where
  "example_pol \<equiv> \<lparr>max_fail = 3, failcnt_interval = 3600, lockout_duration = 7200\<rparr>"

lemma example_under: "under_policy example_cfg (\<lambda>_. Inr (Some example_policy)) example_client example_pol"
  by (simp add: under_policy_def lockout_policy_def example_client_def example_policy_def)

lemma example_unlock: "unlock_time example_client = None"
  by (simp add: unlock_time_def example_client_def new_entry_def)

lemma example_window: "window example_pol (unlock_time example_client) 1000 3600"
  by (simp add: window_def example_unlock i64_max_def)




text \<open>
  C39: the lockout check fails closed. If the client's policy or its counters cannot be read, the
  request is refused with \<open>KDC_ERR_SVC_UNAVAILABLE\<close>, whatever the stores do otherwise.
\<close>

theorem check_lockout_fails_closed:
  assumes "\<not> disable_lockout cfg" "pe_policy client = Some n"
    and "policies n = Inl e \<or>
      (\<exists>p. policies n = Inr (Some p) \<and> pw_max_fail p \<noteq> 0) \<and> fst (get st (pe_name client) (pe_realm client)) = Inl e"
  shows "\<exists>err. fst (check_lockout cfg policies get st client now) = Inl err \<and> code err = KDC_ERR_SVC_UNAVAILABLE"
  using assms(3)
proof (elim disjE conjE exE)
  assume "policies n = Inl e"
  then show ?thesis using assms(1,2) by (simp add: check_lockout_def lockout_policy_def)
next
  fix p assume "policies n = Inr (Some p)" "pw_max_fail p \<noteq> 0" "fst (get st (pe_name client) (pe_realm client)) = Inl e"
  moreover from this obtain st' where "get st (pe_name client) (pe_realm client) = (Inl e, st')"
    by (cases "get st (pe_name client) (pe_realm client)") auto
  ultimately show ?thesis using assms(1,2) by (simp add: check_lockout_def lockout_policy_def)
qed

theorem check_lockout_fails_closed_witness:
  "\<exists>err. fst (check_lockout example_cfg (\<lambda>_. Inl (store_error SE_Backend ''down'')) mas_get Map.empty example_client 5) =
     Inl err \<and> code err = KDC_ERR_SVC_UNAVAILABLE"
  by (rule check_lockout_fails_closed [of example_cfg example_client "[0x70]"])
    (simp_all add: example_client_def)

text \<open>
  \<open>audit_as\<close> reports a lockout exactly when the failure it records is the one that locks the
  account, and never touches the counters of an account that is already locked.
\<close>

theorem audit_as_reports_trip:
  assumes "under_policy cfg policies client pol"
  shows "case audit_as cfg policies mas_get mas_apply m client now c of (m', rep) \<Rightarrow>
    (rep \<noteq> None \<longleftrightarrow> failure_code c \<and> \<not> locked_check_p now pol (mas_view m (store_key (pe_name client) (pe_realm client))) (unlock_time client) \<and>
        locked_check_p now pol (mas_view m' (store_key (pe_name client) (pe_realm client))) (unlock_time client)) \<and>
    (locked_check_p now pol (mas_view m (store_key (pe_name client) (pe_realm client))) (unlock_time client) \<longrightarrow> m' = m)"
proof -
  let ?k = "store_key (pe_name client) (pe_realm client)"
  have g: "mas_get m (pe_name client) (pe_realm client) = (Inr (mas_view m ?k), m)"
    by (simp add: mas_get_def mas_view_def)
  have a: "mas_apply m (pe_name client) (pe_realm client) u =
      (Inr (auth_apply (mas_view m ?k) u), m(?k \<mapsto> auth_apply (mas_view m ?k) u))" for u
    by (simp add: mas_apply_def mas_view_def Let_def)
  have v: "mas_view (m(?k \<mapsto> s)) ?k = s" for s by (simp add: mas_view_def)
  have f0: "\<not> failure_code 0" by (simp add: failure_code_def)
  show ?thesis
    using assms(1) f0
    by (auto simp: audit_as_def under_policy_def g a v audit_update_def Let_def
        simp del: auth_apply.simps split: if_splits)
qed

theorem audit_as_reports_trip_witness:
  "let m = [store_key (pe_name example_client) (pe_realm example_client) \<mapsto>
        \<lparr>fail_count = 3, last_failed = 900, last_success = 0\<rparr>]
   in audit_as example_cfg (\<lambda>_. Inr (Some example_policy)) mas_get mas_apply m example_client 1000 24 = (m, None)"
  using audit_as_reports_trip [OF example_under, where now = 1000 and c = 24 and
      m = "[store_key (pe_name example_client) (pe_realm example_client) \<mapsto>
        \<lparr>fail_count = 3, last_failed = 900, last_success = 0\<rparr>]"]
  by (simp add: example_unlock mas_view_def locked_check_p_def sat_add_i64_def i64_max_def i64_min_def
      split: prod.splits)

end
