(* ===== verification/Deltat.thy ===== *)
theory Deltat
  imports Krb_Types
begin

text \<open>
  Delta-time strings (\<open>profile/deltat.rs\<close>): \<open>string_to_deltat\<close> and its parsers, and the errors of the
  profile component. A parser of the source moves an index through the string's bytes; here it
  returns its value and the unread rest. \<open>i64\<close> values are integers with the checked operations
  written out.
\<close>

datatype ProfileError =
  Syntax nat bytes
| BadBoolean bytes
| BadInteger bytes
| BadDeltat bytes
| ProfileIo bytes

definition checked_mul_i64 :: "int \<Rightarrow> int \<Rightarrow> int option" where
  "checked_mul_i64 a b = (if in_i64 (a * b) then Some (a * b) else None)"

definition checked_add_i64 :: "int \<Rightarrow> int \<Rightarrow> int option" where
  "checked_add_i64 a b = (if in_i64 (a + b) then Some (a + b) else None)"

definition is_ascii_digit :: "u8 \<Rightarrow> bool" where
  "is_ascii_digit b \<longleftrightarrow> 0x30 \<le> b \<and> b \<le> 0x39"

definition digit_val :: "u8 \<Rightarrow> int" where
  "digit_val b = uint (b - 0x30)"

definition ok_or :: "'a option \<Rightarrow> 'e \<Rightarrow> 'e + 'a" where
  "ok_or x e = (case x of None \<Rightarrow> Inl e | Some y \<Rightarrow> Inr y)"

lemma ok_or_simps [simp]: "ok_or None e = Inl e" "ok_or (Some y) e = Inr y"
  by (simp_all add: ok_or_def)

section \<open>The parsers\<close>

definition DAY :: int where "DAY = 24 * 3600"
definition HOUR :: int where "HOUR = 3600"
definition MINUTE :: int where "MINUTE = 60"

definition is_ws :: "u8 \<Rightarrow> bool" where
  "is_ws b \<longleftrightarrow> b \<in> {0x20, 0x09, 0x0a, 0x0d, 0x0b, 0x0c}"

fun num_digits :: "int \<Rightarrow> bytes \<Rightarrow> (int \<times> bytes) option" where
  "num_digits v [] = Some (v, [])"
| "num_digits v (b # bs) =
     (if is_ascii_digit b then
        (case checked_mul_i64 v 10 of None \<Rightarrow> None
         | Some v \<Rightarrow> (case checked_add_i64 v (digit_val b) of None \<Rightarrow> None
                     | Some v \<Rightarrow> num_digits v bs))
      else Some (v, b # bs))"

definition num :: "bytes \<Rightarrow> bytes \<Rightarrow> ProfileError + int \<times> bytes" where
  "num b s =
     (let b = dropWhile is_ws b;
          neg = (b \<noteq> [] \<and> hd b = 0x2d);
          b = (if neg then tl b else b)
      in rbind (ok_or (num_digits 0 b) (BadDeltat s)) (\<lambda>(v, r).
         if r = b then Inl (BadDeltat s)
         else Inr (if neg then - v else v, r)))"

fun num2_digits :: "nat \<Rightarrow> int \<Rightarrow> bytes \<Rightarrow> int \<times> bytes" where
  "num2_digits (Suc k) v (b # bs) =
     (if is_ascii_digit b then num2_digits k (v * 10 + digit_val b) bs else (v, b # bs))"
| "num2_digits k v b = (v, b)"

definition num2 :: "bytes \<Rightarrow> bytes \<Rightarrow> ProfileError + int \<times> bytes" where
  "num2 b s = (case num2_digits 2 0 b of (v, r) \<Rightarrow>
     if r = b \<or> (r \<noteq> [] \<and> is_ascii_digit (hd r)) then Inl (BadDeltat s) else Inr (v, r))"

definition unit_rank :: "u8 \<Rightarrow> (nat \<times> int) option" where
  "unit_rank b =
     (if b = 0x64 then Some (3, DAY) else if b = 0x68 then Some (2, HOUR)
      else if b = 0x6d then Some (1, MINUTE) else if b = 0x73 then Some (0, 1) else None)"

definition deltat_finish :: "int \<Rightarrow> bytes \<Rightarrow> ProfileError + int" where
  "deltat_finish v s = (if i32_min \<le> v \<and> v \<le> i32_max then Inr v else Inl (BadDeltat s))"

lemma num_digits_length: "num_digits v b = Some (x, r) \<Longrightarrow> length r \<le> length b"
  by (induction b arbitrary: v) (auto split: if_splits option.splits intro: le_SucI)

lemma num_digits_shorter: "num_digits v b = Some (x, r) \<Longrightarrow> r = b \<or> length r < length b"
  by (cases b) (auto split: if_splits option.splits intro: le_imp_less_Suc num_digits_length)

lemma num_length:
  assumes "num b s = Inr (v, r)"
  shows "length r < length b"
proof -
  let ?b = "dropWhile is_ws b"
  let ?c = "if ?b \<noteq> [] \<and> hd ?b = 0x2d then tl ?b else ?b"
  have "length ?c \<le> length ?b" by simp
  also have "\<dots> \<le> length b" by (rule length_dropWhile_le)
  finally show ?thesis
    using assms
    by (cases "num_digits 0 ?c") (auto simp: num_def Let_def dest!: num_digits_shorter split: if_splits)
qed

text \<open>The loop over the components after the first.\<close>

function (sequential) deltat_components :: "nat \<Rightarrow> int \<Rightarrow> bytes \<Rightarrow> bytes \<Rightarrow> ProfileError + int" where
  "deltat_components prev_rank tot b s =
     (let b = dropWhile is_ws b in
      if b = [] then deltat_finish tot s
      else case num b s of
        Inl e \<Rightarrow> Inl e
      | Inr (v, r) \<Rightarrow>
          (case r of
             [] \<Rightarrow> Inl (BadDeltat s)
           | u # r \<Rightarrow> (case unit_rank u of
               None \<Rightarrow> Inl (BadDeltat s)
             | Some (k, m) \<Rightarrow>
                 if prev_rank \<le> k then Inl (BadDeltat s)
                 else (case checked_mul_i64 v m of None \<Rightarrow> Inl (BadDeltat s)
                 | Some x \<Rightarrow> (case checked_add_i64 tot x of None \<Rightarrow> Inl (BadDeltat s)
                   | Some t \<Rightarrow> deltat_components k t r s)))))"
  by pat_completeness auto

termination
proof (relation "measure (\<lambda>(_, _, b, _). length b)", goal_cases)
  case (2 prev_rank tot b s)
  then show ?case
    by (auto dest!: num_length)
      (meson Suc_lessD length_dropWhile_le less_le_trans)
qed simp

declare deltat_components.simps [simp del]

text \<open>The end of the other forms: only white space may follow.\<close>

definition deltat_rest :: "int \<Rightarrow> bytes \<Rightarrow> bytes \<Rightarrow> ProfileError + int" where
  "deltat_rest tot b s = (if dropWhile is_ws b \<noteq> [] then Inl (BadDeltat s) else deltat_finish tot s)"

definition add_terms :: "int option \<Rightarrow> int list \<Rightarrow> int option" where
  "add_terms v xs = foldl (\<lambda>v x. case v of None \<Rightarrow> None | Some v \<Rightarrow> checked_add_i64 v x) v xs"

definition string_to_deltat :: "bytes \<Rightarrow> ProfileError + int" where
  "string_to_deltat s = rbind (num s s) (\<lambda>(n, b).
     if b \<noteq> [] \<and> hd b = 0x3a then
       rbind (num2 (tl b) s) (\<lambda>(m, b).
       rbind (if b \<noteq> [] \<and> hd b = 0x3a then num2 (tl b) s else Inr (0, b)) (\<lambda>(sec, b).
       rbind (ok_or (add_terms (checked_mul_i64 n HOUR) [m * MINUTE, sec]) (BadDeltat s)) (\<lambda>tot.
         deltat_rest tot b s)))
     else if b \<noteq> [] \<and> hd b = 0x2d then
       (case num2 (tl b) s of
          Inl e \<Rightarrow> Inl (BadDeltat s)
        | Inr (h, b) \<Rightarrow>
            if b \<noteq> [] \<and> hd b = 0x3a then
              rbind (num2 (tl b) s) (\<lambda>(m, b).
                if b = [] \<or> hd b \<noteq> 0x3a then Inl (BadDeltat s)
                else rbind (num2 (tl b) s) (\<lambda>(sec, b).
                  rbind (ok_or (add_terms (checked_mul_i64 n DAY) [h * HOUR, m * MINUTE, sec]) (BadDeltat s)) (\<lambda>tot.
                    deltat_rest tot b s)))
            else Inl (BadDeltat s))
     else if b \<noteq> [] \<and> unit_rank (hd b) \<noteq> None then
       (case unit_rank (hd b) of
          None \<Rightarrow> Inl (BadDeltat s)
        | Some (rank, mul) \<Rightarrow>
            rbind (ok_or (checked_mul_i64 n mul) (BadDeltat s)) (\<lambda>tot.
              deltat_components rank tot (tl b) s))
     else deltat_rest n b s)"

section \<open>Printed numbers\<close>

text \<open>Decimal numbers, to state what the parsers read.\<close>

fun dec :: "nat \<Rightarrow> bytes" where
  "dec n = (if n < 10 then [0x30 + word_of_nat n] else dec (n div 10) @ [0x30 + word_of_nat (n mod 10)])"

declare dec.simps [simp del]

definition dec_int :: "int \<Rightarrow> bytes" where
  "dec_int i = (if i < 0 then 0x2d # dec (nat (- i)) else dec (nat i))"

definition no_digit :: "bytes \<Rightarrow> bool" where
  "no_digit r \<longleftrightarrow> r = [] \<or> \<not> is_ascii_digit (hd r)"

lemma unat_digit: "n < 10 \<Longrightarrow> unat (0x30 + word_of_nat n :: u8) = 48 + n"
  by (simp add: unat_word_ariths unat_of_nat)

lemma digit_of [simp]:
  assumes "n < 10"
  shows "is_ascii_digit (0x30 + word_of_nat n)" "digit_val (0x30 + word_of_nat n) = int n"
  using assms by (simp_all add: is_ascii_digit_def digit_val_def word_le_nat_alt unat_digit uint_nat unat_of_nat)

lemma digit_not [simp]: "is_ascii_digit b \<Longrightarrow> \<not> is_ws b" "is_ascii_digit b \<Longrightarrow> b \<noteq> 0x2d"
  by (auto simp: is_ascii_digit_def is_ws_def word_le_nat_alt)

lemma dec_hd: "dec n \<noteq> [] \<and> is_ascii_digit (hd (dec n))"
  by (induction n rule: dec.induct) (subst (1 2) dec.simps, auto simp: hd_append)

lemma num_digits_dec:
  "int n \<le> i64_max \<Longrightarrow> num_digits 0 (dec n @ r) = num_digits (int n) r"
proof (induction n arbitrary: r rule: dec.induct)
  case (1 n)
  show ?case
  proof (cases "n < 10")
    case True
    then show ?thesis
      by (simp add: dec.simps [of n] checked_mul_i64_def checked_add_i64_def in_i64_def i64_min_def i64_max_def)
  next
    case False
    have "int (n div 10) * 10 + int (n mod 10) = int n" by (simp add: zdiv_int zmod_int)
    moreover from this have "int (n div 10) * 10 \<le> int n" by linarith
    ultimately show ?thesis
      using False "1.prems" "1.IH" [of "(0x30 + word_of_nat (n mod 10)) # r"]
      by (simp add: dec.simps [of n] checked_mul_i64_def checked_add_i64_def in_i64_def i64_min_def)
  qed
qed

lemma num_digits_stop [simp]: "no_digit r \<Longrightarrow> num_digits v r = Some (v, r)"
  by (cases r) (auto simp: no_digit_def)

lemma num_dec_int:
  assumes "\<bar>i\<bar> \<le> i64_max" "no_digit r"
  shows "num (dec_int i @ r) s = Inr (i, r)"
proof -
  obtain b bs where d: "dec (nat \<bar>i\<bar>) = b # bs" "is_ascii_digit b"
    using dec_hd [of "nat \<bar>i\<bar>"] by (cases "dec (nat \<bar>i\<bar>)") auto
  have n: "num_digits 0 (b # bs @ r) = Some (\<bar>i\<bar>, r)"
    using num_digits_dec [of "nat \<bar>i\<bar>" r] assms by (simp add: d(1))
  have "r \<noteq> b # bs @ r" by (metis append_self_conv2 append_Cons list.distinct(1))
  moreover have "b \<noteq> 0x2d" "\<not> is_ws b" "\<not> is_ws 0x2d" using d(2) digit_not by (auto simp: is_ws_def)
  ultimately show ?thesis
    using n d(1) by (auto simp: num_def dec_int_def Let_def abs_if split: if_splits)
qed

lemma num2_dec:
  assumes "n < 100" "no_digit r"
  shows "num2 (dec n @ r) s = Inr (int n, r)"
proof -
  have stop: "num2_digits k v r = (v, r)" for k v
    using assms(2) by (cases k; cases r) (auto simp: no_digit_def)
  have "int (n div 10) * 10 + int (n mod 10) = int n"
    by (simp add: zdiv_int zmod_int)
  with assms stop show ?thesis
    by (auto simp: num2_def dec.simps [of n] dec.simps [of "n div 10"] numeral_2_eq_2 no_digit_def)
qed

lemma unit_simps [simp]:
  "unit_rank 0x64 = Some (3, DAY)" "unit_rank 0x68 = Some (2, HOUR)"
  "unit_rank 0x6d = Some (1, MINUTE)" "unit_rank 0x73 = Some (0, 1)"
  "unit_rank 0x3a = None" "unit_rank 0x2d = None"
  by (simp_all add: unit_rank_def)

lemma unit_neqs [simp]:
  "(0x64 :: u8) \<noteq> 0x3a" "(0x64 :: u8) \<noteq> 0x2d" "(0x2d :: u8) \<noteq> 0x3a" "(0x3a :: u8) \<noteq> 0x2d"
  by simp_all

lemma no_digit_simps [simp]:
  "no_digit []" "no_digit (0x64 # r)" "no_digit (0x68 # r)" "no_digit (0x6d # r)" "no_digit (0x73 # r)"
  "no_digit (0x3a # r)" "no_digit (0x2d # r)"
  by (simp_all add: no_digit_def is_ascii_digit_def word_le_nat_alt)

lemma dec_int_hd: "\<exists>b bs. dec_int v = b # bs \<and> \<not> is_ws b"
proof (cases "v < 0")
  case True
  then show ?thesis by (simp add: dec_int_def is_ws_def)
next
  case False
  obtain b bs where "dec (nat v) = b # bs" "is_ascii_digit b"
    using dec_hd [of "nat v"] by (cases "dec (nat v)") auto
  with False show ?thesis by (simp add: dec_int_def)
qed

lemma mul_unit_bound:
  assumes "\<bar>v\<bar> \<le> 2 ^ 31" "0 < m" "m \<le> (86400 :: int)"
  shows "- 185542587187200 \<le> v * m" "v * m \<le> 185542587187200"
proof -
  have "\<bar>v * m\<bar> \<le> 2 ^ 31 * 86400"
    unfolding abs_mult using assms by (intro mult_mono) auto
  moreover have "2 ^ 31 * 86400 = (185542587187200 :: int)" by simp
  ultimately have b: "\<bar>v * m\<bar> \<le> 185542587187200" by (simp only:)
  show "v * m \<le> 185542587187200" by (rule abs_le_D1 [OF b])
  show "- 185542587187200 \<le> v * m" using abs_le_D2 [OF b] by (simp only: minus_le_iff)
qed

text \<open>One more component of the list form.\<close>

lemma components_step:
  assumes "\<bar>v\<bar> \<le> 2 ^ 31" "\<bar>tot\<bar> \<le> 2 ^ 52" "unit_rank u = Some (k, m)" "k < prev" "no_digit (u # r)"
  shows "deltat_components prev tot (dec_int v @ u # r) s = deltat_components k (tot + v * m) r s"
proof -
  have "0 < m" "m \<le> 86400" using assms(3)
    by (auto simp: unit_rank_def DAY_def HOUR_def MINUTE_def split: if_splits)
  note mul_unit_bound [OF assms(1) this]
  then have c: "checked_mul_i64 v m = Some (v * m)" "checked_add_i64 tot (v * m) = Some (tot + v * m)"
    using assms(2) by (auto simp: checked_mul_i64_def checked_add_i64_def in_i64_def i64_min_def i64_max_def abs_le_iff)
  obtain b bs where d: "dec_int v = b # bs" "\<not> is_ws b" using dec_int_hd by blast
  have "num (dec_int v @ u # r) s = Inr (v, u # r)"
    using assms(1,5) by (intro num_dec_int) (auto simp: i64_max_def)
  with c d assms(3,4) show ?thesis
    by (subst deltat_components.simps) simp
qed

lemma add_terms_some:
  assumes "\<bar>v\<bar> \<le> 2 ^ 31" "0 < m" "m \<le> 86400" "\<forall>x\<in>set xs. 0 \<le> x \<and> x \<le> 2 ^ 20" "length xs \<le> 3"
  shows "add_terms (checked_mul_i64 v m) xs = Some (v * m + sum_list xs)"
proof -
  note vm = mul_unit_bound [OF assms(1-3)]
  have go: "foldl (\<lambda>v x. case v of None \<Rightarrow> None | Some v \<Rightarrow> checked_add_i64 v x) (Some t) xs = Some (t + sum_list xs)"
    if "i64_min \<le> t" "t + 2 ^ 20 * int (length xs) \<le> i64_max" "\<forall>x\<in>set xs. 0 \<le> x \<and> x \<le> 2 ^ 20" for t
    using that
  proof (induction xs arbitrary: t)
    case (Cons x xs)
    then show ?case by (auto simp: checked_add_i64_def in_i64_def algebra_simps)
  qed simp
  show ?thesis
    using vm go [of "v * m"] assms(4,5)
    by (auto simp: add_terms_def checked_mul_i64_def in_i64_def i64_min_def i64_max_def)
qed

section \<open>Properties\<close>

text \<open>The branches of \<open>string_to_deltat\<close>, by the byte after the first number.\<close>

lemma string_to_deltat_branch:
  assumes "num s s = Inr (n, b)"
  shows "b = 0x3a # r \<Longrightarrow> string_to_deltat s =
      rbind (num2 r s) (\<lambda>(m, b).
      rbind (if b \<noteq> [] \<and> hd b = 0x3a then num2 (tl b) s else Inr (0, b)) (\<lambda>(sec, b).
      rbind (ok_or (add_terms (checked_mul_i64 n HOUR) [m * MINUTE, sec]) (BadDeltat s)) (\<lambda>tot.
        deltat_rest tot b s)))"
    and "b = 0x2d # r \<Longrightarrow> num2 r s = Inr (h, 0x3a # r') \<Longrightarrow> num2 r' s = Inr (m, 0x3a # r'') \<Longrightarrow>
      string_to_deltat s = rbind (num2 r'' s) (\<lambda>(sec, b).
        rbind (ok_or (add_terms (checked_mul_i64 n DAY) [h * HOUR, m * MINUTE, sec]) (BadDeltat s)) (\<lambda>tot.
          deltat_rest tot b s))"
    and "b = u # r \<Longrightarrow> unit_rank u = Some (k, mul) \<Longrightarrow> string_to_deltat s =
      rbind (ok_or (checked_mul_i64 n mul) (BadDeltat s)) (\<lambda>tot. deltat_components k tot r s)"
    and "b = [] \<Longrightarrow> string_to_deltat s = deltat_rest n [] s"
  using assms by (auto simp: string_to_deltat_def)

text \<open>
  the notations of a delta time agree. A number of seconds, a list of components, \<open>H:M:S\<close>,
  \<open>H:M\<close> and \<open>D-H:M:S\<close> all denote the sum of their parts in seconds, and are refused exactly when that
  sum does not fit 32 bits.
\<close>

theorem deltat_notations:
  assumes "\<bar>n\<bar> \<le> 2 ^ 31" "\<bar>d\<bar> \<le> 2 ^ 31" "\<bar>h\<bar> \<le> 2 ^ 31" "\<bar>m\<bar> \<le> 2 ^ 31" "\<bar>sec\<bar> \<le> 2 ^ 31"
    and "hh < 100" "mm < 100" "ss < 100"
  shows "let deltat = (\<lambda>s t. string_to_deltat s = (if - (2 ^ 31) \<le> t \<and> t < 2 ^ 31 then Inr t else Inl (BadDeltat s)))
    in deltat (dec_int n) n \<and>
       deltat (dec_int d @ ascii ''d'' @ dec_int h @ ascii ''h'' @ dec_int m @ ascii ''m'' @ dec_int sec @ ascii ''s'')
         (86400 * d + 3600 * h + 60 * m + sec) \<and>
       deltat (dec_int n @ ascii '':'' @ dec mm) (3600 * n + 60 * int mm) \<and>
       deltat (dec_int n @ ascii '':'' @ dec mm @ ascii '':'' @ dec ss) (3600 * n + 60 * int mm + int ss) \<and>
       deltat (dec_int n @ ascii ''-'' @ dec hh @ ascii '':'' @ dec mm @ ascii '':'' @ dec ss)
         (86400 * n + 3600 * int hh + 60 * int mm + int ss)"
proof -
  have num: "num (dec_int i @ r) s = Inr (i, r)" if "\<bar>i\<bar> \<le> 2 ^ 31" "no_digit r" for i r s
    using that by (intro num_dec_int) (auto simp: i64_max_def)
  have num': "num (dec_int i) s = Inr (i, [])" if "\<bar>i\<bar> \<le> 2 ^ 31" for i s
    using num [OF that, of "[]"] by simp
  have num2': "num2 (dec i) s = Inr (int i, [])" if "i < 100" for i s
    using num2_dec [OF that, of "[]"] by simp
  have fin: "deltat_rest t [] s = (if - (2 ^ 31) \<le> t \<and> t < 2 ^ 31 then Inr t else Inl (BadDeltat s))"
    "deltat_components k t [] s = (if - (2 ^ 31) \<le> t \<and> t < 2 ^ 31 then Inr t else Inl (BadDeltat s))" for t k s
    by (auto simp: deltat_rest_def deltat_components.simps deltat_finish_def i32_min_def i32_max_def)
  have mul: "checked_mul_i64 d 86400 = Some (d * 86400)"
    using add_terms_some [of d DAY "[]"] assms(2) by (simp add: add_terms_def DAY_def)
  have comp: "deltat_components 3 (d * 86400) (dec_int h @ 0x68 # dec_int m @ 0x6d # dec_int sec @ [0x73]) s =
      deltat_components 0 (d * 86400 + h * 3600 + m * 60 + sec * 1) [] s" for s
    using assms(2-5) by (simp add: components_step DAY_def HOUR_def MINUTE_def abs_le_iff)
  have asc: "ascii ''d'' = [0x64]" "ascii ''h'' = [0x68]" "ascii ''m'' = [0x6d]" "ascii ''s'' = [0x73]"
    "ascii '':'' = [0x3a]" "ascii ''-'' = [0x2d]"
    by (simp_all add: ascii_def)
  show ?thesis
    unfolding Let_def asc
    using assms
    by (intro conjI)
      (simp_all add: string_to_deltat_branch num num' num2' num2_dec fin add_terms_some mul comp
        DAY_def HOUR_def MINUTE_def ac_simps)
qed

theorem deltat_notations_witness:
  "string_to_deltat (dec_int 1 @ ascii ''d'' @ dec_int 2 @ ascii ''h'' @ dec_int 3 @ ascii ''m'' @ dec_int 4 @ ascii ''s'') =
     Inr 93784"
  using deltat_notations [of 0 1 2 3 4 0 0 0] by (simp add: Let_def)

end
