(* ===== verification/Profile.thy ===== *)
theory Profile
  imports Deltat Utf8 "HOL-Library.List_Lexorder"
begin

text \<open>
  The krb5.conf profile (\<open>profile/mod.rs\<close>, \<open>profile/parse.rs\<close>): the tree, its queries, and the
  line parser with its state machine, final markers, merged sections and included files.

  Texts are lists of UTF-8 bytes; the characters the parser looks for are ASCII, so a search by
  character is a search by byte. The file system is a parameter. \<open>None\<close> is a call that does not
  return a result: an index out of range, or files included more deeply than the given bound.
\<close>

section \<open>Texts\<close>

text \<open>The UTF-8 encodings of the white-space characters of Unicode (\<open>char::is_whitespace\<close>).\<close>

definition ws_chars :: "bytes list" where
  "ws_chars = map (\<lambda>b. [b]) [0x09, 0x0a, 0x0b, 0x0c, 0x0d, 0x20] @ [[0xc2, 0x85], [0xc2, 0xa0], [0xe1, 0x9a, 0x80]] @
     map (\<lambda>b. [0xe2, 0x80, b])
       [0x80, 0x81, 0x82, 0x83, 0x84, 0x85, 0x86, 0x87, 0x88, 0x89, 0x8a, 0xa8, 0xa9, 0xaf] @
     [[0xe2, 0x81, 0x9f], [0xe3, 0x80, 0x80]]"

function trim_with :: "bytes list \<Rightarrow> bytes \<Rightarrow> bytes" where
  "trim_with ws s =
     (case find (\<lambda>w. w \<noteq> [] \<and> take (length w) s = w) ws of
        None \<Rightarrow> s
      | Some w \<Rightarrow> trim_with ws (drop (length w) s))"
  by pat_completeness auto

termination
proof (relation "measure (\<lambda>(_, s). length s)", goal_cases)
  case (2 ws s w)
  then show ?case by (cases s) (auto simp: find_Some_iff)
qed simp

declare trim_with.simps [simp del]

definition trim_start :: "bytes \<Rightarrow> bytes" where
  "trim_start s = trim_with ws_chars s"

definition trim_end :: "bytes \<Rightarrow> bytes" where
  "trim_end s = rev (trim_with (map rev ws_chars) (rev s))"

definition trim :: "bytes \<Rightarrow> bytes" where
  "trim s = trim_end (trim_start s)"

definition is_blank :: "u8 \<Rightarrow> bool" where
  "is_blank b \<longleftrightarrow> b = 0x20 \<or> b = 0x09"

definition skip_blanks :: "bytes \<Rightarrow> bytes" where
  "skip_blanks s = dropWhile is_blank s"

definition starts_with :: "bytes \<Rightarrow> bytes \<Rightarrow> bool" where
  "starts_with p s \<longleftrightarrow> take (length p) s = p"

definition starts_blank :: "bytes \<Rightarrow> bool" where
  "starts_blank s \<longleftrightarrow> s \<noteq> [] \<and> is_blank (hd s)"

fun split_on :: "u8 \<Rightarrow> bytes \<Rightarrow> bytes list" where
  "split_on c [] = [[]]"
| "split_on c (b # s) =
     (if b = c then [] # split_on c s
      else (case split_on c s of [] \<Rightarrow> [[b]] | l # ls \<Rightarrow> (b # l) # ls))"

definition strip_cr :: "bytes \<Rightarrow> bytes" where
  "strip_cr s = (if s \<noteq> [] \<and> last s = 0x0d then butlast s else s)"

definition text_lines :: "bytes \<Rightarrow> bytes list" where
  "text_lines text = map strip_cr (split_on 0x0a text)"

text \<open>\<open>str::parse::<i64>\<close>.\<close>

definition parse_i64 :: "bytes \<Rightarrow> int option" where
  "parse_i64 t =
     (let neg = (t \<noteq> [] \<and> hd t = 0x2d);
          ds = (if t \<noteq> [] \<and> (hd t = 0x2d \<or> hd t = 0x2b) then tl t else t)
      in if ds = [] \<or> \<not> list_all is_ascii_digit ds then None
         else let n = foldl (\<lambda>v b. v * 10 + digit_val b) 0 ds;
                  v = (if neg then - n else n)
              in if in_i64 v then Some v else None)"

definition ascii_lower :: "u8 \<Rightarrow> u8" where
  "ascii_lower b = (if 0x41 \<le> b \<and> b \<le> 0x5a then b + 0x20 else b)"

definition eq_ignore_ascii_case :: "bytes \<Rightarrow> bytes \<Rightarrow> bool" where
  "eq_ignore_ascii_case a b \<longleftrightarrow> map ascii_lower a = map ascii_lower b"

section \<open>The tree and its queries\<close>

datatype Node = Node (n_name: bytes) (n_value: "bytes option") (n_final: bool) (n_children: "Node list")

definition new_node :: "bytes \<Rightarrow> bytes option \<Rightarrow> Node" where
  "new_node n v = Node n v False []"

fun set_children :: "Node list \<Rightarrow> Node \<Rightarrow> Node" where
  "set_children cs (Node n v f _) = Node n v f cs"

fun set_final :: "Node \<Rightarrow> Node" where
  "set_final (Node n v _ cs) = Node n v True cs"

definition is_section :: "Node \<Rightarrow> bool" where
  "is_section n \<longleftrightarrow> n_value n = None"

fun profile_section :: "Node \<Rightarrow> bytes list \<Rightarrow> Node option" where
  "profile_section n [] = Some n"
| "profile_section n (nm # names) =
     (case find (\<lambda>c. is_section c \<and> n_name c = nm) (n_children n) of
        None \<Rightarrow> None
      | Some c \<Rightarrow> profile_section c names)"

definition get_values :: "Node \<Rightarrow> bytes list \<Rightarrow> bytes list" where
  "get_values root names =
     (if names = [] then []
      else case profile_section root (butlast names) of
        None \<Rightarrow> []
      | Some sec \<Rightarrow> List.map_filter n_value (filter (\<lambda>c. n_name c = last names) (n_children sec)))"

definition get_string :: "Node \<Rightarrow> bytes list \<Rightarrow> bytes option" where
  "get_string root names = (case get_values root names of [] \<Rightarrow> None | v # _ \<Rightarrow> Some v)"

definition get_integer :: "Node \<Rightarrow> bytes list \<Rightarrow> int \<Rightarrow> ProfileError + int" where
  "get_integer root names dflt =
     (case get_string root names of
        None \<Rightarrow> Inr dflt
      | Some s \<Rightarrow>
          (let t = trim_start s in
           if t = [] then Inl (BadInteger s)
           else case parse_i64 t of Some v \<Rightarrow> Inr v | None \<Rightarrow> Inl (BadInteger s)))"

definition conf_boolean :: "bytes \<Rightarrow> bool option" where
  "conf_boolean s =
     (if list_ex (eq_ignore_ascii_case s) (map ascii [''y'', ''yes'', ''true'', ''t'', ''1'', ''on'']) then Some True
      else if list_ex (eq_ignore_ascii_case s) (map ascii [''n'', ''no'', ''false'', ''nil'', ''0'', ''off'']) then Some False
      else None)"

definition get_boolean :: "Node \<Rightarrow> bytes list \<Rightarrow> bool \<Rightarrow> ProfileError + bool" where
  "get_boolean root names dflt =
     (case get_string root names of
        None \<Rightarrow> Inr dflt
      | Some s \<Rightarrow> ok_or (conf_boolean s) (BadBoolean s))"

definition get_deltat :: "Node \<Rightarrow> bytes list \<Rightarrow> int \<Rightarrow> ProfileError + int" where
  "get_deltat root names dflt =
     (case get_string root names of Some s \<Rightarrow> string_to_deltat s | None \<Rightarrow> Inr dflt)"

definition subsection_names :: "Node \<Rightarrow> bytes list \<Rightarrow> bytes list" where
  "subsection_names root names =
     (case profile_section root names of
        None \<Rightarrow> []
      | Some sec \<Rightarrow> map n_name (filter is_section (n_children sec)))"

section \<open>Adding nodes\<close>

datatype Scan = Insert_At nat | Merge_At nat | Suppressed

fun scan_children :: "bytes \<Rightarrow> bytes option \<Rightarrow> bool \<Rightarrow> nat \<Rightarrow> Node list \<Rightarrow> Scan" where
  "scan_children nm v check_final i [] = Insert_At i"
| "scan_children nm v check_final i (p # ps) =
     (if nm < n_name p then Insert_At i
      else if n_name p = nm then
        (if v = None \<and> n_value p = None then Merge_At i
         else if check_final \<and> n_final p then Suppressed
         else scan_children nm v check_final (Suc i) ps)
      else scan_children nm v check_final (Suc i) ps)"

definition add_node :: "Node \<Rightarrow> bytes \<Rightarrow> bytes option \<Rightarrow> bool \<Rightarrow> Node \<times> nat option" where
  "add_node sec nm v check_final =
     (case scan_children nm v check_final 0 (n_children sec) of
        Merge_At i \<Rightarrow> (sec, Some i)
      | Suppressed \<Rightarrow> (sec, None)
      | Insert_At i \<Rightarrow>
          (set_children (take i (n_children sec) @ new_node nm v # drop i (n_children sec)) sec, Some i))"

text \<open>\<open>Vec\<close> indexing along a path, and the update of the node it leads to.\<close>

fun node_at :: "Node \<Rightarrow> nat list \<Rightarrow> Node option" where
  "node_at n [] = Some n"
| "node_at n (i # is) = (if i < length (n_children n) then node_at (n_children n ! i) is else None)"

fun put_at :: "Node \<Rightarrow> nat list \<Rightarrow> Node \<Rightarrow> Node" where
  "put_at n [] m = m"
| "put_at n (i # is) m =
     (if i < length (n_children n)
      then set_children ((n_children n)[i := put_at (n_children n ! i) is m]) n else n)"

section \<open>The parser\<close>

fun parse_quoted_string :: "bytes \<Rightarrow> bytes" where
  "parse_quoted_string [] = []"
| "parse_quoted_string (c # s) =
     (if c = 0x22 then []
      else if c = 0x5c then
        (case s of
           [] \<Rightarrow> []
         | d # t \<Rightarrow> (if d = 0x6e then 0x0a else if d = 0x74 then 0x09 else if d = 0x62 then 0x08 else d) #
             parse_quoted_string t)
      else c # parse_quoted_string s)"

datatype State = StInit | StStd | StGetObrace

record ParseState =
  ps_root :: Node
  ps_path :: "nat list"
  ps_state :: State
  group_level :: nat
  ps_discard :: nat

type_synonym 'a outcome = "(ProfileError + 'a) option"

definition obind :: "'a outcome \<Rightarrow> ('a \<Rightarrow> 'b outcome) \<Rightarrow> 'b outcome" where
  "obind m f = (case m of None \<Rightarrow> None | Some (Inl e) \<Rightarrow> Some (Inl e) | Some (Inr x) \<Rightarrow> f x)"

lemma obind_simps [simp]:
  "obind None f = None" "obind (Some (Inl e)) f = Some (Inl e)" "obind (Some (Inr x)) f = f x"
  by (simp_all add: obind_def)

text \<open>\<open>ParseState::current\<close>: the node the path leads to, read and updated in place.\<close>

definition current :: "ParseState \<Rightarrow> Node option" where
  "current st = node_at (ps_root st) (ps_path st)"

definition set_current :: "ParseState \<Rightarrow> Node \<Rightarrow> ParseState" where
  "set_current st n = st\<lparr>ps_root := put_at (ps_root st) (ps_path st) n\<rparr>"

definition strip_star :: "bytes \<Rightarrow> bytes \<times> bool" where
  "strip_star tag = (takeWhile (\<lambda>b. b \<noteq> 0x2a) tag, 0x2a \<in> set tag)"

definition add_relation :: "ParseState \<Rightarrow> bytes \<Rightarrow> bytes \<Rightarrow> ParseState outcome" where
  "add_relation st tag v =
     (case strip_star tag of (tag, mark_final) \<Rightarrow>
        if ps_discard st \<noteq> 0 then Some (Inr st)
        else case current st of
          None \<Rightarrow> None
        | Some cur \<Rightarrow> (case add_node cur tag (Some v) True of
            (_, None) \<Rightarrow> Some (Inr st)
          | (cur, Some i) \<Rightarrow>
              Some (Inr (set_current st (if mark_final
                then set_children ((n_children cur)[i := set_final (n_children cur ! i)]) cur else cur)))))"

definition parse_header :: "bytes \<Rightarrow> ParseState \<Rightarrow> nat \<Rightarrow> ParseState outcome" where
  "parse_header aft st lineno =
     (if group_level st > 1 then Some (Inl (Syntax lineno (ascii ''section header must be at top level'')))
      else if 0x5d \<notin> set aft then Some (Inl (Syntax lineno (ascii ''syntax error in section header'')))
      else let nm = takeWhile (\<lambda>b. b \<noteq> 0x5d) aft;
               rest = tl (dropWhile (\<lambda>b. b \<noteq> 0x5d) aft)
           in case add_node (ps_root st) nm None False of
                (_, None) \<Rightarrow> None
              | (root, Some i) \<Rightarrow>
                  (let star = (rest \<noteq> [] \<and> hd rest = 0x2a);
                       sec = n_children root ! i;
                       root' = (if star then set_children ((n_children root)[i := set_final sec]) root else root);
                       st' = st\<lparr>ps_root := root', ps_path := [i], group_level := 1,
                                ps_discard := (if n_final sec then 1 else 0)\<rparr>
                   in if skip_blanks (if star then tl rest else rest) \<noteq> []
                      then Some (Inl (Syntax lineno (ascii ''syntax error in section header'')))
                      else Some (Inr st')))"

definition parse_close :: "bytes \<Rightarrow> ParseState \<Rightarrow> nat \<Rightarrow> ParseState outcome" where
  "parse_close aft st lineno =
     (if group_level st < 2 then Some (Inl (Syntax lineno (ascii ''extraneous close brace'')))
      else let close = (\<lambda>st.
             let level = group_level st - 1;
                 d = (if level < ps_discard st then 0 else ps_discard st)
             in Some (Inr (st\<lparr>group_level := level, ps_discard := d,
                              ps_path := (if d = 0 then butlast (ps_path st) else ps_path st)\<rparr>)))
           in if aft \<noteq> [] \<and> hd aft = 0x2a
              then (case current st of None \<Rightarrow> None | Some cur \<Rightarrow> close (set_current st (set_final cur)))
              else close st)"

definition open_subsection :: "bytes \<Rightarrow> ParseState \<Rightarrow> ParseState outcome" where
  "open_subsection tag st =
     (case strip_star tag of (tag, mark_final) \<Rightarrow>
        let st = st\<lparr>group_level := group_level st + 1\<rparr> in
        if ps_discard st \<noteq> 0 then Some (Inr st)
        else case current st of
          None \<Rightarrow> None
        | Some cur \<Rightarrow> (case add_node cur tag None False of
            (_, None) \<Rightarrow> None
          | (cur, Some i) \<Rightarrow>
              (let st = set_current st cur;
                   st = st\<lparr>ps_path := ps_path st @ [i]\<rparr>
               in case current st of
                    None \<Rightarrow> None
                  | Some sub \<Rightarrow>
                      (let st = (if n_final sub then st\<lparr>ps_discard := group_level st\<rparr> else st)
                       in Some (Inr (if mark_final then set_current st (set_final sub) else st))))))"

definition parse_relation :: "bytes \<Rightarrow> ParseState \<Rightarrow> nat \<Rightarrow> ParseState outcome" where
  "parse_relation cp st lineno =
     (let bad = Some (Inl (Syntax lineno (ascii ''syntax error in relations line''))) in
      if 0x3d \<notin> set cp \<or> hd cp = 0x3d then bad
      else let tag0 = takeWhile (\<lambda>b. b \<noteq> 0x3d) cp;
               tag = takeWhile (\<lambda>b. \<not> is_blank b) tag0;
               v = skip_blanks (tl (dropWhile (\<lambda>b. b \<noteq> 0x3d) cp))
           in if tag \<noteq> tag0 \<and> trim (dropWhile (\<lambda>b. \<not> is_blank b) tag0) \<noteq> [] then bad
              else if v \<noteq> [] \<and> hd v = 0x22 then add_relation st tag (parse_quoted_string (tl v))
              else if v \<noteq> [] \<and> \<not> (hd v = 0x7b \<and> skip_blanks (tl v) = [])
              then add_relation st tag (trim_end v)
              else open_subsection tag (if v = [] then st\<lparr>ps_state := StGetObrace\<rparr> else st))"

definition parse_std_line :: "bytes \<Rightarrow> ParseState \<Rightarrow> nat \<Rightarrow> ParseState outcome" where
  "parse_std_line line st lineno =
     (let cp = skip_blanks line in
      case cp of
        [] \<Rightarrow> Some (Inr st)
      | ch # aft \<Rightarrow>
          if ch = 0 \<or> ch = 0x3b \<or> ch = 0x23 then Some (Inr st)
          else if ch = 0x5b then parse_header aft st lineno
          else if ch = 0x7d then parse_close aft st lineno
          else parse_relation cp st lineno)"

section \<open>Files\<close>

text \<open>
  What the parser sees of the file system: \<open>read_to_string\<close> and \<open>read_dir\<close>, with the text of the
  error where they fail. A directory entry that cannot be read is \<open>None\<close>.
\<close>

record Fs =
  fs_read :: "bytes \<Rightarrow> bytes + bytes"
  fs_dir :: "bytes \<Rightarrow> bytes + bytes option list"

definition is_ascii_alphanumeric :: "u8 \<Rightarrow> bool" where
  "is_ascii_alphanumeric b \<longleftrightarrow> is_ascii_digit b \<or> (0x41 \<le> b \<and> b \<le> 0x5a) \<or> (0x61 \<le> b \<and> b \<le> 0x7a)"

definition valid_name :: "bytes \<Rightarrow> bool" where
  "valid_name nm =
     (if nm \<noteq> [] \<and> hd nm = 0x2e then False
      else if drop (length nm - 5) nm = ascii ''.conf'' \<and> length nm \<ge> 5 then True
      else list_all (\<lambda>c. is_ascii_alphanumeric c \<or> c = 0x2d \<or> c = 0x5f) nm)"

text \<open>\<open>Path::join\<close> with a file name.\<close>

definition path_join :: "bytes \<Rightarrow> bytes \<Rightarrow> bytes" where
  "path_join dir nm = (if nm \<noteq> [] \<and> hd nm = 0x2f then nm
     else if dir = [] \<or> last dir = 0x2f then dir @ nm else dir @ 0x2f # nm)"

type_synonym file_parser = "bytes \<Rightarrow> Node \<Rightarrow> Node outcome"

fun parse_files :: "file_parser \<Rightarrow> bytes list \<Rightarrow> Node \<Rightarrow> Node outcome" where
  "parse_files parse_file [] root = Some (Inr root)"
| "parse_files parse_file (p # ps) root = obind (parse_file p root) (parse_files parse_file ps)"

definition parse_include_dir :: "Fs \<Rightarrow> file_parser \<Rightarrow> bytes \<Rightarrow> Node \<Rightarrow> Node outcome" where
  "parse_include_dir fs parse_file dir root =
     (case fs_dir fs dir of
        Inl e \<Rightarrow> Some (Inl (Syntax 0 (ascii ''couldn't open includedir '' @ dir @ ascii '': '' @ e)))
      | Inr es \<Rightarrow>
          (let names = filter valid_name (map from_utf8_lossy (List.map_filter id es))
           in parse_files parse_file (map (path_join dir) (sort names)) root))"

definition is_include :: "bytes \<Rightarrow> bool" where
  "is_include line \<longleftrightarrow> starts_with (ascii ''include'') line \<and> starts_blank (drop 7 line)"

definition is_includedir :: "bytes \<Rightarrow> bool" where
  "is_includedir line \<longleftrightarrow> starts_with (ascii ''includedir'') line \<and> starts_blank (drop 10 line)"

definition parse_line :: "Fs \<Rightarrow> file_parser \<Rightarrow> bytes \<Rightarrow> ParseState \<Rightarrow> nat \<Rightarrow> ParseState outcome" where
  "parse_line fs parse_file line st lineno =
     (if is_include line then
        (let nm = trim_end (skip_blanks (drop 7 line)) in
         case parse_file nm (ps_root st) of
           None \<Rightarrow> None
         | Some (Inl (ProfileIo io)) \<Rightarrow>
             Some (Inl (Syntax lineno (ascii ''couldn't open include file '' @ nm @ ascii '': '' @ io)))
         | Some (Inl e) \<Rightarrow> Some (Inl e)
         | Some (Inr root) \<Rightarrow> Some (Inr (st\<lparr>ps_root := root\<rparr>)))
      else if is_includedir line then
        obind (parse_include_dir fs parse_file (trim_end (skip_blanks (drop 10 line))) (ps_root st))
          (\<lambda>root. Some (Inr (st\<lparr>ps_root := root\<rparr>)))
      else case ps_state st of
        StInit \<Rightarrow>
          if line = [] \<or> hd line \<noteq> 0x5b then Some (Inr st)
          else parse_std_line line (st\<lparr>ps_state := StStd\<rparr>) lineno
      | StStd \<Rightarrow> parse_std_line line st lineno
      | StGetObrace \<Rightarrow>
          (let cp = skip_blanks line in
           if cp = [] \<or> hd cp \<noteq> 0x7b
           then Some (Inl (Syntax lineno (ascii ''profile_parse(): missing '' @ [0x27, 0x7b, 0x27])))
           else Some (Inr (st\<lparr>ps_state := StStd\<rparr>))))"

fun parse_lines :: "Fs \<Rightarrow> file_parser \<Rightarrow> bytes list \<Rightarrow> nat \<Rightarrow> ParseState \<Rightarrow> ParseState outcome" where
  "parse_lines fs parse_file [] i st = Some (Inr st)"
| "parse_lines fs parse_file (l # ls) i st =
     obind (parse_line fs parse_file l st (i + 1)) (parse_lines fs parse_file ls (i + 1))"

definition parse_text_into :: "Fs \<Rightarrow> file_parser \<Rightarrow> bytes \<Rightarrow> Node \<Rightarrow> Node outcome" where
  "parse_text_into fs parse_file text root =
     obind (parse_lines fs parse_file (text_lines text) 0
       \<lparr>ps_root = root, ps_path = [], ps_state = StInit, group_level = 0, ps_discard = 0\<rparr>)
     (\<lambda>st. Some (Inr (ps_root st)))"

text \<open>\<open>parse_file\<close> calls itself for an included file; \<open>depth\<close> bounds the nesting.\<close>

fun parse_file :: "nat \<Rightarrow> Fs \<Rightarrow> file_parser" where
  "parse_file 0 fs path root = None"
| "parse_file (Suc depth) fs path root =
     (case fs_read fs path of
        Inl io \<Rightarrow> Some (Inl (ProfileIo io))
      | Inr text \<Rightarrow> parse_text_into fs (parse_file depth fs) text root)"

definition root_node :: Node where
  "root_node = new_node (ascii ''(root)'') None"

definition load_file :: "nat \<Rightarrow> Fs \<Rightarrow> bytes \<Rightarrow> Node outcome" where
  "load_file depth fs path = parse_file depth fs path root_node"

definition parse_text :: "nat \<Rightarrow> Fs \<Rightarrow> bytes \<Rightarrow> Node outcome" where
  "parse_text depth fs text = parse_text_into fs (parse_file depth fs) text root_node"

section \<open>Well-formed trees\<close>

text \<open>
  Children are sorted by name, no two subsections of a node have the same name, and a relation has
  no children.
\<close>

fun wf_node :: "Node \<Rightarrow> bool" where
  "wf_node (Node n v f cs) \<longleftrightarrow>
     sorted (map n_name cs) \<and> distinct (map n_name (filter is_section cs)) \<and> (v \<noteq> None \<longrightarrow> cs = []) \<and>
     list_all wf_node cs"

lemma wf_node_alt:
  "wf_node n \<longleftrightarrow> sorted (map n_name (n_children n)) \<and> distinct (map n_name (filter is_section (n_children n))) \<and>
     (n_value n \<noteq> None \<longrightarrow> n_children n = []) \<and> list_all wf_node (n_children n)"
  by (cases n) simp

lemma set_simps [simp]:
  "n_name (set_children cs n) = n_name n" "n_value (set_children cs n) = n_value n"
  "n_children (set_children cs n) = cs" "n_final (set_children cs n) = n_final n"
  "n_name (set_final n) = n_name n" "n_value (set_final n) = n_value n"
  "n_children (set_final n) = n_children n" "wf_node (set_final n) = wf_node n"
  "is_section (set_children cs n) = is_section n" "is_section (set_final n) = is_section n"
  by (cases n; simp add: is_section_def)+

lemma new_node_simps [simp]:
  "n_name (new_node nm v) = nm" "n_value (new_node nm v) = v" "n_final (new_node nm v) = False"
  "n_children (new_node nm v) = []" "wf_node (new_node nm v)" "is_section (new_node nm v) \<longleftrightarrow> v = None"
  by (simp_all add: new_node_def is_section_def)

lemma section_has_children: "wf_node n \<Longrightarrow> i < length (n_children n) \<Longrightarrow> is_section n"
  by (auto simp: wf_node_alt [of n] is_section_def)

lemma wf_child: "wf_node n \<Longrightarrow> i < length (n_children n) \<Longrightarrow> wf_node (n_children n ! i)"
  by (auto simp: wf_node_alt [of n] list_all_length)

subsection \<open>Paths\<close>

lemma node_at_append: "node_at n (p @ q) = Option.bind (node_at n p) (\<lambda>m. node_at m q)"
  by (induction n p rule: node_at.induct) auto

lemma node_at_put: "node_at n p = Some x \<Longrightarrow> node_at (put_at n p m) p = Some m"
  by (induction n p m rule: put_at.induct) (auto split: if_splits)

lemma node_at_wf: "wf_node n \<Longrightarrow> node_at n p = Some x \<Longrightarrow> wf_node x"
  by (induction n p rule: node_at.induct) (auto simp: wf_child split: if_splits)

lemma map_update_same: "i < length xs \<Longrightarrow> f x = f (xs ! i) \<Longrightarrow> map f (xs[i := x]) = map f xs"
  by (metis list_update_id map_update)

lemma filter_map_update_same:
  "f x = f (xs ! i) \<Longrightarrow> P x = P (xs ! i) \<Longrightarrow> map f (filter P (xs[i := x])) = map f (filter P xs)"
  by (induction xs arbitrary: i) (auto split: nat.splits)

lemma wf_set_child:
  assumes "wf_node n" "i < length (n_children n)" "wf_node m"
    and "n_name m = n_name (n_children n ! i)" "n_value m = n_value (n_children n ! i)"
  shows "wf_node (set_children ((n_children n)[i := m]) n)"
proof -
  have "is_section m = is_section (n_children n ! i)" using assms(5) by (simp add: is_section_def)
  moreover have "list_all wf_node ((n_children n)[i := m])"
    using assms(1,3) by (auto simp: wf_node_alt [of n] list_all_iff dest!: set_update_subset_insert [THEN subsetD])
  ultimately show ?thesis
    using assms(1,2,4) section_has_children [OF assms(1,2)]
    unfolding wf_node_alt [of n] wf_node_alt [of "set_children ((n_children n)[i := m]) n"]
    by (simp add: map_update_same filter_map_update_same is_section_def)
qed

lemma put_at_wf:
  assumes "wf_node n" "node_at n p = Some x" "wf_node m" "n_name m = n_name x" "n_value m = n_value x"
  shows "wf_node (put_at n p m) \<and> n_name (put_at n p m) = n_name n \<and> n_value (put_at n p m) = n_value n"
  using assms
proof (induction n p m rule: put_at.induct)
  case (2 n i "is" m)
  then have i: "i < length (n_children n)" by (auto split: if_splits)
  with 2 have "wf_node (put_at (n_children n ! i) is m) \<and>
      n_name (put_at (n_children n ! i) is m) = n_name (n_children n ! i) \<and>
      n_value (put_at (n_children n ! i) is m) = n_value (n_children n ! i)"
    by (auto simp: wf_child)
  with 2 i show ?case by (simp add: wf_set_child)
qed simp

subsection \<open>Adding a node\<close>

lemma scan_children_merge:
  "scan_children nm v cf i ps = Merge_At j \<Longrightarrow>
     v = None \<and> i \<le> j \<and> j - i < length ps \<and> is_section (ps ! (j - i)) \<and> n_name (ps ! (j - i)) = nm"
  by (induction nm v cf i ps rule: scan_children.induct)
    (auto simp: is_section_def nth_Cons' Suc_diff_le split: if_splits dest!: Suc_le_lessD)

lemma scan_children_not_suppressed: "scan_children nm v False i ps \<noteq> Suppressed"
  by (induction nm v False i ps rule: scan_children.induct) auto

text \<open>A new node goes behind everything of its name, before everything greater.\<close>

lemma scan_children_insert:
  assumes "scan_children nm v cf i ps = Insert_At j" "sorted (map n_name ps)"
  shows "\<exists>as bs. ps = as @ bs \<and> j = i + length as \<and> (\<forall>a\<in>set as. n_name a \<le> nm) \<and>
    (\<forall>b\<in>set bs. nm < n_name b) \<and> (\<forall>a\<in>set as. v = None \<and> is_section a \<longrightarrow> n_name a \<noteq> nm) \<and>
    (\<forall>a\<in>set as. cf \<and> n_name a = nm \<longrightarrow> \<not> n_final a)"
  using assms
proof (induction nm v cf i ps rule: scan_children.induct)
  case (2 nm v cf i p ps)
  show ?case
  proof (cases "nm < n_name p")
    case True
    with 2 show ?thesis by (intro exI [of _ "[]"] exI [of _ "p # ps"]) auto
  next
    case False
    with 2 obtain as bs where "ps = as @ bs" "j = Suc i + length as" "\<forall>a\<in>set as. n_name a \<le> nm"
      "\<forall>b\<in>set bs. nm < n_name b" "\<forall>a\<in>set as. v = None \<and> is_section a \<longrightarrow> n_name a \<noteq> nm"
      "\<forall>a\<in>set as. cf \<and> n_name a = nm \<longrightarrow> \<not> n_final a"
      by (fastforce split: if_splits)
    moreover have "v = None \<and> is_section p \<longrightarrow> n_name p \<noteq> nm" "cf \<and> n_name p = nm \<longrightarrow> \<not> n_final p"
      using 2(3) False by (auto simp: is_section_def split: if_splits)
    ultimately show ?thesis using False by (intro exI [of _ "p # as"] exI [of _ bs]) auto
  qed
qed simp

lemma add_node_insert:
  assumes "scan_children nm v cf 0 (n_children sec) = Insert_At j" "wf_node sec"
  obtains as bs where "n_children sec = as @ bs" "j = length as" "\<forall>a\<in>set as. n_name a \<le> nm"
    "\<forall>b\<in>set bs. nm < n_name b" "\<forall>a\<in>set as. v = None \<and> is_section a \<longrightarrow> n_name a \<noteq> nm"
    "add_node sec nm v cf = (set_children (as @ new_node nm v # bs) sec, Some (length as))"
  using scan_children_insert [OF assms(1)] assms that
  by (auto simp: wf_node_alt [of sec] add_node_def)

lemma add_node_wf:
  assumes "wf_node sec" "is_section sec" "add_node sec nm v cf = (sec', r)"
  shows "wf_node sec' \<and> n_name sec' = n_name sec \<and> n_value sec' = n_value sec \<and>
    (case r of None \<Rightarrow> cf | Some i \<Rightarrow> i < length (n_children sec') \<and>
      n_name (n_children sec' ! i) = nm \<and> is_section (n_children sec' ! i) = (v = None))"
proof (cases "scan_children nm v cf 0 (n_children sec)")
  case (Insert_At j)
  then obtain as bs where i: "n_children sec = as @ bs" "\<forall>a\<in>set as. n_name a \<le> nm" "\<forall>b\<in>set bs. nm < n_name b"
    "\<forall>a\<in>set as. v = None \<and> is_section a \<longrightarrow> n_name a \<noteq> nm"
    "add_node sec nm v cf = (set_children (as @ new_node nm v # bs) sec, Some (length as))"
    using assms(1) by (rule add_node_insert)
  have "wf_node (set_children (as @ new_node nm v # bs) sec)"
    using assms(1,2) i(2-4)
    unfolding wf_node_alt [of sec] wf_node_alt [of "set_children _ sec"]
    by (fastforce simp: i(1) sorted_append is_section_def)
  with i(5) assms(3) show ?thesis by auto
next
  case (Merge_At j)
  with assms scan_children_merge [OF Merge_At] show ?thesis by (auto simp: add_node_def)
next
  case Suppressed
  then have cf using scan_children_not_suppressed by (cases cf) auto
  with Suppressed assms show ?thesis by (auto simp: add_node_def)
qed

section \<open>The parser's invariant\<close>

text \<open>
  The path leads to a section, and its length is the nesting level, or the level at which a final
  section started to be discarded.
\<close>

definition parse_inv :: "ParseState \<Rightarrow> bool" where
  "parse_inv st \<longleftrightarrow> wf_node (ps_root st) \<and> is_section (ps_root st) \<and>
     (case current st of None \<Rightarrow> False | Some n \<Rightarrow> is_section n) \<and>
     (ps_state st = StInit \<longleftrightarrow> group_level st = 0) \<and>
     (if ps_discard st = 0 then length (ps_path st) = group_level st
      else length (ps_path st) = ps_discard st \<and> ps_discard st \<le> group_level st)"

definition good :: "ParseState outcome \<Rightarrow> bool" where
  "good r \<longleftrightarrow> (case r of None \<Rightarrow> False | Some (Inl _) \<Rightarrow> True | Some (Inr st) \<Rightarrow> parse_inv st)"

lemma good_simps [simp]: "good (Some (Inl e))" "good (Some (Inr st)) \<longleftrightarrow> parse_inv st" "\<not> good None"
  by (simp_all add: good_def)

lemma set_current_simps [simp]:
  "ps_path (set_current st n) = ps_path st" "ps_state (set_current st n) = ps_state st"
  "group_level (set_current st n) = group_level st" "ps_discard (set_current st n) = ps_discard st"
  by (simp_all add: set_current_def)

lemma current_set_current: "current st = Some x \<Longrightarrow> current (set_current st n) = Some n"
  by (simp add: current_def set_current_def node_at_put)

lemma parse_inv_current:
  assumes "parse_inv st"
  obtains n where "current st = Some n" "is_section n" "wf_node n"
  using assms by (auto simp: parse_inv_def current_def intro: node_at_wf split: option.splits)

lemma parse_inv_set_current:
  assumes "parse_inv st" "current st = Some n" "wf_node m" "n_name m = n_name n" "n_value m = n_value n"
  shows "parse_inv (set_current st m)"
proof -
  have "wf_node (put_at (ps_root st) (ps_path st) m) \<and> n_value (put_at (ps_root st) (ps_path st) m) = n_value (ps_root st)"
    using assms put_at_wf [of "ps_root st" "ps_path st" n m] by (auto simp: parse_inv_def current_def)
  with assms current_set_current [OF assms(2), of m] show ?thesis
    by (auto simp: parse_inv_def set_current_def is_section_def)
qed

lemma add_relation_good:
  assumes "parse_inv st"
  shows "good (add_relation st tag v)"
proof -
  obtain n where n: "current st = Some n" "is_section n" "wf_node n" using assms by (rule parse_inv_current)
  show ?thesis
  proof (cases "add_node n (fst (strip_star tag)) (Some v) True")
    case (Pair m r)
    with add_node_wf [OF n(3,2) Pair] n assms show ?thesis
      by (auto simp: add_relation_def split: prod.splits option.splits intro!: parse_inv_set_current wf_set_child wf_child)
  qed
qed

lemma parse_header_good:
  assumes "wf_node (ps_root st)" "is_section (ps_root st)" "ps_state st \<noteq> StInit"
  shows "good (parse_header aft st lineno)"
proof -
  let ?nm = "takeWhile (\<lambda>b. b \<noteq> 0x5d) aft"
  obtain root i where a: "add_node (ps_root st) ?nm None False = (root, Some i)"
    "wf_node root" "is_section root" "i < length (n_children root)" "is_section (n_children root ! i)"
    using add_node_wf [OF assms(1,2), of ?nm None False] assms(2)
    by (cases "add_node (ps_root st) ?nm None False") (auto simp: is_section_def split: option.splits)
  have w: "wf_node (set_children ((n_children root)[i := set_final (n_children root ! i)]) root)"
    using a(2,4) by (intro wf_set_child) (auto intro: wf_child)
  show ?thesis
    using assms(3) a w by (simp add: parse_header_def Let_def parse_inv_def current_def)
qed

lemma parse_close_good:
  assumes "parse_inv st"
  shows "good (parse_close aft st lineno)"
proof -
  have pop: "parse_inv (st\<lparr>group_level := group_level st - 1, ps_discard := d,
      ps_path := (if d = 0 then butlast (ps_path st) else ps_path st)\<rparr>)"
    if h: "parse_inv st" "2 \<le> group_level st" "d = (if group_level st - 1 < ps_discard st then 0 else ps_discard st)" for st d
  proof (cases "d = 0")
    case True
    obtain n where n: "current st = Some n" "is_section n" "wf_node n" using h(1) by (rule parse_inv_current)
    have ne: "length (ps_path st) = group_level st" "ps_path st \<noteq> []"
      using h True by (auto simp: parse_inv_def split: if_splits)
    then obtain p i where p: "ps_path st = p @ [i]" by (cases "ps_path st" rule: rev_cases) auto
    then obtain m where "node_at (ps_root st) p = Some m" "i < length (n_children m)"
      using n(1) by (auto simp: current_def node_at_append bind_eq_Some_conv split: if_splits)
    moreover have "is_section m"
      using calculation h(1) section_has_children node_at_wf by (auto simp: parse_inv_def)
    ultimately show ?thesis
      using h(1,2) True ne(1) p by (auto simp: parse_inv_def current_def)
  next
    case False
    with h show ?thesis by (auto simp: parse_inv_def current_def split: if_splits option.splits)
  qed
  obtain n where n: "current st = Some n" "is_section n" "wf_node n" using assms by (rule parse_inv_current)
  have "parse_inv (set_current st (set_final n))"
    using parse_inv_set_current [OF assms n(1)] n(3) by simp
  from pop [OF this] pop [OF assms] n(1) show ?thesis
    by (simp add: parse_close_def Let_def)
qed

lemma open_subsection_good:
  assumes "wf_node (ps_root st)" "parse_inv st" "ps_state st \<noteq> StInit"
  shows "good (open_subsection tag st)"
proof -
  let ?tag = "fst (strip_star tag)"
  obtain n where n: "current st = Some n" "is_section n" "wf_node n" using assms(2) by (rule parse_inv_current)
  obtain m i where a: "add_node n ?tag None False = (m, Some i)" "wf_node m" "n_name m = n_name n"
    "n_value m = n_value n" "i < length (n_children m)" "is_section (n_children m ! i)"
    using add_node_wf [OF n(3,2), of ?tag None False]
    by (cases "add_node n ?tag None False") (auto split: option.splits)
  define st1 where "st1 = set_current st m"
  define st2 where "st2 = st1\<lparr>group_level := group_level st + 1, ps_path := ps_path st @ [i]\<rparr>"
  have inv1: "parse_inv st1" unfolding st1_def by (rule parse_inv_set_current [OF assms(2) n(1) a(2-4)])
  have cur2: "current st2 = Some (n_children m ! i)"
    using current_set_current [OF n(1), of m] a(5)
    by (simp add: st1_def st2_def current_def node_at_append)
  show ?thesis
  proof (cases "ps_discard st = 0")
    case True
    define st3 where "st3 = (if n_final (n_children m ! i) then st2\<lparr>ps_discard := group_level st2\<rparr> else st2)"
    have inv3: "parse_inv st3" "current st3 = Some (n_children m ! i)"
      using inv1 cur2 a(6) True assms(3)
      by (auto simp: parse_inv_def st3_def st2_def st1_def current_def)
    have "parse_inv (set_current st3 (set_final (n_children m ! i)))"
      by (rule parse_inv_set_current [OF inv3]) (use a(2,5) in \<open>auto intro: wf_child\<close>)
    moreover have "open_subsection tag st =
        Some (Inr (if snd (strip_star tag) then set_current st3 (set_final (n_children m ! i)) else st3))"
      using True n(1) a(1) cur2
      by (cases "strip_star tag")
        (simp add: open_subsection_def Let_def st3_def st2_def st1_def current_def set_current_def)
    ultimately show ?thesis using inv3 by simp
  next
    case False
    with assms show ?thesis
      by (auto simp: open_subsection_def Let_def parse_inv_def current_def split: prod.splits)
  qed
qed

lemma parse_std_line_good:
  assumes "parse_inv st" "ps_state st \<noteq> StInit"
  shows "good (parse_std_line line st lineno)"
proof -
  have wf: "wf_node (ps_root st)" "is_section (ps_root st)" using assms(1) by (auto simp: parse_inv_def)
  have ob: "parse_inv (st\<lparr>ps_state := StGetObrace\<rparr>)" using assms by (auto simp: parse_inv_def current_def)
  have "good (parse_relation cp st lineno)" for cp
    using add_relation_good [OF assms(1)] open_subsection_good [OF wf(1) assms]
      open_subsection_good [OF _ ob] wf(1)
    by (auto simp: parse_relation_def Let_def)
  then show ?thesis
    using parse_header_good [OF wf assms(2)] parse_close_good [OF assms(1)] assms(1)
    by (auto simp: parse_std_line_def Let_def split: list.splits)
qed

lemma parse_line_good:
  assumes "parse_inv st" "\<not> is_include line" "\<not> is_includedir line"
  shows "good (parse_line fs pf line st lineno)"
proof (cases "ps_state st")
  case StInit
  have "good (parse_std_line line (st\<lparr>ps_state := StStd\<rparr>) lineno)" if "line \<noteq> []" "hd line = 0x5b"
    using that assms(1) parse_header_good [of "st\<lparr>ps_state := StStd\<rparr>" "tl line" lineno]
    by (cases line) (auto simp: parse_std_line_def skip_blanks_def is_blank_def parse_inv_def)
  with StInit assms show ?thesis by (auto simp: parse_line_def)
next
  case StStd
  with assms parse_std_line_good show ?thesis by (simp add: parse_line_def)
next
  case StGetObrace
  with assms show ?thesis by (auto simp: parse_line_def Let_def parse_inv_def current_def)
qed

lemma parse_lines_good:
  assumes "parse_inv st" "\<forall>l\<in>set ls. \<not> is_include l \<and> \<not> is_includedir l"
  shows "good (parse_lines fs pf ls i st)"
  using assms
proof (induction ls arbitrary: i st)
  case (Cons l ls)
  then have "good (parse_line fs pf l st (i + 1))" by (intro parse_line_good) auto
  then show ?case
    using Cons by (cases "parse_line fs pf l st (i + 1)") (auto simp: good_def obind_def split: sum.splits)
qed simp

text \<open>Every error of a line is a syntax error with its number.\<close>

definition syntax_at :: "nat \<Rightarrow> 'a outcome \<Rightarrow> bool" where
  "syntax_at n r \<longleftrightarrow> (case r of Some (Inl (Syntax k _)) \<Rightarrow> k = n | Some (Inl _) \<Rightarrow> False | _ \<Rightarrow> True)"

lemma syntax_at_simps [simp]:
  "syntax_at n None" "syntax_at n (Some (Inr x))" "syntax_at n (Some (Inl (Syntax k m))) \<longleftrightarrow> k = n"
  by (simp_all add: syntax_at_def)

lemma syntax_at_errors:
  "syntax_at n (add_relation st tag v)" "syntax_at n (open_subsection tag st)"
  "syntax_at n (parse_header aft st n)" "syntax_at n (parse_close aft st n)"
  by (auto simp: add_relation_def open_subsection_def parse_header_def parse_close_def Let_def
      split: prod.splits option.splits)

lemma parse_line_errors:
  assumes "\<not> is_include l" "\<not> is_includedir l"
  shows "syntax_at n (parse_line fs pf l st n)"
proof -
  have "syntax_at n (parse_std_line l st n)" for st
    by (auto simp: parse_std_line_def parse_relation_def Let_def syntax_at_errors split: list.splits)
  with assms show ?thesis by (auto simp: parse_line_def Let_def split: State.splits)
qed

lemma parse_lines_errors:
  assumes "\<forall>l\<in>set ls. \<not> is_include l \<and> \<not> is_includedir l" "parse_lines fs pf ls i st = Some (Inl e)"
  shows "\<exists>n m. e = Syntax n m \<and> i < n \<and> n \<le> i + length ls"
  using assms
proof (induction ls arbitrary: i st)
  case (Cons l ls)
  have "syntax_at (i + 1) (parse_line fs pf l st (i + 1))" using Cons.prems(1) by (intro parse_line_errors) auto
  then show ?case
    using Cons.prems Cons.IH [of "i + 1"]
    by (cases "parse_line fs pf l st (i + 1)")
      (fastforce simp: obind_def syntax_at_def split: sum.splits ProfileError.splits)+
qed simp

section \<open>Values in file order\<close>

text \<open>Lines of the form \<open>key = value\<close> that the parser reads literally.\<close>

definition clean_key :: "bytes \<Rightarrow> bool" where
  "clean_key k \<longleftrightarrow> k \<noteq> [] \<and> hd k \<notin> {0, 0x3b, 0x23, 0x5b, 0x7d} \<and> k \<noteq> ascii ''include'' \<and> k \<noteq> ascii ''includedir'' \<and>
     list_all (\<lambda>b. \<not> is_blank b \<and> b \<notin> {0x0a, 0x2a, 0x3d}) k"

definition clean_value :: "bytes \<Rightarrow> bool" where
  "clean_value v \<longleftrightarrow> v \<noteq> [] \<and> \<not> is_blank (hd v) \<and> hd v \<notin> {0x22, 0x7b} \<and> 0x0a \<notin> set v \<and> trim_end v = v"

definition relation_line :: "bytes \<times> bytes \<Rightarrow> bytes" where
  "relation_line kv = fst kv @ ascii '' = '' @ snd kv"

text \<open>A section with such lines, as text.\<close>

definition section_text :: "bytes \<Rightarrow> (bytes \<times> bytes) list \<Rightarrow> bytes" where
  "section_text nm kvs = ascii ''['' @ nm @ ascii '']'' @ concat (map (\<lambda>kv. 0x0a # relation_line kv) kvs)"

lemma split_on_append: "c \<notin> set a \<Longrightarrow> split_on c (a @ c # s) = a # split_on c s"
  by (induction a) auto

lemma split_on_none: "c \<notin> set a \<Longrightarrow> split_on c a = [a]"
  by (induction a) auto

lemma trim_with_no_cr: "trim_with ws s = s \<Longrightarrow> [b] \<in> set ws \<Longrightarrow> s = [] \<or> hd s \<noteq> b"
proof (rule ccontr)
  assume a: "trim_with ws s = s" "[b] \<in> set ws" "\<not> (s = [] \<or> hd s \<noteq> b)"
  have len: "length (trim_with ws s) \<le> length s" for ws s
    by (induction ws s rule: trim_with.induct) (subst trim_with.simps, force split: option.splits)
  from a(2,3) obtain w where w: "find (\<lambda>w. w \<noteq> [] \<and> take (length w) s = w) ws = Some w" "w \<noteq> []"
    by (cases "find (\<lambda>w. w \<noteq> [] \<and> take (length w) s = w) ws")
      (auto simp: find_None_iff find_Some_iff neq_Nil_conv)
  have "length (trim_with ws (drop (length w) s)) < length s"
    using len [of ws "drop (length w) s"] w(2) a(3) by (cases s; cases w) auto
  with a(1) w(1) show False by (subst (asm) trim_with.simps) simp
qed

lemma clean_value_no_cr: "clean_value v \<Longrightarrow> last v \<noteq> 0x0d"
  using trim_with_no_cr [of "map rev ws_chars" "rev v" "0x0d"]
  by (auto simp: clean_value_def trim_end_def rev_swap hd_rev ws_chars_def)

lemma text_lines_section:
  assumes "0x0a \<notin> set nm" "\<forall>(k, v)\<in>set kvs. clean_key k \<and> clean_value v"
  shows "text_lines (section_text nm kvs) = (0x5b # nm @ [0x5d]) # map relation_line kvs"
proof -
  have line: "0x0a \<notin> set (relation_line kv)" "strip_cr (relation_line kv) = relation_line kv" if "kv \<in> set kvs" for kv
    using assms(2) that clean_value_no_cr
    by (fastforce simp: relation_line_def clean_key_def clean_value_def list_all_iff ascii_def strip_cr_def split: prod.splits)+
  have "split_on 0x0a (h @ concat (map (\<lambda>kv. 0x0a # relation_line kv) ls)) = h # map relation_line ls"
    if "0x0a \<notin> set h" "set ls \<subseteq> set kvs" for h ls
    using that
  proof (induction ls arbitrary: h)
    case (Cons l ls)
    then show ?case using line(1) [of l] by (simp add: split_on_append)
  qed (simp add: split_on_none)
  from this [of "0x5b # nm @ [0x5d]" kvs] assms(1) line(2) show ?thesis
    by (auto simp: text_lines_def section_text_def ascii_def strip_cr_def)
qed

text \<open>The state after the header line, with the section's children.\<close>

definition in_section :: "bytes \<Rightarrow> Node list \<Rightarrow> ParseState" where
  "in_section nm cs = \<lparr>ps_root = Node (ascii ''(root)'') None False [Node nm None False cs], ps_path = [0],
     ps_state = StStd, group_level = 1, ps_discard = 0\<rparr>"

definition values_of :: "Node list \<Rightarrow> bytes \<Rightarrow> bytes list" where
  "values_of cs k = List.map_filter n_value (filter (\<lambda>c. n_name c = k) cs)"

lemma trim_with_Nil [simp]: "trim_with ws [] = []"
  by (subst trim_with.simps) (auto simp: find_Some_iff split: option.splits)

lemma trim_blank: "trim [0x20] = []"
  using trim_with.simps [of ws_chars "[0x20]"]
  by (simp add: trim_def trim_start_def trim_end_def ws_chars_def)

lemma word_before_blank:
  assumes "starts_with p (k @ 0x20 # r)" "starts_blank (drop (length p) (k @ 0x20 # r))"
    and "\<forall>b\<in>set p \<union> set k. \<not> is_blank b"
  shows "k = p"
proof -
  have "\<not> length p < length k"
  proof
    assume "length p < length k"
    then have "hd (drop (length p) (k @ 0x20 # r)) = k ! length p" by (simp add: hd_drop_conv_nth nth_append)
    with assms(2,3) \<open>length p < length k\<close> show False by (auto simp: starts_blank_def)
  qed
  moreover have "\<not> length k < length p"
  proof
    assume l: "length k < length p"
    then have "p ! length k = 0x20"
      using assms(1) by (metis nth_append_length nth_take starts_with_def)
    with assms(3) l show False by (force simp: is_blank_def)
  qed
  ultimately show ?thesis using assms(1) by (simp add: starts_with_def)
qed

lemma parse_line_relation:
  assumes "clean_key k" "clean_value v" "ps_state st = StStd"
  shows "parse_line fs pf (relation_line (k, v)) st n = add_relation st k v"
proof -
  obtain c k' where k: "k = c # k'" using assms(1) by (cases k) (auto simp: clean_key_def)
  have kb: "\<forall>b\<in>set k. \<not> is_blank b \<and> b \<noteq> 0x3d" using assms(1) by (auto simp: clean_key_def list_all_iff)
  have line: "relation_line (k, v) = k @ 0x20 # 0x3d # 0x20 # v" by (simp add: relation_line_def ascii_def)
  have lens: "length (ascii ''include'') = 7" "length (ascii ''includedir'') = 10"
    "\<forall>b\<in>set (ascii ''include'') \<union> set (ascii ''includedir''). \<not> is_blank b"
    by (simp_all add: ascii_def is_blank_def)
  have inc: "\<not> is_include (relation_line (k, v))" "\<not> is_includedir (relation_line (k, v))"
    using word_before_blank [of "ascii ''include''" k "0x3d # 0x20 # v"] lens kb
      word_before_blank [of "ascii ''includedir''" k "0x3d # 0x20 # v"] assms(1)
    unfolding line is_include_def is_includedir_def clean_key_def by auto
  have tw: "takeWhile (\<lambda>b. b \<noteq> 0x3d) (k @ 0x20 # 0x3d # 0x20 # v) = k @ [0x20]"
    "dropWhile (\<lambda>b. b \<noteq> 0x3d) (k @ 0x20 # 0x3d # 0x20 # v) = 0x3d # 0x20 # v"
    "takeWhile (\<lambda>b. \<not> is_blank b) (k @ [0x20]) = k" "dropWhile (\<lambda>b. \<not> is_blank b) (k @ [0x20]) = [0x20]"
    "skip_blanks (0x20 # v) = v" "skip_blanks (k @ 0x20 # 0x3d # 0x20 # v) = k @ 0x20 # 0x3d # 0x20 # v"
    using kb assms(2)
    by (auto simp: takeWhile_append dropWhile_append is_blank_def skip_blanks_def k clean_value_def neq_Nil_conv)
  have c: "c \<notin> {0, 0x3b, 0x23, 0x5b, 0x7d}" "c \<noteq> 0x3d" using assms(1) kb by (auto simp: clean_key_def k)
  have "parse_line fs pf (relation_line (k, v)) st n = parse_std_line (relation_line (k, v)) st n"
    using inc assms(3) by (simp add: parse_line_def)
  also have "\<dots> = parse_relation (k @ 0x20 # 0x3d # 0x20 # v) st n"
    unfolding line parse_std_line_def tw(6) using c by (simp add: k)
  also have "\<dots> = add_relation st k v"
    unfolding parse_relation_def Let_def tw list.sel trim_blank
    using c assms(2) by (auto simp: k clean_value_def)
  finally show ?thesis .
qed

lemma add_relation_in_section:
  assumes "clean_key k" "wf_node (Node nm None False cs)" "\<forall>c\<in>set cs. \<not> n_final c"
  shows "\<exists>cs'. add_relation (in_section nm cs) k v = Some (Inr (in_section nm cs')) \<and>
    wf_node (Node nm None False cs') \<and> (\<forall>c\<in>set cs'. \<not> n_final c) \<and>
    (\<forall>k'. values_of cs' k' = values_of cs k' @ (if k' = k then [v] else []))"
proof -
  let ?sec = "Node nm None False cs"
  have ns: "scan_children k (Some v) cf i ps \<noteq> Suppressed" "scan_children k (Some v) cf i ps \<noteq> Merge_At j"
    if "\<forall>c\<in>set ps. \<not> n_final c" for cf i j ps
    using that by (induction ps arbitrary: i) auto
  then obtain j where "scan_children k (Some v) True 0 (n_children ?sec) = Insert_At j"
    using assms(3) by (cases "scan_children k (Some v) True 0 cs") auto
  then obtain as bs where i: "n_children ?sec = as @ bs" "\<forall>a\<in>set as. n_name a \<le> k" "\<forall>b\<in>set bs. k < n_name b"
    "add_node ?sec k (Some v) True = (set_children (as @ new_node k (Some v) # bs) ?sec, Some (length as))"
    using assms(2) by (rule add_node_insert)
  have star: "strip_star k = (k, False)"
    using assms(1) by (auto simp: strip_star_def clean_key_def list_all_iff)
  have wf: "wf_node (set_children (as @ new_node k (Some v) # bs) ?sec)"
    using add_node_wf [OF assms(2) _ i(4)] by (simp add: is_section_def)
  have nb: "filter (\<lambda>c. n_name c = k \<and> P c) bs = []" for P using i(3) by (auto simp: filter_empty_conv)
  have "values_of (as @ new_node k (Some v) # bs) k' = values_of cs k' @ (if k' = k then [v] else [])" for k'
    using i(1) nb by (auto simp: values_of_def List.map_filter_def)
  then show ?thesis
    using i(1,4) star assms(3) wf
    by (intro exI [of _ "as @ new_node k (Some v) # bs"])
      (auto simp: add_relation_def in_section_def current_def set_current_def)
qed

lemma parse_relation_lines:
  assumes "\<forall>(k, v)\<in>set kvs. clean_key k \<and> clean_value v" "wf_node (Node nm None False cs)" "\<forall>c\<in>set cs. \<not> n_final c"
  shows "\<exists>cs'. parse_lines fs pf (map relation_line kvs) i (in_section nm cs) = Some (Inr (in_section nm cs')) \<and>
    (\<forall>k. values_of cs' k = values_of cs k @ map snd (filter (\<lambda>kv. fst kv = k) kvs))"
  using assms
proof (induction kvs arbitrary: i cs)
  case (Cons kv kvs)
  obtain k v where kv: "kv = (k, v)" "clean_key k" "clean_value v" using Cons.prems(1) by (cases kv) auto
  obtain cs' where cs': "add_relation (in_section nm cs) k v = Some (Inr (in_section nm cs'))"
    "wf_node (Node nm None False cs')" "\<forall>c\<in>set cs'. \<not> n_final c"
    "\<forall>k'. values_of cs' k' = values_of cs k' @ (if k' = k then [v] else [])"
    using add_relation_in_section [OF kv(2) Cons.prems(2,3), of v] by blast
  have "parse_line fs pf (relation_line kv) (in_section nm cs) (i + 1) = Some (Inr (in_section nm cs'))"
    using parse_line_relation [OF kv(2,3)] cs'(1) by (simp add: kv(1) in_section_def)
  with Cons.IH [OF _ cs'(2,3), of "i + 1"] Cons.prems(1) cs'(4) show ?case
    by (fastforce simp: kv(1))
qed auto

section \<open>Properties\<close>

text \<open>
  C25: parsing a text without include lines always returns. It gives either a syntax error that
  names one of its lines, or a tree whose children are sorted by name, with one subsection of a name and
  nothing below a relation. The path the parser keeps never leads outside the tree.
\<close>

theorem parse_text_returns_wf:
  assumes "\<forall>l\<in>set (text_lines text). \<not> is_include l \<and> \<not> is_includedir l"
  shows "case parse_text depth fs text of
      None \<Rightarrow> False
    | Some (Inr root) \<Rightarrow> wf_node root
    | Some (Inl e) \<Rightarrow> \<exists>n msg. e = Syntax n msg \<and> 1 \<le> n \<and> n \<le> length (text_lines text)"
proof -
  let ?st = "\<lparr>ps_root = root_node, ps_path = [], ps_state = StInit, group_level = 0, ps_discard = 0\<rparr>"
  let ?r = "parse_lines fs (parse_file depth fs) (text_lines text) 0 ?st"
  have "parse_inv ?st" by (simp add: parse_inv_def current_def root_node_def)
  from parse_lines_good [OF this assms, of fs "parse_file depth fs" 0]
    parse_lines_errors [OF assms, of fs "parse_file depth fs" 0 ?st]
  show ?thesis
    by (cases ?r) (fastforce simp: parse_text_def parse_text_into_def good_def parse_inv_def split: sum.splits)+
qed

definition no_fs :: Fs where
  "no_fs = \<lparr>fs_read = (\<lambda>_. Inl []), fs_dir = (\<lambda>_. Inl [])\<rparr>"

theorem parse_text_returns_wf_witness:
  "case parse_text 0 no_fs (ascii ''[b'') of Some (Inl e) \<Rightarrow> \<exists>msg. e = Syntax 1 msg | _ \<Rightarrow> False"
proof -
  have "\<forall>l\<in>set (text_lines (ascii ''[b'')). \<not> is_include l \<and> \<not> is_includedir l"
    "length (text_lines (ascii ''[b'')) = 1" "\<not> (case parse_text 0 no_fs (ascii ''[b'') of Some (Inr _) \<Rightarrow> True | _ \<Rightarrow> False)"
    by code_simp+
  with parse_text_returns_wf [of "ascii ''[b''" 0 no_fs] show ?thesis
    by (auto split: option.splits sum.splits)
qed

text \<open>
  C38: relations are read back in file order. For a section given as lines \<open>key = value\<close>, the parsed
  profile answers a query of a key with exactly the values of its lines, in their order.
\<close>

theorem get_values_file_order:
  assumes "0x0a \<notin> set nm" "0x5d \<notin> set nm" "\<forall>(k, v)\<in>set kvs. clean_key k \<and> clean_value v"
  shows "\<exists>root. parse_text depth fs (section_text nm kvs) = Some (Inr root) \<and>
    (\<forall>k. get_values root [nm, k] = map snd (filter (\<lambda>kv. fst kv = k) kvs))"
proof -
  let ?pf = "parse_file depth fs"
  let ?st = "\<lparr>ps_root = root_node, ps_path = [], ps_state = StInit, group_level = 0, ps_discard = 0\<rparr>"
  have tw: "takeWhile (\<lambda>b. b \<noteq> 0x5d) (nm @ [0x5d]) = nm" "dropWhile (\<lambda>b. b \<noteq> 0x5d) (nm @ [0x5d]) = [0x5d]"
    using assms(2) by (auto simp: takeWhile_append dropWhile_append)
  have "parse_line fs ?pf (0x5b # nm @ [0x5d]) ?st 1 = parse_header (nm @ [0x5d]) (?st\<lparr>ps_state := StStd\<rparr>) 1"
    by (simp add: parse_line_def is_include_def is_includedir_def starts_with_def ascii_def
        parse_std_line_def skip_blanks_def is_blank_def)
  also have "\<dots> = Some (Inr (in_section nm []))"
    by (simp add: parse_header_def tw Let_def root_node_def add_node_def new_node_def skip_blanks_def in_section_def)
  finally have header: "parse_line fs ?pf (0x5b # nm @ [0x5d]) ?st 1 = Some (Inr (in_section nm []))" .
  obtain cs where cs: "parse_lines fs ?pf (map relation_line kvs) 1 (in_section nm []) = Some (Inr (in_section nm cs))"
    "\<forall>k. values_of cs k = values_of [] k @ map snd (filter (\<lambda>kv. fst kv = k) kvs)"
    using parse_relation_lines [OF assms(3), of nm "[]" fs ?pf 1] by auto
  show ?thesis
    using header cs text_lines_section [OF assms(1,3)]
    by (auto simp: parse_text_def parse_text_into_def in_section_def get_values_def values_of_def is_section_def
        List.map_filter_def)
qed

theorem get_values_file_order_witness:
  "\<exists>root. parse_text 0 no_fs (section_text (ascii ''a'') [(ascii ''k'', ascii ''v''), (ascii ''b'', ascii ''x''),
       (ascii ''k'', ascii ''u'')]) = Some (Inr root) \<and>
     get_values root [ascii ''a'', ascii ''k''] = [ascii ''v'', ascii ''u'']"
proof -
  have "clean_key (ascii ''k'')" "clean_key (ascii ''b'')"
    "clean_value (ascii ''v'')" "clean_value (ascii ''x'')" "clean_value (ascii ''u'')"
    by code_simp+
  moreover have "0x0a \<notin> set (ascii ''a'')" "0x5d \<notin> set (ascii ''a'')" "ascii ''b'' \<noteq> ascii ''k''"
    by code_simp+
  ultimately show ?thesis
    using get_values_file_order [of "ascii ''a''" "[(ascii ''k'', ascii ''v''), (ascii ''b'', ascii ''x''),
       (ascii ''k'', ascii ''u'')]" 0 no_fs]
    by auto
qed

text \<open>
  an include line inside a section misfiles what follows. The path to the current section is kept as
  indices, and an included file that adds a section sorted before it shifts them: the relations after the
  include line land in the other section, and inside a subsection the index can be out of range.
\<close>

definition include_fs :: Fs where
  "include_fs = \<lparr>fs_read = (\<lambda>p. if p = ascii ''i'' then Inr (ascii ''[a]'') else Inl []), fs_dir = (\<lambda>_. Inl [])\<rparr>"

theorem include_in_section_misfiles:
  "(case parse_text 1 include_fs (ascii ''[b]'' @ [0x0a] @ ascii ''include i'' @ [0x0a] @ ascii ''k = v'') of
      Some (Inr root) \<Rightarrow> get_values root [ascii ''b'', ascii ''k''] = [] \<and>
        get_values root [ascii ''a'', ascii ''k''] = [ascii ''v'']
    | _ \<Rightarrow> False) \<and>
   parse_text 1 include_fs
     (ascii ''[b]'' @ [0x0a] @ ascii ''s = {'' @ [0x0a] @ ascii ''include i'' @ [0x0a] @ ascii ''k = v'') = None"
  by (rule conjI; code_simp)

end
