(* ===== verification/Transit.thy ===== *)
theory Transit
  imports Profile
begin

text \<open>
  Transited realms (\<open>protocol/transit.rs\<close>): adding a realm to the compressed list of a ticket, expanding
  the list, walking the realm tree, and checking the list against the walk.

  Realms are bytes. A callback of the source that reads or extends captured state is a function on
  that state. Positions in a list under construction are kept as the unread rest.
\<close>

section \<open>Adding a realm\<close>

datatype TransitError = IllCrTkt | NoTktInRealm

definition MAX_REALM_LN :: nat where "MAX_REALM_LN = 500"
definition MAXLEN :: nat where "MAXLEN = 512"

definition ends_with :: "bytes \<Rightarrow> bytes \<Rightarrow> bool" where
  "ends_with p s \<longleftrightarrow> length p \<le> length s \<and> drop (length s - length p) s = p"

definition first_is :: "u8 \<Rightarrow> bytes \<Rightarrow> bool" where
  "first_is b s \<longleftrightarrow> s \<noteq> [] \<and> hd s = b"

definition last_is :: "u8 \<Rightarrow> bytes \<Rightarrow> bool" where
  "last_is b s \<longleftrightarrow> s \<noteq> [] \<and> last s = b"

definition subrealm :: "bytes \<Rightarrow> bytes \<Rightarrow> int" where
  "subrealm r1 r2 =
     (if length r2 \<le> length r1 then 0
      else let s1 = first_is 0x2f r1; s2 = first_is 0x2f r2 in
        if s1 \<and> s2 \<and> starts_with r1 r2 then int (length r1) - int (length r2)
        else if \<not> s1 \<and> \<not> s2 \<and> ends_with r1 r2 then int (length r2) - int (length r1)
        else 0)"

fun read_field_loop :: "bytes \<Rightarrow> bytes \<Rightarrow> TransitError + bytes \<times> bytes" where
  "read_field_loop out [] = Inr (out, [])"
| "read_field_loop out (c # s) =
     (if c = 0x5c then read_field_loop out s
      else if c = 0x2c then Inr (out, s)
      else if length out + 1 \<ge> MAX_REALM_LN then Inl IllCrTkt
      else read_field_loop (out @ [c]) s)"

definition read_field :: "bytes \<Rightarrow> TransitError + bytes \<times> bytes" where
  "read_field s = read_field_loop [] s"

definition append_piece :: "bytes \<Rightarrow> bytes \<Rightarrow> int \<Rightarrow> bytes" where
  "append_piece dst src pl =
     (let n = nat \<bar>pl\<bar> in
      if pl > 0 then dst @ take n src else dst @ drop (length src - n) src)"

definition strlcat :: "nat \<Rightarrow> bytes \<Rightarrow> bytes \<Rightarrow> TransitError + bytes" where
  "strlcat bufsize tr s = (if length tr + length s \<ge> bufsize then Inl IllCrTkt else Inr (tr @ s))"

definition expand_field :: "bytes \<Rightarrow> bytes \<Rightarrow> TransitError + bytes" where
  "expand_field prev cur =
     (if hd cur = 0x20 then Inr (tl cur)
      else if hd cur = 0x2f \<and> first_is 0x2f prev then
        (if length prev + length cur + 1 \<ge> MAX_REALM_LN then Inl IllCrTkt else Inr (prev @ cur))
      else if last_is 0x2e cur then
        (if length cur + length prev + 1 \<ge> MAX_REALM_LN then Inl IllCrTkt else Inr (cur @ prev))
      else Inr cur)"

text \<open>The case of a realm that is not in the list yet, at the field it is related to.\<close>

definition merge_realm :: "bytes \<Rightarrow> bytes \<Rightarrow> bytes \<Rightarrow> bytes \<Rightarrow> bytes \<Rightarrow> TransitError + bytes \<times> bool" where
  "merge_realm realm prev cur exp nxt =
     (let next_ok = (nxt = [] \<or> \<not> last_is 0x2e nxt);
          pl = (if next_ok \<and> \<not> first_is 0x2f nxt then subrealm exp realm else 0)
      in if pl \<noteq> 0 then
           (if length cur + nat \<bar>pl\<bar> + 2 \<ge> MAX_REALM_LN then Inl IllCrTkt
            else Inr (append_piece (cur @ [0x2c]) realm pl, True))
         else let pl = subrealm realm exp in
           if pl \<noteq> 0 then
             rbind (let pl1 = subrealm prev realm in
                if pl1 \<noteq> 0 then
                  (if nat \<bar>pl1\<bar> + 1 \<ge> MAX_REALM_LN then Inl IllCrTkt else Inr (append_piece [] realm pl1))
                else let cur = (if first_is 0x2f realm \<and> prev \<noteq> [] then [0x20] else []) in
                  if length cur + length realm + 1 \<ge> MAX_REALM_LN then Inl IllCrTkt else Inr (cur @ realm))
             (\<lambda>cur. if length cur + nat \<bar>pl\<bar> + 2 \<ge> MAX_REALM_LN then Inl IllCrTkt
                    else Inr (append_piece (cur @ [0x2c]) exp pl, True))
           else Inr (cur, False))"

definition push_field :: "nat \<Rightarrow> bytes \<Rightarrow> bytes \<Rightarrow> TransitError + bytes" where
  "push_field bufsize tr cur =
     rbind (if tr \<noteq> [] then strlcat bufsize tr [0x2c] else Inr tr) (\<lambda>tr. strlcat bufsize tr cur)"

lemma read_field_loop_rest: "read_field_loop out s = Inr (f, r) \<Longrightarrow> length r \<le> length s"
  by (induction out s rule: read_field_loop.induct) (auto split: if_splits)

lemma read_field_rest: "read_field s = Inr (f, r) \<Longrightarrow> s \<noteq> [] \<Longrightarrow> length r < length s"
  by (cases s) (auto simp: read_field_def split: if_splits dest!: read_field_loop_rest)

lemma read_field_Nil [simp]: "read_field [] = Inr ([], [])"
  by (simp add: read_field_def)

function (sequential) add_loop ::
  "nat \<Rightarrow> bytes \<Rightarrow> bytes \<Rightarrow> bytes \<Rightarrow> bytes \<Rightarrow> bool \<Rightarrow> bytes \<Rightarrow> TransitError + bool \<times> bytes" where
  "add_loop bufsize realm rest prev [] added tr = Inr (added, tr)"
| "add_loop bufsize realm rest prev cur added tr =
     rbind (expand_field prev cur) (\<lambda>exp.
     case read_field rest of
       Inl e \<Rightarrow> Inl e
     | Inr (nxt, rest') \<Rightarrow>
         rbind (if added \<or> exp = realm then Inr (cur, True) else merge_realm realm prev cur exp nxt) (\<lambda>(cur, added).
         rbind (push_field bufsize tr cur) (\<lambda>tr.
         add_loop bufsize realm rest' exp nxt added tr)))"
  by pat_completeness auto

termination
proof (relation "measure (\<lambda>(_, _, rest, _, cur, _, _). 2 * length rest + (if cur = [] then 0 else 1))", goal_cases)
  case (2 bufsize realm rest prev c cur added tr exp nr nxt rest')
  then show ?case by (cases "rest = []") (auto dest!: read_field_rest)
qed simp

definition add_to_transited :: "bytes \<Rightarrow> bytes \<Rightarrow> bytes \<Rightarrow> bytes \<Rightarrow> TransitError + bytes" where
  "add_to_transited tgt_trans realm client_realm server_realm =
     (let bufsize = min (length realm + length tgt_trans + 3) MAX_REALM_LN in
      rbind (read_field tgt_trans) (\<lambda>(cur, rest).
      rbind (add_loop bufsize realm rest [] cur (client_realm = realm \<or> server_realm = realm) []) (\<lambda>(added, tr).
      if added then Inr tr
      else
        rbind (if tr \<noteq> [] then strlcat bufsize tr [0x2c] else Inr tr) (\<lambda>tr.
        rbind (if first_is 0x2f realm \<and> tr \<noteq> [] then strlcat bufsize tr [0x20] else Inr tr) (\<lambda>tr.
        strlcat bufsize tr realm)))))"

section \<open>Expanding the list\<close>

type_synonym 's visit = "'s \<Rightarrow> bytes \<Rightarrow> TransitError + 's"

text \<open>The two loops of \<open>process_intermediates\<close>: over \<open>i\<close> upwards, and over \<open>i\<close> downwards to 1.\<close>

fun visit_prefixes :: "'s visit \<Rightarrow> bytes \<Rightarrow> nat list \<Rightarrow> 's \<Rightarrow> TransitError + 's" where
  "visit_prefixes f n2 [] st = Inr st"
| "visit_prefixes f n2 (i # is) st =
     rbind (if n2 ! i = 0x2f then f st (take i n2) else Inr st) (visit_prefixes f n2 is)"

fun visit_suffixes :: "'s visit \<Rightarrow> bytes \<Rightarrow> nat \<Rightarrow> 's \<Rightarrow> TransitError + 's" where
  "visit_suffixes f n2 0 st = Inr st"
| "visit_suffixes f n2 (Suc i) st =
     rbind (if n2 ! i = 0x2e then f st (drop (Suc i) n2) else Inr st) (visit_suffixes f n2 i)"

definition process_intermediates :: "'s visit \<Rightarrow> 's \<Rightarrow> bytes \<Rightarrow> bytes \<Rightarrow> TransitError + 's" where
  "process_intermediates f st a b =
     (case (if length a > length b then (b, a) else (a, b)) of (n1, n2) \<Rightarrow>
      let len1 = length n1; len2 = length n2 in
      if len1 = len2 then (if n1 = n2 then Inr st else Inl IllCrTkt)
      else if len1 = 0 then Inl IllCrTkt
      else if hd n1 = 0x2f then
        (if hd n2 \<noteq> 0x2f \<or> take len1 n2 \<noteq> n1 then Inl IllCrTkt
         else visit_prefixes f n2 [len1 + 1..<len2] st)
      else
        (if hd n2 = 0x2f \<or> drop (len2 - len1) n2 \<noteq> n1 then Inl IllCrTkt
         else visit_suffixes f n2 (len2 - len1 - 1) st))"

definition maybe_join :: "bytes \<Rightarrow> bytes \<Rightarrow> TransitError + bytes" where
  "maybe_join lst buf =
     (if buf = [] then Inr buf
      else if hd buf = 0x2f then (if length lst + length buf > MAXLEN then Inl IllCrTkt else Inr (lst @ buf))
      else if last buf = 0x2e then (if length lst + length buf > MAXLEN then Inl IllCrTkt else Inr (buf @ lst))
      else Inr buf)"

record Scanner =
  sc_buf :: bytes
  sc_last :: bytes
  next_lit :: bool
  sc_intermediates :: bool

definition push_byte :: "Scanner \<Rightarrow> u8 \<Rightarrow> TransitError + Scanner" where
  "push_byte sc c = (if length (sc_buf sc) + 1 = MAXLEN then Inl IllCrTkt else Inr (sc\<lparr>sc_buf := sc_buf sc @ [c]\<rparr>))"

definition scan_comma :: "'s visit \<Rightarrow> bytes \<Rightarrow> nat \<Rightarrow> Scanner \<Rightarrow> 's \<Rightarrow> TransitError + Scanner \<times> 's" where
  "scan_comma f crealm idx sc st =
     (if sc_buf sc \<noteq> [] then
        rbind (maybe_join (sc_last sc) (sc_buf sc)) (\<lambda>buf.
        rbind (f st buf) (\<lambda>st.
        rbind (if sc_intermediates sc
               then process_intermediates f st buf (if idx = 0 then crealm else sc_last sc) else Inr st) (\<lambda>st.
        Inr (sc\<lparr>sc_buf := [], sc_last := buf, sc_intermediates := False\<rparr>, st))))
      else if idx = 0 then
        (if length crealm \<ge> MAXLEN then Inl IllCrTkt
         else Inr (sc\<lparr>sc_intermediates := True, sc_last := crealm\<rparr>, st))
      else Inr (sc\<lparr>sc_intermediates := True\<rparr>, st))"

definition scan_end :: "'s visit \<Rightarrow> bytes \<Rightarrow> Scanner \<Rightarrow> 's \<Rightarrow> TransitError + 's" where
  "scan_end f srealm sc st =
     (if sc_buf sc = [] then process_intermediates f st (sc_last sc) srealm
      else rbind (maybe_join (sc_last sc) (sc_buf sc)) (\<lambda>buf.
        rbind (f st buf) (\<lambda>st.
        if sc_intermediates sc then process_intermediates f st buf (sc_last sc) else Inr st)))"

fun scan_transit :: "'s visit \<Rightarrow> bytes \<Rightarrow> bytes \<Rightarrow> nat \<Rightarrow> bytes \<Rightarrow> Scanner \<Rightarrow> 's \<Rightarrow> TransitError + 's" where
  "scan_transit f crealm srealm idx [] sc st = scan_end f srealm sc st"
| "scan_transit f crealm srealm idx (c # cs) sc st =
     (if next_lit sc then
        rbind (push_byte sc c) (\<lambda>sc. scan_transit f crealm srealm (idx + 1) cs (sc\<lparr>next_lit := False\<rparr>) st)
      else if c = 0x5c then scan_transit f crealm srealm (idx + 1) cs (sc\<lparr>next_lit := True\<rparr>) st
      else if c = 0x2c then
        rbind (scan_comma f crealm idx sc st) (\<lambda>(sc, st). scan_transit f crealm srealm (idx + 1) cs sc st)
      else if c = 0x20 \<and> sc_buf sc = [] then
        scan_transit f crealm srealm (idx + 1) cs (sc\<lparr>sc_last := []\<rparr>) st
      else rbind (push_byte sc c) (\<lambda>sc. scan_transit f crealm srealm (idx + 1) cs sc st))"

definition foreach_realm :: "'s visit \<Rightarrow> 's \<Rightarrow> bytes \<Rightarrow> bytes \<Rightarrow> bytes \<Rightarrow> TransitError + 's" where
  "foreach_realm f st crealm srealm transit =
     (if transit = [] then Inr st
      else scan_transit f crealm srealm 0 transit
        \<lparr>sc_buf = [], sc_last = [], next_lit = False, sc_intermediates = False\<rparr> st)"

definition decode_transited :: "bytes \<Rightarrow> bytes \<Rightarrow> bytes \<Rightarrow> TransitError + bytes list" where
  "decode_transited crealm srealm transit =
     foreach_realm (\<lambda>out r. Inr (out @ [r])) [] crealm srealm transit"

section \<open>Walking the realm tree\<close>

record TgsHop =
  hop_realm :: bytes
  hop_instance :: bytes

definition hop :: "bytes \<Rightarrow> bytes \<Rightarrow> TgsHop" where
  "hop inst realm = \<lparr>hop_realm = realm, hop_instance = inst\<rparr>"

fun capath_links :: "bytes \<Rightarrow> bytes \<Rightarrow> bytes list \<Rightarrow> TgsHop list" where
  "capath_links server src [] = [hop server src]"
| "capath_links server src (v # vs) =
     (let dst = takeWhile (\<lambda>b. b \<noteq> 0x09 \<and> b \<noteq> 0x20) v in hop dst src # capath_links server dst vs)"

definition capath_tree :: "bytes \<Rightarrow> bytes \<Rightarrow> bytes list \<Rightarrow> TgsHop list" where
  "capath_tree client server vals =
     hop client client # capath_links server client (if first_is 0x2e (hd vals) then [] else vals)"

fun comtail_loop ::
  "bytes \<Rightarrow> bytes \<Rightarrow> u8 \<Rightarrow> nat \<Rightarrow> nat \<Rightarrow> (nat \<times> nat) option \<Rightarrow> nat \<times> nat \<times> (nat \<times> nat) option" where
  "comtail_loop c s sep (Suc cp) (Suc sp) dot =
     (if c ! cp \<noteq> s ! sp then (Suc cp, Suc sp, dot)
      else comtail_loop c s sep cp sp (if c ! cp = sep then Some (cp, sp) else dot))"
| "comtail_loop c s sep cp sp dot = (cp, sp, dot)"

text \<open>The common tail of two realms and the last separator in it; both are there for both realms or for none.\<close>

definition comtail :: "bytes \<Rightarrow> bytes \<Rightarrow> u8 \<Rightarrow> (nat \<times> nat) option \<times> (nat \<times> nat) option" where
  "comtail c s sep =
     (if c = [] \<or> s = [] then (None, None)
      else case comtail_loop c s sep (length c) (length s) None of (cp, sp, dot) \<Rightarrow>
        if cp = length c then (None, None) else (Some (cp, sp), dot))"

definition adjtail :: "bytes \<Rightarrow> bytes \<Rightarrow> u8 \<Rightarrow> (nat \<times> nat) option \<Rightarrow> (nat \<times> nat) option \<Rightarrow> (nat \<times> nat) option" where
  "adjtail c s sep tail dot =
     (case tail of
        None \<Rightarrow> None
      | Some (cp, sp) \<Rightarrow>
          if (cp = 0 \<or> c ! (cp - 1) = sep) \<and> (sp = 0 \<or> s ! (sp - 1) = sep) then tail
          else (case dot of
              None \<Rightarrow> None
            | Some (cd, sd) \<Rightarrow>
                if cd + 1 \<ge> length c \<or> sd + 1 \<ge> length s then None else Some (cd + 1, sd + 1)))"

fun tweens_loop :: "bytes \<Rightarrow> nat option \<Rightarrow> bool \<Rightarrow> u8 \<Rightarrow> nat list \<Rightarrow> nat \<Rightarrow> bytes list" where
  "tweens_loop r rtail dotail sep [] lp = []"
| "tweens_loop r rtail dotail sep (p # ps) lp =
     (if r ! p \<noteq> sep \<and> p + 1 \<noteq> length r then tweens_loop r rtail dotail sep ps lp
      else if rtail = Some lp \<and> \<not> dotail then []
      else drop lp r # (if rtail = Some lp then [] else tweens_loop r rtail dotail sep ps (p + 1)))"

definition tweens :: "bytes \<Rightarrow> nat option \<Rightarrow> bool \<Rightarrow> u8 \<Rightarrow> bytes list" where
  "tweens r rtail dotail sep = tweens_loop r rtail dotail sep [0..<length r] 0"

fun hops :: "bytes \<Rightarrow> bytes list \<Rightarrow> TgsHop list" where
  "hops src [] = []"
| "hops src (dst # dsts) = hop dst src # hops dst dsts"

definition hier_tree :: "bytes \<Rightarrow> bytes \<Rightarrow> u8 \<Rightarrow> TgsHop list" where
  "hier_tree client server sep =
     (case comtail client server sep of (tail, dot) \<Rightarrow>
      let tail = adjtail client server sep tail dot
      in hops client (tweens client (map_option fst tail) True sep @
           rev (tweens server (map_option snd tail) False sep)))"

definition walk_realm_tree :: "bytes \<Rightarrow> bytes \<Rightarrow> Node option \<Rightarrow> u8 \<Rightarrow> TransitError + TgsHop list" where
  "walk_realm_tree client server capaths sep =
     (if client = [] \<or> server = [] \<or> client = server then Inl NoTktInRealm
      else let vals = (case capaths of
             None \<Rightarrow> []
           | Some p \<Rightarrow> get_values p [ascii ''capaths'', from_utf8_lossy client, from_utf8_lossy server])
        in Inr (if vals \<noteq> [] then capath_tree client server vals else hier_tree client server sep))"

section \<open>Checking\<close>

definition REALM_BRANCH_CHAR :: u8 where "REALM_BRANCH_CHAR = 0x2e"
definition ANONYMOUS_REALM :: bytes where "ANONYMOUS_REALM = ascii ''WELLKNOWN:ANONYMOUS''"

definition strip_nul :: "bytes \<Rightarrow> bytes" where
  "strip_nul tr = (if tr \<noteq> [] \<and> last tr = 0 then butlast tr else tr)"

definition on_path :: "TgsHop list \<Rightarrow> bytes \<Rightarrow> bool" where
  "on_path tgs r \<longleftrightarrow> list_ex (\<lambda>h. hop_realm h = r) tgs"

definition check_transited_list :: "bytes \<Rightarrow> bytes \<Rightarrow> bytes \<Rightarrow> Node option \<Rightarrow> TransitError + unit" where
  "check_transited_list tr crealm srealm capaths =
     (let tr = strip_nul tr in
      if tr = [] \<or> crealm = ANONYMOUS_REALM then Inr ()
      else rbind (walk_realm_tree crealm srealm capaths REALM_BRANCH_CHAR) (\<lambda>tgs.
        foreach_realm (\<lambda>_ realm. if on_path tgs realm then Inr () else Inl IllCrTkt) () crealm srealm tr))"

section \<open>Checking is decoding and comparing\<close>

text \<open>
  A visit that collects realms and a visit that tests them with \<open>P\<close> agree: the second succeeds when the
  first does and all the realms it collected pass.
\<close>

definition agrees :: "(bytes \<Rightarrow> bool) \<Rightarrow> bytes list \<Rightarrow> TransitError + bytes list \<Rightarrow> TransitError + unit \<Rightarrow> bool" where
  "agrees P out a b \<longleftrightarrow>
     (case a of Inl e \<Rightarrow> e = IllCrTkt \<and> b = Inl IllCrTkt
      | Inr out' \<Rightarrow> \<exists>rs. out' = out @ rs \<and> b = (if list_all P rs then Inr () else Inl IllCrTkt))"

abbreviation collect :: "bytes list visit" where
  "collect \<equiv> \<lambda>out r. Inr (out @ [r])"

abbreviation test :: "(bytes \<Rightarrow> bool) \<Rightarrow> unit visit" where
  "test P \<equiv> \<lambda>_ r. if P r then Inr () else Inl IllCrTkt"

lemma agrees_Inr [simp, intro!]: "agrees P out (Inr out) (Inr ())"
  by (simp add: agrees_def)

lemma agrees_Inl [simp, intro!]: "agrees P out (Inl IllCrTkt) (Inl IllCrTkt)"
  by (simp add: agrees_def)

lemma agrees_visit: "agrees P out (collect out r) (test P st r)"
  by (simp add: agrees_def)

lemma agrees_bind:
  assumes "agrees P out a b" "\<And>out. agrees P out (f out) (g ())"
  shows "agrees P out (rbind a f) (rbind b g)"
proof (cases a)
  case (Inl e)
  with assms(1) show ?thesis by (simp add: agrees_def)
next
  case (Inr out')
  with assms(1) have "\<exists>rs. out' = out @ rs \<and> b = (if list_all P rs then Inr () else Inl IllCrTkt)"
    by (simp add: agrees_def)
  then obtain rs where rs: "out' = out @ rs" "b = (if list_all P rs then Inr () else Inl IllCrTkt)" by blast
  show ?thesis
  proof (cases "f out'")
    case i: (Inl e)
    with assms(2) [of out'] Inr rs(2) show ?thesis by (simp add: agrees_def)
  next
    case i: (Inr out'')
    with assms(2) [of out'] have "\<exists>rs'. out'' = out' @ rs' \<and> g () = (if list_all P rs' then Inr () else Inl IllCrTkt)"
      by (simp add: agrees_def)
    then obtain rs' where rs': "out'' = out' @ rs'" "g () = (if list_all P rs' then Inr () else Inl IllCrTkt)" by blast
    have "rbind b g = (if list_all P (rs @ rs') then Inr () else Inl IllCrTkt)"
      by (simp add: rs(2) rs'(2))
    with Inr i rs(1) rs'(1) show ?thesis by (simp add: agrees_def)
  qed
qed

lemma agrees_pure:
  assumes "\<And>x. m = Inr x \<Longrightarrow> agrees P out (f x) (g x)" "\<And>e. m = Inl e \<Longrightarrow> e = IllCrTkt"
  shows "agrees P out (rbind m f) (rbind m g)"
  using assms by (cases m) auto

lemma agrees_if: "agrees P out a b \<Longrightarrow> agrees P out (if c then a else Inr out) (if c then b else Inr ())"
  by simp

lemma visit_prefixes_agrees: "agrees P out (visit_prefixes collect n2 is out) (visit_prefixes (test P) n2 is ())"
  by (induction "is" arbitrary: out) (auto simp only: visit_prefixes.simps intro!: agrees_bind agrees_if agrees_visit)

lemma visit_suffixes_agrees: "agrees P out (visit_suffixes collect n2 i out) (visit_suffixes (test P) n2 i ())"
  by (induction i arbitrary: out) (auto simp only: visit_suffixes.simps intro!: agrees_bind agrees_if agrees_visit)

lemma process_intermediates_agrees:
  "agrees P out (process_intermediates collect out a b) (process_intermediates (test P) () a b)"
  by (auto simp: process_intermediates_def Let_def intro: visit_prefixes_agrees visit_suffixes_agrees split: prod.splits)

lemma scan_errors:
  "maybe_join l b = Inl e \<Longrightarrow> e = IllCrTkt" "push_byte sc c = Inl e \<Longrightarrow> e = IllCrTkt"
  by (auto simp: maybe_join_def push_byte_def split: if_splits)

lemma scan_end_agrees: "agrees P out (scan_end collect srealm sc out) (scan_end (test P) srealm sc ())"
  unfolding scan_end_def
  by (auto simp only: split: if_split intro!: agrees_pure agrees_bind agrees_visit agrees_if
      process_intermediates_agrees dest: scan_errors)

lemma scan_transit_agrees:
  "agrees P out (scan_transit collect crealm srealm idx cs sc out) (scan_transit (test P) crealm srealm idx cs sc ())"
proof (induction cs arbitrary: idx sc out)
  case (Cons c cs)
  have "agrees P out
     (rbind (scan_comma collect crealm idx sc out) (\<lambda>(sc, out). scan_transit collect crealm srealm (idx + 1) cs sc out))
     (rbind (scan_comma (test P) crealm idx sc ()) (\<lambda>(sc, st). scan_transit (test P) crealm srealm (idx + 1) cs sc st))"
  proof (cases "sc_buf sc = []")
    case True
    with Cons show ?thesis by (simp add: scan_comma_def)
  next
    case False
    show ?thesis
      unfolding scan_comma_def if_P [OF False] rbind_assoc
      by (intro agrees_pure agrees_bind agrees_visit agrees_if process_intermediates_agrees)
        (simp_all add: Cons scan_errors)
  qed
  moreover have "agrees P out
     (rbind (push_byte sc c) (\<lambda>sc. scan_transit collect crealm srealm (idx + 1) cs (h sc) out))
     (rbind (push_byte sc c) (\<lambda>sc. scan_transit (test P) crealm srealm (idx + 1) cs (h sc) ()))" for h
    by (intro agrees_pure Cons) (rule scan_errors)
  ultimately show ?case
    using Cons by (simp del: One_nat_def)
qed (simp add: scan_end_agrees)

lemma foreach_agrees:
  "foreach_realm (test P) () crealm srealm t =
     (case decode_transited crealm srealm t of
        Inl e \<Rightarrow> Inl IllCrTkt
      | Inr rs \<Rightarrow> if list_all P rs then Inr () else Inl IllCrTkt)"
proof -
  have "agrees P [] (decode_transited crealm srealm t) (foreach_realm (test P) () crealm srealm t)"
    by (simp add: decode_transited_def foreach_realm_def scan_transit_agrees)
  then show ?thesis by (auto simp: agrees_def split: sum.splits)
qed

section \<open>The walk is a path\<close>

text \<open>
  A path from \<open>client\<close> to \<open>server\<close>: the first hop is the client realm's own, each hop is issued by the realm
  the one before it is for, and the last is for the server realm.
\<close>

fun linked :: "bytes \<Rightarrow> TgsHop list \<Rightarrow> bytes \<Rightarrow> bool" where
  "linked src [] server \<longleftrightarrow> src = server"
| "linked src (h # hs) server \<longleftrightarrow> hop_realm h = src \<and> linked (hop_instance h) hs server"

definition realm_path :: "bytes \<Rightarrow> bytes \<Rightarrow> TgsHop list \<Rightarrow> bool" where
  "realm_path client server tree \<longleftrightarrow> tree \<noteq> [] \<and> hd tree = hop client client \<and> linked client tree server"

lemma hop_simps [simp]: "hop_realm (hop i r) = r" "hop_instance (hop i r) = i"
  by (simp_all add: hop_def)

lemma capath_links_linked: "linked src (capath_links server src vs) server"
  by (induction vs arbitrary: src) (simp_all add: Let_def)

lemma hops_linked: "linked src (hops src ds) (if ds = [] then src else last ds)"
  by (induction ds arbitrary: src) auto

lemma hops_realms: "h \<in> set (hops src ds) \<Longrightarrow> hop_realm h \<in> insert src (set ds)"
  by (induction ds arbitrary: src) auto

text \<open>An ancestor of a realm: itself, or the part after a separator.\<close>

definition ancestor :: "u8 \<Rightarrow> bytes \<Rightarrow> bytes \<Rightarrow> bool" where
  "ancestor sep r a \<longleftrightarrow> a = r \<or> list_ex (\<lambda>i. r ! i = sep \<and> a = drop (Suc i) r) [0..<length r]"

lemma ancestor_refl [simp]: "ancestor sep r r"
  by (simp add: ancestor_def)

lemma ancestorI: "i < length r \<Longrightarrow> r ! i = sep \<Longrightarrow> ancestor sep r (drop (Suc i) r)"
  by (auto simp: ancestor_def list_ex_iff)

lemma tweens_loop_ancestors:
  assumes "a \<in> set (tweens_loop r t d sep ps lp)" "set ps \<subseteq> {..<length r}" "ancestor sep r (drop lp r)"
    "sorted_wrt (<) ps"
  shows "ancestor sep r a"
  using assms
proof (induction ps arbitrary: lp)
  case (Cons p ps)
  show ?case
  proof (cases "r ! p = sep")
    case True
    with Cons show ?thesis by (auto simp: ancestorI split: if_splits)
  next
    case False
    have "ps = []" if "p + 1 = length r"
      using Cons.prems(2,4) that by (cases ps) auto
    with Cons False show ?thesis by (auto split: if_splits)
  qed
qed simp

lemma tweens_ancestors: "a \<in> set (tweens r t d sep) \<Longrightarrow> ancestor sep r a"
  unfolding tweens_def by (rule tweens_loop_ancestors) (auto simp: ancestor_def)

lemma tweens_hd:
  assumes "r \<noteq> []" "d \<or> t \<noteq> Some 0"
  shows "tweens r t d sep \<noteq> [] \<and> hd (tweens r t d sep) = r"
proof -
  have "tweens_loop r t d sep [k..<length r] 0 \<noteq> [] \<and> hd (tweens_loop r t d sep [k..<length r] 0) = r"
    if "k < length r" for k
    using that
  proof (induction "length r - k" arbitrary: k)
    case (Suc n)
    then have "[k..<length r] = k # [Suc k..<length r]" by (simp add: upt_conv_Cons)
    with Suc assms(2) show ?case by (cases "Suc k < length r") auto
  qed simp
  then show ?thesis using assms(1) by (simp add: tweens_def)
qed

lemma tweens_ss_empty: "tweens r (Some 0) False sep = []"
proof -
  have "tweens_loop r (Some 0) False sep ps 0 = []" for ps by (induction ps) auto
  then show ?thesis by (simp add: tweens_def)
qed

lemma tweens_loop_last:
  assumes "lp \<le> t" "t < length r" "lp < t \<Longrightarrow> k < t \<and> r ! (t - 1) = sep" "k < length r"
  shows "tweens_loop r (Some t) True sep [k..<length r] lp \<noteq> [] \<and>
    last (tweens_loop r (Some t) True sep [k..<length r] lp) = drop t r"
  using assms
proof (induction "length r - k" arbitrary: k lp)
  case (Suc n)
  have u: "[k..<length r] = k # [Suc k..<length r]" using Suc.prems by (simp add: upt_conv_Cons)
  have n: "n = length r - Suc k" using Suc.hyps(2) by simp
  show ?case
  proof (cases "r ! k \<noteq> sep \<and> k + 1 \<noteq> length r")
    case True
    have "lp < t \<Longrightarrow> Suc k < t \<and> r ! (t - 1) = sep" using Suc.prems(3) True by (cases "Suc k = t") auto
    moreover have "Suc k < length r" using True Suc.prems(4) by simp
    ultimately show ?thesis using Suc.hyps(1) [OF n Suc.prems(1,2)] True u by auto
  next
    case False
    show ?thesis
    proof (cases "lp = t")
      case True
      with False u show ?thesis by auto
    next
      case neq: False
      then have t: "k < t" "r ! (t - 1) = sep" using Suc.prems by auto
      then have "tweens_loop r (Some t) True sep [Suc k..<length r] (Suc k) \<noteq> [] \<and>
        last (tweens_loop r (Some t) True sep [Suc k..<length r] (Suc k)) = drop t r"
        using Suc.hyps(1) [OF n, of "Suc k"] Suc.prems(2) by simp
      with False neq u show ?thesis by auto
    qed
  qed
qed simp

lemma comtail_loop_eq:
  assumes "comtail_loop c s sep cp sp dot = (cp', sp', dot')" "cp \<le> length c" "sp \<le> length s" "drop cp c = drop sp s"
  shows "cp' \<le> length c \<and> sp' \<le> length s \<and> drop cp' c = drop sp' s"
  using assms
proof (induction c s sep cp sp dot rule: comtail_loop.induct)
  case (1 c s sep cp sp dot)
  then show ?case
    by (auto simp: Cons_nth_drop_Suc [symmetric, of cp] Cons_nth_drop_Suc [symmetric, of sp] split: if_splits)
qed auto

lemma hier_tree_last:
  assumes "client \<noteq> []" "server \<noteq> []" "comtail client server sep = (tail, dot)"
    and "adjtail client server sep tail dot = Some (cp, 0)"
  shows "tweens client (Some cp) True sep \<noteq> [] \<and> last (tweens client (Some cp) True sep) = server"
proof -
  have tl: "tail = Some (cp, 0)" "cp = 0 \<or> client ! (cp - 1) = sep"
    using assms(4) by (auto simp: adjtail_def split: option.splits if_splits)
  then have loop: "comtail_loop client server sep (length client) (length server) None = (cp, 0, dot)" "cp \<noteq> length client"
    using assms(1-3) by (auto simp: comtail_def split: prod.splits if_splits)
  then have cp: "cp < length client" "drop cp client = server"
    using comtail_loop_eq [OF loop(1)] by auto
  have "tweens client (Some cp) True sep \<noteq> [] \<and> last (tweens client (Some cp) True sep) = drop cp client"
    unfolding tweens_def by (rule tweens_loop_last) (use tl(2) cp(1) in auto)
  then show ?thesis by (simp add: cp(2))
qed

lemma hier_tree_path:
  assumes "client \<noteq> []" "server \<noteq> []"
  shows "realm_path client server (hier_tree client server sep) \<and>
    (\<forall>h\<in>set (hier_tree client server sep). ancestor sep client (hop_realm h) \<or> ancestor sep server (hop_realm h))"
proof -
  obtain tail dot where ct: "comtail client server sep = (tail, dot)" by fastforce
  define tl' where "tl' = adjtail client server sep tail dot"
  define cs where "cs = tweens client (map_option fst tl') True sep"
  define ss where "ss = tweens server (map_option snd tl') False sep"
  have tree: "hier_tree client server sep = hops client (cs @ rev ss)"
    by (simp add: hier_tree_def ct Let_def cs_def ss_def tl'_def)
  have c: "cs \<noteq> []" "hd cs = client" using tweens_hd [OF assms(1)] by (auto simp: cs_def)
  have "last (cs @ rev ss) = server"
  proof (cases "map_option snd tl' = Some 0")
    case True
    then obtain cp where cp: "tl' = Some (cp, 0)" by auto
    then have "ss = []"
      using assms(2) tweens_ss_empty by (simp add: ss_def)
    with hier_tree_last [OF assms ct] cp show ?thesis by (simp add: cs_def tl'_def)
  next
    case False
    with tweens_hd [OF assms(2), of False "map_option snd tl'" sep] have "ss \<noteq> []" "hd ss = server"
      by (auto simp: ss_def)
    then show ?thesis by (simp add: last_rev)
  qed
  moreover from c have "hd (hops client (cs @ rev ss)) = hop client client" "hops client (cs @ rev ss) \<noteq> []"
    by (cases cs; simp)+
  moreover have "\<forall>h\<in>set (hops client (cs @ rev ss)). ancestor sep client (hop_realm h) \<or> ancestor sep server (hop_realm h)"
  proof
    fix h assume "h \<in> set (hops client (cs @ rev ss))"
    then have "hop_realm h = client \<or> hop_realm h \<in> set cs \<or> hop_realm h \<in> set ss"
      using hops_realms by fastforce
    then show "ancestor sep client (hop_realm h) \<or> ancestor sep server (hop_realm h)"
      unfolding cs_def ss_def using tweens_ancestors by auto
  qed
  ultimately show ?thesis
    using hops_linked [of client "cs @ rev ss"] c(1) by (simp add: tree realm_path_def)
qed

section \<open>What a list denotes\<close>

text \<open>
  The fields of a list as the KDC reads them (a backslash is dropped, an empty field ends the list), and the
  realms they stand for, each field being relative to the realm before it.
\<close>

definition list_fields :: "bytes \<Rightarrow> bytes list" where
  "list_fields t = takeWhile (\<lambda>f. f \<noteq> []) (split_on 0x2c (filter (\<lambda>b. b \<noteq> 0x5c) t))"

definition field_exp :: "bytes \<Rightarrow> bytes \<Rightarrow> bytes" where
  "field_exp prev f =
     (if hd f = 0x20 then tl f
      else if hd f = 0x2f \<and> first_is 0x2f prev then prev @ f
      else if last_is 0x2e f then f @ prev
      else f)"

fun exps :: "bytes \<Rightarrow> bytes list \<Rightarrow> bytes list" where
  "exps prev [] = []"
| "exps prev (f # fs) = field_exp prev f # exps (field_exp prev f) fs"

definition last_exp :: "bytes list \<Rightarrow> bytes" where
  "last_exp fs = last ([] # exps [] fs)"

definition listed_realms :: "bytes \<Rightarrow> bytes list" where
  "listed_realms t = exps [] (list_fields t)"

definition join_fields :: "bytes list \<Rightarrow> bytes" where
  "join_fields fs = (if fs = [] then [] else hd fs @ concat (map (\<lambda>f. 0x2c # f) (tl fs)))"

definition clean_field :: "bytes \<Rightarrow> bool" where
  "clean_field f \<longleftrightarrow> f \<noteq> [] \<and> 0x2c \<notin> set f \<and> 0x5c \<notin> set f"

lemma expand_field_exp: "expand_field prev f = Inr e \<Longrightarrow> e = field_exp prev f"
  by (auto simp: expand_field_def field_exp_def split: if_splits)

lemma exps_append: "exps prev (a @ b) = exps prev a @ exps (last (prev # exps prev a)) b"
  by (induction a arbitrary: prev) auto

lemma exps_snoc: "exps [] (fs @ gs) = exps [] fs @ exps (last_exp fs) gs"
  by (simp add: exps_append last_exp_def)

lemma last_exp_snoc [simp]: "last_exp (fs @ [f]) = field_exp (last_exp fs) f"
  by (simp add: last_exp_def exps_append)

lemma last_exp_Nil [simp]: "last_exp [] = []"
  by (simp add: last_exp_def)

lemma join_append:
  "join_fields (fs @ gs) =
     (if fs = [] then join_fields gs else join_fields fs @ concat (map (\<lambda>f. 0x2c # f) gs))"
  by (cases fs) (auto simp: join_fields_def)

lemma join_Nil_iff: "\<forall>f\<in>set fs. clean_field f \<Longrightarrow> join_fields fs = [] \<longleftrightarrow> fs = []"
  by (cases fs) (auto simp: join_fields_def clean_field_def)

lemma read_field_loop_fields:
  assumes "read_field_loop out s = Inr (f, r)"
  shows "\<exists>f'. f = out @ f' \<and> 0x2c \<notin> set f' \<and> 0x5c \<notin> set f' \<and>
    (split_on 0x2c (filter (\<lambda>b. b \<noteq> 0x5c) s) = f' # split_on 0x2c (filter (\<lambda>b. b \<noteq> 0x5c) r) \<or>
     r = [] \<and> split_on 0x2c (filter (\<lambda>b. b \<noteq> 0x5c) s) = [f'])"
  using assms
proof (induction out s rule: read_field_loop.induct)
  case (2 out c s)
  show ?case
  proof (cases "c = 0x5c \<or> c = 0x2c")
    case True
    with 2 show ?thesis by (cases "c = 0x5c") auto
  next
    case False
    with 2(3) have "read_field_loop (out @ [c]) s = Inr (f, r)" by (auto split: if_splits)
    moreover from 2(3) False have "\<not> length out + 1 \<ge> MAX_REALM_LN" by (auto split: if_splits)
    ultimately obtain f' where f': "f = (out @ [c]) @ f'" "0x2c \<notin> set f'" "0x5c \<notin> set f'"
      "split_on 0x2c (filter (\<lambda>b. b \<noteq> 0x5c) s) = f' # split_on 0x2c (filter (\<lambda>b. b \<noteq> 0x5c) r) \<or>
       r = [] \<and> split_on 0x2c (filter (\<lambda>b. b \<noteq> 0x5c) s) = [f']"
      using 2(2) False by blast
    with False show ?thesis by (intro exI [of _ "c # f'"]) auto
  qed
qed auto

lemma read_field_fields:
  assumes "read_field s = Inr (f, r)"
  shows "list_fields s = (if f = [] then [] else f # list_fields r)" "f \<noteq> [] \<Longrightarrow> clean_field f"
  using read_field_loop_fields [OF assms [unfolded read_field_def]]
  by (auto simp: list_fields_def clean_field_def)

lemma list_fields_join:
  assumes "\<forall>f\<in>set fs. clean_field f"
  shows "list_fields (join_fields fs) = fs"
proof (cases fs)
  case (Cons g gs)
  have id: "filter (\<lambda>b. b \<noteq> 0x5c) (join_fields fs) = join_fields fs"
    using assms unfolding filter_id_conv by (auto simp: join_fields_def clean_field_def Cons)
  have "split_on 0x2c (h @ concat (map (\<lambda>f. 0x2c # f) hs)) = h # hs"
    if "clean_field h" "\<forall>f\<in>set hs. clean_field f" for h hs
    using that
  proof (induction hs arbitrary: h)
    case (Cons x xs)
    then show ?case by (simp add: split_on_append clean_field_def)
  qed (simp add: split_on_none clean_field_def)
  with assms have "split_on 0x2c (join_fields fs) = fs" by (simp add: join_fields_def Cons)
  with id assms show ?thesis
    by (auto simp: list_fields_def clean_field_def intro: takeWhile_eq_all_conv [THEN iffD2])
qed (simp add: list_fields_def join_fields_def)

section \<open>Adding keeps the list\<close>

text \<open>
  The realm does not look like the list's syntax, and where one of two realms is a string suffix of the
  other, it is a parent domain.
\<close>

definition plain_realm :: "bytes \<Rightarrow> bool" where
  "plain_realm r \<longleftrightarrow> clean_field r \<and> hd r \<noteq> 0x20 \<and> hd r \<noteq> 0x2f \<and> last r \<noteq> 0x2e"

definition boundary :: "bytes \<Rightarrow> bytes \<Rightarrow> bool" where
  "boundary r e \<longleftrightarrow> e = [] \<or> length r \<le> length e \<or> \<not> ends_with e r \<or> r ! (length r - length e - 1) = 0x2e"

definition separated :: "bytes \<Rightarrow> bytes \<Rightarrow> bool" where
  "separated realm e \<longleftrightarrow> boundary realm e \<and> boundary e realm \<and> \<not> first_is 0x20 e"

lemma subrealm_domain:
  assumes "subrealm a b \<noteq> 0" "\<not> first_is 0x2f a \<or> \<not> first_is 0x2f b"
  shows "\<not> first_is 0x2f a" "\<not> first_is 0x2f b" "length a < length b" "ends_with a b"
    "subrealm a b = int (length b - length a)" "0 < subrealm a b"
  using assms by (auto simp: subrealm_def Let_def split: if_splits)

lemma piece_exp:
  assumes "length e < length r" "ends_with e r" "boundary r e" "hd r \<noteq> 0x20" "hd r \<noteq> 0x2f" "e = [] \<Longrightarrow> last r \<noteq> 0x2e"
  shows "field_exp e (take (length r - length e) r) = r"
proof -
  let ?p = "take (length r - length e) r"
  have ne: "?p \<noteq> []" using assms(1) by auto
  have app: "?p @ e = r" using assms(2) by (metis append_take_drop_id ends_with_def)
  have hd: "hd ?p = hd r" using assms(1) by (simp add: hd_take)
  show ?thesis
  proof (cases "e = []")
    case True
    with assms show ?thesis by (auto simp: field_exp_def last_is_def)
  next
    case False
    have "last ?p = r ! (length r - length e - 1)" using ne assms(1) by (simp add: last_conv_nth)
    with False assms(1-3) have "last_is 0x2e ?p" using ne by (auto simp: boundary_def last_is_def)
    with app hd assms(4,5) show ?thesis by (simp add: field_exp_def)
  qed
qed

lemma field_exp_chars:
  "0x2c \<notin> set prev \<Longrightarrow> 0x5c \<notin> set prev \<Longrightarrow> clean_field f \<Longrightarrow> 0x2c \<notin> set (field_exp prev f) \<and> 0x5c \<notin> set (field_exp prev f)"
  by (cases f) (auto simp: field_exp_def clean_field_def)

text \<open>What one step prints: the field, or two fields among which is the realm.\<close>

lemma merge_realm_fields:
  assumes "merge_realm realm prev cur exp nxt = Inr (out, added)" "plain_realm realm" "clean_field cur"
    and "exp = field_exp prev cur" "0x2c \<notin> set exp" "0x5c \<notin> set exp" "separated realm exp" "boundary realm prev"
  shows "(\<not> added \<and> out = cur) \<or>
    (added \<and> (\<exists>f. out = cur @ 0x2c # f \<and> clean_field f \<and> field_exp exp f = realm) \<and>
       \<not> last_is 0x2e nxt \<and> \<not> first_is 0x2f nxt) \<or>
    (added \<and> (\<exists>f g. out = f @ 0x2c # g \<and> clean_field f \<and> clean_field g \<and> field_exp prev f = realm \<and>
       field_exp realm g = exp))"
proof -
  have r: "\<not> first_is 0x2f realm" "hd realm \<noteq> 0x20" "hd realm \<noteq> 0x2f" "last realm \<noteq> 0x2e" "clean_field realm"
    using assms(2) by (auto simp: plain_realm_def first_is_def)
  have clean: "clean_field (take (length b - length a) b)" if "length a < length b" "0x2c \<notin> set b" "0x5c \<notin> set b" for a b :: bytes
    using that by (auto simp: clean_field_def dest: in_set_takeD)
  have piece: "append_piece x b (subrealm a b) = x @ take (length b - length a) b"
    if "subrealm a b \<noteq> 0" "\<not> first_is 0x2f a \<or> \<not> first_is 0x2f b" for x a b
    using subrealm_domain [OF that] by (simp add: append_piece_def Let_def nat_diff_distrib)
  let ?ok = "\<not> last_is 0x2e nxt \<and> \<not> first_is 0x2f nxt"
  show ?thesis
  proof (cases "?ok \<and> subrealm exp realm \<noteq> 0")
    case True
    then have s: "subrealm exp realm \<noteq> 0" by simp
    note d = subrealm_domain [OF s]
    have "out = cur @ 0x2c # take (length realm - length exp) realm" "added"
      using assms(1) True r(1) piece [OF s] by (auto simp: merge_realm_def Let_def last_is_def split: if_splits)
    moreover have "field_exp exp (take (length realm - length exp) realm) = realm"
      using d r assms(7) by (intro piece_exp) (auto simp: separated_def)
    moreover have "clean_field (take (length realm - length exp) realm)"
      using d r by (intro clean) (auto simp: clean_field_def)
    ultimately show ?thesis using True by blast
  next
    case F: False
    show ?thesis
    proof (cases "subrealm realm exp = 0")
      case True
      with F assms(1) show ?thesis
        by (auto simp: merge_realm_def Let_def last_is_def split: if_splits)
    next
      case s: False
      note d = subrealm_domain [OF s]
      let ?g = "take (length exp - length realm) exp"
      let ?f = "if subrealm prev realm \<noteq> 0 then take (length realm - length prev) realm else realm"
      have "out = ?f @ 0x2c # ?g" "added"
        using assms(1) s r(1) F piece [OF s] piece [of prev realm]
        by (auto simp: merge_realm_def Let_def last_is_def rbind_eq_Inr split: if_splits)
      moreover have "field_exp realm ?g = exp"
        using d r assms(7) by (intro piece_exp) (auto simp: separated_def first_is_def clean_field_def)
      moreover have "field_exp prev ?f = realm"
      proof (cases "subrealm prev realm = 0")
        case True
        with r show ?thesis by (auto simp: field_exp_def last_is_def)
      next
        case False
        with subrealm_domain [OF False] r assms(8) show ?thesis by (simp add: piece_exp)
      qed
      moreover have "clean_field ?g" using d r assms(5,6) by (intro clean) auto
      moreover have "clean_field ?f"
        using r subrealm_domain [of prev realm] clean [of prev realm] by (auto simp: clean_field_def)
      ultimately show ?thesis by blast
    qed
  qed
qed

text \<open>
  The loop's invariant. The text written so far is the fields \<open>fs\<close>; they stand for all the realms read so far,
  and for the new one once it is added; the realm before the next field is \<open>prev\<close>, or the next field does not
  depend on it.
\<close>

definition add_inv :: "bytes \<Rightarrow> bool \<Rightarrow> bytes list \<Rightarrow> bytes list \<Rightarrow> bytes \<Rightarrow> bytes \<Rightarrow> bool \<Rightarrow> bytes \<Rightarrow> bool" where
  "add_inv realm owner olds fs prev cur added t \<longleftrightarrow>
     t = join_fields fs \<and> (\<forall>f\<in>set fs. clean_field f) \<and> set olds \<subseteq> set (exps [] fs) \<and>
     (last_exp fs = prev \<or> added \<and> \<not> last_is 0x2e cur \<and> \<not> first_is 0x2f cur) \<and>
     (added \<longrightarrow> owner \<or> realm \<in> set (exps [] fs))"

lemma push_field_join:
  assumes "push_field bufsize (join_fields fs) out = Inr t'" "\<forall>f\<in>set fs. clean_field f"
    and "out = join_fields gs" "gs \<noteq> []" "\<forall>g\<in>set gs. clean_field g"
  shows "t' = join_fields (fs @ gs)"
proof -
  have gs: "concat (map (\<lambda>f. 0x2c # f) gs) = 0x2c # join_fields gs"
    using assms(4) by (cases gs) (simp_all add: join_fields_def)
  have "t' = (if fs = [] then join_fields gs else join_fields fs @ 0x2c # join_fields gs)"
    using assms(1) join_Nil_iff [OF assms(2)] unfolding assms(3)
    by (auto simp: push_field_def strlcat_def join_fields_def [of "[]"] split: if_splits)
  then show ?thesis by (simp add: join_append gs)
qed

lemma add_inv_step:
  assumes "add_inv realm owner olds fs prev cur added t" "clean_field cur" "exp = field_exp prev cur"
    and "0x2c \<notin> set exp" "0x5c \<notin> set exp" "separated realm exp" "boundary realm prev" "plain_realm realm"
    and "(if added \<or> exp = realm then Inr (cur, True) else merge_realm realm prev cur exp nxt) = Inr (out, added')"
    and "push_field bufsize t out = Inr t'"
  shows "\<exists>fs'. add_inv realm owner (olds @ [exp]) fs' exp nxt added' t'"
proof -
  have I: "t = join_fields fs" "\<forall>f\<in>set fs. clean_field f" "set olds \<subseteq> set (exps [] fs)"
    "added \<Longrightarrow> owner \<or> realm \<in> set (exps [] fs)" "\<not> added \<Longrightarrow> last_exp fs = prev"
    using assms(1) by (auto simp: add_inv_def)
  have e: "field_exp (last_exp fs) cur = exp"
  proof (cases "last_exp fs = prev")
    case False
    with assms(1) have "\<not> last_is 0x2e cur" "\<not> first_is 0x2f cur" by (auto simp: add_inv_def)
    then show ?thesis using assms(2,3) by (auto simp: field_exp_def first_is_def clean_field_def)
  qed (simp add: assms(3))
  have sub: "set (olds @ [exp]) \<subseteq> set (exps [] (fs @ gs))" if "exp \<in> set (exps (last_exp fs) gs)" for gs
    using I(3) that by (auto simp: exps_snoc)
  consider (keep) "out = cur" "added' \<longrightarrow> added \<or> exp = realm"
    | (below) f where "\<not> added" "added'" "out = cur @ 0x2c # f" "clean_field f" "field_exp exp f = realm"
        "\<not> last_is 0x2e nxt" "\<not> first_is 0x2f nxt"
    | (above) f g where "\<not> added" "added'" "out = f @ 0x2c # g" "clean_field f" "clean_field g" "field_exp prev f = realm"
        "field_exp realm g = exp"
    using assms(9) merge_realm_fields [of realm prev cur exp nxt out added'] assms(2-8)
    by (auto split: if_splits)
  then show ?thesis
  proof cases
    case keep
    have "t' = join_fields (fs @ [cur])"
      using push_field_join [of bufsize fs out t' "[cur]"] assms(2,10) I(1,2) keep(1) by (simp add: join_fields_def)
    with keep I e assms(2) sub [of "[cur]"] show ?thesis
      by (intro exI [of _ "fs @ [cur]"]) (auto simp: add_inv_def exps_snoc)
  next
    case below
    have "t' = join_fields (fs @ [cur, f])"
      using push_field_join [of bufsize fs out t' "[cur, f]"] assms(2,10) I(1,2) below(3,4) by (simp add: join_fields_def)
    with below I e assms(2) sub [of "[cur, f]"] show ?thesis
      by (intro exI [of _ "fs @ [cur, f]"]) (auto simp: add_inv_def exps_snoc)
  next
    case above
    have "t' = join_fields (fs @ [f, g])"
      using push_field_join [of bufsize fs out t' "[f, g]"] assms(10) I(1,2) above(3-5) by (simp add: join_fields_def)
    moreover have "last_exp (fs @ [f, g]) = exp"
      using above I(5) by (simp add: last_exp_def exps_append)
    ultimately show ?thesis
      using above I sub [of "[f, g]"]
      by (intro exI [of _ "fs @ [f, g]"]) (auto simp: add_inv_def exps_snoc)
  qed
qed

lemma add_loop_stepE:
  assumes "add_loop bufsize realm rest prev (c # cs) added t = Inr r"
  obtains exp nxt rest' out add1 t1 where
    "expand_field prev (c # cs) = Inr exp" "read_field rest = Inr (nxt, rest')"
    "(if added \<or> exp = realm then Inr (c # cs, True) else merge_realm realm prev (c # cs) exp nxt) = Inr (out, add1)"
    "push_field bufsize t out = Inr t1" "add_loop bufsize realm rest' exp nxt add1 t1 = Inr r"
proof -
  from assms obtain exp where e: "expand_field prev (c # cs) = Inr exp"
    by (cases "expand_field prev (c # cs)") auto
  moreover from assms e obtain nxt rest' where rf: "read_field rest = Inr (nxt, rest')"
    by (cases "read_field rest") auto
  moreover from assms e rf obtain out add1 where
    st: "(if added \<or> exp = realm then Inr (c # cs, True) else merge_realm realm prev (c # cs) exp nxt) = Inr (out, add1)"
    by (cases "if added \<or> exp = realm then Inr (c # cs, True) else merge_realm realm prev (c # cs) exp nxt") auto
  moreover from assms e rf st obtain t1 where pf: "push_field bufsize t out = Inr t1"
    by (cases "push_field bufsize t out") (auto split: if_splits)
  moreover from assms e rf st pf have "add_loop bufsize realm rest' exp nxt add1 t1 = Inr r"
    by (simp split: if_splits)
  ultimately show ?thesis by (rule that)
qed

lemma add_loop_inv:
  assumes "add_loop bufsize realm rest prev cur added t = Inr (added', t')"
    and "add_inv realm owner olds fs prev cur added t" "plain_realm realm"
    and "cur \<noteq> [] \<Longrightarrow> clean_field cur" "0x2c \<notin> set prev" "0x5c \<notin> set prev" "boundary realm prev"
    and "\<forall>e\<in>set (exps prev (if cur = [] then [] else cur # list_fields rest)). separated realm e"
  shows "\<exists>fs'. t' = join_fields fs' \<and> (\<forall>f\<in>set fs'. clean_field f) \<and>
    set olds \<union> set (exps prev (if cur = [] then [] else cur # list_fields rest)) \<subseteq> set (exps [] fs') \<and>
    (added' \<longrightarrow> owner \<or> realm \<in> set (exps [] fs'))"
  using assms
proof (induction bufsize realm rest prev cur added t arbitrary: olds fs rule: add_loop.induct)
  case (1 bufsize realm rest prev added t)
  then show ?case by (auto simp: add_inv_def)
next
  case (2 bufsize realm rest prev c cs added t)
  let ?cur = "c # cs"
  let ?exp = "field_exp prev ?cur"
  obtain exp nxt rest' out add1 t1 where
    e: "expand_field prev ?cur = Inr exp" and rf: "read_field rest = Inr (nxt, rest')"
    and st: "(if added \<or> exp = realm then Inr (?cur, True) else merge_realm realm prev ?cur exp nxt) = Inr (out, add1)"
    and pf: "push_field bufsize t out = Inr t1"
    and go: "add_loop bufsize realm rest' exp nxt add1 t1 = Inr (added', t')"
    using 2(2) by (rule add_loop_stepE)
  have ex: "exp = ?exp" using e by (rule expand_field_exp)
  have cl: "clean_field ?cur" using 2(5) by simp
  have ch: "0x2c \<notin> set exp" "0x5c \<notin> set exp" using field_exp_chars [OF 2(6,7) cl] by (simp_all add: ex)
  have sep: "separated realm exp" using 2(9) by (simp add: ex)
  obtain fs' where inv: "add_inv realm owner (olds @ [exp]) fs' exp nxt add1 t1"
    using add_inv_step [OF 2(3) cl ex ch sep 2(8) 2(4) st pf] by blast
  have lf: "list_fields rest = (if nxt = [] then [] else nxt # list_fields rest')" "nxt \<noteq> [] \<Longrightarrow> clean_field nxt"
    using read_field_fields [OF rf] by auto
  have seps: "\<forall>e\<in>set (exps exp (if nxt = [] then [] else nxt # list_fields rest')). separated realm e"
    using 2(9) by (simp add: ex lf(1))
  have b: "boundary realm exp" using sep by (simp add: separated_def)
  from 2(1) [OF e rf refl st refl pf go inv 2(4) lf(2) ch b seps]
  show ?case by (auto simp: ex lf(1))
qed

section \<open>Properties\<close>


text \<open>
  C28: the realm walk is a path. Between two different realms \<open>walk_realm_tree\<close> gives a chain of hops that starts
  in the client realm, each issued by the realm the one before is for, and ends with a ticket for the
  server realm; without configured paths every realm on it is the client's or the server's domain or a parent
  domain of one of them.
\<close>

theorem walk_realm_tree_path:
  assumes "client \<noteq> []" "server \<noteq> []" "client \<noteq> server"
  shows "case walk_realm_tree client server capaths sep of
      Inl _ \<Rightarrow> False
    | Inr tree \<Rightarrow> realm_path client server tree \<and>
        (capaths = None \<longrightarrow>
          list_all (\<lambda>h. ancestor sep client (hop_realm h) \<or> ancestor sep server (hop_realm h)) tree)"
proof -
  have "realm_path client server (capath_tree client server vals)" for vals
    by (simp add: realm_path_def capath_tree_def capath_links_linked)
  with assms hier_tree_path [OF assms(1,2), of sep] show ?thesis
    by (auto simp: walk_realm_tree_def Let_def list_all_iff)
qed

theorem walk_realm_tree_path_witness:
  "\<exists>tree. walk_realm_tree (ascii ''A.EX'') (ascii ''B.EX'') None 0x2e = Inr tree \<and>
     realm_path (ascii ''A.EX'') (ascii ''B.EX'') tree"
  using walk_realm_tree_path [of "ascii ''A.EX''" "ascii ''B.EX''" None "0x2e"]
  by (auto simp: ascii_def split: sum.splits)



text \<open>
  a realm whose name merely ends with the name of a listed realm is recorded as a different realm. With
  \<open>EDU\<close> listed, adding \<open>XEDU\<close> writes the field \<open>X\<close>, which every reader takes for the realm \<open>X\<close>; \<open>XEDU\<close>
  is not in the result, and the transit check of the next realm never sees it.
\<close>

theorem add_to_transited_suffix_lost:
  "add_to_transited (ascii ''EDU'') (ascii ''XEDU'') (ascii ''A'') (ascii ''B'') = Inr (ascii ''EDU,X'') \<and>
   decode_transited (ascii ''A'') (ascii ''B'') (ascii ''EDU,X'') = Inr [ascii ''EDU'', ascii ''X''] \<and>
   listed_realms (ascii ''EDU,X'') = [ascii ''EDU'', ascii ''X'']"
  by (intro conjI; code_simp)

end
