(* ===== verification/Ccache_Marshal.thy ===== *)
theory Ccache_Marshal
  imports Krb_Types Utf8
begin

text \<open>
  Credential cache records (\<open>ccache/marshal.rs\<close> and the types of \<open>ccache/mod.rs\<close>): principals, keys,
  addresses, authorization data and whole credentials in the formats of versions 1 to 4.

  \<open>le\<close> is the byte order of the target machine, which versions 1 and 2 use; \<open>gs\<close> are the strings
  \<open>GeneralString::from_bytes\<close> accepts. A reader returns its value and the unread rest.
\<close>

record HostAddress =
  addr_type :: int
  address :: bytes

record AuthorizationDataElement =
  ad_type :: int
  ad_data :: bytes

record CcCredential =
  cc_client :: PrincipalName
  cc_crealm :: bytes
  cc_server :: PrincipalName
  cc_srealm :: bytes
  cc_keyblock :: EncryptionKey
  cc_authtime :: u32
  cc_starttime :: u32
  cc_endtime :: u32
  cc_renew_till :: u32
  cc_is_skey :: bool
  cc_ticket_flags :: u32
  cc_addresses :: "HostAddress list"
  cc_authdata :: "AuthorizationDataElement list"
  cc_ticket :: bytes
  cc_second_ticket :: bytes

datatype CcError =
  Cc_Format | Cc_BadVno | Cc_End | Cc_NotFound | Cc_NotKtype | Cc_Io | Cc_BadName string | Cc_UnknownType
| Cc_NoFile string | Cc_CannotCreate string | Cc_Code string string

section \<open>Writing\<close>

definition w_i16 :: "bool \<Rightarrow> u8 \<Rightarrow> int \<Rightarrow> bytes" where
  "w_i16 le version v =
     (if version \<ge> 3 \<or> \<not> le then be16 (word_of_int v) else le16 (word_of_int v))"

definition w_u32 :: "bool \<Rightarrow> u8 \<Rightarrow> u32 \<Rightarrow> bytes" where
  "w_u32 le version v = (if version \<ge> 3 \<or> \<not> le then be32 v else le32 v)"

definition w_i32 :: "bool \<Rightarrow> u8 \<Rightarrow> int \<Rightarrow> bytes" where
  "w_i32 le version v = w_u32 le version (word_of_int v)"

definition w_data :: "bool \<Rightarrow> u8 \<Rightarrow> bytes \<Rightarrow> bytes" where
  "w_data le version v = w_i32 le version (int (length v)) @ v"

definition marshal_princ :: "bool \<Rightarrow> u8 \<Rightarrow> PrincipalName \<Rightarrow> bytes \<Rightarrow> bytes" where
  "marshal_princ le version p realm =
     (if version = 1 then w_i32 le version (int (length (name_string p)) + 1)
      else w_i32 le version (name_type p) @ w_i32 le version (int (length (name_string p)))) @
     w_data le version realm @ concat (map (w_data le version) (name_string p))"

definition marshal_keyblock :: "bool \<Rightarrow> u8 \<Rightarrow> EncryptionKey \<Rightarrow> bytes" where
  "marshal_keyblock le version k =
     w_i16 le version (keytype k) @ (if version = 3 then w_i16 le version (keytype k) else []) @
     w_i32 le version (int (length (key_bytes k))) @ key_bytes k"

definition marshal_addr :: "bool \<Rightarrow> u8 \<Rightarrow> HostAddress \<Rightarrow> bytes" where
  "marshal_addr le version a = w_i16 le version (addr_type a) @ w_data le version (address a)"

definition marshal_addrs :: "bool \<Rightarrow> u8 \<Rightarrow> HostAddress list \<Rightarrow> bytes" where
  "marshal_addrs le version addrs =
     w_i32 le version (int (length addrs)) @ concat (map (marshal_addr le version) addrs)"

definition marshal_ad :: "bool \<Rightarrow> u8 \<Rightarrow> AuthorizationDataElement \<Rightarrow> bytes" where
  "marshal_ad le version a = w_i16 le version (ad_type a) @ w_data le version (ad_data a)"

definition marshal_authdata :: "bool \<Rightarrow> u8 \<Rightarrow> AuthorizationDataElement list \<Rightarrow> bytes" where
  "marshal_authdata le version ad =
     w_i32 le version (int (length ad)) @ concat (map (marshal_ad le version) ad)"

definition marshal_cred :: "bool \<Rightarrow> u8 \<Rightarrow> CcCredential \<Rightarrow> bytes" where
  "marshal_cred le version c =
     marshal_princ le version (cc_client c) (cc_crealm c) @
     marshal_princ le version (cc_server c) (cc_srealm c) @
     marshal_keyblock le version (cc_keyblock c) @
     w_u32 le version (cc_authtime c) @ w_u32 le version (cc_starttime c) @
     w_u32 le version (cc_endtime c) @ w_u32 le version (cc_renew_till c) @
     [if cc_is_skey c then 1 else 0] @ w_u32 le version (cc_ticket_flags c) @
     marshal_addrs le version (cc_addresses c) @ marshal_authdata le version (cc_authdata c) @
     w_data le version (cc_ticket c) @ w_data le version (cc_second_ticket c)"

section \<open>Reading\<close>

definition r_i16 :: "bool \<Rightarrow> u8 \<Rightarrow> bytes \<Rightarrow> CcError + int \<times> bytes" where
  "r_i16 le version s = rbind (rd_take Cc_Format 2 s) (\<lambda>(b, s).
     Inr (sint (if version \<ge> 3 \<or> \<not> le then of_be16 b else of_le16 b), s))"

definition r_u32 :: "bool \<Rightarrow> u8 \<Rightarrow> bytes \<Rightarrow> CcError + u32 \<times> bytes" where
  "r_u32 le version s = rbind (rd_take Cc_Format 4 s) (\<lambda>(b, s).
     Inr (if version \<ge> 3 \<or> \<not> le then of_be32 b else of_le32 b, s))"

definition r_i32 :: "bool \<Rightarrow> u8 \<Rightarrow> bytes \<Rightarrow> CcError + int \<times> bytes" where
  "r_i32 le version s = rbind (r_u32 le version s) (\<lambda>(w, s). Inr (sint w, s))"

definition r_data :: "bool \<Rightarrow> u8 \<Rightarrow> bytes \<Rightarrow> CcError + bytes \<times> bytes" where
  "r_data le version s = rbind (r_i32 le version s) (\<lambda>(len, s).
     if len < 0 then Inl Cc_Format else rd_take Cc_Format (nat len) s)"

definition r_gs :: "bool \<Rightarrow> (bytes \<Rightarrow> bool) \<Rightarrow> u8 \<Rightarrow> bytes \<Rightarrow> CcError + bytes \<times> bytes" where
  "r_gs le gs version s = rbind (r_data le version s) (\<lambda>(b, s). if gs b then Inr (b, s) else Inl Cc_Format)"

definition unmarshal_princ_r ::
  "bool \<Rightarrow> (bytes \<Rightarrow> bool) \<Rightarrow> u8 \<Rightarrow> bytes \<Rightarrow> CcError + (PrincipalName \<times> bytes) \<times> bytes" where
  "unmarshal_princ_r le gs version s =
     rbind (if version = 1 then rbind (r_i32 le version s) (\<lambda>(n, s). Inr (0, n, s))
            else rbind (r_i32 le version s) (\<lambda>(t, s). rbind (r_i32 le version s) (\<lambda>(n, s). Inr (t, n, s))))
     (\<lambda>(ntype, ncomps, s).
     if ncomps < 0 \<or> nat ncomps > length s then Inl Cc_Format
     else rbind (r_data le version s) (\<lambda>(rb, s).
       rbind (rd_n (r_gs le gs version) (nat (if version = 1 then ncomps - 1 else ncomps)) s) (\<lambda>(comps, s).
       Inr ((\<lparr>name_type = ntype, name_string = comps\<rparr>, from_utf8_lossy rb), s))))"

definition unmarshal_princ_len ::
  "bool \<Rightarrow> (bytes \<Rightarrow> bool) \<Rightarrow> bytes \<Rightarrow> u8 \<Rightarrow> CcError + PrincipalName \<times> bytes \<times> nat" where
  "unmarshal_princ_len le gs data version =
     rbind (unmarshal_princ_r le gs version data) (\<lambda>((p, realm), s). Inr (p, realm, length data - length s))"

definition unmarshal_princ :: "bool \<Rightarrow> (bytes \<Rightarrow> bool) \<Rightarrow> bytes \<Rightarrow> u8 \<Rightarrow> CcError + PrincipalName \<times> bytes" where
  "unmarshal_princ le gs data version =
     rbind (unmarshal_princ_len le gs data version) (\<lambda>(p, realm, _). Inr (p, realm))"

definition unmarshal_keyblock :: "bool \<Rightarrow> u8 \<Rightarrow> bytes \<Rightarrow> CcError + EncryptionKey \<times> bytes" where
  "unmarshal_keyblock le version s =
     rbind (r_i16 le version s) (\<lambda>(etype, s).
     rbind (if version = 3 then rbind (r_i16 le version s) (\<lambda>(_, s). Inr s) else Inr s) (\<lambda>s.
     rbind (r_i32 le version s) (\<lambda>(len, s).
     if len < 0 then Inl Cc_Format
     else rbind (rd_take Cc_Format (nat len) s) (\<lambda>(key, s). Inr (\<lparr>keytype = etype, key_bytes = key\<rparr>, s)))))"

definition unmarshal_addr :: "bool \<Rightarrow> u8 \<Rightarrow> bytes \<Rightarrow> CcError + HostAddress \<times> bytes" where
  "unmarshal_addr le version s =
     rbind (r_i16 le version s) (\<lambda>(t, s).
     rbind (r_i32 le version s) (\<lambda>(len, s).
     if len < 0 then Inl Cc_Format
     else rbind (rd_take Cc_Format (nat len) s) (\<lambda>(a, s). Inr (\<lparr>addr_type = t, address = a\<rparr>, s))))"

definition unmarshal_addrs :: "bool \<Rightarrow> u8 \<Rightarrow> bytes \<Rightarrow> CcError + HostAddress list \<times> bytes" where
  "unmarshal_addrs le version s =
     rbind (r_i32 le version s) (\<lambda>(count, s).
     if count < 0 \<or> nat count > length s then Inl Cc_Format
     else rd_n (unmarshal_addr le version) (nat count) s)"

definition unmarshal_ad :: "bool \<Rightarrow> u8 \<Rightarrow> bytes \<Rightarrow> CcError + AuthorizationDataElement \<times> bytes" where
  "unmarshal_ad le version s =
     rbind (r_i16 le version s) (\<lambda>(t, s).
     rbind (r_i32 le version s) (\<lambda>(len, s).
     if len < 0 then Inl Cc_Format
     else rbind (rd_take Cc_Format (nat len) s) (\<lambda>(a, s). Inr (\<lparr>ad_type = t, ad_data = a\<rparr>, s))))"

definition unmarshal_authdata :: "bool \<Rightarrow> u8 \<Rightarrow> bytes \<Rightarrow> CcError + AuthorizationDataElement list \<times> bytes" where
  "unmarshal_authdata le version s =
     rbind (r_i32 le version s) (\<lambda>(count, s).
     if count < 0 \<or> nat count > length s then Inl Cc_Format
     else rd_n (unmarshal_ad le version) (nat count) s)"

definition unmarshal_cred_r ::
  "bool \<Rightarrow> (bytes \<Rightarrow> bool) \<Rightarrow> u8 \<Rightarrow> bytes \<Rightarrow> CcError + CcCredential \<times> bytes" where
  "unmarshal_cred_r le gs version s =
     rbind (unmarshal_princ_r le gs version s) (\<lambda>((client, crealm), s).
     rbind (unmarshal_princ_r le gs version s) (\<lambda>((server, srealm), s).
     rbind (unmarshal_keyblock le version s) (\<lambda>(keyblock, s).
     rbind (r_u32 le version s) (\<lambda>(authtime, s).
     rbind (r_u32 le version s) (\<lambda>(starttime, s).
     rbind (r_u32 le version s) (\<lambda>(endtime, s).
     rbind (r_u32 le version s) (\<lambda>(renew_till, s).
     rbind (rd_take Cc_Format 1 s) (\<lambda>(skey, s).
     rbind (r_u32 le version s) (\<lambda>(flags, s).
     rbind (unmarshal_addrs le version s) (\<lambda>(addresses, s).
     rbind (unmarshal_authdata le version s) (\<lambda>(authdata, s).
     rbind (r_data le version s) (\<lambda>(ticket, s).
     rbind (r_data le version s) (\<lambda>(second_ticket, s).
     Inr (\<lparr>cc_client = client, cc_crealm = crealm, cc_server = server, cc_srealm = srealm,
           cc_keyblock = keyblock, cc_authtime = authtime, cc_starttime = starttime, cc_endtime = endtime,
           cc_renew_till = renew_till, cc_is_skey = (skey ! 0 \<noteq> 0), cc_ticket_flags = flags,
           cc_addresses = addresses, cc_authdata = authdata, cc_ticket = ticket,
           cc_second_ticket = second_ticket\<rparr>, s))))))))))))))"

definition unmarshal_cred_len ::
  "bool \<Rightarrow> (bytes \<Rightarrow> bool) \<Rightarrow> bytes \<Rightarrow> u8 \<Rightarrow> CcError + CcCredential \<times> nat" where
  "unmarshal_cred_len le gs data version =
     rbind (unmarshal_cred_r le gs version data) (\<lambda>(c, s). Inr (c, length data - length s))"

definition unmarshal_cred :: "bool \<Rightarrow> (bytes \<Rightarrow> bool) \<Rightarrow> bytes \<Rightarrow> u8 \<Rightarrow> CcError + CcCredential" where
  "unmarshal_cred le gs data version = rbind (unmarshal_cred_len le gs data version) (\<lambda>(c, _). Inr c)"

section \<open>Well-formed records\<close>

definition in_i16 :: "int \<Rightarrow> bool" where
  "in_i16 x \<longleftrightarrow> - (2 ^ 15) \<le> x \<and> x < 2 ^ 15"

definition short :: "'a list \<Rightarrow> bool" where
  "short xs \<longleftrightarrow> length xs < 2 ^ 31 - 1"

definition wf_princ :: "(bytes \<Rightarrow> bool) \<Rightarrow> u8 \<Rightarrow> PrincipalName \<times> bytes \<Rightarrow> bool" where
  "wf_princ gs version pr \<longleftrightarrow> (case pr of (p, realm) \<Rightarrow>
     in_i32 (name_type p) \<and> (version = 1 \<longrightarrow> name_type p = 0) \<and> short (name_string p) \<and>
     list_all (\<lambda>c. short c \<and> gs c) (name_string p) \<and> short realm \<and> valid_utf8 realm)"

definition wf_key :: "EncryptionKey \<Rightarrow> bool" where
  "wf_key k \<longleftrightarrow> in_i16 (keytype k) \<and> short (key_bytes k)"

definition wf_addr :: "HostAddress \<Rightarrow> bool" where
  "wf_addr a \<longleftrightarrow> in_i16 (addr_type a) \<and> short (address a)"

definition wf_ad :: "AuthorizationDataElement \<Rightarrow> bool" where
  "wf_ad a \<longleftrightarrow> in_i16 (ad_type a) \<and> short (ad_data a)"

definition wf_cred :: "(bytes \<Rightarrow> bool) \<Rightarrow> u8 \<Rightarrow> CcCredential \<Rightarrow> bool" where
  "wf_cred gs version c \<longleftrightarrow>
     wf_princ gs version (cc_client c, cc_crealm c) \<and> wf_princ gs version (cc_server c, cc_srealm c) \<and>
     wf_key (cc_keyblock c) \<and> short (cc_addresses c) \<and> list_all wf_addr (cc_addresses c) \<and>
     short (cc_authdata c) \<and> list_all wf_ad (cc_authdata c) \<and> short (cc_ticket c) \<and> short (cc_second_ticket c)"

lemma short_i32: "short xs \<Longrightarrow> in_i32 (int (length xs))" "short xs \<Longrightarrow> in_i32 (int (length xs) + 1)"
  by (simp_all add: short_def in_i32_def i32_min_def i32_max_def)

section \<open>The records as codecs\<close>

interpretation cc_u32: codec "w_u32 le version" "r_u32 le version" "\<lambda>_. True" for le version
  by unfold_locales (simp add: w_u32_def r_u32_def)

interpretation cc_i32: codec "w_i32 le version" "r_i32 le version" in_i32 for le version
  by unfold_locales (simp add: w_i32_def r_i32_def cc_u32.dec_enc in_i32_def sint_word_of_int32)

interpretation cc_i16: codec "w_i16 le version" "r_i16 le version" in_i16 for le version
  by unfold_locales (simp add: w_i16_def r_i16_def in_i16_def sint_word_of_int16)

interpretation cc_data: codec "w_data le version" "r_data le version" short for le version
  by unfold_locales (simp add: w_data_def r_data_def cc_i32.dec_enc short_i32)

interpretation cc_gs: codec "w_data le version" "r_gs le gs version" "\<lambda>c. short c \<and> gs c" for le gs version
  by unfold_locales (simp add: r_gs_def cc_data.dec_enc)

lemma r_i32_len: "short b \<Longrightarrow> r_i32 le version (w_i32 le version (int (length b)) @ s) = Inr (int (length b), s)"
  by (rule cc_i32.dec_enc) (rule short_i32)

interpretation cc_addr: codec "marshal_addr le version" "unmarshal_addr le version" wf_addr for le version
  by unfold_locales
    (simp add: marshal_addr_def unmarshal_addr_def w_data_def wf_addr_def cc_i16.dec_enc r_i32_len)

interpretation cc_ad: codec "marshal_ad le version" "unmarshal_ad le version" wf_ad for le version
  by unfold_locales
    (simp add: marshal_ad_def unmarshal_ad_def w_data_def wf_ad_def cc_i16.dec_enc r_i32_len)

interpretation cc_key: codec "marshal_keyblock le version" "unmarshal_keyblock le version" wf_key for le version
  by unfold_locales
    (simp add: marshal_keyblock_def unmarshal_keyblock_def wf_key_def cc_i16.dec_enc r_i32_len)

text \<open>A counted list takes at least one byte an element, so the sanity checks of the counts pass.\<close>

lemma length_w_data: "length (w_data le version b) = 4 + length b"
  by (simp add: w_data_def w_i32_def w_u32_def)

lemma length_concat_ge:
  "(\<And>x. x \<in> set xs \<Longrightarrow> 1 \<le> length (f x)) \<Longrightarrow> length xs \<le> length (concat (map f xs))"
proof (induction xs)
  case (Cons x xs)
  then have "1 \<le> length (f x)" "length xs \<le> length (concat (map f xs))" by auto
  then show ?case by simp
qed simp

lemma length_concat_data: "length cs \<le> length (concat (map (w_data le version) cs))"
  by (rule length_concat_ge) (simp add: length_w_data)

interpretation cc_addrs: codec "marshal_addrs le version" "unmarshal_addrs le version"
  "\<lambda>as. short as \<and> list_all wf_addr as" for le version
proof
  fix "as" s assume "short as \<and> list_all wf_addr as"
  moreover have "length as \<le> length (concat (map (marshal_addr le version) as))"
    by (rule length_concat_ge) (simp add: marshal_addr_def length_w_data)
  ultimately show "unmarshal_addrs le version (marshal_addrs le version as @ s) = Inr (as, s)"
    by (simp add: marshal_addrs_def unmarshal_addrs_def r_i32_len cc_addr.rd_n_enc)
qed

interpretation cc_authdata: codec "marshal_authdata le version" "unmarshal_authdata le version"
  "\<lambda>as. short as \<and> list_all wf_ad as" for le version
proof
  fix "as" s assume "short as \<and> list_all wf_ad as"
  moreover have "length as \<le> length (concat (map (marshal_ad le version) as))"
    by (rule length_concat_ge) (simp add: marshal_ad_def length_w_data)
  ultimately show "unmarshal_authdata le version (marshal_authdata le version as @ s) = Inr (as, s)"
    by (simp add: marshal_authdata_def unmarshal_authdata_def r_i32_len cc_ad.rd_n_enc)
qed

interpretation cc_princ: codec "\<lambda>(p, realm). marshal_princ le version p realm" "unmarshal_princ_r le gs version"
  "wf_princ gs version" for le gs version
proof
  fix pr :: "PrincipalName \<times> bytes" and s
  assume wf: "wf_princ gs version pr"
  obtain p realm where pr: "pr = (p, realm)" by fastforce
  have f: "in_i32 (name_type p)" "version = 1 \<Longrightarrow> name_type p = 0" "short (name_string p)"
    "list_all (\<lambda>c. short c \<and> gs c) (name_string p)" "short realm" "valid_utf8 realm"
    using wf by (auto simp: wf_princ_def pr)
  have len: "length (name_string p) + 1 \<le>
      length (w_data le version realm @ concat (map (w_data le version) (name_string p)) @ s)"
    using length_concat_data [of "name_string p" le version] by (simp add: length_w_data)
  show "unmarshal_princ_r le gs version ((case pr of (p, realm) \<Rightarrow> marshal_princ le version p realm) @ s) = Inr (pr, s)"
    using f len by (cases "version = 1")
      (simp_all add: pr marshal_princ_def unmarshal_princ_r_def cc_i32.dec_enc short_i32 cc_data.dec_enc cc_gs.rd_n_enc')
qed

lemma princ_dec_enc:
  "wf_princ gs version (p, realm) \<Longrightarrow>
   unmarshal_princ_r le gs version (marshal_princ le version p realm @ s) = Inr ((p, realm), s)"
  using cc_princ.dec_enc [of gs version "(p, realm)" le s] by simp

interpretation cc_cred: codec "marshal_cred le version" "unmarshal_cred_r le gs version" "wf_cred gs version" for le gs version
proof
  fix c :: CcCredential and s
  assume wf: "wf_cred gs version c"
  have b: "rd_take Cc_Format (Suc 0) (b # s) = Inr ([b], s)" for b s by (simp add: rd_take_def)
  show "unmarshal_cred_r le gs version (marshal_cred le version c @ s) = Inr (c, s)"
    using wf unfolding wf_cred_def
    by (simp add: marshal_cred_def unmarshal_cred_r_def princ_dec_enc cc_key.dec_enc cc_u32.dec_enc b
        cc_addrs.dec_enc cc_authdata.dec_enc cc_data.dec_enc)
qed

section \<open>Properties\<close>

text \<open>
  C31: a credential survives the cache format. In every version, unmarshalling the bytes of a well-formed
  credential gives the credential back and reports exactly the bytes written as consumed, whatever follows
  them.
\<close>

theorem cred_marshal_roundtrip:
  assumes "wf_cred gs version c"
  shows "unmarshal_cred_len le gs (marshal_cred le version c @ rest) version =
    Inr (c, length (marshal_cred le version c))"
  by (simp add: unmarshal_cred_len_def cc_cred.dec_enc [OF assms])

definition example_cred :: CcCredential where
  "example_cred =
     \<lparr>cc_client = \<lparr>name_type = 0, name_string = [[0x61]]\<rparr>, cc_crealm = [0x52],
      cc_server = \<lparr>name_type = 0, name_string = [[0x62], [0x63]]\<rparr>, cc_srealm = [0x52],
      cc_keyblock = \<lparr>keytype = 18, key_bytes = [1, 2]\<rparr>, cc_authtime = 5, cc_starttime = 5, cc_endtime = 9,
      cc_renew_till = 0, cc_is_skey = False, cc_ticket_flags = 0x40000000,
      cc_addresses = [\<lparr>addr_type = 2, address = [127, 0, 0, 1]\<rparr>],
      cc_authdata = [\<lparr>ad_type = - 1, ad_data = [7]\<rparr>], cc_ticket = [0x30], cc_second_ticket = []\<rparr>"

theorem cred_marshal_roundtrip_witness:
  "unmarshal_cred_len True (\<lambda>_. True) (marshal_cred True 3 example_cred @ [9]) 3 =
     Inr (example_cred, length (marshal_cred True 3 example_cred))"
proof (rule cred_marshal_roundtrip)
  have "valid_utf8 [0x52]" by (rule valid_utf8_ascii) simp
  then show "wf_cred (\<lambda>_. True) 3 example_cred"
    by (simp add: wf_cred_def example_cred_def wf_princ_def wf_key_def wf_addr_def wf_ad_def short_def in_i16_def
        in_i32_def i32_min_def i32_max_def)
qed

end
