(* ===== verification/Ccache.thy ===== *)
theory Ccache
  imports Ccache_Marshal
begin

text \<open>
  Credential caches (\<open>ccache/mod.rs\<close>, \<open>retrieve.rs\<close>, \<open>memory.rs\<close>, \<open>file.rs\<close>): matching and retrieval,
  configuration entries, the MEMORY cache and the FILE cache. The file is \<open>bytes option\<close> (\<open>None\<close>: it does not
  exist); other I/O failures are outside the model. An operation returns its result and the cache.

  The interface \<open>ccache\<close> states what a cache promises of its list of credentials. What
  configuration entries promise is proved once from it, and holds for both caches.
\<close>

section \<open>Matching\<close>

definition tc_TIMES :: u32 where "tc_TIMES = 1"
definition tc_IS_SKEY :: u32 where "tc_IS_SKEY = 2"
definition tc_FLAGS :: u32 where "tc_FLAGS = 4"
definition tc_TIMES_EXACT :: u32 where "tc_TIMES_EXACT = 8"
definition tc_FLAGS_EXACT :: u32 where "tc_FLAGS_EXACT = 0x10"
definition tc_AUTHDATA :: u32 where "tc_AUTHDATA = 0x20"
definition tc_SRV_NAMEONLY :: u32 where "tc_SRV_NAMEONLY = 0x40"
definition tc_SECOND_TKT :: u32 where "tc_SECOND_TKT = 0x80"
definition tc_KTYPE :: u32 where "tc_KTYPE = 0x100"
definition tc_SUPPORTED_KTYPES :: u32 where "tc_SUPPORTED_KTYPES = 0x200"

lemmas tc_defs = tc_TIMES_def tc_IS_SKEY_def tc_FLAGS_def tc_TIMES_EXACT_def tc_FLAGS_EXACT_def tc_AUTHDATA_def
  tc_SRV_NAMEONLY_def tc_SECOND_TKT_def tc_KTYPE_def tc_SUPPORTED_KTYPES_def

record MatchCred =
  mc_client :: "(PrincipalName \<times> bytes) option"
  mc_server :: "(PrincipalName \<times> bytes) option"
  mc_etype :: int
  mc_authtime :: u32
  mc_starttime :: u32
  mc_endtime :: u32
  mc_renew_till :: u32
  mc_is_skey :: bool
  mc_ticket_flags :: u32
  mc_authdata :: "AuthorizationDataElement list option"
  mc_second_ticket :: "bytes option"

definition default_MatchCred :: MatchCred where
  "default_MatchCred =
     \<lparr>mc_client = None, mc_server = None, mc_etype = 0, mc_authtime = 0, mc_starttime = 0, mc_endtime = 0,
      mc_renew_till = 0, mc_is_skey = False, mc_ticket_flags = 0, mc_authdata = None, mc_second_ticket = None\<rparr>"

definition unwrap_or_default :: "'a list option \<Rightarrow> 'a list" where
  "unwrap_or_default x = (case x of None \<Rightarrow> [] | Some y \<Rightarrow> y)"

definition princ_eq :: "PrincipalName \<times> bytes \<Rightarrow> PrincipalName \<Rightarrow> bytes \<Rightarrow> bool" where
  "princ_eq p nm realm \<longleftrightarrow> snd p = realm \<and> name_string (fst p) = name_string nm"

definition creds_match_request :: "u32 \<Rightarrow> MatchCred \<Rightarrow> CcCredential \<Rightarrow> bool" where
  "creds_match_request flags m c =
     (if is_some_and (mc_client m) (\<lambda>client. \<not> princ_eq client (cc_client c) (cc_crealm c)) then False
      else if is_some_and (mc_server m) (\<lambda>server.
        \<not> (if contains flags tc_SRV_NAMEONLY then name_string (fst server) = name_string (cc_server c)
           else princ_eq server (cc_server c) (cc_srealm c))) then False
      else if cc_is_skey c \<noteq> (contains flags tc_IS_SKEY \<and> mc_is_skey m) then False
      else if contains flags tc_FLAGS_EXACT \<and> mc_ticket_flags m \<noteq> cc_ticket_flags c then False
      else if contains flags tc_FLAGS \<and> (cc_ticket_flags c AND mc_ticket_flags m) \<noteq> mc_ticket_flags m then False
      else if contains flags tc_TIMES_EXACT \<and>
        (mc_authtime m, mc_starttime m, mc_endtime m, mc_renew_till m) \<noteq>
        (cc_authtime c, cc_starttime c, cc_endtime c, cc_renew_till c) then False
      else if contains flags tc_TIMES \<and>
        ((mc_renew_till m \<noteq> 0 \<and> mc_renew_till m > cc_renew_till c) \<or>
         (mc_endtime m \<noteq> 0 \<and> mc_endtime m > cc_endtime c)) then False
      else if contains flags tc_AUTHDATA \<and>
        \<not> (length (unwrap_or_default (mc_authdata m)) = length (cc_authdata c) \<and>
           list_all (\<lambda>(a, b). ad_type a = ad_type b \<and> ad_data a = ad_data b)
             (zip (unwrap_or_default (mc_authdata m)) (cc_authdata c))) then False
      else if contains flags tc_SECOND_TKT \<and> unwrap_or_default (mc_second_ticket m) \<noteq> cc_second_ticket c then False
      else if contains flags tc_KTYPE \<and> mc_etype m \<noteq> keytype (cc_keyblock c) then False
      else True)"

fun retrieve_loop ::
  "u32 \<Rightarrow> MatchCred \<Rightarrow> int list option \<Rightarrow> (nat \<times> CcCredential) option \<Rightarrow> CcError \<Rightarrow> CcCredential list \<Rightarrow>
   CcError + CcCredential" where
  "retrieve_loop flags m ktypes best nomatch [] = (case best of Some (_, c) \<Rightarrow> Inr c | None \<Rightarrow> Inl nomatch)"
| "retrieve_loop flags m ktypes best nomatch (c # cs) =
     (if \<not> creds_match_request flags m c then retrieve_loop flags m ktypes best nomatch cs
      else case ktypes of
        None \<Rightarrow> Inr c
      | Some kts \<Rightarrow>
          (case position (\<lambda>t. t = keytype (cc_keyblock c)) kts of
             None \<Rightarrow> retrieve_loop flags m ktypes best Cc_NotKtype cs
           | Some pref \<Rightarrow>
               retrieve_loop flags m ktypes
                 (if is_none_or best (\<lambda>(p, _). pref < p) then Some (pref, c) else best) nomatch cs))"

definition retrieve_in ::
  "CcCredential list \<Rightarrow> u32 \<Rightarrow> MatchCred \<Rightarrow> int list option \<Rightarrow> CcError + CcCredential" where
  "retrieve_in creds flags m ktypes = retrieve_loop flags m ktypes None Cc_NotFound creds"

section \<open>Configuration entries\<close>

definition CONFIG_REALM :: bytes where "CONFIG_REALM = ascii ''X-CACHECONF:''"
definition REMOVED_CONFIG_REALM :: bytes where "REMOVED_CONFIG_REALM = ascii ''X-RMED-CONF:''"
definition CONFIG_PRINC :: bytes where "CONFIG_PRINC = ascii ''krb5_ccache_conf_data''"

definition is_config_principal :: "PrincipalName \<Rightarrow> bytes \<Rightarrow> bool" where
  "is_config_principal nm realm \<longleftrightarrow>
     realm = CONFIG_REALM \<and> name_string nm \<noteq> [] \<and> hd (name_string nm) = CONFIG_PRINC"

text \<open>The UTF-8 encoding of \<open>b as char\<close>.\<close>

definition latin1_char :: "u8 \<Rightarrow> bytes" where
  "latin1_char b = (if b < 0x80 then [b] else [0xc0 OR drop_bit 6 b, 0x80 OR (b AND 0x3f)])"

definition escape_byte :: "u8 \<Rightarrow> bytes" where
  "escape_byte b =
     (if b = 0x2f then [0x5c, 0x2f] else if b = 0x40 then [0x5c, 0x40] else if b = 0x5c then [0x5c, 0x5c]
      else if b = 0x09 then [0x5c, 0x74] else if b = 0x0a then [0x5c, 0x6e] else if b = 0x08 then [0x5c, 0x62]
      else if b = 0 then [0x5c, 0x30] else [b])"

definition unparse_escape :: "bytes \<Rightarrow> bytes" where
  "unparse_escape s = concat (map escape_byte (if valid_utf8 s then s else concat (map latin1_char s)))"

fun unparse_comps :: "bytes list \<Rightarrow> bytes" where
  "unparse_comps [] = []"
| "unparse_comps [c] = unparse_escape c"
| "unparse_comps (c # cs) = unparse_escape c @ 0x2f # unparse_comps cs"

definition unparse_name :: "PrincipalName \<Rightarrow> bytes \<Rightarrow> bytes" where
  "unparse_name nm realm = unparse_comps (name_string nm) @ 0x40 # unparse_escape realm"

text \<open>\<open>GeneralString::from_bytes(..).unwrap_or_default()\<close>.\<close>

definition general_string :: "(bytes \<Rightarrow> bool) \<Rightarrow> bytes \<Rightarrow> bytes" where
  "general_string gs b = (if gs b then b else [])"

type_synonym config_owner = "(PrincipalName \<times> bytes) option"

definition config_principal :: "(bytes \<Rightarrow> bool) \<Rightarrow> config_owner \<Rightarrow> bytes \<Rightarrow> PrincipalName" where
  "config_principal gs princ key =
     \<lparr>name_type = 0,
      name_string = [general_string gs CONFIG_PRINC, general_string gs key] @
        (case princ of None \<Rightarrow> [] | Some (p, realm) \<Rightarrow> [general_string gs (unparse_name p realm)])\<rparr>"

definition config_cred ::
  "(bytes \<Rightarrow> bool) \<Rightarrow> PrincipalName \<Rightarrow> bytes \<Rightarrow> config_owner \<Rightarrow> bytes \<Rightarrow> bytes \<Rightarrow> CcCredential" where
  "config_cred gs client crealm princ key data =
     \<lparr>cc_client = client, cc_crealm = crealm, cc_server = config_principal gs princ key, cc_srealm = CONFIG_REALM,
      cc_keyblock = \<lparr>keytype = 0, key_bytes = []\<rparr>, cc_authtime = 0, cc_starttime = 0, cc_endtime = 0,
      cc_renew_till = 0, cc_is_skey = False, cc_ticket_flags = 0, cc_addresses = [], cc_authdata = [],
      cc_ticket = data, cc_second_ticket = []\<rparr>"

definition config_matches :: "config_owner \<Rightarrow> bytes \<Rightarrow> CcCredential \<Rightarrow> bool" where
  "config_matches princ key c =
     (let comps = name_string (cc_server c) in
      if \<not> is_config_principal (cc_server c) (cc_srealm c) then False
      else if length comps \<le> 1 \<or> comps ! 1 \<noteq> key then False
      else case princ of
        None \<Rightarrow> length comps = 2
      | Some (p, realm) \<Rightarrow> length comps = 3 \<and> comps ! 2 = unparse_name p realm)"

text \<open>\<open>set_config\<close> and \<open>get_config\<close> over the operations of a cache.\<close>

definition config_request :: "(bytes \<Rightarrow> bool) \<Rightarrow> config_owner \<Rightarrow> bytes \<Rightarrow> MatchCred" where
  "config_request gs princ key = default_MatchCred\<lparr>mc_server := Some (config_principal gs princ key, CONFIG_REALM)\<rparr>"

definition set_config_with ::
  "(bytes \<Rightarrow> bool) \<Rightarrow> ('s \<Rightarrow> u32 \<Rightarrow> MatchCred \<Rightarrow> (CcError + unit) \<times> 's) \<Rightarrow>
   ('s \<Rightarrow> (CcError + PrincipalName \<times> bytes) \<times> 's) \<Rightarrow> ('s \<Rightarrow> CcCredential \<Rightarrow> (CcError + unit) \<times> 's) \<Rightarrow>
   's \<Rightarrow> config_owner \<Rightarrow> bytes \<Rightarrow> bytes option \<Rightarrow> (CcError + unit) \<times> 's" where
  "set_config_with gs remove_cred prin store st princ key data =
     (case remove_cred st 0 (config_request gs princ key) of (_, st) \<Rightarrow>
      case data of
        None \<Rightarrow> (Inr (), st)
      | Some d \<Rightarrow>
          (case prin st of
             (Inl e, st) \<Rightarrow> (Inl e, st)
           | (Inr (client, realm), st) \<Rightarrow> store st (config_cred gs client realm princ key d)))"

definition get_config_with ::
  "('s \<Rightarrow> (CcError + CcCredential list) \<times> 's) \<Rightarrow> 's \<Rightarrow> config_owner \<Rightarrow> bytes \<Rightarrow> (CcError + bytes option) \<times> 's" where
  "get_config_with creds st princ key =
     (case creds st of
        (Inl e, st) \<Rightarrow> (Inl e, st)
      | (Inr cs, st) \<Rightarrow> (Inr (map_option cc_ticket (find (config_matches princ key) cs)), st))"

section \<open>The MEMORY cache\<close>

record MemoryCcache =
  mcc_principal :: "(PrincipalName \<times> bytes) option"
  mcc_creds :: "CcCredential list"

definition mcc_initialize :: "MemoryCcache \<Rightarrow> PrincipalName \<Rightarrow> bytes \<Rightarrow> (CcError + unit) \<times> MemoryCcache" where
  "mcc_initialize st client realm = (Inr (), st\<lparr>mcc_principal := Some (client, realm), mcc_creds := []\<rparr>)"

definition mcc_get_principal :: "MemoryCcache \<Rightarrow> (CcError + PrincipalName \<times> bytes) \<times> MemoryCcache" where
  "mcc_get_principal st = (case mcc_principal st of None \<Rightarrow> Inl Cc_NotFound | Some p \<Rightarrow> Inr p, st)"

definition mcc_store :: "MemoryCcache \<Rightarrow> CcCredential \<Rightarrow> (CcError + unit) \<times> MemoryCcache" where
  "mcc_store st c = (Inr (), st\<lparr>mcc_creds := mcc_creds st @ [c]\<rparr>)"

definition mcc_get_creds :: "MemoryCcache \<Rightarrow> (CcError + CcCredential list) \<times> MemoryCcache" where
  "mcc_get_creds st = (Inr (mcc_creds st), st)"

definition mcc_remove_cred :: "MemoryCcache \<Rightarrow> u32 \<Rightarrow> MatchCred \<Rightarrow> (CcError + unit) \<times> MemoryCcache" where
  "mcc_remove_cred st flags m =
     (case position (creds_match_request flags m) (mcc_creds st) of
        Some i \<Rightarrow> (Inr (), st\<lparr>mcc_creds := take i (mcc_creds st) @ drop (Suc i) (mcc_creds st)\<rparr>)
      | None \<Rightarrow> (Inl Cc_NotFound, st))"

definition mcc_retrieve :: "MemoryCcache \<Rightarrow> u32 \<Rightarrow> MatchCred \<Rightarrow> int list option \<Rightarrow> CcError + CcCredential" where
  "mcc_retrieve st flags m ktypes = retrieve_in (mcc_creds st) flags m ktypes"

definition mcc_set_config ::
  "(bytes \<Rightarrow> bool) \<Rightarrow> MemoryCcache \<Rightarrow> config_owner \<Rightarrow> bytes \<Rightarrow> bytes option \<Rightarrow> (CcError + unit) \<times> MemoryCcache" where
  "mcc_set_config gs = set_config_with gs mcc_remove_cred mcc_get_principal mcc_store"

definition mcc_get_config :: "MemoryCcache \<Rightarrow> config_owner \<Rightarrow> bytes \<Rightarrow> (CcError + bytes option) \<times> MemoryCcache" where
  "mcc_get_config = get_config_with mcc_get_creds"

section \<open>The FILE cache\<close>

record FileCcache =
  fcc_file :: "bytes option"
  fcc_version :: u8
  time_offset :: "(u32 \<times> u32) option"

definition fcc_new :: FileCcache where
  "fcc_new = \<lparr>fcc_file = None, fcc_version = 4, time_offset = None\<rparr>"

text \<open>The tagged fields of a version 4 header.\<close>

function header_fields :: "bytes \<Rightarrow> (u32 \<times> u32) option \<Rightarrow> CcError + (u32 \<times> u32) option" where
  "header_fields s offset =
     (if length s < 4 then (if s \<noteq> [] then Inl Cc_Format else Inr offset)
      else let tag = of_be16 (take 2 s); flen = unat (of_be16 (take 2 (drop 2 s))); s = drop 4 s in
        if flen > length s then Inl Cc_Format
        else if tag = 1 then
          (if flen \<noteq> 8 then Inl Cc_Format
           else header_fields (drop flen s) (Some (of_be32 (take 4 s), of_be32 (take 4 (drop 4 s)))))
        else header_fields (drop flen s) offset)"
  by pat_completeness auto

termination by (relation "measure (\<lambda>(s, _). length s)") auto

declare header_fields.simps [simp del]

definition parse_cc_header :: "bytes \<Rightarrow> CcError + u8 \<times> nat \<times> (u32 \<times> u32) option" where
  "parse_cc_header data =
     (if length data < 2 then Inl Cc_Format
      else if data ! 0 \<noteq> 0x05 then Inl Cc_BadVno
      else let version = data ! 1 in
        if \<not> (1 \<le> version \<and> version \<le> 4) then Inl Cc_BadVno
        else if version \<noteq> 4 then Inr (version, 2, None)
        else if length data < 4 then Inl Cc_Format
        else let fields_len = unat (of_be16 (take 2 (drop 2 data))) in
          if fields_len \<noteq> 0 \<and> fields_len < 4 then Inl Cc_Format
          else if length data < 4 + fields_len then Inl Cc_Format
          else rbind (header_fields (take fields_len (drop 4 data)) None) (\<lambda>offset.
            Inr (version, 4 + fields_len, offset)))"

definition read_all ::
  "bool \<Rightarrow> (bytes \<Rightarrow> bool) \<Rightarrow> FileCcache \<Rightarrow> (CcError + bytes \<times> u8 \<times> nat) \<times> FileCcache" where
  "read_all le gs st =
     (case fcc_file st of
        None \<Rightarrow> (Inl Cc_Io, st)
      | Some data \<Rightarrow>
          (case parse_cc_header data of
             Inl e \<Rightarrow> (Inl e, st)
           | Inr (version, hdr_len, offset) \<Rightarrow>
               (rbind (unmarshal_princ_len le gs (drop hdr_len data) version) (\<lambda>(_, _, plen).
                  Inr (data, version, hdr_len + plen)),
                if offset \<noteq> None then st\<lparr>time_offset := offset\<rparr> else st)))"

function records_from ::
  "bool \<Rightarrow> (bytes \<Rightarrow> bool) \<Rightarrow> u8 \<Rightarrow> nat \<Rightarrow> bytes \<Rightarrow> CcError + (nat \<times> nat \<times> CcCredential) list" where
  "records_from le gs version pos rest =
     (if rest = [] then Inr []
      else case unmarshal_cred_len le gs rest version of
        Inl e \<Rightarrow> Inl e
      | Inr (c, len) \<Rightarrow>
          if len = 0 then Inr []
          else rbind (records_from le gs version (pos + len) (drop len rest)) (\<lambda>out. Inr ((pos, len, c) # out)))"
  by pat_completeness auto

termination by (relation "measure (\<lambda>(_, _, _, _, rest). length rest)") auto

declare records_from.simps [simp del]

definition fcc_records ::
  "bool \<Rightarrow> (bytes \<Rightarrow> bool) \<Rightarrow> FileCcache \<Rightarrow> (CcError + (nat \<times> nat \<times> CcCredential) list) \<times> FileCcache" where
  "fcc_records le gs st =
     (case read_all le gs st of
        (Inl e, st) \<Rightarrow> (Inl e, st)
      | (Inr (data, version, pos), st) \<Rightarrow> (records_from le gs version pos (drop pos data), st))"

definition cc_header :: "u8 \<Rightarrow> (u32 \<times> u32) option \<Rightarrow> bytes" where
  "cc_header v offset =
     [0x05, v] @ (if v = 4 then (case offset of
        Some (secs, usecs) \<Rightarrow> be16 12 @ be16 1 @ be16 8 @ be32 secs @ be32 usecs
      | None \<Rightarrow> be16 0) else [])"

definition fcc_initialize ::
  "bool \<Rightarrow> FileCcache \<Rightarrow> PrincipalName \<Rightarrow> bytes \<Rightarrow> (CcError + unit) \<times> FileCcache" where
  "fcc_initialize le st client realm =
     (Inr (), st\<lparr>fcc_file := Some (cc_header (fcc_version st) (time_offset st) @
        marshal_princ le (fcc_version st) client realm)\<rparr>)"

definition fcc_get_principal ::
  "bool \<Rightarrow> (bytes \<Rightarrow> bool) \<Rightarrow> FileCcache \<Rightarrow> (CcError + PrincipalName \<times> bytes) \<times> FileCcache" where
  "fcc_get_principal le gs st =
     (case read_all le gs st of
        (Inl e, st) \<Rightarrow> (Inl e, st)
      | (Inr (data, version, _), st) \<Rightarrow>
          (rbind (parse_cc_header data) (\<lambda>(_, hdr_len, _).
           rbind (unmarshal_princ_len le gs (drop hdr_len data) version) (\<lambda>(p, realm, _). Inr (p, realm))), st))"

definition fcc_store ::
  "bool \<Rightarrow> (bytes \<Rightarrow> bool) \<Rightarrow> FileCcache \<Rightarrow> CcCredential \<Rightarrow> (CcError + unit) \<times> FileCcache" where
  "fcc_store le gs st c =
     (case read_all le gs st of
        (Inl e, st) \<Rightarrow> (Inl e, st)
      | (Inr (data, version, _), st) \<Rightarrow> (Inr (), st\<lparr>fcc_file := Some (data @ marshal_cred le version c)\<rparr>))"

definition removed_in_place :: "CcCredential \<Rightarrow> bool" where
  "removed_in_place c \<longleftrightarrow> cc_endtime c = 0 \<and> cc_authtime c \<noteq> 0"

definition fcc_get_creds ::
  "bool \<Rightarrow> (bytes \<Rightarrow> bool) \<Rightarrow> FileCcache \<Rightarrow> (CcError + CcCredential list) \<times> FileCcache" where
  "fcc_get_creds le gs st =
     (case fcc_records le gs st of (r, st) \<Rightarrow>
      (rbind r (\<lambda>rs. Inr (filter (\<lambda>c. \<not> removed_in_place c) (map (snd \<circ> snd) rs))), st))"

definition mark_removed :: "CcCredential \<Rightarrow> CcCredential" where
  "mark_removed c =
     c\<lparr>cc_authtime := - 1, cc_endtime := 0,
       cc_srealm := (if cc_srealm c = CONFIG_REALM then REMOVED_CONFIG_REALM else cc_srealm c)\<rparr>"

definition fcc_remove_cred ::
  "bool \<Rightarrow> (bytes \<Rightarrow> bool) \<Rightarrow> FileCcache \<Rightarrow> u32 \<Rightarrow> MatchCred \<Rightarrow> (CcError + unit) \<times> FileCcache" where
  "fcc_remove_cred le gs st flags m =
     (case read_all le gs st of
        (Inl e, st) \<Rightarrow> (Inl e, st)
      | (Inr (data, version, _), st) \<Rightarrow>
          (case fcc_records le gs st of
             (Inl e, st) \<Rightarrow> (Inl e, st)
           | (Inr rs, st) \<Rightarrow>
               (case find (\<lambda>(_, _, c). \<not> removed_in_place c \<and> creds_match_request flags m c) rs of
                  None \<Rightarrow> (Inl Cc_NotFound, st)
                | Some (off, len, c) \<Rightarrow>
                    (let b = marshal_cred le version (mark_removed c) in
                     if length b \<noteq> len then (Inl Cc_Format, st)
                     else (Inr (), st\<lparr>fcc_file := Some (take off data @ b @ drop (off + len) data)\<rparr>)))))"

definition fcc_retrieve ::
  "bool \<Rightarrow> (bytes \<Rightarrow> bool) \<Rightarrow> FileCcache \<Rightarrow> u32 \<Rightarrow> MatchCred \<Rightarrow> int list option \<Rightarrow> (CcError + CcCredential) \<times> FileCcache" where
  "fcc_retrieve le gs st flags m ktypes =
     (case fcc_get_creds le gs st of (r, st) \<Rightarrow> (rbind r (\<lambda>cs. retrieve_in cs flags m ktypes), st))"

definition fcc_set_config ::
  "bool \<Rightarrow> (bytes \<Rightarrow> bool) \<Rightarrow> FileCcache \<Rightarrow> config_owner \<Rightarrow> bytes \<Rightarrow> bytes option \<Rightarrow> (CcError + unit) \<times> FileCcache" where
  "fcc_set_config le gs = set_config_with gs (fcc_remove_cred le gs) (fcc_get_principal le gs) (fcc_store le gs)"

definition fcc_get_config ::
  "bool \<Rightarrow> (bytes \<Rightarrow> bool) \<Rightarrow> FileCcache \<Rightarrow> config_owner \<Rightarrow> bytes \<Rightarrow> (CcError + bytes option) \<times> FileCcache" where
  "fcc_get_config le gs = get_config_with (fcc_get_creds le gs)"

section \<open>Match requests on the wire\<close>

definition marshal_mcred :: "bool \<Rightarrow> MatchCred \<Rightarrow> bytes" where
  "marshal_mcred le m =
     (let second = unwrap_or_default (mc_second_ticket m);
          authdata = unwrap_or_default (mc_authdata m);
          header = (if mc_client m \<noteq> None then 0x1 else 0) OR (if mc_server m \<noteq> None then 0x2 else 0) OR
            (if mc_etype m \<noteq> 0 then 0x4 else 0) OR (if second \<noteq> [] then 0x10 else 0) OR
            (if authdata \<noteq> [] then 0x20 else 0)
      in w_u32 le 4 header @
         (case mc_client m of None \<Rightarrow> [] | Some (p, r) \<Rightarrow> marshal_princ le 4 p r) @
         (case mc_server m of None \<Rightarrow> [] | Some (p, r) \<Rightarrow> marshal_princ le 4 p r) @
         (if mc_etype m \<noteq> 0 then marshal_keyblock le 4 \<lparr>keytype = mc_etype m, key_bytes = []\<rparr> else []) @
         w_u32 le 4 (mc_authtime m) @ w_u32 le 4 (mc_starttime m) @ w_u32 le 4 (mc_endtime m) @
         w_u32 le 4 (mc_renew_till m) @ [if mc_is_skey m then 1 else 0] @ w_u32 le 4 (mc_ticket_flags m) @
         (if authdata \<noteq> [] then marshal_authdata le 4 authdata else []) @
         (if second \<noteq> [] then w_data le 4 second else []))"

section \<open>The interface\<close>

text \<open>
  A cache has an owner and a list of credentials: storing appends, removing takes out the first
  match or fails, reading changes nothing.
\<close>

definition remove_first :: "('a \<Rightarrow> bool) \<Rightarrow> 'a list \<Rightarrow> 'a list" where
  "remove_first P xs = takeWhile (\<lambda>x. \<not> P x) xs @ tl (dropWhile (\<lambda>x. \<not> P x) xs)"

lemma remove_first_split:
  "list_ex P xs \<Longrightarrow> \<exists>as x bs. xs = as @ x # bs \<and> P x \<and> (\<forall>a\<in>set as. \<not> P a) \<and> remove_first P xs = as @ bs"
proof (induction xs)
  case (Cons x xs)
  show ?case
  proof (cases "P x")
    case True
    then show ?thesis by (intro exI [of _ "[]"]) (auto simp: remove_first_def)
  next
    case False
    with Cons obtain as y bs where "xs = as @ y # bs" "P y" "\<forall>a\<in>set as. \<not> P a" "remove_first P xs = as @ bs" by auto
    with False show ?thesis by (intro exI [of _ "x # as"]) (auto simp: remove_first_def)
  qed
qed simp

lemma remove_first_none: "\<not> list_ex P xs \<Longrightarrow> remove_first P xs = xs"
  by (auto simp: remove_first_def list_ex_iff takeWhile_eq_all_conv [THEN iffD2] dropWhile_eq_Nil_conv [THEN iffD2])

lemma remove_first_append:
  "\<forall>a\<in>set as. \<not> P a \<Longrightarrow> P x \<Longrightarrow> remove_first P (as @ x # bs) = as @ bs"
  by (simp add: remove_first_def takeWhile_append dropWhile_append)

lemma filter_remove_first:
  assumes "length (filter P xs) \<le> 1"
  shows "filter P (remove_first P xs) = []" "(\<And>x. Q x \<Longrightarrow> \<not> P x) \<Longrightarrow> filter Q (remove_first P xs) = filter Q xs"
proof -
  have "filter P (remove_first P xs) = [] \<and> ((\<forall>x. Q x \<longrightarrow> \<not> P x) \<longrightarrow> filter Q (remove_first P xs) = filter Q xs)"
  proof (cases "list_ex P xs")
    case True
    with remove_first_split [OF this] assms show ?thesis by (auto simp: filter_empty_conv)
  next
    case False
    then show ?thesis by (auto simp: remove_first_none filter_empty_conv list_ex_iff)
  qed
  then show "filter P (remove_first P xs) = []" "(\<And>x. Q x \<Longrightarrow> \<not> P x) \<Longrightarrow> filter Q (remove_first P xs) = filter Q xs"
    by auto
qed

lemma find_filter: "find P xs = (case filter P xs of [] \<Rightarrow> None | x # _ \<Rightarrow> Some x)"
  by (induction xs) auto

text \<open>The names of configuration entries, and the keys the model of \<open>GeneralString\<close> can hold.\<close>

definition config_name :: "config_owner \<Rightarrow> bytes \<Rightarrow> bytes list" where
  "config_name princ key = [CONFIG_PRINC, key] @ (case princ of None \<Rightarrow> [] | Some (p, realm) \<Rightarrow> [unparse_name p realm])"

definition config_ok :: "(bytes \<Rightarrow> bool) \<Rightarrow> config_owner \<Rightarrow> bytes \<Rightarrow> bool" where
  "config_ok gs princ key \<longleftrightarrow> list_all gs (config_name princ key)"

definition one_config :: "config_owner \<Rightarrow> bytes \<Rightarrow> CcCredential list \<Rightarrow> bool" where
  "one_config princ key cs \<longleftrightarrow> length (filter (config_matches princ key) cs) \<le> 1 \<and>
     list_all (\<lambda>c. \<not> (config_matches princ key c \<and> cc_is_skey c)) cs"

lemma config_matches_name:
  "config_matches princ key c \<longleftrightarrow> cc_srealm c = CONFIG_REALM \<and> name_string (cc_server c) = config_name princ key"
proof -
  have two: "xs = [a, b] \<longleftrightarrow> xs \<noteq> [] \<and> hd xs = a \<and> \<not> length xs \<le> 1 \<and> xs ! 1 = b \<and> length xs = 2" for xs :: "bytes list" and a b
    by (cases xs; cases "tl xs") auto
  have three: "xs = [a, b, d] \<longleftrightarrow> xs \<noteq> [] \<and> hd xs = a \<and> \<not> length xs \<le> 1 \<and> xs ! 1 = b \<and> length xs = 3 \<and> xs ! 2 = d"
    for xs :: "bytes list" and a b d
    by (cases xs; cases "tl xs"; cases "tl (tl xs)") auto
  show ?thesis
    using two [of "name_string (cc_server c)" CONFIG_PRINC key] three [of "name_string (cc_server c)" CONFIG_PRINC key]
    by (auto simp: config_matches_def is_config_principal_def config_name_def Let_def split: option.splits prod.splits)
qed

lemma config_principal_name:
  "config_ok gs princ key \<Longrightarrow> name_string (config_principal gs princ key) = config_name princ key"
  by (auto simp: config_ok_def config_principal_def config_name_def general_string_def split: option.splits)

lemma config_request_matches:
  assumes "config_ok gs princ key"
  shows "creds_match_request 0 (config_request gs princ key) c \<longleftrightarrow> config_matches princ key c \<and> \<not> cc_is_skey c"
  by (auto simp: creds_match_request_def config_request_def default_MatchCred_def contains_def tc_defs princ_eq_def
      config_matches_name config_principal_name [OF assms])

lemma config_cred_matches:
  assumes "config_ok gs princ key"
  shows "config_matches princ' key' (config_cred gs client realm princ key d) \<longleftrightarrow> config_name princ' key' = config_name princ key"
  by (auto simp: config_matches_name config_cred_def config_principal_name [OF assms])

locale ccache =
  fixes prin :: "'s \<Rightarrow> (CcError + PrincipalName \<times> bytes) \<times> 's"
    and store :: "'s \<Rightarrow> CcCredential \<Rightarrow> (CcError + unit) \<times> 's"
    and creds :: "'s \<Rightarrow> (CcError + CcCredential list) \<times> 's"
    and remove_cred :: "'s \<Rightarrow> u32 \<Rightarrow> MatchCred \<Rightarrow> (CcError + unit) \<times> 's"
    and repr :: "'s \<Rightarrow> u8 \<Rightarrow> PrincipalName \<times> bytes \<Rightarrow> CcCredential list \<Rightarrow> bool"
    and storable :: "u8 \<Rightarrow> CcCredential \<Rightarrow> bool"
  assumes prin_ok: "repr s v pr cs \<Longrightarrow> \<exists>s'. prin s = (Inr pr, s') \<and> repr s' v pr cs"
    and store_ok: "repr s v pr cs \<Longrightarrow> storable v c \<Longrightarrow> \<exists>s'. store s c = (Inr (), s') \<and> repr s' v pr (cs @ [c])"
    and creds_ok: "repr s v pr cs \<Longrightarrow> \<exists>s'. creds s = (Inr cs, s') \<and> repr s' v pr cs"
    and remove_ok: "repr s v pr cs \<Longrightarrow> \<exists>s'. repr s' v pr (remove_first (creds_match_request flags m) cs) \<and>
      remove_cred s flags m = (if list_ex (creds_match_request flags m) cs then Inr () else Inl Cc_NotFound, s')"
begin

text \<open>A configuration value can be read back, and others are as before.\<close>

lemma set_config_get:
  assumes "repr s v pr cs" "config_ok gs princ key" "one_config princ key cs"
    and "storable v (config_cred gs (fst pr) (snd pr) princ key d)"
  shows "\<exists>s' cs'. set_config_with gs remove_cred prin store s princ key (Some d) = (Inr (), s') \<and>
    repr s' v pr cs' \<and> one_config princ key cs' \<and>
    fst (get_config_with creds s' princ key) = Inr (Some d) \<and>
    (config_name princ' key' \<noteq> config_name princ key \<longrightarrow>
       fst (get_config_with creds s' princ' key') = fst (get_config_with creds s princ' key'))"
proof -
  let ?m = "creds_match_request 0 (config_request gs princ key)"
  let ?c = "config_cred gs (fst pr) (snd pr) princ key d"
  obtain s1 where s1: "repr s1 v pr (remove_first ?m cs)"
    "snd (remove_cred s 0 (config_request gs princ key)) = s1"
    using remove_ok [OF assms(1), of 0 "config_request gs princ key"] by auto
  obtain s2 where s2: "prin s1 = (Inr pr, s2)" "repr s2 v pr (remove_first ?m cs)"
    using prin_ok [OF s1(1)] by blast
  obtain s3 where s3: "store s2 ?c = (Inr (), s3)" "repr s3 v pr (remove_first ?m cs @ [?c])"
    using store_ok [OF s2(2) assms(4)] by blast
  have set: "set_config_with gs remove_cred prin store s princ key (Some d) = (Inr (), s3)"
    using s1(2) s2(1) s3(1) by (cases pr) (auto simp: set_config_with_def split: prod.splits)
  have eq: "remove_first ?m cs = remove_first (config_matches princ key) cs"
  proof -
    have "\<forall>x\<in>set cs. ?m x = config_matches princ key x"
      using assms(3) config_request_matches [OF assms(2)] by (auto simp: one_config_def list_all_iff)
    then show ?thesis
      unfolding remove_first_def by (metis (no_types, lifting) dropWhile_cong takeWhile_cong)
  qed
  have one: "length (filter (config_matches princ key) cs) \<le> 1" using assms(3) by (simp add: one_config_def)
  note fr = filter_remove_first [OF one]
  have get: "fst (get_config_with creds s3 p k) =
      Inr (map_option cc_ticket (find (config_matches p k) (remove_first ?m cs @ [?c])))" for p k
    using creds_ok [OF s3(2)] by (auto simp: get_config_with_def)
  have get0: "fst (get_config_with creds s p k) = Inr (map_option cc_ticket (find (config_matches p k) cs))" for p k
    using creds_ok [OF assms(1)] by (auto simp: get_config_with_def)
  have self: "config_matches princ key ?c" "cc_ticket ?c = d" "\<not> cc_is_skey ?c"
    using config_cred_matches [OF assms(2)] by (simp_all add: config_cred_def)
  have "one_config princ key (remove_first ?m cs @ [?c])"
    using fr(1) self by (auto simp: one_config_def eq filter_empty_conv list_all_iff)
  moreover have "fst (get_config_with creds s3 princ key) = Inr (Some d)"
    unfolding get find_filter using fr(1) self by (simp add: eq)
  moreover have "fst (get_config_with creds s3 princ' key') = fst (get_config_with creds s princ' key')"
    if "config_name princ' key' \<noteq> config_name princ key"
  proof -
    have "filter (config_matches princ' key') (remove_first (config_matches princ key) cs) = filter (config_matches princ' key') cs"
      using that by (intro fr(2)) (auto simp: config_matches_name)
    moreover have "\<not> config_matches princ' key' ?c" using that by (simp add: config_cred_matches [OF assms(2)])
    ultimately show ?thesis unfolding get get0 find_filter by (simp add: eq)
  qed
  ultimately show ?thesis using set s3(2) by blast
qed

lemma stores_ok:
  assumes "repr s v pr cs" "list_all (storable v) ds"
  shows "repr (foldl (\<lambda>s c. snd (store s c)) s ds) v pr (cs @ ds)"
  using assms
proof (induction ds arbitrary: s cs)
  case (Cons d ds)
  then show ?case using store_ok [OF Cons.prems(1), of d] by fastforce
qed simp

end

interpretation mcc: ccache mcc_get_principal mcc_store mcc_get_creds mcc_remove_cred
  "\<lambda>s _ pr cs. mcc_principal s = Some pr \<and> mcc_creds s = cs" "\<lambda>_ _. True"
proof
  fix s :: MemoryCcache and v :: u8 and pr cs flags m
  assume s: "mcc_principal s = Some pr \<and> mcc_creds s = cs"
  let ?P = "creds_match_request flags m"
  have pos: "position P xs = (if list_ex P xs then Some (length (takeWhile (\<lambda>x. \<not> P x) xs)) else None)" for P and xs :: "CcCredential list"
    by (induction xs) auto
  have split: "take (length (takeWhile (\<lambda>x. \<not> ?P x) cs)) cs @ drop (Suc (length (takeWhile (\<lambda>x. \<not> ?P x) cs))) cs =
      remove_first ?P cs"
    by (simp add: remove_first_def takeWhile_eq_take [symmetric] dropWhile_eq_drop drop_Suc tl_drop)
  show "\<exists>s'. (mcc_principal s' = Some pr \<and> mcc_creds s' = remove_first ?P cs) \<and>
      mcc_remove_cred s flags m = (if list_ex ?P cs then Inr () else Inl Cc_NotFound, s')"
    using s split by (auto simp: mcc_remove_cred_def pos remove_first_none)
qed (auto simp: mcc_get_principal_def mcc_store_def mcc_get_creds_def)

section \<open>The FILE cache implements the interface\<close>

lemma be_take:
  "take 2 (be16 a @ s) = be16 a" "drop 2 (be16 a @ s) = s" "take 4 (be32 b @ s) = be32 b" "drop 4 (be32 b @ s) = s"
  "drop 4 (be16 a @ be16 a' @ s) = s" "drop 8 (be32 b @ be32 b' @ s) = s"
  by simp_all

lemma header_fields_offset: "header_fields (be16 1 @ be16 8 @ be32 secs @ be32 usecs) None = Inr (Some (secs, usecs))"
proof -
  let ?s = "be16 1 @ be16 8 @ be32 secs @ be32 usecs"
  have "header_fields ?s None = header_fields [] (Some (secs, usecs))"
    by (subst header_fields.simps) (simp add: be_take be_take [where s = "[]", simplified] Let_def del: take_append drop_append)
  also have "\<dots> = Inr (Some (secs, usecs))" by (subst header_fields.simps) simp
  finally show ?thesis .
qed

lemma parse_cc_header_enc:
  assumes "1 \<le> v" "v \<le> 4"
  shows "parse_cc_header (cc_header v off @ rest) = Inr (v, length (cc_header v off), if v = 4 then off else None)"
proof (cases "v = 4")
  case True
  have n: "unat (12 :: u16) = 12" "unat (0 :: u16) = 0" by simp_all
  have z: "header_fields [] None = Inr None" by (subst header_fields.simps) simp
  show ?thesis
  proof (cases off)
    case None
    with True z n show ?thesis by (simp add: parse_cc_header_def cc_header_def Let_def)
  next
    case (Some su)
    obtain secs usecs where su: "su = (secs, usecs)" by fastforce
    let ?f = "be16 1 @ be16 8 @ be32 secs @ be32 usecs"
    have h: "cc_header v off @ rest = 0x05 # 4 # be16 12 @ ?f @ rest"
      by (simp add: cc_header_def Some su True)
    have t: "take 12 (?f @ rest) = ?f" "drop 4 (0x05 # 4 # be16 12 @ ?f @ rest) = ?f @ rest"
      "take 2 (drop 2 (0x05 # 4 # be16 12 @ ?f @ rest)) = be16 12"
      by simp_all
    show ?thesis
      using header_fields_offset [of secs usecs]
      unfolding parse_cc_header_def h Let_def t int_bytes_inverse n
      by (simp add: True Some su cc_header_def t(1))
  qed
next
  case False
  with assms show ?thesis by (simp add: parse_cc_header_def cc_header_def Let_def)
qed

text \<open>The bytes of a cache file, and the records found in them.\<close>

definition cc_bytes :: "bool \<Rightarrow> u8 \<Rightarrow> (u32 \<times> u32) option \<Rightarrow> PrincipalName \<times> bytes \<Rightarrow> CcCredential list \<Rightarrow> bytes" where
  "cc_bytes le v off pr cs =
     cc_header v off @ marshal_princ le v (fst pr) (snd pr) @ concat (map (marshal_cred le v) cs)"

definition fcc_repr ::
  "bool \<Rightarrow> (bytes \<Rightarrow> bool) \<Rightarrow> FileCcache \<Rightarrow> u8 \<Rightarrow> PrincipalName \<times> bytes \<Rightarrow> CcCredential list \<Rightarrow> bool" where
  "fcc_repr le gs st v pr live \<longleftrightarrow> (\<exists>off cs. fcc_file st = Some (cc_bytes le v off pr cs) \<and> 1 \<le> v \<and> v \<le> 4 \<and>
     wf_princ gs v pr \<and> list_all (wf_cred gs v) cs \<and> live = filter (\<lambda>c. \<not> removed_in_place c) cs)"

fun cc_recs :: "bool \<Rightarrow> u8 \<Rightarrow> nat \<Rightarrow> CcCredential list \<Rightarrow> (nat \<times> nat \<times> CcCredential) list" where
  "cc_recs le v pos [] = []"
| "cc_recs le v pos (c # cs) =
     (pos, length (marshal_cred le v c), c) # cc_recs le v (pos + length (marshal_cred le v c)) cs"

lemma records_from_enc:
  "list_all (wf_cred gs v) cs \<Longrightarrow> records_from le gs v pos (concat (map (marshal_cred le v) cs)) = Inr (cc_recs le v pos cs)"
proof (induction cs arbitrary: pos)
  case (Cons c cs)
  have ne: "marshal_cred le v c \<noteq> []" by (simp add: marshal_cred_def)
  have "unmarshal_cred_len le gs (marshal_cred le v c @ concat (map (marshal_cred le v) cs)) v =
      Inr (c, length (marshal_cred le v c))"
    using Cons.prems by (simp add: unmarshal_cred_len_def cc_cred.dec_enc)
  with Cons ne show ?case by (subst records_from.simps) simp
qed (simp add: records_from.simps)

lemma read_all_enc:
  assumes "fcc_file st = Some (cc_bytes le v off pr cs)" "1 \<le> v" "v \<le> 4" "wf_princ gs v pr"
  shows "\<exists>st'. read_all le gs st = (Inr (cc_bytes le v off pr cs, v,
      length (cc_header v off) + length (marshal_princ le v (fst pr) (snd pr))), st') \<and> fcc_file st' = fcc_file st"
proof -
  have "unmarshal_princ_len le gs (marshal_princ le v (fst pr) (snd pr) @ concat (map (marshal_cred le v) cs)) v =
      Inr (fst pr, snd pr, length (marshal_princ le v (fst pr) (snd pr)))"
    using assms(4) by (cases pr) (simp add: unmarshal_princ_len_def princ_dec_enc)
  then show ?thesis
    using assms by (simp add: read_all_def cc_bytes_def parse_cc_header_enc)
qed

lemma records_enc:
  assumes "fcc_file st = Some (cc_bytes le v off pr cs)" "1 \<le> v" "v \<le> 4" "wf_princ gs v pr" "list_all (wf_cred gs v) cs"
  shows "\<exists>st'. fcc_records le gs st = (Inr (cc_recs le v
      (length (cc_header v off) + length (marshal_princ le v (fst pr) (snd pr))) cs), st') \<and> fcc_file st' = fcc_file st"
proof -
  obtain st' where st': "read_all le gs st = (Inr (cc_bytes le v off pr cs, v,
      length (cc_header v off) + length (marshal_princ le v (fst pr) (snd pr))), st')" "fcc_file st' = fcc_file st"
    using read_all_enc [OF assms(1-4)] by blast
  have "drop (length (cc_header v off) + length (marshal_princ le v (fst pr) (snd pr))) (cc_bytes le v off pr cs) =
      concat (map (marshal_cred le v) cs)"
    by (simp add: cc_bytes_def)
  with st' assms(5) show ?thesis by (simp add: fcc_records_def records_from_enc)
qed

lemma cc_recs_creds: "map (snd \<circ> snd) (cc_recs le v pos cs) = cs"
  by (induction cs arbitrary: pos) auto

lemma find_cc_recs:
  "(\<not> list_ex Q cs \<and> find (\<lambda>(_, _, c). Q c) (cc_recs le v pos cs) = None) \<or>
   (\<exists>as c bs. cs = as @ c # bs \<and> (\<forall>a\<in>set as. \<not> Q a) \<and> Q c \<and>
      find (\<lambda>(_, _, c). Q c) (cc_recs le v pos cs) =
        Some (pos + length (concat (map (marshal_cred le v) as)), length (marshal_cred le v c), c))"
proof (induction cs arbitrary: pos)
  case (Cons c cs)
  show ?case
  proof (cases "Q c")
    case True
    then have "find (\<lambda>(_, _, c). Q c) (cc_recs le v pos (c # cs)) = Some (pos, length (marshal_cred le v c), c)" by simp
    with True show ?thesis by (intro disjI2 exI [of _ "[]"] exI [of _ c] exI [of _ cs]) simp
  next
    case False
    from Cons [of "pos + length (marshal_cred le v c)"] show ?thesis
    proof (elim disjE exE conjE)
      fix as d bs
      assume "cs = as @ d # bs" "\<forall>a\<in>set as. \<not> Q a" "Q d"
        "find (\<lambda>(_, _, c). Q c) (cc_recs le v (pos + length (marshal_cred le v c)) cs) =
          Some (pos + length (marshal_cred le v c) + length (concat (map (marshal_cred le v) as)), length (marshal_cred le v d), d)"
      with False show ?thesis
        by (intro disjI2 exI [of _ "c # as"] exI [of _ d] exI [of _ bs]) (simp add: add.assoc)
    qed (use False in simp)
  qed
qed simp

lemma length_mark_removed: "length (marshal_cred le v (mark_removed c)) = length (marshal_cred le v c)"
  by (simp add: marshal_cred_def mark_removed_def marshal_princ_def w_data_def w_i32_def w_u32_def
      CONFIG_REALM_def REMOVED_CONFIG_REALM_def ascii_def)

lemma mark_removed_wf: "wf_cred gs v c \<Longrightarrow> wf_cred gs v (mark_removed c)"
  using valid_utf8_ascii [of REMOVED_CONFIG_REALM]
  by (auto simp: wf_cred_def mark_removed_def wf_princ_def short_def REMOVED_CONFIG_REALM_def ascii_def)

lemma mark_removed_removed: "removed_in_place (mark_removed c)"
  by (simp add: removed_in_place_def mark_removed_def)

lemma fcc_remove_ok:
  assumes "fcc_repr le gs st v pr live"
  shows "\<exists>st'. fcc_repr le gs st' v pr (remove_first (creds_match_request flags m) live) \<and>
    fcc_remove_cred le gs st flags m =
      (if list_ex (creds_match_request flags m) live then Inr () else Inl Cc_NotFound, st')"
proof -
  let ?P = "creds_match_request flags m"
  let ?Q = "\<lambda>c. \<not> removed_in_place c \<and> ?P c"
  obtain off cs where f: "fcc_file st = Some (cc_bytes le v off pr cs)" and v: "1 \<le> v" "v \<le> 4" and pr: "wf_princ gs v pr"
    and cs: "list_all (wf_cred gs v) cs" and live: "live = filter (\<lambda>c. \<not> removed_in_place c) cs"
    using assms by (auto simp: fcc_repr_def)
  let ?h = "cc_header v off @ marshal_princ le v (fst pr) (snd pr)"
  let ?E = "\<lambda>cs. concat (map (marshal_cred le v) cs)"
  obtain st1 where st1: "read_all le gs st = (Inr (cc_bytes le v off pr cs, v, length ?h), st1)" "fcc_file st1 = fcc_file st"
    using read_all_enc [OF f v pr] by auto
  obtain st2 where st2: "fcc_records le gs st1 = (Inr (cc_recs le v (length ?h) cs), st2)" "fcc_file st2 = fcc_file st"
    using records_enc [OF _ v pr cs, of st1] st1(2) f by auto
  have ex: "list_ex ?P live \<longleftrightarrow> list_ex ?Q cs" by (auto simp: live list_ex_iff)
  from find_cc_recs [of ?Q cs le v "length ?h"] show ?thesis
  proof (elim disjE exE conjE)
    assume n: "\<not> list_ex ?Q cs" "find (\<lambda>(_, _, c). ?Q c) (cc_recs le v (length ?h) cs) = None"
    have "fcc_remove_cred le gs st flags m = (Inl Cc_NotFound, st2)"
      unfolding fcc_remove_cred_def using st1(1) st2(1) n(2) by simp
    moreover have "fcc_repr le gs st2 v pr live"
      using assms st2(2) by (simp add: fcc_repr_def)
    ultimately show ?thesis using n(1) ex remove_first_none [of ?P live] by auto
  next
    fix as c bs
    assume a: "cs = as @ c # bs" "\<forall>a\<in>set as. \<not> ?Q a" "\<not> removed_in_place c" "?P c"
      and fd: "find (\<lambda>(_, _, c). ?Q c) (cc_recs le v (length ?h) cs) =
        Some (length ?h + length (?E as), length (marshal_cred le v c), c)"
    let ?cs = "as @ mark_removed c # bs"
    have data: "cc_bytes le v off pr cs = (?h @ ?E as) @ marshal_cred le v c @ ?E bs"
      by (simp add: cc_bytes_def a(1))
    have new: "take (length ?h + length (?E as)) (cc_bytes le v off pr cs) @ marshal_cred le v (mark_removed c) @
        drop (length ?h + length (?E as) + length (marshal_cred le v c)) (cc_bytes le v off pr cs) = cc_bytes le v off pr ?cs"
      unfolding data by (simp add: cc_bytes_def)
    have "fcc_remove_cred le gs st flags m = (Inr (), st2\<lparr>fcc_file := Some (cc_bytes le v off pr ?cs)\<rparr>)"
      unfolding fcc_remove_cred_def st1(1) prod.case sum.case st2(1) fd option.case Let_def length_mark_removed new
      by simp
    moreover have "list_all (wf_cred gs v) ?cs" using cs a(1) mark_removed_wf by (auto simp: list_all_iff)
    moreover have "\<forall>a\<in>set (filter (\<lambda>c. \<not> removed_in_place c) as). \<not> ?P a" using a(2) by auto
    from remove_first_append [OF this a(4), of "filter (\<lambda>c. \<not> removed_in_place c) bs"] a(1,3)
    have "remove_first ?P live = filter (\<lambda>c. \<not> removed_in_place c) ?cs"
      by (simp add: live mark_removed_removed)
    moreover have "list_ex ?P live" using a by (simp add: live)
    ultimately show ?thesis using v pr by (fastforce simp: fcc_repr_def)
  qed
qed

interpretation fcc: ccache "fcc_get_principal le gs" "fcc_store le gs" "fcc_get_creds le gs" "fcc_remove_cred le gs"
  "fcc_repr le gs" "\<lambda>v c. wf_cred gs v c \<and> \<not> removed_in_place c" for le gs
proof
  fix st v pr live c
  assume r: "fcc_repr le gs st v pr live"
  then obtain off cs where f: "fcc_file st = Some (cc_bytes le v off pr cs)" and v: "1 \<le> v" "v \<le> 4" and pr: "wf_princ gs v pr"
    and cs: "list_all (wf_cred gs v) cs" and live: "live = filter (\<lambda>c. \<not> removed_in_place c) cs"
    by (auto simp: fcc_repr_def)
  obtain st' where st': "read_all le gs st = (Inr (cc_bytes le v off pr cs, v,
      length (cc_header v off) + length (marshal_princ le v (fst pr) (snd pr))), st')" "fcc_file st' = fcc_file st"
    using read_all_enc [OF f v pr] by blast
  have "fcc_get_principal le gs st = (Inr pr, st')"
    using st'(1) pr by (cases pr)
      (simp add: fcc_get_principal_def parse_cc_header_enc [OF v] cc_bytes_def unmarshal_princ_len_def princ_dec_enc)
  then show "\<exists>st'. fcc_get_principal le gs st = (Inr pr, st') \<and> fcc_repr le gs st' v pr live"
    using r st'(2) by (auto simp: fcc_repr_def)
  obtain st2 where "fcc_records le gs st = (Inr (cc_recs le v
      (length (cc_header v off) + length (marshal_princ le v (fst pr) (snd pr))) cs), st2)" "fcc_file st2 = fcc_file st"
    using records_enc [OF f v pr cs] by blast
  then show "\<exists>st'. fcc_get_creds le gs st = (Inr live, st') \<and> fcc_repr le gs st' v pr live"
    using r by (auto simp: fcc_get_creds_def cc_recs_creds live fcc_repr_def)
  assume c: "wf_cred gs v c \<and> \<not> removed_in_place c"
  have "fcc_store le gs st c = (Inr (), st'\<lparr>fcc_file := Some (cc_bytes le v off pr (cs @ [c]))\<rparr>)"
    using st'(1) by (simp add: fcc_store_def cc_bytes_def)
  moreover have "live @ [c] = filter (\<lambda>c. \<not> removed_in_place c) (cs @ [c])" "list_all (wf_cred gs v) (cs @ [c])"
    using c cs by (simp_all add: live)
  ultimately show "\<exists>st'. fcc_store le gs st c = (Inr (), st') \<and> fcc_repr le gs st' v pr (live @ [c])"
    using v pr by (fastforce simp: fcc_repr_def)
qed (rule fcc_remove_ok)

lemma fcc_initialize_repr:
  assumes "1 \<le> fcc_version st" "fcc_version st \<le> 4" "wf_princ gs (fcc_version st) (p, realm)"
  shows "fcc_repr le gs (snd (fcc_initialize le st p realm)) (fcc_version st) (p, realm) []"
  unfolding fcc_repr_def
  by (intro exI [of _ "time_offset st"] exI [of _ "[]"]) (use assms in \<open>simp add: fcc_initialize_def cc_bytes_def\<close>)

section \<open>Properties\<close>

text \<open>
  C13: the FILE cache is a list of credentials. After \<open>initialize\<close>, storing credentials and removing by a
  match request, the file in any of the four versions reads back as its owner and the stored credentials
  in order without the first match, and the removal fails exactly when nothing matches.
\<close>

theorem file_ccache_refines_list:
  assumes "1 \<le> fcc_version st" "fcc_version st \<le> 4" "wf_princ gs (fcc_version st) (p, realm)"
    and "list_all (\<lambda>c. wf_cred gs (fcc_version st) c \<and> \<not> removed_in_place c) cs"
  shows "case fcc_remove_cred le gs
      (foldl (\<lambda>st c. snd (fcc_store le gs st c)) (snd (fcc_initialize le st p realm)) cs) flags m of (r, st') \<Rightarrow>
    fst (fcc_get_creds le gs st') = Inr (remove_first (creds_match_request flags m) cs) \<and>
    fst (fcc_get_principal le gs st') = Inr (p, realm) \<and>
    r = (if list_ex (creds_match_request flags m) cs then Inr () else Inl Cc_NotFound)"
proof -
  let ?st = "foldl (\<lambda>st c. snd (fcc_store le gs st c)) (snd (fcc_initialize le st p realm)) cs"
  have "fcc_repr le gs ?st (fcc_version st) (p, realm) ([] @ cs)"
    using fcc.stores_ok [OF fcc_initialize_repr [OF assms(1-3)]] assms(4) by blast
  then have "fcc_repr le gs ?st (fcc_version st) (p, realm) cs" by simp
  from fcc.remove_ok [OF this, of flags m] obtain st' where
    st': "fcc_repr le gs st' (fcc_version st) (p, realm) (remove_first (creds_match_request flags m) cs)"
    "fcc_remove_cred le gs ?st flags m = (if list_ex (creds_match_request flags m) cs then Inr () else Inl Cc_NotFound, st')"
    by blast
  from fcc.creds_ok [OF st'(1)] fcc.prin_ok [OF st'(1)] st'(2) show ?thesis by auto
qed

lemma example_cred_ok: "wf_cred (\<lambda>_. True) v example_cred \<and> \<not> removed_in_place example_cred"
  "wf_princ (\<lambda>_. True) v (cc_client example_cred, cc_crealm example_cred)"
  using valid_utf8_ascii [of "[0x52]"]
  by (simp_all add: wf_cred_def example_cred_def wf_princ_def wf_key_def wf_addr_def wf_ad_def short_def in_i16_def
      in_i32_def i32_min_def i32_max_def removed_in_place_def)

theorem file_ccache_refines_list_witness:
  "case fcc_remove_cred True (\<lambda>_. True)
      (foldl (\<lambda>st c. snd (fcc_store True (\<lambda>_. True) st c))
        (snd (fcc_initialize True fcc_new (cc_client example_cred) (cc_crealm example_cred))) [example_cred, example_cred])
      0 default_MatchCred of (r, st') \<Rightarrow>
    fst (fcc_get_creds True (\<lambda>_. True) st') = Inr [example_cred] \<and> r = Inr ()"
proof -
  have "1 \<le> fcc_version fcc_new" "fcc_version fcc_new \<le> 4" by (simp_all add: fcc_new_def)
  moreover have "creds_match_request 0 default_MatchCred example_cred"
    by (simp add: creds_match_request_def default_MatchCred_def contains_def tc_defs example_cred_def)
  ultimately show ?thesis
    using file_ccache_refines_list [of fcc_new "\<lambda>_. True" "cc_client example_cred" "cc_crealm example_cred"
        "[example_cred, example_cred]" True 0 default_MatchCred] example_cred_ok
    by (auto simp: remove_first_def split: prod.splits)
qed

text \<open>
  C30: a configuration value can be read back. In the MEMORY cache and in the FILE cache, setting the value of
  a key for which there is at most one entry makes \<open>get_config\<close> return it, keeps at most one entry, and
  leaves the value of every other key and principal as it was.
\<close>

theorem config_set_get:
  assumes "config_ok gs princ key"
    and "mcc_principal ms = Some pr" "one_config princ key (mcc_creds ms)"
    and "fcc_repr le gs fs v pr cs" "one_config princ key cs"
    and "wf_cred gs v (config_cred gs (fst pr) (snd pr) princ key d)"
    and "config_name princ' key' \<noteq> config_name princ key"
  shows "(case mcc_set_config gs ms princ key (Some d) of (r, ms') \<Rightarrow> r = Inr () \<and>
      one_config princ key (mcc_creds ms') \<and> fst (mcc_get_config ms' princ key) = Inr (Some d) \<and>
      fst (mcc_get_config ms' princ' key') = fst (mcc_get_config ms princ' key')) \<and>
    (case fcc_set_config le gs fs princ key (Some d) of (r, fs') \<Rightarrow> r = Inr () \<and>
      fst (fcc_get_config le gs fs' princ key) = Inr (Some d) \<and>
      fst (fcc_get_config le gs fs' princ' key') = fst (fcc_get_config le gs fs princ' key'))"
proof -
  have live: "\<not> removed_in_place (config_cred gs (fst pr) (snd pr) princ key d)"
    by (simp add: removed_in_place_def config_cred_def)
  have "\<exists>s' cs'. set_config_with gs mcc_remove_cred mcc_get_principal mcc_store ms princ key (Some d) = (Inr (), s') \<and>
    (mcc_principal s' = Some pr \<and> mcc_creds s' = cs') \<and> one_config princ key cs' \<and>
    fst (get_config_with mcc_get_creds s' princ key) = Inr (Some d) \<and>
    (config_name princ' key' \<noteq> config_name princ key \<longrightarrow>
       fst (get_config_with mcc_get_creds s' princ' key') = fst (get_config_with mcc_get_creds ms princ' key'))"
    by (rule mcc.set_config_get) (use assms in auto)
  moreover from fcc.set_config_get [OF assms(4,1,5) conjI [OF assms(6) live]] obtain s' where
    "set_config_with gs (fcc_remove_cred le gs) (fcc_get_principal le gs) (fcc_store le gs) fs princ key (Some d) = (Inr (), s')"
    "fst (get_config_with (fcc_get_creds le gs) s' princ key) = Inr (Some d)"
    "fst (get_config_with (fcc_get_creds le gs) s' princ' key') = fst (get_config_with (fcc_get_creds le gs) fs princ' key')"
    using assms(7) by blast
  ultimately show ?thesis
    using assms(7) by (auto simp: mcc_set_config_def mcc_get_config_def fcc_set_config_def fcc_get_config_def)
qed

theorem config_set_get_witness:
  "fst (fcc_get_config True (\<lambda>_. True)
      (snd (fcc_set_config True (\<lambda>_. True)
        (snd (fcc_initialize True fcc_new (cc_client example_cred) (cc_crealm example_cred))) None [0x6b] (Some [1, 2, 3])))
      None [0x6b]) = Inr (Some [1, 2, 3])"
proof -
  let ?gs = "\<lambda>_ :: bytes. True"
  let ?pr = "(cc_client example_cred, cc_crealm example_cred)"
  let ?fs = "snd (fcc_initialize True fcc_new (fst ?pr) (snd ?pr))"
  have v: "1 \<le> fcc_version fcc_new" "fcc_version fcc_new \<le> 4" by (simp_all add: fcc_new_def)
  have "config_ok ?gs None [0x6b]" by (simp add: config_ok_def list_all_iff)
  moreover have "one_config None [0x6b] []" by (simp add: one_config_def)
  moreover have "fcc_repr True ?gs ?fs 4 ?pr []"
    using fcc_initialize_repr [OF v example_cred_ok(2)] by (simp add: fcc_new_def)
  moreover have "wf_cred ?gs 4 (config_cred ?gs (fst ?pr) (snd ?pr) None [0x6b] [1, 2, 3])"
    using example_cred_ok [of 4] valid_utf8_ascii [of CONFIG_REALM]
    by (simp add: wf_cred_def config_cred_def config_principal_def wf_princ_def wf_key_def short_def in_i16_def in_i32_def
        i32_min_def i32_max_def general_string_def CONFIG_REALM_def CONFIG_PRINC_def ascii_def)
  ultimately show ?thesis
    using config_set_get [of ?gs None "[0x6b]" "\<lparr>mcc_principal = Some ?pr, mcc_creds = []\<rparr>" ?pr True ?fs 4 "[]" "[1, 2, 3]" None "[]"]
    by (auto simp: config_name_def split: prod.splits)
qed

definition kpos :: "int list \<Rightarrow> CcCredential \<Rightarrow> nat option" where
  "kpos kts c = position (\<lambda>t. t = keytype (cc_keyblock c)) kts"

lemma retrieve_loop_listed:
  assumes "nomatch = Cc_NotFound \<or> nomatch = Cc_NotKtype"
  shows "case retrieve_loop flags m (Some kts) best nomatch cs of
      Inr c \<Rightarrow> \<exists>p. (best = Some (p, c) \<or> c \<in> set cs \<and> creds_match_request flags m c \<and> kpos kts c = Some p) \<and>
        is_none_or best (\<lambda>(p', _). p \<le> p') \<and>
        (\<forall>c'\<in>set cs. creds_match_request flags m c' \<longrightarrow> is_none_or (kpos kts c') (\<lambda>p'. p \<le> p'))
    | Inl e \<Rightarrow> best = None \<and> (\<forall>c\<in>set cs. creds_match_request flags m c \<longrightarrow> kpos kts c = None) \<and>
        e = (if list_ex (creds_match_request flags m) cs then Cc_NotKtype else nomatch)"
  using assms
proof (induction cs arbitrary: best nomatch)
  case Nil
  then show ?case by (auto split: option.splits)
next
  case (Cons c cs)
  show ?case
  proof (cases "creds_match_request flags m c")
    case False
    with Cons.IH [OF Cons.prems, of best] show ?thesis by (auto split: sum.splits)
  next
    case match: True
    show ?thesis
    proof (cases "kpos kts c")
      case None
      with match Cons.IH [of Cc_NotKtype best] show ?thesis
        by (auto simp: kpos_def split: sum.splits)
    next
      case (Some p)
      define best' where "best' = (if is_none_or best (\<lambda>(p', _). p < p') then Some (p, c) else best)"
      have eq: "retrieve_loop flags m (Some kts) best nomatch (c # cs) = retrieve_loop flags m (Some kts) best' nomatch cs"
        using match Some by (simp add: kpos_def best'_def)
      obtain q d where q: "best' = Some (q, d)" "q \<le> p" "is_none_or best (\<lambda>(p', _). q \<le> p')"
        "best = Some (q, d) \<or> q = p \<and> d = c"
      proof (cases best)
        case None
        then show ?thesis by (intro that [of p c]) (auto simp: best'_def)
      next
        case (Some pd)
        then show ?thesis
          by (cases "p < fst pd"; cases pd) (intro that [of p c], auto simp: best'_def, intro that, auto simp: best'_def)
      qed
      show ?thesis
      proof (cases "retrieve_loop flags m (Some kts) best' nomatch cs")
        case (Inl e)
        with Cons.IH [OF Cons.prems, of best'] q(1) show ?thesis by simp
      next
        case (Inr c0)
        with Cons.IH [OF Cons.prems, of best'] obtain p0 where
          p0: "best' = Some (p0, c0) \<or> c0 \<in> set cs \<and> creds_match_request flags m c0 \<and> kpos kts c0 = Some p0"
          "p0 \<le> q" "\<forall>c'\<in>set cs. creds_match_request flags m c' \<longrightarrow> is_none_or (kpos kts c') (\<lambda>p'. p0 \<le> p')"
          by (auto simp: q(1))
        have "best = Some (p0, c0) \<or> c0 \<in> set (c # cs) \<and> creds_match_request flags m c0 \<and> kpos kts c0 = Some p0"
          using p0(1) q(1,4) match Some by auto
        moreover have "is_none_or best (\<lambda>(p', _). p0 \<le> p')"
          using q(3) p0(2) by (cases best) auto
        moreover have "\<forall>c'\<in>set (c # cs). creds_match_request flags m c' \<longrightarrow> is_none_or (kpos kts c') (\<lambda>p'. p0 \<le> p')"
          using p0(2,3) q(2) Some by auto
        ultimately show ?thesis unfolding eq Inr sum.case by blast
      qed
    qed
  qed
qed

lemma retrieve_loop_any:
  "retrieve_loop flags m None None nomatch cs =
     (case find (creds_match_request flags m) cs of Some c \<Rightarrow> Inr c | None \<Rightarrow> Inl nomatch)"
  by (induction cs) auto

text \<open>
  retrieval takes the preferred credential. Without enctypes it is the first match; with a list it is a match
  whose enctype is listed no later than that of any other match. It fails with \<open>NotKtype\<close> exactly when
  there are matches but none of a listed enctype, and with \<open>NotFound\<close> exactly when there is no match.
\<close>

theorem retrieve_in_preferred:
  "case retrieve_in cs flags m ktypes of
     Inr c \<Rightarrow> c \<in> set cs \<and> creds_match_request flags m c \<and>
       (case ktypes of
          None \<Rightarrow> find (creds_match_request flags m) cs = Some c
        | Some kts \<Rightarrow> is_some_and (kpos kts c) (\<lambda>p.
            list_all (\<lambda>c'. is_none_or (kpos kts c') (\<lambda>p'. p \<le> p')) (filter (creds_match_request flags m) cs)))
   | Inl e \<Rightarrow>
       (case ktypes of
          None \<Rightarrow> \<not> list_ex (creds_match_request flags m) cs \<and> e = Cc_NotFound
        | Some kts \<Rightarrow> list_all (\<lambda>c. kpos kts c = None) (filter (creds_match_request flags m) cs) \<and>
            e = (if list_ex (creds_match_request flags m) cs then Cc_NotKtype else Cc_NotFound))"
proof (cases ktypes)
  case None
  then show ?thesis
    by (auto simp: retrieve_in_def retrieve_loop_any find_Some_iff find_None_iff list_ex_iff split: option.splits)
next
  case (Some kts)
  with retrieve_loop_listed [where nomatch = Cc_NotFound and flags = flags and m = m and kts = kts and best = None and cs = cs] show ?thesis
    by (auto simp: retrieve_in_def list_all_iff split: sum.splits)
qed

end
