(* ===== verification/Replication.thy ===== *)
theory Replication
  imports Auth_State Deltat
begin

text \<open>
  The data of database replication (\<open>src/src/kdc/replication.rs\<close>): hybrid logical timestamps with their
  order and text form, the key string of a principal name, stored principals with their tl-data
  column, changes and batches. A timestamp is a datatype made an instance of \<open>linorder\<close>, the source's
  \<open>Ord\<close>.

  \<open>lww_put\<close> is the contract of a replica: per entity the value of the greatest version wins, a
  deletion being a value. The interface \<open>versioned_store\<close> states it for a store that applies one
  change at a time, and in its context a run of changes is shown to depend on the set of changes only.
\<close>

section \<open>Timestamps\<close>

datatype ReplicationTs = ReplicationTs (wall_nanos: int) (logical: u32)

definition ts_ZERO :: ReplicationTs where "ts_ZERO = ReplicationTs 0 0"

instantiation ReplicationTs :: linorder
begin

definition less_eq_ReplicationTs :: "ReplicationTs \<Rightarrow> ReplicationTs \<Rightarrow> bool" where
  "less_eq_ReplicationTs a b \<longleftrightarrow>
     wall_nanos a < wall_nanos b \<or> wall_nanos a = wall_nanos b \<and> logical a \<le> logical b"

definition less_ReplicationTs :: "ReplicationTs \<Rightarrow> ReplicationTs \<Rightarrow> bool" where
  "less_ReplicationTs a b \<longleftrightarrow>
     wall_nanos a < wall_nanos b \<or> wall_nanos a = wall_nanos b \<and> logical a < logical b"

instance
  by standard (auto simp: less_eq_ReplicationTs_def less_ReplicationTs_def intro: ReplicationTs.expand)

end

text \<open>\<open>str::split_once\<close> on an ASCII separator, and \<open>str::parse\<close> for \<open>i64\<close> and \<open>u64\<close>.\<close>

fun split_once :: "u8 \<Rightarrow> bytes \<Rightarrow> (bytes \<times> bytes) option" where
  "split_once c [] = None"
| "split_once c (b # bs) =
     (if b = c then Some ([], bs)
      else (case split_once c bs of None \<Rightarrow> None | Some (x, y) \<Rightarrow> Some (b # x, y)))"

fun digits_value :: "int \<Rightarrow> bytes \<Rightarrow> int option" where
  "digits_value v [] = Some v"
| "digits_value v (b # bs) = (if is_ascii_digit b then digits_value (v * 10 + digit_val b) bs else None)"

definition parse_digits :: "bytes \<Rightarrow> int option" where
  "parse_digits s = (if s = [] then None else digits_value 0 s)"

definition parse_i64 :: "bytes \<Rightarrow> int option" where
  "parse_i64 s =
     (let v = (if s \<noteq> [] \<and> hd s = 0x2d then map_option uminus (parse_digits (tl s))
               else if s \<noteq> [] \<and> hd s = 0x2b then parse_digits (tl s)
               else parse_digits s)
      in case v of None \<Rightarrow> None | Some n \<Rightarrow> if in_i64 n then Some n else None)"

definition parse_u64 :: "bytes \<Rightarrow> int option" where
  "parse_u64 s =
     (let v = (if s \<noteq> [] \<and> hd s = 0x2b then parse_digits (tl s) else parse_digits s)
      in case v of None \<Rightarrow> None | Some n \<Rightarrow> if n < 2 ^ 64 then Some n else None)"

text \<open>The formats \<open>{:010}\<close> and \<open>{:0<10}\<close>.\<close>

definition pad_left_10 :: "bytes \<Rightarrow> bytes" where
  "pad_left_10 s = replicate (10 - length s) 0x30 @ s"

definition pad_right_10 :: "bytes \<Rightarrow> bytes" where
  "pad_right_10 s = s @ replicate (10 - length s) 0x30"

definition ts_to_string :: "ReplicationTs \<Rightarrow> bytes" where
  "ts_to_string t = dec_int (wall_nanos t) @ [0x2e] @ pad_left_10 (dec (unat (logical t)))"

datatype ParseTsError = ParseTsError bytes

definition ts_from_str :: "bytes \<Rightarrow> ParseTsError + ReplicationTs" where
  "ts_from_str s =
     (case (case split_once 0x2e s of Some (w, l) \<Rightarrow> (w, l) | None \<Rightarrow> (s, [])) of (wall, frac) \<Rightarrow>
      rbind (ok_or (parse_i64 wall) (ParseTsError s)) (\<lambda>w.
      if length frac > 10 \<or> \<not> list_all is_ascii_digit frac then Inl (ParseTsError s)
      else rbind (ok_or (parse_u64 (pad_right_10 frac)) (ParseTsError s)) (\<lambda>l.
      if l < 2 ^ 32 then Inr (ReplicationTs w (word_of_int l)) else Inl (ParseTsError s))))"

section \<open>Principal keys\<close>

text \<open>
  The source escapes and splits by characters. The separator and the escape are ASCII and the bytes of
  a longer character are all at least 128, so doing it byte by byte is the same.
\<close>

definition key_escape :: "u8 \<Rightarrow> bytes" where
  "key_escape c = (if c = 0x5c \<or> c = 0x2f then [0x5c, c] else [c])"

fun key_comps :: "bool \<Rightarrow> bytes list \<Rightarrow> StoreError + bytes" where
  "key_comps later [] = Inr []"
| "key_comps later (c # cs) =
     (if valid_utf8 c then
        rbind (key_comps True cs) (\<lambda>r. Inr ((if later then [0x2f] else []) @ concat (map key_escape c) @ r))
      else Inl (se_conflict ''principal name component is not UTF-8''))"

definition encode_principal_key :: "PrincipalName \<Rightarrow> StoreError + bytes" where
  "encode_principal_key n = key_comps False (name_string n)"

fun key_parts :: "bytes \<Rightarrow> bytes \<Rightarrow> StoreError + bytes list" where
  "key_parts part [] = Inr [part]"
| "key_parts part (c # r) =
     (if c = 0x5c then
        (case r of [] \<Rightarrow> Inl (se_corrupt ''dangling escape in a principal key'')
         | d # r \<Rightarrow> key_parts (part @ [d]) r)
      else if c = 0x2f then rbind (key_parts [] r) (\<lambda>ps. Inr (part # ps))
      else key_parts (part @ [c]) r)"

text \<open>\<open>gs\<close> says which strings are a \<open>GeneralString\<close> (of the ASN.1 library).\<close>

definition decode_principal_key :: "(bytes \<Rightarrow> bool) \<Rightarrow> bytes \<Rightarrow> int \<Rightarrow> StoreError + PrincipalName" where
  "decode_principal_key gs key nt =
     rbind (key_parts [] key) (\<lambda>parts.
       if list_all gs parts then Inr \<lparr>name_type = nt, name_string = parts\<rparr>
       else Inl (se_corrupt ''principal key is not a GeneralString''))"

section \<open>Stored principals\<close>

record StoredKey =
  sk_kvno :: u32
  sk_enctype :: int
  sk_mkvno :: u32
  sk_enc_key :: bytes
  sk_salt :: "bytes option"
  sk_s2kparams :: "bytes option"

text \<open>MIT tl-data has the shape of a policy's.\<close>

type_synonym TlData = PolicyTlData

record StoredPrincipal =
  sp_name :: PrincipalName
  sp_realm :: bytes
  sp_attributes :: u32
  sp_max_life :: "u64 option"
  sp_max_renewable_life :: "u64 option"
  sp_expiration :: "int option"
  sp_pw_expiration :: "int option"
  sp_last_pwd_change :: "int option"
  sp_mod_time :: "int option"
  sp_keys :: "StoredKey list"
  sp_delegate_to :: "bytes list"
  sp_delegate_from :: "bytes list"
  sp_policy :: "bytes option"
  sp_security_epoch :: u64
  sp_last_admin_unlock :: "int option"
  sp_tl_data :: "TlData list"

definition ptl_len :: "nat \<Rightarrow> StoreError + u16" where
  "ptl_len n = (if n < 2 ^ 16 then Inr (word_of_nat n) else Inl (se_rejected ''principal tl-data too large''))"

fun ptl_elements :: "TlData list \<Rightarrow> StoreError + bytes" where
  "ptl_elements [] = Inr []"
| "ptl_elements (t # ts) =
     rbind (ptl_len (length (tl_content t))) (\<lambda>len.
     rbind (ptl_elements ts) (\<lambda>rest.
       Inr (le16 (tl_kind t) @ le16 len @ tl_content t @ rest)))"

definition encode_tl_data :: "TlData list \<Rightarrow> StoreError + bytes option" where
  "encode_tl_data ts =
     (if ts = [] then Inr None
      else rbind (ptl_len (length ts)) (\<lambda>n. rbind (ptl_elements ts) (\<lambda>body. Inr (Some (le16 n @ body)))))"

definition ptl_truncated :: StoreError where
  "ptl_truncated = se_corrupt ''truncated principal tl-data''"

definition ptl_u16 :: "bytes \<Rightarrow> StoreError + u16 \<times> bytes" where
  "ptl_u16 s = rbind (rd_take ptl_truncated 2 s) (\<lambda>(b, s). Inr (of_le16 b, s))"

definition ptl_element :: "bytes \<Rightarrow> StoreError + TlData \<times> bytes" where
  "ptl_element s =
     rbind (ptl_u16 s) (\<lambda>(kind, s).
     rbind (ptl_u16 s) (\<lambda>(len, s).
     rbind (rd_take ptl_truncated (unat len) s) (\<lambda>(d, s).
       Inr (\<lparr>tl_kind = kind, tl_content = d\<rparr>, s))))"

definition decode_tl_data :: "bytes option \<Rightarrow> StoreError + TlData list" where
  "decode_tl_data col =
     (let b = (case col of None \<Rightarrow> [] | Some b \<Rightarrow> b) in
      if b = [] then Inr []
      else rbind (ptl_u16 b) (\<lambda>(n, s).
           rbind (rd_n ptl_element (unat n) s) (\<lambda>(out, s).
             if s \<noteq> [] then Inl ptl_truncated else Inr out)))"

section \<open>Changes\<close>

type_synonym StoredPolicy = Policy

record LockoutRecord =
  lo_realm :: bytes
  lo_name :: PrincipalName
  lo_locked_at :: int
  lo_unlock_at :: "int option"
  lo_source_kdc :: bytes

datatype Change =
    UpsertPrincipal StoredPrincipal ReplicationTs
  | DeletePrincipal bytes PrincipalName ReplicationTs
  | UpsertPolicy StoredPolicy ReplicationTs
  | DeletePolicy bytes ReplicationTs
  | UpsertLockout LockoutRecord ReplicationTs
  | DeleteLockout bytes PrincipalName ReplicationTs

fun change_version :: "Change \<Rightarrow> ReplicationTs" where
  "change_version (UpsertPrincipal _ v) = v"
| "change_version (DeletePrincipal _ _ v) = v"
| "change_version (UpsertPolicy _ v) = v"
| "change_version (DeletePolicy _ v) = v"
| "change_version (UpsertLockout _ v) = v"
| "change_version (DeleteLockout _ _ v) = v"

record ChangeBatch =
  cb_upto :: ReplicationTs
  cb_changes :: "Change list"

record ReplicaCheckpoint =
  cp_ts :: ReplicationTs
  cp_snapshot_ts :: "ReplicationTs option"
  cp_applied_at :: int

record ApplyOutcome =
  ao_applied :: nat
  ao_skipped_stale :: nat

record PollResult =
  po_batch :: ChangeBatch
  po_source_now :: ReplicationTs
  po_truncated :: bool

section \<open>Last writer wins\<close>

type_synonym ('k, 'v) versioned = "'k \<rightharpoonup> ReplicationTs \<times> 'v"

definition lww_stale :: "('k, 'v) versioned \<Rightarrow> 'k \<Rightarrow> ReplicationTs \<Rightarrow> bool" where
  "lww_stale m k ver \<longleftrightarrow> (case m k of None \<Rightarrow> False | Some (w, _) \<Rightarrow> ver \<le> w)"

definition lww_put :: "'k \<times> ReplicationTs \<times> 'v \<Rightarrow> ('k, 'v) versioned \<Rightarrow> ('k, 'v) versioned" where
  "lww_put c m = (case c of (k, ver, v) \<Rightarrow> if lww_stale m k ver then m else m(k \<mapsto> (ver, v)))"

text \<open>The values an entity could take: the stored one and those of the changes to it.\<close>

definition lww_candidates ::
  "('k \<times> ReplicationTs \<times> 'v) set \<Rightarrow> ('k, 'v) versioned \<Rightarrow> 'k \<Rightarrow> (ReplicationTs \<times> 'v) set" where
  "lww_candidates cs m k = set_option (m k) \<union> {(ver, v). (k, ver, v) \<in> cs}"

text \<open>A version names one value of an entity.\<close>

definition lww_consistent :: "('k \<times> ReplicationTs \<times> 'v) set \<Rightarrow> ('k, 'v) versioned \<Rightarrow> bool" where
  "lww_consistent cs m \<longleftrightarrow>
     (\<forall>k ver v v'. (ver, v) \<in> lww_candidates cs m k \<and> (ver, v') \<in> lww_candidates cs m k \<longrightarrow> v = v')"

lemma lww_put_apply:
  "lww_put (k, ver, v) m k' =
     (if k' = k \<and> \<not> lww_stale m k ver then Some (ver, v) else m k')"
  by (simp add: lww_put_def)

lemma lww_fold_candidate:
  "fold lww_put cs m k = Some x \<Longrightarrow> x \<in> lww_candidates (set cs) m k"
proof (induction cs arbitrary: m)
  case Nil
  then show ?case by (simp add: lww_candidates_def)
next
  case (Cons c cs)
  obtain k' ver v where c: "c = (k', ver, v)" by (cases c)
  from Cons.prems have "fold lww_put cs (lww_put c m) k = Some x" by simp
  from Cons.IH [OF this] show ?case
    by (auto simp: lww_candidates_def c lww_put_apply split: if_splits)
qed

lemma lww_fold_greatest:
  "y \<in> lww_candidates (set cs) m k \<Longrightarrow> \<exists>w v. fold lww_put cs m k = Some (w, v) \<and> fst y \<le> w"
proof (induction cs arbitrary: m y)
  case Nil
  then show ?case by (cases y) (auto simp: lww_candidates_def)
next
  case (Cons c cs)
  obtain k' ver v where c: "c = (k', ver, v)" by (cases c)
  have "\<exists>z \<in> lww_candidates (set cs) (lww_put c m) k. fst y \<le> fst z"
  proof (cases "y \<in> lww_candidates (set cs) (lww_put c m) k")
    case False
    with Cons.prems have k: "k = k'" and y: "y = (ver, v) \<or> m k = Some y"
      by (auto simp: lww_candidates_def c lww_put_apply split: if_splits)
    show ?thesis
    proof (cases "lww_stale m k ver")
      case True
      then obtain w u where "m k = Some (w, u)" "ver \<le> w" by (auto simp: lww_stale_def split: option.splits)
      with True k y show ?thesis
        by (intro bexI [of _ "(w, u)"]) (auto simp: lww_candidates_def c lww_put_apply)
    next
      case False
      with k y show ?thesis
        by (intro bexI [of _ "(ver, v)"])
          (auto simp: lww_candidates_def c lww_put_apply lww_stale_def)
    qed
  qed blast
  then obtain z where z: "z \<in> lww_candidates (set cs) (lww_put c m) k" "fst y \<le> fst z" by blast
  from Cons.IH [OF z(1)] z(2) show ?case by (auto intro: order_trans)
qed

lemma lww_fold_set:
  assumes "set cs = set ds" and con: "lww_consistent (set cs) m"
  shows "fold lww_put cs m = fold lww_put ds m"
proof
  fix k
  have *: "fold lww_put xs m k = None \<longleftrightarrow> lww_candidates (set xs) m k = {}" for xs
    using lww_fold_candidate [of xs m k] lww_fold_greatest [of _ xs m k]
    by (cases "fold lww_put xs m k") fastforce+
  show "fold lww_put cs m k = fold lww_put ds m k"
  proof (cases "fold lww_put cs m k")
    case None
    with * [of cs] * [of ds] assms show ?thesis by simp
  next
    case (Some x)
    with * [of cs] * [of ds] assms obtain y where y: "fold lww_put ds m k = Some y" by force
    from lww_fold_candidate [OF Some] lww_fold_candidate [OF y] assms
    have xy: "x \<in> lww_candidates (set cs) m k" "y \<in> lww_candidates (set cs) m k" by simp_all
    from lww_fold_greatest [OF xy(2)] lww_fold_greatest [of x ds m k] xy(1) Some y assms
    have "fst x = fst y" by fastforce
    with xy con have "x = y" by (cases x, cases y) (auto simp: lww_consistent_def)
    with Some y show ?thesis by simp
  qed
qed

section \<open>The store interface\<close>

datatype Applied = Applied_Yes | Applied_Stale

text \<open>Apply changes in order and count what happened to them; the first failure ends the run.\<close>

fun count_changes ::
  "('c \<Rightarrow> 's \<Rightarrow> ('e + Applied) \<times> 's) \<Rightarrow> 'c list \<Rightarrow> nat \<Rightarrow> nat \<Rightarrow> 's \<Rightarrow> ('e + nat \<times> nat) \<times> 's" where
  "count_changes step [] yes stale s = (Inr (yes, stale), s)"
| "count_changes step (c # cs) yes stale s = (case step c s of
     (Inl e, s) \<Rightarrow> (Inl e, s)
   | (Inr Applied_Yes, s) \<Rightarrow> count_changes step cs (yes + 1) stale s
   | (Inr Applied_Stale, s) \<Rightarrow> count_changes step cs yes (stale + 1) s)"

locale versioned_store =
  fixes step :: "'c \<Rightarrow> 's \<Rightarrow> ('e + Applied) \<times> 's"
    and view :: "'s \<Rightarrow> ('k, 'v) versioned"
    and inv :: "'s \<Rightarrow> bool"
    and ent :: "'c \<Rightarrow> 'k \<times> ReplicationTs \<times> 'v"
  assumes step_inv: "inv s \<Longrightarrow> step c s = (Inr a, s') \<Longrightarrow> inv s'"
    and step_view: "inv s \<Longrightarrow> step c s = (Inr a, s') \<Longrightarrow> view s' = lww_put (ent c) (view s)"
    and step_applied: "inv s \<Longrightarrow> step c s = (Inr a, s') \<Longrightarrow>
      a = (if lww_stale (view s) (fst (ent c)) (fst (snd (ent c))) then Applied_Stale else Applied_Yes)"
begin

lemma count_changes_ok:
  assumes "inv s" "count_changes step cs yes stale s = (Inr r, s')"
  shows "inv s' \<and> view s' = fold lww_put (map ent cs) (view s) \<and> fst r + snd r = yes + stale + length cs"
  using assms
proof (induction cs arbitrary: s yes stale)
  case (Cons c cs)
  from Cons.prems(2) obtain a s1 y z where s1: "step c s = (Inr a, s1)"
    and r: "count_changes step cs y z s1 = (Inr r, s')" "y + z = yes + stale + 1"
    by (auto split: prod.splits sum.splits Applied.splits)
  from step_inv [OF Cons.prems(1) s1] step_view [OF Cons.prems(1) s1] Cons.IH [OF _ r(1)] r(2)
  show ?case by simp
qed auto

lemma count_changes_converge:
  assumes "inv s" "count_changes step cs y z s = (Inr r, t)"
    and "inv s'" "view s' = view s" "count_changes step ds y' z' s' = (Inr q, u)"
    and "set cs = set ds" "lww_consistent (set (map ent cs)) (view s)"
  shows "view t = view u"
proof -
  have "set (map ent cs) = set (map ent ds)" using assms(6) by simp
  from lww_fold_set [OF this assms(7)] count_changes_ok [OF assms(1,2)] count_changes_ok [OF assms(3,5)] assms(4)
  show ?thesis by metis
qed

lemma count_changes_again:
  assumes "inv s" "count_changes step cs y z s = (Inr r, t)"
    and "inv t'" "view t' = view t" "count_changes step cs 0 0 t' = (Inr q, u)"
  shows "view u = view t \<and> q = (0, length cs)"
proof -
  have "count_changes step ds y z t = (Inr q, u) \<Longrightarrow>
      \<forall>c \<in> set ds. lww_stale (view t) (fst (ent c)) (fst (snd (ent c))) \<Longrightarrow> inv t \<Longrightarrow>
      view u = view t \<and> q = (y, z + length ds)" for ds y z t
  proof (induction ds arbitrary: z t)
    case (Cons c ds)
    from Cons.prems obtain a t1 where t1: "step c t = (Inr a, t1)"
      by (auto split: prod.splits sum.splits)
    from step_applied [OF Cons.prems(3) t1] Cons.prems have a: "a = Applied_Stale" by simp
    from step_view [OF Cons.prems(3) t1] Cons.prems have v: "view t1 = view t"
      by (simp add: lww_put_def split: prod.splits)
    from Cons.IH [of "z + 1" t1] Cons.prems t1 a v step_inv [OF Cons.prems(3) t1]
    show ?case by simp
  qed auto
  moreover have "lww_stale (view t) (fst (ent c)) (fst (snd (ent c)))" if "c \<in> set cs" for c
  proof -
    obtain k ver v where c: "ent c = (k, ver, v)" by (cases "ent c")
    with that have "(ver, v) \<in> lww_candidates (set (map ent cs)) (view s) k"
      by (force simp: lww_candidates_def)
    from lww_fold_greatest [OF this] count_changes_ok [OF assms(1,2)] c
    show ?thesis by (auto simp: lww_stale_def)
  qed
  ultimately show ?thesis using assms(3-5) by (metis add_0)
qed

end

section \<open>Lemmas\<close>

lemma digits_value_append:
  "digits_value v (xs @ ys) = (case digits_value v xs of None \<Rightarrow> None | Some w \<Rightarrow> digits_value w ys)"
  by (induction xs arbitrary: v) auto

lemma digits_value_dec: "digits_value 0 (dec n) = Some (int n)"
proof (induction n rule: dec.induct)
  case (1 n)
  have "int (n div 10) * 10 + int (n mod 10) = int n" by (simp add: zdiv_int zmod_int)
  with 1 show ?case
    by (cases "n < 10") (simp_all add: dec.simps [of n] digits_value_append)
qed

lemma digits_value_zeros: "digits_value 0 (replicate k 0x30 @ s) = digits_value 0 s"
  by (induction k) (simp_all add: is_ascii_digit_def digit_val_def)

lemma dec_digits: "list_all is_ascii_digit (dec n)"
  by (induction n rule: dec.induct) (subst dec.simps, auto)

lemma length_dec: "n < 10 ^ k \<Longrightarrow> 0 < k \<Longrightarrow> length (dec n) \<le> k"
proof (induction k arbitrary: n)
  case (Suc k)
  show ?case
  proof (cases "n < 10")
    case True
    then show ?thesis by (simp add: dec.simps [of n])
  next
    case False
    with Suc.prems have "n div 10 < 10 ^ k" "0 < k" by (auto simp: less_mult_imp_div_less intro: ccontr)
    with Suc.IH False show ?thesis by (simp add: dec.simps [of n])
  qed
qed simp

lemma parse_i64_dec_int: "in_i64 i \<Longrightarrow> parse_i64 (dec_int i) = Some i"
proof -
  have h: "hd (dec n) \<noteq> 0x2d" "hd (dec n) \<noteq> 0x2b" for n
    using dec_hd [of n] digit_not(2) [of "hd (dec n)"] by (auto simp: is_ascii_digit_def word_le_nat_alt)
  assume "in_i64 i"
  then show ?thesis
    by (cases "i < 0")
      (auto simp: parse_i64_def dec_int_def parse_digits_def digits_value_dec dec_hd h Let_def)
qed

lemma split_once_append: "c \<notin> set xs \<Longrightarrow> split_once c (xs @ c # ys) = Some (xs, ys)"
  by (induction xs) auto

lemma dec_int_no_dot: "0x2e \<notin> set (dec_int i)"
proof -
  have "0x2e \<notin> set (dec n)" for n
    using dec_digits [of n] by (auto simp: list_all_iff is_ascii_digit_def word_le_nat_alt)
  then show ?thesis by (simp add: dec_int_def)
qed

lemma pad_left_10_dec:
  assumes "n < 2 ^ 32"
  shows "length (pad_left_10 (dec n)) = 10" "list_all is_ascii_digit (pad_left_10 (dec n))"
    "parse_u64 (pad_left_10 (dec n)) = Some (int n)"
proof -
  from assms have "length (dec n) \<le> 10" by (intro length_dec) simp_all
  then show l: "length (pad_left_10 (dec n)) = 10" by (simp add: pad_left_10_def)
  show d: "list_all is_ascii_digit (pad_left_10 (dec n))"
    using dec_digits by (auto simp: pad_left_10_def list_all_iff is_ascii_digit_def)
  have ne: "pad_left_10 (dec n) \<noteq> []" using l by auto
  then have "is_ascii_digit (hd (pad_left_10 (dec n)))" using d by (simp add: list_all_iff)
  then have "hd (pad_left_10 (dec n)) \<noteq> 0x2b" by (auto simp: is_ascii_digit_def word_le_nat_alt)
  with ne assms show "parse_u64 (pad_left_10 (dec n)) = Some (int n)"
    by (simp add: parse_u64_def parse_digits_def) (simp add: pad_left_10_def digits_value_zeros digits_value_dec)
qed

lemma key_parts_escape:
  "key_parts part (concat (map key_escape c) @ r) = key_parts (part @ c) r"
proof (induction c arbitrary: part)
  case (Cons b c)
  show ?case using Cons.IH [of "part @ [b]"] by (simp add: key_escape_def)
qed simp

lemma key_comps_parts:
  "key_comps True cs = Inr k \<Longrightarrow> key_parts part k = Inr (part # cs)"
proof (induction cs arbitrary: part k)
  case (Cons c cs)
  from Cons.prems obtain r where r: "key_comps True cs = Inr r" "k = 0x2f # concat (map key_escape c) @ r"
    by (auto split: if_splits)
  from Cons.IH [OF r(1)] show ?case by (simp add: r(2) key_parts_escape)
qed simp

lemma encode_principal_key_parts:
  assumes "encode_principal_key n = Inr k" "name_string n \<noteq> []"
  shows "key_parts [] k = Inr (name_string n)"
proof -
  from assms obtain c cs r where n: "name_string n = c # cs" and r: "key_comps True cs = Inr r"
    "k = concat (map key_escape c) @ r"
    by (cases "name_string n") (auto simp: encode_principal_key_def split: if_splits)
  with key_comps_parts [OF r(1)] show ?thesis by (simp add: key_parts_escape)
qed

lemma key_comps_ok: "is_ok (key_comps later cs) \<longleftrightarrow> list_all valid_utf8 cs"
proof (induction cs arbitrary: later)
  case (Cons c cs)
  show ?case using Cons.IH [of True] by (cases "key_comps True cs") auto
qed simp

lemma ptl_u16_le16 [simp]: "ptl_u16 (le16 w @ s) = Inr (w, s)"
  by (simp add: ptl_u16_def)

lemma ptl_u16_InrD: "ptl_u16 s = Inr (w, t) \<Longrightarrow> s = le16 w @ t"
  by (auto simp: ptl_u16_def dest!: rd_take_InrD)

interpretation ptl: codec tl_enc ptl_element tl_wf
  by unfold_locales (simp add: ptl_element_def tl_enc_def tl_wf_def unat_of_nat)

lemma ptl_len_Inr: "ptl_len n = Inr w \<longleftrightarrow> n < 2 ^ 16 \<and> w = word_of_nat n"
  by (auto simp: ptl_len_def)

lemma ptl_elements_Inr:
  "ptl_elements ts = Inr b \<longleftrightarrow> list_all tl_wf ts \<and> b = concat (map tl_enc ts)"
  by (induction ts arbitrary: b)
    (auto simp: rbind_eq_Inr ptl_len_Inr tl_wf_def tl_enc_def)

lemma decode_encode_tl_data:
  assumes "encode_tl_data ts = Inr b"
  shows "decode_tl_data b = Inr ts"
proof (cases "ts = []")
  case True
  with assms show ?thesis by (simp add: encode_tl_data_def decode_tl_data_def)
next
  case False
  with assms have b: "b = Some (le16 (word_of_nat (length ts)) @ concat (map tl_enc ts))"
    "length ts < 2 ^ 16" "list_all tl_wf ts"
    by (auto simp: encode_tl_data_def ptl_len_Inr ptl_elements_Inr)
  have "le16 w \<noteq> []" for w by (metis length_int_bytes(3) list.size(3) zero_neq_numeral)
  with b ptl.rd_n_enc [of ts "[]"] show ?thesis by (simp add: decode_tl_data_def unat_of_nat)
qed

section \<open>Properties\<close>

text \<open>
  a timestamp printed is parsed back to itself, whatever its wall time and logical counter, so
  the name of a rebuilt database and a timestamp column determine the timestamp.
\<close>

theorem ts_from_to_string:
  assumes "in_i64 (wall_nanos t)"
  shows "ts_from_str (ts_to_string t) = Inr t"
proof -
  have l: "unat (logical t) < 2 ^ 32" using unsigned_less [of "logical t", where 'a = nat] by simp
  note p = pad_left_10_dec [OF l]
  have "split_once 0x2e (ts_to_string t) = Some (dec_int (wall_nanos t), pad_left_10 (dec (unat (logical t))))"
    using split_once_append [OF dec_int_no_dot] by (simp add: ts_to_string_def)
  moreover have "word_of_int (int (unat (logical t))) = logical t" by simp
  moreover have "int (unat (logical t)) < 2 ^ 32" using l by (metis of_nat_less_iff of_nat_numeral of_nat_power)
  ultimately show ?thesis
    using p by (simp only: ts_from_str_def option.case prod.case parse_i64_dec_int [OF assms] ok_or_simps
        rbind.simps pad_right_10_def diff_self_eq_0 replicate_0 append_Nil2 less_irrefl simp_thms if_True if_False
        ReplicationTs.collapse)
qed

theorem ts_from_to_string_witness:
  "ts_from_str (ts_to_string (ReplicationTs (- 5) 4000000000)) = Inr (ReplicationTs (- 5) 4000000000)"
  using ts_from_to_string [of "ReplicationTs (- 5) 4000000000"] by (simp add: in_i64_def i64_min_def i64_max_def)

text \<open>The doc comment of \<open>from_str\<close> reads \<open>1.5\<close> as logical 5000000000, which does not fit its 32 bits.\<close>

lemma ts_from_str_half: "ts_from_str (ascii ''1.5'') = Inl (ParseTsError (ascii ''1.5''))"
  by code_simp

text \<open>
  the key string of a principal name with at least one component is decoded to the same
  components, so no two such names share the row of a replica; it exists when every component is
  UTF-8.
\<close>

theorem principal_key_roundtrip:
  assumes "name_string n \<noteq> []" "list_all valid_utf8 (name_string n)" "list_all gs (name_string n)"
  shows "\<exists>k. encode_principal_key n = Inr k \<and> decode_principal_key gs k nt = Inr (n\<lparr>name_type := nt\<rparr>) \<and>
    (\<forall>m. name_string m \<noteq> [] \<and> encode_principal_key m = Inr k \<longrightarrow> names_equal m n)"
proof -
  from assms obtain k where k: "encode_principal_key n = Inr k"
    using key_comps_ok [of False "name_string n"] by (cases "encode_principal_key n") (auto simp: encode_principal_key_def)
  note parts = encode_principal_key_parts [OF k assms(1)]
  have "decode_principal_key gs k nt = Inr (n\<lparr>name_type := nt\<rparr>)"
    using parts assms(3) by (simp add: decode_principal_key_def)
  moreover have "names_equal m n" if "name_string m \<noteq> []" "encode_principal_key m = Inr k" for m
    using encode_principal_key_parts [OF that(2,1)] parts by (simp add: names_equal_def)
  ultimately show ?thesis using k by blast
qed

theorem principal_key_roundtrip_witness:
  "\<exists>k. encode_principal_key \<lparr>name_type = 1, name_string = [ascii ''a/b'', ascii ''c'']\<rparr> = Inr k \<and>
     decode_principal_key (\<lambda>_. True) k 2 = Inr \<lparr>name_type = 2, name_string = [ascii ''a/b'', ascii ''c'']\<rparr>"
proof -
  have "list_all valid_utf8 [ascii ''a/b'', ascii ''c'']" by code_simp
  with principal_key_roundtrip [of "\<lparr>name_type = 1, name_string = [ascii ''a/b'', ascii ''c'']\<rparr>" "\<lambda>_. True" 2]
  show ?thesis by auto
qed

end
