(* ===== verification/Replica_Db.thy ===== *)
theory Replica_Db
  imports Replication
begin

text \<open>
  The rows of the local replica and how replicated changes are applied to them,
  \<open>src/crates/krb5-rs-kdb-turso/src/changes.rs\<close> over the tables of its migrations (\<open>v1.sql\<close> to
  \<open>v3.sql\<close>).

  A table is the list of its rows. The SQL of the source is written out: \<open>SELECT\<close> filters, \<open>UPDATE\<close>
  maps, \<open>INSERT\<close> appends a row with a fresh rowid and fails on a duplicate in a \<open>UNIQUE\<close> index. A
  column has the type the schema gives it, so the type errors of \<open>db.rs\<close>' column readers do not occur;
  range errors do.

  Code that runs in a transaction is a function of a connection \<open>conn\<close>: the tables it sees and the
  failures the database is going to report, one entry per statement (\<open>None\<close>: the statement runs).
  The list is arbitrary, so the theorems hold for a failure at any statement.
\<close>

section \<open>Tables\<close>

record ('k, 'c) vrow =
  v_id :: int
  v_key :: 'k
  v_cols :: 'c
  v_wall :: int
  v_logical :: int
  v_deleted :: bool

record PrincipalCols =
  pc_name_type :: int
  pc_attributes :: int
  pc_max_life :: "int option"
  pc_max_renewable_life :: "int option"
  pc_expiration :: "int option"
  pc_pw_expiration :: "int option"
  pc_last_pwd_change :: "int option"
  pc_mod_time :: "int option"
  pc_policy :: "bytes option"
  pc_security_epoch :: int
  pc_last_admin_unlock :: "int option"
  pc_delegate_to :: bytes
  pc_delegate_from :: bytes
  pc_tl_data :: "bytes option"

record KeyRow =
  kr_principal_id :: int
  kr_kvno :: int
  kr_enctype :: int
  kr_mkvno :: int
  kr_enc_key :: bytes
  kr_salt :: "bytes option"
  kr_s2kparams :: "bytes option"

record PolicyCols =
  oc_pw_min_life :: int
  oc_pw_max_life :: int
  oc_pw_min_length :: int
  oc_pw_min_classes :: int
  oc_pw_history_num :: int
  oc_pw_max_fail :: int
  oc_pw_failcnt_interval :: int
  oc_pw_lockout_duration :: int
  oc_attributes :: int
  oc_max_life :: int
  oc_max_renewable_life :: int
  oc_allowed_keysalts :: "bytes option"
  oc_security_epoch :: int
  oc_tl_data :: "bytes option"

record LockoutCols =
  lc_name_type :: int
  lc_locked_at :: int
  lc_unlock_at :: "int option"
  lc_source_kdc :: bytes

record StateRow =
  st_checkpoint_wall :: int
  st_checkpoint_logical :: int
  st_snapshot_wall :: "int option"
  st_snapshot_logical :: "int option"
  st_last_success_unix :: int

record AuthRow =
  ar_realm :: bytes
  ar_name :: bytes
  ar_fail_count :: int
  ar_last_failed :: int
  ar_last_success :: int

record Tables =
  t_principals :: "(bytes \<times> bytes, PrincipalCols) vrow list"
  t_keys :: "KeyRow list"
  t_policies :: "(bytes, PolicyCols) vrow list"
  t_lockouts :: "(bytes \<times> bytes, LockoutCols) vrow list"
  t_state :: "StateRow option"
  t_auth :: "AuthRow list"

definition empty_tables :: Tables where
  "empty_tables = \<lparr>t_principals = [], t_keys = [], t_policies = [], t_lockouts = [], t_state = None, t_auth = []\<rparr>"

section \<open>Statements\<close>

datatype TursoError =
    T_Busy string | T_BusySnapshot string | T_Interrupt string | T_IoError string | T_Readonly string
  | T_Corrupt string | T_NotAdb string | T_Constraint string | T_Error string | T_Other string

datatype TxError = Tx_Turso TursoError | Tx_Store StoreError

fun map_err :: "TursoError \<Rightarrow> StoreError" where
  "map_err (T_Busy m) = se_unavailable m"
| "map_err (T_BusySnapshot m) = se_unavailable m"
| "map_err (T_Interrupt m) = se_unavailable m"
| "map_err (T_IoError m) = se_unavailable m"
| "map_err (T_Readonly m) = se_unavailable m"
| "map_err (T_Corrupt m) = se_corrupt m"
| "map_err (T_NotAdb m) = se_corrupt m"
| "map_err (T_Constraint m) = se_conflict m"
| "map_err (T_Error m) = se_backend m"
| "map_err (T_Other m) = se_backend m"

fun into_store :: "TxError \<Rightarrow> StoreError" where
  "into_store (Tx_Turso e) = map_err e"
| "into_store (Tx_Store e) = e"

definition starts_with :: "string \<Rightarrow> string \<Rightarrow> bool" where
  "starts_with s p \<longleftrightarrow> take (length p) s = p"

fun is_conflict :: "TursoError \<Rightarrow> bool" where
  "is_conflict (T_Busy _) = True"
| "is_conflict (T_BusySnapshot _) = True"
| "is_conflict (T_Error m) =
     (starts_with m ''Write-write conflict'' \<or> starts_with m ''Conflict'' \<or> starts_with m ''Transaction terminated'')"
| "is_conflict _ = False"

record conn =
  c_tables :: Tables
  c_script :: "TursoError option list"

type_synonym 'a tx = "conn \<Rightarrow> (TxError + 'a) \<times> conn"

definition treturn :: "'a \<Rightarrow> 'a tx" where "treturn x c = (Inr x, c)"

definition tbind :: "'a tx \<Rightarrow> ('a \<Rightarrow> 'b tx) \<Rightarrow> 'b tx" where
  "tbind m f c = (case m c of (Inl e, c) \<Rightarrow> (Inl e, c) | (Inr x, c) \<Rightarrow> f x c)"

definition tlift :: "StoreError + 'a \<Rightarrow> 'a tx" where
  "tlift r c = (case r of Inl e \<Rightarrow> (Inl (Tx_Store e), c) | Inr x \<Rightarrow> (Inr x, c))"

definition statement :: "(Tables \<Rightarrow> TursoError + 'a \<times> Tables) \<Rightarrow> 'a tx" where
  "statement f c =
     (let c' = c\<lparr>c_script := tl (c_script c)\<rparr> in
      case c_script c of
        Some e # _ \<Rightarrow> (Inl (Tx_Turso e), c')
      | _ \<Rightarrow> (case f (c_tables c) of
          Inl e \<Rightarrow> (Inl (Tx_Turso e), c')
        | Inr (x, t) \<Rightarrow> (Inr x, c'\<lparr>c_tables := t\<rparr>)))"

definition sql_query :: "(Tables \<Rightarrow> 'a) \<Rightarrow> 'a tx" where
  "sql_query f = statement (\<lambda>t. Inr (f t, t))"

definition sql_exec :: "(Tables \<Rightarrow> TursoError + Tables) \<Rightarrow> unit tx" where
  "sql_exec f = statement (\<lambda>t. case f t of Inl e \<Rightarrow> Inl e | Inr t \<Rightarrow> Inr ((), t))"

definition next_rowid :: "('k, 'c) vrow list \<Rightarrow> int" where
  "next_rowid rows = fold max (map v_id rows) 0 + 1"

definition vt_select :: "'k \<Rightarrow> ('k, 'c) vrow list \<Rightarrow> ('k, 'c) vrow list" where
  "vt_select k rows = filter (\<lambda>r. v_key r = k) rows"

definition vt_update :: "int \<Rightarrow> (('k, 'c) vrow \<Rightarrow> ('k, 'c) vrow) \<Rightarrow> ('k, 'c) vrow list \<Rightarrow> ('k, 'c) vrow list" where
  "vt_update i f rows = map (\<lambda>r. if v_id r = i then f r else r) rows"

definition vt_insert ::
  "'k \<Rightarrow> 'c \<Rightarrow> ReplicationTs \<Rightarrow> bool \<Rightarrow> ('k, 'c) vrow list \<Rightarrow> TursoError + ('k, 'c) vrow list" where
  "vt_insert k cols ver del rows =
     (if k \<in> set (map v_key rows) then Inl (T_Constraint ''UNIQUE constraint failed'')
      else Inr (rows @ [\<lparr>v_id = next_rowid rows, v_key = k, v_cols = cols, v_wall = wall_nanos ver,
                         v_logical = uint (logical ver), v_deleted = del\<rparr>]))"

section \<open>Column codecs\<close>

definition u_val :: "u64 \<Rightarrow> StoreError + int" where
  "u_val n = (if uint n \<le> i64_max then Inr (uint n) else Inl (se_conflict ''value out of range''))"

definition opt_u :: "u64 option \<Rightarrow> StoreError + int option" where
  "opt_u n = (case n of None \<Rightarrow> Inr None | Some x \<Rightarrow> rbind (u_val x) (\<lambda>i. Inr (Some i)))"

fun join_list :: "bytes list \<Rightarrow> bytes" where
  "join_list [] = []"
| "join_list [x] = x"
| "join_list (x # xs) = x @ 0x0a # join_list xs"

fun split_nl :: "bytes \<Rightarrow> bytes \<Rightarrow> bytes list" where
  "split_nl cur [] = [cur]"
| "split_nl cur (b # bs) = (if b = 0x0a then cur # split_nl [] bs else split_nl (cur @ [b]) bs)"

definition split_list :: "bytes \<Rightarrow> bytes list" where
  "split_list s = (if s = [] then [] else split_nl [] s)"

definition try_u32 :: "string \<Rightarrow> int \<Rightarrow> StoreError + u32" where
  "try_u32 msg i = (if 0 \<le> i \<and> i < 2 ^ 32 then Inr (word_of_int i) else Inl (se_corrupt msg))"

definition try_i32 :: "string \<Rightarrow> int \<Rightarrow> StoreError + int" where
  "try_i32 msg i = (if i32_min \<le> i \<and> i \<le> i32_max then Inr i else Inl (se_corrupt msg))"

definition try_u64 :: "string \<Rightarrow> int \<Rightarrow> StoreError + u64" where
  "try_u64 msg i = (if 0 \<le> i then Inr (word_of_int i) else Inl (se_corrupt msg))"

definition opt_u64 :: "string \<Rightarrow> int option \<Rightarrow> StoreError + u64 option" where
  "opt_u64 msg i = (case i of None \<Rightarrow> Inr None | Some x \<Rightarrow> rbind (try_u64 msg x) (\<lambda>w. Inr (Some w)))"

definition read_version :: "('k, 'c) vrow \<Rightarrow> StoreError + ReplicationTs" where
  "read_version row = rbind (try_u32 ''logical version out of range'' (v_logical row)) (\<lambda>l.
     Inr (ReplicationTs (v_wall row) l))"

section \<open>Applying a change\<close>

definition principal_fields :: "StoredPrincipal \<Rightarrow> StoreError + PrincipalCols" where
  "principal_fields p =
     rbind (opt_u (sp_max_life p)) (\<lambda>ml.
     rbind (opt_u (sp_max_renewable_life p)) (\<lambda>mrl.
     rbind (u_val (sp_security_epoch p)) (\<lambda>ep.
     rbind (encode_tl_data (sp_tl_data p)) (\<lambda>tlb.
       Inr \<lparr>pc_name_type = name_type (sp_name p), pc_attributes = uint (sp_attributes p),
            pc_max_life = ml, pc_max_renewable_life = mrl, pc_expiration = sp_expiration p,
            pc_pw_expiration = sp_pw_expiration p, pc_last_pwd_change = sp_last_pwd_change p,
            pc_mod_time = sp_mod_time p, pc_policy = sp_policy p, pc_security_epoch = ep,
            pc_last_admin_unlock = sp_last_admin_unlock p,
            pc_delegate_to = join_list (sp_delegate_to p),
            pc_delegate_from = join_list (sp_delegate_from p), pc_tl_data = tlb\<rparr>))))"

definition key_row :: "int \<Rightarrow> StoredKey \<Rightarrow> KeyRow" where
  "key_row pid k = \<lparr>kr_principal_id = pid, kr_kvno = uint (sk_kvno k), kr_enctype = sk_enctype k,
     kr_mkvno = uint (sk_mkvno k), kr_enc_key = sk_enc_key k, kr_salt = sk_salt k,
     kr_s2kparams = sk_s2kparams k\<rparr>"

definition kr_index :: "KeyRow \<Rightarrow> int \<times> int \<times> int" where
  "kr_index r = (kr_principal_id r, kr_kvno r, kr_enctype r)"

definition insert_key :: "KeyRow \<Rightarrow> Tables \<Rightarrow> TursoError + Tables" where
  "insert_key r t =
     (if kr_index r \<in> set (map kr_index (t_keys t)) then Inl (T_Constraint ''UNIQUE constraint failed'')
      else Inr (t\<lparr>t_keys := t_keys t @ [r]\<rparr>))"

fun insert_keys :: "int \<Rightarrow> StoredKey list \<Rightarrow> unit tx" where
  "insert_keys pid [] = treturn ()"
| "insert_keys pid (k # ks) = tbind (sql_exec (insert_key (key_row pid k))) (\<lambda>_. insert_keys pid ks)"

definition delete_keys :: "int \<Rightarrow> unit tx" where
  "delete_keys pid = sql_exec (\<lambda>t. Inr (t\<lparr>t_keys := filter (\<lambda>r. kr_principal_id r \<noteq> pid) (t_keys t)\<rparr>))"

text \<open>\<open>UPDATE ... SET \<dots>, version_wall = ?, version_logical = ?, deleted = ? WHERE id = ?\<close>.\<close>

definition set_row :: "'c \<Rightarrow> ReplicationTs \<Rightarrow> bool \<Rightarrow> ('k, 'c) vrow \<Rightarrow> ('k, 'c) vrow" where
  "set_row cols ver del r =
     r\<lparr>v_cols := cols, v_wall := wall_nanos ver, v_logical := uint (logical ver), v_deleted := del\<rparr>"

definition mark_deleted :: "ReplicationTs \<Rightarrow> ('k, 'c) vrow \<Rightarrow> ('k, 'c) vrow" where
  "mark_deleted ver r = r\<lparr>v_wall := wall_nanos ver, v_logical := uint (logical ver), v_deleted := True\<rparr>"

text \<open>
  The guard every operation starts with: the first row of the query, skipped as stale when its version
  is not older than the change's.
\<close>

definition unless_stale ::
  "('k, 'c) vrow list \<Rightarrow> ReplicationTs \<Rightarrow> (int option \<Rightarrow> Applied tx) \<Rightarrow> Applied tx" where
  "unless_stale existing ver body = (case existing of
     [] \<Rightarrow> body None
   | row # _ \<Rightarrow> tbind (tlift (read_version row)) (\<lambda>w.
       if ver \<le> w then treturn Applied_Stale else body (Some (v_id row))))"

text \<open>The two statements an operation on a single table ends with.\<close>

definition put_row ::
  "(Tables \<Rightarrow> ('k, 'c) vrow list) \<Rightarrow> (('k, 'c) vrow list \<Rightarrow> Tables \<Rightarrow> Tables) \<Rightarrow> 'k \<Rightarrow> 'c \<Rightarrow> ReplicationTs \<Rightarrow> bool \<Rightarrow>
   int option \<Rightarrow> Applied tx" where
  "put_row get put k cols ver del old = (case old of
     Some i \<Rightarrow>
       tbind (sql_exec (\<lambda>t. Inr (put (vt_update i (if del then mark_deleted ver else set_row cols ver False) (get t)) t))) (\<lambda>_.
         treturn Applied_Yes)
   | None \<Rightarrow>
       tbind (sql_exec (\<lambda>t. rbind (vt_insert k cols ver del (get t)) (\<lambda>rows. Inr (put rows t)))) (\<lambda>_.
         treturn Applied_Yes))"

definition principal_id :: "bytes \<times> bytes \<Rightarrow> int tx" where
  "principal_id k = tbind (sql_query (\<lambda>t. vt_select k (t_principals t))) (\<lambda>rows. case rows of
     [] \<Rightarrow> tlift (Inl (se_backend ''inserted principal vanished''))
   | row # _ \<Rightarrow> treturn (v_id row))"

definition update_principal :: "int \<Rightarrow> PrincipalCols \<Rightarrow> ReplicationTs \<Rightarrow> int tx" where
  "update_principal pid cols ver =
     tbind (sql_exec (\<lambda>t. Inr (t\<lparr>t_principals := vt_update pid (set_row cols ver False) (t_principals t)\<rparr>))) (\<lambda>_.
     tbind (delete_keys pid) (\<lambda>_. treturn pid))"

definition insert_principal :: "bytes \<times> bytes \<Rightarrow> PrincipalCols \<Rightarrow> ReplicationTs \<Rightarrow> int tx" where
  "insert_principal k cols ver =
     tbind (sql_exec (\<lambda>t. rbind (vt_insert k cols ver False (t_principals t)) (\<lambda>rows.
       Inr (t\<lparr>t_principals := rows\<rparr>)))) (\<lambda>_. principal_id k)"

definition write_principal :: "StoredPrincipal \<Rightarrow> bytes \<Rightarrow> ReplicationTs \<Rightarrow> int option \<Rightarrow> Applied tx" where
  "write_principal p name ver old =
     tbind (tlift (principal_fields p)) (\<lambda>cols.
     tbind (case old of
         Some pid \<Rightarrow> update_principal pid cols ver
       | None \<Rightarrow> insert_principal (sp_realm p, name) cols ver) (\<lambda>pid.
     tbind (insert_keys pid (sp_keys p)) (\<lambda>_. treturn Applied_Yes)))"

definition upsert_principal :: "StoredPrincipal \<Rightarrow> ReplicationTs \<Rightarrow> Applied tx" where
  "upsert_principal p ver =
     tbind (tlift (encode_principal_key (sp_name p))) (\<lambda>name.
     tbind (sql_query (\<lambda>t. vt_select (sp_realm p, name) (t_principals t))) (\<lambda>existing.
       unless_stale existing ver (write_principal p name ver)))"

definition tombstone_principal :: "int \<Rightarrow> PrincipalCols" where
  "tombstone_principal nt = \<lparr>pc_name_type = nt, pc_attributes = 0, pc_max_life = None,
     pc_max_renewable_life = None, pc_expiration = None, pc_pw_expiration = None, pc_last_pwd_change = None,
     pc_mod_time = None, pc_policy = None, pc_security_epoch = 0, pc_last_admin_unlock = None,
     pc_delegate_to = [], pc_delegate_from = [], pc_tl_data = None\<rparr>"

definition remove_principal :: "bytes \<times> bytes \<Rightarrow> int \<Rightarrow> ReplicationTs \<Rightarrow> int option \<Rightarrow> Applied tx" where
  "remove_principal k nt ver old = (case old of
     Some pid \<Rightarrow>
       tbind (delete_keys pid) (\<lambda>_.
       tbind (sql_exec (\<lambda>t. Inr (t\<lparr>t_principals := vt_update pid (mark_deleted ver) (t_principals t)\<rparr>))) (\<lambda>_.
         treturn Applied_Yes))
   | None \<Rightarrow>
       tbind (sql_exec (\<lambda>t. rbind (vt_insert k (tombstone_principal nt) ver True (t_principals t))
         (\<lambda>rows. Inr (t\<lparr>t_principals := rows\<rparr>)))) (\<lambda>_. treturn Applied_Yes))"

definition delete_principal :: "bytes \<Rightarrow> PrincipalName \<Rightarrow> ReplicationTs \<Rightarrow> Applied tx" where
  "delete_principal realm name ver =
     tbind (tlift (encode_principal_key name)) (\<lambda>key.
     tbind (sql_query (\<lambda>t. vt_select (realm, key) (t_principals t))) (\<lambda>existing.
       unless_stale existing ver (remove_principal (realm, key) (name_type name) ver)))"

definition policy_fields :: "StoredPolicy \<Rightarrow> StoreError + PolicyCols" where
  "policy_fields p =
     rbind (if pol_tl_data p = [] then Inr None
            else rbind (tl_data_bytes (pol_tl_data p)) (\<lambda>b. Inr (Some b))) (\<lambda>tlb.
     Inr \<lparr>oc_pw_min_life = uint (pw_min_life p), oc_pw_max_life = uint (pw_max_life p),
          oc_pw_min_length = uint (pw_min_length p), oc_pw_min_classes = uint (pw_min_classes p),
          oc_pw_history_num = uint (pw_history_num p), oc_pw_max_fail = uint (pw_max_fail p),
          oc_pw_failcnt_interval = uint (pw_failcnt_interval p),
          oc_pw_lockout_duration = uint (pw_lockout_duration p), oc_attributes = uint (pol_attributes p),
          oc_max_life = uint (pol_max_life p), oc_max_renewable_life = uint (pol_max_renewable_life p),
          oc_allowed_keysalts = allowed_keysalts p,
          oc_security_epoch = min (uint (pol_security_epoch p)) i64_max, oc_tl_data = tlb\<rparr>)"

definition upsert_policy :: "StoredPolicy \<Rightarrow> ReplicationTs \<Rightarrow> Applied tx" where
  "upsert_policy p ver =
     tbind (sql_query (\<lambda>t. vt_select (pol_name p) (t_policies t))) (\<lambda>existing.
     tbind (tlift (policy_fields p)) (\<lambda>cols.
     unless_stale existing ver
       (put_row t_policies (\<lambda>rows t. t\<lparr>t_policies := rows\<rparr>) (pol_name p) cols ver False)))"

definition tombstone_policy :: PolicyCols where
  "tombstone_policy = \<lparr>oc_pw_min_life = 0, oc_pw_max_life = 0, oc_pw_min_length = 0, oc_pw_min_classes = 0,
     oc_pw_history_num = 0, oc_pw_max_fail = 0, oc_pw_failcnt_interval = 0, oc_pw_lockout_duration = 0,
     oc_attributes = 0, oc_max_life = 0, oc_max_renewable_life = 0, oc_allowed_keysalts = None,
     oc_security_epoch = 0, oc_tl_data = None\<rparr>"

definition delete_policy :: "bytes \<Rightarrow> ReplicationTs \<Rightarrow> Applied tx" where
  "delete_policy name ver =
     tbind (sql_query (\<lambda>t. vt_select name (t_policies t))) (\<lambda>existing.
     unless_stale existing ver
       (put_row t_policies (\<lambda>rows t. t\<lparr>t_policies := rows\<rparr>) name tombstone_policy ver True))"

definition lockout_fields :: "LockoutRecord \<Rightarrow> LockoutCols" where
  "lockout_fields r = \<lparr>lc_name_type = name_type (lo_name r), lc_locked_at = lo_locked_at r,
     lc_unlock_at = lo_unlock_at r, lc_source_kdc = lo_source_kdc r\<rparr>"

definition upsert_lockout :: "LockoutRecord \<Rightarrow> ReplicationTs \<Rightarrow> Applied tx" where
  "upsert_lockout r ver =
     tbind (tlift (encode_principal_key (lo_name r))) (\<lambda>key.
     tbind (sql_query (\<lambda>t. vt_select (lo_realm r, key) (t_lockouts t))) (\<lambda>existing.
     unless_stale existing ver
       (put_row t_lockouts (\<lambda>rows t. t\<lparr>t_lockouts := rows\<rparr>) (lo_realm r, key) (lockout_fields r) ver False)))"

definition tombstone_lockout :: "int \<Rightarrow> LockoutCols" where
  "tombstone_lockout nt = \<lparr>lc_name_type = nt, lc_locked_at = 0, lc_unlock_at = None, lc_source_kdc = []\<rparr>"

definition delete_lockout :: "bytes \<Rightarrow> PrincipalName \<Rightarrow> ReplicationTs \<Rightarrow> Applied tx" where
  "delete_lockout realm name ver =
     tbind (tlift (encode_principal_key name)) (\<lambda>key.
     tbind (sql_query (\<lambda>t. vt_select (realm, key) (t_lockouts t))) (\<lambda>existing.
     unless_stale existing ver
       (put_row t_lockouts (\<lambda>rows t. t\<lparr>t_lockouts := rows\<rparr>) (realm, key) (tombstone_lockout (name_type name)) ver True)))"

fun apply_change :: "Change \<Rightarrow> Applied tx" where
  "apply_change (UpsertPrincipal p v) = upsert_principal p v"
| "apply_change (DeletePrincipal realm name v) = delete_principal realm name v"
| "apply_change (UpsertPolicy p v) = upsert_policy p v"
| "apply_change (DeletePolicy name v) = delete_policy name v"
| "apply_change (UpsertLockout r v) = upsert_lockout r v"
| "apply_change (DeleteLockout realm name v) = delete_lockout realm name v"

definition apply_changes :: "Change list \<Rightarrow> (nat \<times> nat) tx" where
  "apply_changes cs = count_changes apply_change cs 0 0"

section \<open>The checkpoint\<close>

definition checkpoint_of_row :: "StateRow \<Rightarrow> StoreError + ReplicaCheckpoint" where
  "checkpoint_of_row r =
     (let logical_part = try_u32 ''checkpoint logical part out of range'' in
      rbind (case (st_snapshot_wall r, st_snapshot_logical r) of
          (Some w, Some l) \<Rightarrow> rbind (logical_part l) (\<lambda>l. Inr (Some (ReplicationTs w l)))
        | _ \<Rightarrow> Inr None) (\<lambda>snap.
      rbind (logical_part (st_checkpoint_logical r)) (\<lambda>l.
        Inr \<lparr>cp_ts = ReplicationTs (st_checkpoint_wall r) l, cp_snapshot_ts = snap,
             cp_applied_at = st_last_success_unix r\<rparr>)))"

definition checkpoint_value :: "Tables \<Rightarrow> StoreError + ReplicaCheckpoint option" where
  "checkpoint_value t = (case t_state t of
     None \<Rightarrow> Inr None
   | Some r \<Rightarrow> rbind (checkpoint_of_row r) (\<lambda>cp. Inr (Some cp)))"

text \<open>A helper that returns a \<open>StoreError\<close>: its caller no longer sees the database's own error.\<close>

definition tmap_err :: "'a tx \<Rightarrow> 'a tx" where
  "tmap_err m c = (case m c of (Inl e, c) \<Rightarrow> (Inl (Tx_Store (into_store e)), c) | (Inr x, c) \<Rightarrow> (Inr x, c))"

definition read_checkpoint :: "ReplicaCheckpoint option tx" where
  "read_checkpoint = tmap_err (tbind (sql_query checkpoint_value) tlift)"

definition write_checkpoint :: "int \<Rightarrow> ReplicationTs \<Rightarrow> ReplicationTs option \<Rightarrow> unit tx" where
  "write_checkpoint now ts snapshot = tbind read_checkpoint (\<lambda>current. case current of
     None \<Rightarrow> sql_exec (\<lambda>t. Inr (t\<lparr>t_state := Some
         \<lparr>st_checkpoint_wall = wall_nanos ts, st_checkpoint_logical = uint (logical ts),
          st_snapshot_wall = map_option wall_nanos snapshot,
          st_snapshot_logical = map_option (uint \<circ> logical) snapshot, st_last_success_unix = now\<rparr>\<rparr>))
   | Some cur \<Rightarrow> (let ts = max ts (cp_ts cur) in
       sql_exec (\<lambda>t. Inr (t\<lparr>t_state := map_option (\<lambda>r. r\<lparr>st_checkpoint_wall := wall_nanos ts,
         st_checkpoint_logical := uint (logical ts), st_last_success_unix := now\<rparr>) (t_state t)\<rparr>))))"

section \<open>Reading\<close>

text \<open>
  The rows of \<open>LOOKUP_SQL\<close>: each live principal row with each of its keys, newest kvno first and then
  by enctype, or with no key (the \<open>LEFT JOIN\<close>).
\<close>

definition keys_of :: "int \<Rightarrow> Tables \<Rightarrow> KeyRow list" where
  "keys_of pid t = sort_key (\<lambda>k. - kr_kvno k) (sort_key kr_enctype (filter (\<lambda>k. kr_principal_id k = pid) (t_keys t)))"

definition join_keys :: "PrincipalCols \<Rightarrow> KeyRow list \<Rightarrow> (PrincipalCols \<times> KeyRow option) list" where
  "join_keys cols ks = (case ks of [] \<Rightarrow> [(cols, None)] | ks \<Rightarrow> map (\<lambda>k. (cols, Some k)) ks)"

definition lookup_sql :: "bytes \<Rightarrow> bytes \<Rightarrow> Tables \<Rightarrow> (PrincipalCols \<times> KeyRow option) list" where
  "lookup_sql realm name t =
     concat (map (\<lambda>r. join_keys (v_cols r) (keys_of (v_id r) t))
       (filter (\<lambda>r. \<not> v_deleted r) (vt_select (realm, name) (t_principals t))))"

definition stored_key :: "KeyRow \<Rightarrow> StoreError + StoredKey" where
  "stored_key k =
     rbind (try_u32 ''kvno'' (kr_kvno k)) (\<lambda>kvno.
     rbind (try_i32 ''enctype'' (kr_enctype k)) (\<lambda>etype.
     rbind (try_u32 ''mkvno'' (kr_mkvno k)) (\<lambda>mkvno.
       Inr \<lparr>sk_kvno = kvno, sk_enctype = etype, sk_mkvno = mkvno, sk_enc_key = kr_enc_key k,
            sk_salt = kr_salt k, sk_s2kparams = kr_s2kparams k\<rparr>)))"

fun stored_keys :: "KeyRow option list \<Rightarrow> StoreError + StoredKey list" where
  "stored_keys [] = Inr []"
| "stored_keys (None # rs) = stored_keys rs"
| "stored_keys (Some k # rs) = rbind (stored_key k) (\<lambda>sk. rbind (stored_keys rs) (\<lambda>sks. Inr (sk # sks)))"

definition principal_from_rows ::
  "(bytes \<Rightarrow> bool) \<Rightarrow> bytes \<Rightarrow> bytes \<Rightarrow> (PrincipalCols \<times> KeyRow option) list \<Rightarrow> StoreError + StoredPrincipal option" where
  "principal_from_rows gs realm name_key rows = (case rows of
     [] \<Rightarrow> Inr None
   | (cols, _) # _ \<Rightarrow>
       rbind (try_i32 ''name type out of range'' (pc_name_type cols)) (\<lambda>nt.
       rbind (stored_keys (map snd rows)) (\<lambda>keys.
       rbind (decode_principal_key gs name_key nt) (\<lambda>name.
       rbind (try_u32 ''attributes'' (pc_attributes cols)) (\<lambda>attrs.
       rbind (opt_u64 ''negative value'' (pc_max_life cols)) (\<lambda>ml.
       rbind (opt_u64 ''negative value'' (pc_max_renewable_life cols)) (\<lambda>mrl.
       rbind (try_u64 ''negative value'' (pc_security_epoch cols)) (\<lambda>ep.
       rbind (decode_tl_data (pc_tl_data cols)) (\<lambda>tld.
         Inr (Some \<lparr>sp_name = name, sp_realm = realm, sp_attributes = attrs, sp_max_life = ml,
           sp_max_renewable_life = mrl, sp_expiration = pc_expiration cols,
           sp_pw_expiration = pc_pw_expiration cols, sp_last_pwd_change = pc_last_pwd_change cols,
           sp_mod_time = pc_mod_time cols, sp_keys = keys,
           sp_delegate_to = split_list (pc_delegate_to cols),
           sp_delegate_from = split_list (pc_delegate_from cols), sp_policy = pc_policy cols,
           sp_security_epoch = ep, sp_last_admin_unlock = pc_last_admin_unlock cols,
           sp_tl_data = tld\<rparr>))))))))))"

definition policy_sql :: "bytes \<Rightarrow> Tables \<Rightarrow> (bytes \<times> PolicyCols) list" where
  "policy_sql name t = map (\<lambda>r. (v_key r, v_cols r)) (filter (\<lambda>r. \<not> v_deleted r) (vt_select name (t_policies t)))"

definition policy_from_row :: "bytes \<times> PolicyCols \<Rightarrow> StoreError + StoredPolicy" where
  "policy_from_row row = (case row of (name, c) \<Rightarrow>
     (let n = try_u32 ''policy field out of range'' in
      rbind (n (oc_pw_min_life c)) (\<lambda>min_life.
      rbind (n (oc_pw_max_life c)) (\<lambda>max_life.
      rbind (n (oc_pw_min_length c)) (\<lambda>min_length.
      rbind (n (oc_pw_min_classes c)) (\<lambda>min_classes.
      rbind (n (oc_pw_history_num c)) (\<lambda>history.
      rbind (n (oc_pw_max_fail c)) (\<lambda>maxfail.
      rbind (n (oc_pw_failcnt_interval c)) (\<lambda>interval.
      rbind (n (oc_pw_lockout_duration c)) (\<lambda>dur.
      rbind (n (oc_attributes c)) (\<lambda>attrs.
      rbind (n (oc_max_life c)) (\<lambda>ml.
      rbind (n (oc_max_renewable_life c)) (\<lambda>mrl.
      rbind (try_u64 ''negative epoch'' (oc_security_epoch c)) (\<lambda>ep.
      rbind (tl_data_from_bytes (case oc_tl_data c of None \<Rightarrow> [] | Some b \<Rightarrow> b)) (\<lambda>tld.
        Inr \<lparr>pol_name = name, pw_min_life = min_life, pw_max_life = max_life, pw_min_length = min_length,
          pw_min_classes = min_classes, pw_history_num = history, pw_max_fail = maxfail,
          pw_failcnt_interval = interval, pw_lockout_duration = dur, pol_attributes = attrs,
          pol_max_life = ml, pol_max_renewable_life = mrl, allowed_keysalts = oc_allowed_keysalts c,
          pol_security_epoch = ep, pol_tl_data = tld\<rparr>)))))))))))))))"

section \<open>The replica as versioned entities\<close>

text \<open>
  What a replica holds: for each entity its version and its content as the readers give it, \<open>None\<close> for
  a deleted one.
\<close>

datatype Entity = E_Principal bytes bytes | E_Policy bytes | E_Lockout bytes bytes

datatype Content =
    C_Principal "StoreError + StoredPrincipal option"
  | C_Policy "StoreError + StoredPolicy"
  | C_Lockout LockoutCols

definition row_version :: "('k, 'c) vrow \<Rightarrow> ReplicationTs" where
  "row_version r = ReplicationTs (v_wall r) (word_of_int (v_logical r))"

definition vt_view :: "(('k, 'c) vrow \<Rightarrow> 'v) \<Rightarrow> ('k, 'c) vrow list \<Rightarrow> 'k \<Rightarrow> (ReplicationTs \<times> 'v option) option" where
  "vt_view content rows k = (case vt_select k rows of
     [] \<Rightarrow> None
   | r # _ \<Rightarrow> Some (row_version r, if v_deleted r then None else Some (content r)))"

definition principal_content :: "(bytes \<Rightarrow> bool) \<Rightarrow> Tables \<Rightarrow> (bytes \<times> bytes, PrincipalCols) vrow \<Rightarrow> Content" where
  "principal_content gs t r =
     C_Principal (principal_from_rows gs (fst (v_key r)) (snd (v_key r)) (join_keys (v_cols r) (keys_of (v_id r) t)))"

fun replica_view :: "(bytes \<Rightarrow> bool) \<Rightarrow> Tables \<Rightarrow> (Entity, Content option) versioned" where
  "replica_view gs t (E_Principal realm name) = vt_view (principal_content gs t) (t_principals t) (realm, name)"
| "replica_view gs t (E_Policy name) = vt_view (\<lambda>r. C_Policy (policy_from_row (v_key r, v_cols r))) (t_policies t) name"
| "replica_view gs t (E_Lockout realm name) = vt_view (\<lambda>r. C_Lockout (v_cols r)) (t_lockouts t) (realm, name)"

text \<open>The entity a change is about and the content it gives it.\<close>

definition key_string :: "PrincipalName \<Rightarrow> bytes" where
  "key_string n = (case encode_principal_key n of Inl _ \<Rightarrow> [] | Inr k \<Rightarrow> k)"

definition sort_stored :: "StoredKey list \<Rightarrow> StoredKey list" where
  "sort_stored ks = sort_key (\<lambda>k. - uint (sk_kvno k)) (sort_key sk_enctype ks)"

definition upserted_principal :: "(bytes \<Rightarrow> bool) \<Rightarrow> StoredPrincipal \<Rightarrow> StoreError + StoredPrincipal option" where
  "upserted_principal gs p =
     rbind (principal_fields p) (\<lambda>cols.
       principal_from_rows gs (sp_realm p) (key_string (sp_name p)) (join_keys cols (map (key_row 0) (sort_stored (sp_keys p)))))"

fun change_entity :: "(bytes \<Rightarrow> bool) \<Rightarrow> Change \<Rightarrow> Entity \<times> ReplicationTs \<times> Content option" where
  "change_entity gs (UpsertPrincipal p v) =
     (E_Principal (sp_realm p) (key_string (sp_name p)), v, Some (C_Principal (upserted_principal gs p)))"
| "change_entity gs (DeletePrincipal realm name v) = (E_Principal realm (key_string name), v, None)"
| "change_entity gs (UpsertPolicy p v) =
     (E_Policy (pol_name p), v,
      Some (C_Policy (rbind (policy_fields p) (\<lambda>cols. policy_from_row (pol_name p, cols)))))"
| "change_entity gs (DeletePolicy name v) = (E_Policy name, v, None)"
| "change_entity gs (UpsertLockout r v) =
     (E_Lockout (lo_realm r) (key_string (lo_name r)), v, Some (C_Lockout (lockout_fields r)))"
| "change_entity gs (DeleteLockout realm name v) = (E_Lockout realm (key_string name), v, None)"

text \<open>
  The invariant of the tables: keys are unique in their index, rowids are unique, versions are in
  range, and every key row belongs to a principal row.
\<close>

definition vt_wf :: "('k, 'c) vrow list \<Rightarrow> bool" where
  "vt_wf rows \<longleftrightarrow> distinct (map v_key rows) \<and> distinct (map v_id rows) \<and>
     list_all (\<lambda>r. 0 \<le> v_logical r \<and> v_logical r < 2 ^ 32) rows"

definition tables_wf :: "Tables \<Rightarrow> bool" where
  "tables_wf t \<longleftrightarrow> vt_wf (t_principals t) \<and> vt_wf (t_policies t) \<and> vt_wf (t_lockouts t) \<and>
     distinct (map kr_index (t_keys t)) \<and>
     list_all (\<lambda>k. kr_principal_id k \<in> set (map v_id (t_principals t))) (t_keys t)"

end
