(* ===== verification/Replica_Apply.thy ===== *)
theory Replica_Apply
  imports Replica_Db
begin

text \<open>
  Applying replicated changes implements the last-writer-wins contract: every operation of
  \<open>changes.rs\<close> keeps the invariant of the tables and acts on the replica's view as \<open>lww_put\<close>
  (\<open>apply_change_ok\<close>), which interprets \<open>versioned_store\<close>. From it follow convergence, idempotence and
  what a lookup reads back; a valid change is applied whenever the database reports no failure.
\<close>

section \<open>Lemmas on transactions\<close>

lemma tbind_InrE [elim!]:
  assumes "tbind m f c = (Inr y, c')"
  obtains x c1 where "m c = (Inr x, c1)" "f x c1 = (Inr y, c')"
  using assms by (auto simp: tbind_def split: prod.splits sum.splits)

lemma tlift_InrE [elim!]:
  assumes "tlift r c = (Inr x, c')"
  obtains "r = Inr x" "c' = c"
  using assms by (auto simp: tlift_def split: sum.splits)

lemma treturn_InrE [elim!]:
  assumes "treturn y c = (Inr x, c')"
  obtains "x = y" "c' = c"
  using assms by (auto simp: treturn_def)

lemma sql_query_InrE [elim!]:
  assumes "sql_query f c = (Inr x, c')"
  obtains "x = f (c_tables c)" "c_tables c' = c_tables c"
  using assms by (auto simp: sql_query_def statement_def Let_def split: list.splits option.splits)

lemma sql_exec_InrE [elim!]:
  assumes "sql_exec f c = (Inr x, c')"
  obtains "f (c_tables c) = Inr (c_tables c')"
  using assms
  by (auto simp: sql_exec_def statement_def Let_def split: list.splits option.splits sum.splits)

lemma sql_update_InrE [elim!]:
  assumes "sql_exec (\<lambda>t. Inr (g t)) c = (Inr x, c')"
  obtains "c_tables c' = g (c_tables c)"
  using assms by auto

lemma sql_insert_InrE [elim!]:
  assumes "sql_exec (\<lambda>t. rbind (vt_insert k cols ver del (get t)) (\<lambda>rows. Inr (put rows t))) c = (Inr x, c')"
  obtains rows where "vt_insert k cols ver del (get (c_tables c)) = Inr rows" "c_tables c' = put rows (c_tables c)"
proof -
  from assms have "rbind (vt_insert k cols ver del (get (c_tables c))) (\<lambda>rows. Inr (put rows (c_tables c))) = Inr (c_tables c')"
    by (rule sql_exec_InrE)
  with that show thesis by (auto simp: eq_commute [of _ "c_tables c'"])
qed

lemma tmap_err_InrE [elim!]:
  assumes "tmap_err m c = (Inr x, c')"
  obtains "m c = (Inr x, c')"
  using assms by (auto simp: tmap_err_def split: prod.splits sum.splits)

section \<open>Lemmas on tables\<close>

lemma vt_select_unique:
  assumes "vt_wf rows" "vt_select k rows = r # rs"
  shows "rs = [] \<and> r \<in> set rows \<and> v_key r = k"
proof -
  from assms(1) have "distinct (map v_key rows)" by (simp add: vt_wf_def)
  then have "length (vt_select k rows) \<le> 1"
    unfolding vt_select_def by (induction rows) (auto simp: filter_empty_conv, metis imageI)
  moreover have "r \<in> set (vt_select k rows)" using assms(2) by simp
  ultimately show ?thesis using assms(2) by (auto simp: vt_select_def)
qed

lemma vt_select_Nil: "vt_select k rows = [] \<longleftrightarrow> k \<notin> set (map v_key rows)"
  by (auto simp: vt_select_def filter_empty_conv)

lemma read_version_wf:
  assumes "vt_wf rows" "r \<in> set rows"
  shows "read_version r = Inr (row_version r)"
  using assms by (auto simp: vt_wf_def list_all_iff read_version_def try_u32_def row_version_def)

lemma row_version_set [simp]:
  "row_version (set_row cols ver del r) = ver" "row_version (mark_deleted ver r) = ver"
  by (simp_all add: row_version_def set_row_def mark_deleted_def)

lemma row_fields [simp]:
  "v_key (set_row cols ver del r) = v_key r" "v_id (set_row cols ver del r) = v_id r"
  "v_cols (set_row cols ver del r) = cols" "v_deleted (set_row cols ver del r) = del"
  "v_logical (set_row cols ver del r) = uint (logical ver)"
  "v_key (mark_deleted ver r) = v_key r" "v_id (mark_deleted ver r) = v_id r"
  "v_deleted (mark_deleted ver r)" "v_logical (mark_deleted ver r) = uint (logical ver)"
  by (simp_all add: set_row_def mark_deleted_def)

lemma uint_logical [simp]: "0 \<le> uint (w :: u32)" "uint (w :: u32) < 4294967296"
  using uint_bounded [of w] by simp_all

lemma vt_update_props:
  assumes wf: "vt_wf rows" and r: "vt_select k rows = [r]"
    and f: "v_key (f r) = v_key r" "v_id (f r) = v_id r" "0 \<le> v_logical (f r)" "v_logical (f r) < 2 ^ 32"
  shows "vt_wf (vt_update (v_id r) f rows)"
    and "vt_select k' (vt_update (v_id r) f rows) = (if k' = k then [f r] else vt_select k' rows)"
    and "map v_id (vt_update (v_id r) f rows) = map v_id rows"
proof -
  from r have rin: "r \<in> set rows" and rk: "v_key r = k"
    by (auto simp: vt_select_def filter_eq_Cons_iff)
  have only: "x = r" if "x \<in> set rows" "v_id x = v_id r" for x
    using wf that rin by (auto simp: vt_wf_def distinct_map inj_on_def)
  have keyr: "x = r" if "x \<in> set rows" "v_key x = v_key r" for x
    using wf that rin by (auto simp: vt_wf_def distinct_map inj_on_def)
  have up: "vt_update (v_id r) f rows = map (\<lambda>x. if x = r then f r else x) rows"
    unfolding vt_update_def using only by (auto intro!: map_cong)
  have ks: "map v_key (vt_update (v_id r) f rows) = map v_key rows"
    and ids: "map v_id (vt_update (v_id r) f rows) = map v_id rows"
    using f by (auto simp: up)
  show "map v_id (vt_update (v_id r) f rows) = map v_id rows" by (fact ids)
  show "vt_wf (vt_update (v_id r) f rows)"
    using wf f unfolding vt_wf_def ks ids by (auto simp: up list_all_iff)
  have "vt_select k' (map (\<lambda>x. if x = r then f r else x) xs) =
      map (\<lambda>x. if x = r then f r else x) (vt_select k' xs)" if "set xs \<subseteq> set rows" for xs
    using f that by (induction xs) (auto simp: vt_select_def)
  then have "vt_select k' (vt_update (v_id r) f rows) = map (\<lambda>x. if x = r then f r else x) (vt_select k' rows)"
    by (simp add: up)
  moreover have "r \<notin> set (vt_select k' rows)" if "k' \<noteq> k" using that rk by (auto simp: vt_select_def)
  ultimately show "vt_select k' (vt_update (v_id r) f rows) = (if k' = k then [f r] else vt_select k' rows)"
    using r by (auto intro: map_idI)
qed

lemma next_rowid_fresh: "next_rowid rows \<notin> v_id ` set rows"
  using fold_max_ge [of 0 "map v_id rows"] by (force simp: next_rowid_def)

lemma vt_insert_props:
  assumes wf: "vt_wf rows" and ins: "vt_insert k cols ver del rows = Inr rows'"
  shows "vt_wf rows'"
    and "vt_select k' rows' = (if k' = k then
        [\<lparr>v_id = next_rowid rows, v_key = k, v_cols = cols, v_wall = wall_nanos ver,
          v_logical = uint (logical ver), v_deleted = del\<rparr>] else vt_select k' rows)"
    and "map v_id rows' = map v_id rows @ [next_rowid rows]" and "k \<notin> set (map v_key rows)"
  using assms next_rowid_fresh [of rows]
  by (auto simp: vt_insert_def vt_wf_def vt_select_def filter_empty_conv split: if_splits)

lemma unless_stale_InrE:
  assumes "vt_wf rows" "unless_stale (vt_select k rows) ver body c = (Inr a, c')"
  obtains (stale) r where "vt_select k rows = [r]" "ver \<le> row_version r" "a = Applied_Stale" "c' = c"
  | (old) r where "vt_select k rows = [r]" "row_version r < ver" "body (Some (v_id r)) c = (Inr a, c')"
  | (new) "vt_select k rows = []" "body None c = (Inr a, c')"
proof (cases "vt_select k rows")
  case Nil
  with assms new show ?thesis by (simp add: unless_stale_def)
next
  case (Cons r rs)
  with vt_select_unique [OF assms(1) Cons] have r: "vt_select k rows = [r]" "r \<in> set rows" by simp_all
  with assms(2) read_version_wf [OF assms(1) r(2)]
  have "(if ver \<le> row_version r then treturn Applied_Stale else body (Some (v_id r))) c = (Inr a, c')"
    by (auto simp: unless_stale_def)
  with stale [OF r(1)] old [OF r(1)] show ?thesis by (cases "ver \<le> row_version r") auto
qed

text \<open>What applying a change must do to the tables.\<close>

definition change_ok :: "(bytes \<Rightarrow> bool) \<Rightarrow> Change \<Rightarrow> Tables \<Rightarrow> Applied \<Rightarrow> Tables \<Rightarrow> bool" where
  "change_ok gs ch t a t' \<longleftrightarrow>
     tables_wf t' \<and> t_state t' = t_state t \<and> t_auth t' = t_auth t \<and>
     replica_view gs t' = lww_put (change_entity gs ch) (replica_view gs t) \<and>
     a = (if lww_stale (replica_view gs t) (fst (change_entity gs ch)) (fst (snd (change_entity gs ch)))
          then Applied_Stale else Applied_Yes)"

lemma change_ok_stale:
  assumes "tables_wf t" "change_entity gs ch = (e, ver, v)" "replica_view gs t e = Some (w, x)" "ver \<le> w"
  shows "change_ok gs ch t Applied_Stale t"
  using assms by (simp add: change_ok_def lww_stale_def lww_put_def)

lemma change_ok_put:
  assumes "tables_wf t'" "t_state t' = t_state t" "t_auth t' = t_auth t"
    and "change_entity gs ch = (e, ver, v)" "\<And>w x. replica_view gs t e = Some (w, x) \<Longrightarrow> w < ver"
    and "\<And>e'. replica_view gs t' e' = (if e' = e then Some (ver, v) else replica_view gs t e')"
  shows "change_ok gs ch t Applied_Yes t'"
proof -
  have "replica_view gs t' = (replica_view gs t)(e \<mapsto> (ver, v))" by (auto simp: assms(6))
  moreover have "\<not> lww_stale (replica_view gs t) e ver"
    using assms(5) by (force simp: lww_stale_def split: option.splits)
  ultimately show ?thesis using assms(1-4) by (simp add: change_ok_def lww_put_def)
qed

lemma vt_view_one: "vt_select k rows = [r] \<Longrightarrow>
    vt_view content rows k = Some (row_version r, if v_deleted r then None else Some (content r))"
  by (simp add: vt_view_def)

lemma vt_view_none: "vt_select k rows = [] \<Longrightarrow> vt_view content rows k = None"
  by (simp add: vt_view_def)

lemma vt_view_cong: "vt_select k rows' = vt_select k rows \<Longrightarrow> vt_view content rows' k = vt_view content rows k"
  by (simp add: vt_view_def)

lemma row_version_new [simp]:
  "row_version \<lparr>v_id = i, v_key = k, v_cols = cols, v_wall = wall_nanos ver,
     v_logical = uint (logical ver), v_deleted = del\<rparr> = ver"
  by (simp add: row_version_def)

lemma principal_content_frame [simp]:
  "principal_content gs (t\<lparr>t_policies := x\<rparr>) = principal_content gs t"
  "principal_content gs (t\<lparr>t_lockouts := y\<rparr>) = principal_content gs t"
  "principal_content gs (t\<lparr>t_state := z\<rparr>) = principal_content gs t"
  "principal_content gs (t\<lparr>t_auth := u\<rparr>) = principal_content gs t"
  by (simp_all add: fun_eq_iff principal_content_def keys_of_def)

text \<open>The rows after a put: the entity's row is replaced or added, the others are as before.\<close>

definition vt_put ::
  "('k, 'c) vrow list \<Rightarrow> 'k \<Rightarrow> ReplicationTs \<Rightarrow> bool \<Rightarrow> 'c \<Rightarrow> ('k, 'c) vrow \<Rightarrow> ('k, 'c) vrow list \<Rightarrow> bool" where
  "vt_put rows k ver del cols r rows' \<longleftrightarrow>
     vt_wf rows' \<and> (\<forall>k'. vt_select k' rows' = (if k' = k then [r] else vt_select k' rows)) \<and>
     row_version r = ver \<and> v_deleted r = del \<and> v_key r = k \<and> (\<not> del \<longrightarrow> v_cols r = cols) \<and>
     set (map v_id rows) \<subseteq> set (map v_id rows')"

lemma vt_put_update:
  assumes "vt_wf rows" "vt_select k rows = [r]" "f = (if del then mark_deleted ver else set_row cols ver False)"
  shows "vt_put rows k ver del cols (f r) (vt_update (v_id r) f rows)"
proof -
  from assms(3) have "v_key (f r) = v_key r" "v_id (f r) = v_id r" "0 \<le> v_logical (f r)" "v_logical (f r) < 2 ^ 32"
    by simp_all
  note u = vt_update_props [where f = f, OF assms(1,2) this]
  from vt_select_unique [OF assms(1,2)] have "v_key (f r) = k" using assms(3) by simp
  with u(1,2) assms(3) show ?thesis unfolding vt_put_def u(3) by simp
qed

lemma vt_put_insert:
  assumes "vt_wf rows" "vt_insert k cols ver del rows = Inr rows'"
  shows "vt_put rows k ver del cols \<lparr>v_id = next_rowid rows, v_key = k, v_cols = cols, v_wall = wall_nanos ver,
      v_logical = uint (logical ver), v_deleted = del\<rparr> rows'"
proof -
  note p = vt_insert_props [OF assms]
  from arg_cong [OF p(3), of set] show ?thesis using p(1,2) by (simp add: vt_put_def subset_insertI)
qed

lemma vt_view_put:
  "vt_put rows k ver del cols r rows' \<Longrightarrow>
   vt_view content rows' k' = (if k' = k then Some (ver, if del then None else Some (content r)) else vt_view content rows k')"
  by (auto simp: vt_put_def vt_view_def)

lemma guarded_put:
  assumes wf: "vt_wf (get (c_tables c))"
    and run: "unless_stale (vt_select k (get (c_tables c))) ver (put_row get put k cols ver del) c = (Inr a, c')"
  obtains (stale) r where "vt_select k (get (c_tables c)) = [r]" "ver \<le> row_version r" "a = Applied_Stale" "c' = c"
  | (put) r rows where "\<And>r. vt_select k (get (c_tables c)) = [r] \<Longrightarrow> row_version r < ver"
      "vt_put (get (c_tables c)) k ver del cols r rows" "a = Applied_Yes" "c_tables c' = put rows (c_tables c)"
  using wf run
proof (cases rule: unless_stale_InrE)
  case (stale r)
  then show ?thesis by (rule that(1))
next
  case (old r)
  show ?thesis
    by (rule that(2) [OF _ vt_put_update [OF wf old(1) refl]]) (use old in \<open>auto simp: put_row_def\<close>)
next
  case new
  then obtain rows where ins: "vt_insert k cols ver del (get (c_tables c)) = Inr rows" and a: "a = Applied_Yes"
    and c': "c_tables c' = put rows (c_tables c)"
    by (auto simp: put_row_def)
  show ?thesis by (rule that(2) [OF _ vt_put_insert [OF wf ins] a c']) (use new in auto)
qed

lemma put_policy_ok:
  assumes wf: "tables_wf (c_tables c)"
    and run: "unless_stale (vt_select k (t_policies (c_tables c))) ver
        (put_row t_policies (\<lambda>rows t. t\<lparr>t_policies := rows\<rparr>) k cols ver del) c = (Inr a, c')"
    and ch: "change_entity gs ch =
        (E_Policy k, ver, if del then None else Some (C_Policy (policy_from_row (k, cols))))"
  shows "change_ok gs ch (c_tables c) a (c_tables c')"
proof -
  from wf have pw: "vt_wf (t_policies (c_tables c))" by (simp add: tables_wf_def)
  from pw run show ?thesis
  proof (cases rule: guarded_put)
    case (stale r)
    with wf ch show ?thesis by (auto intro!: change_ok_stale simp: vt_view_one)
  next
    case (put r rows)
    show ?thesis unfolding put(3,4)
    proof (rule change_ok_put [OF _ _ _ ch])
      fix e' show "replica_view gs (c_tables c\<lparr>t_policies := rows\<rparr>) e' =
          (if e' = E_Policy k then Some (ver, if del then None else Some (C_Policy (policy_from_row (k, cols))))
           else replica_view gs (c_tables c) e')"
        using put(2) by (cases e') (auto simp: vt_view_put [OF put(2)] vt_put_def)
    qed (use wf put vt_select_unique [OF pw] in \<open>auto simp: tables_wf_def vt_put_def vt_view_def split: list.splits\<close>)
  qed
qed

lemma put_lockout_ok:
  assumes wf: "tables_wf (c_tables c)"
    and run: "unless_stale (vt_select (realm, k) (t_lockouts (c_tables c))) ver
        (put_row t_lockouts (\<lambda>rows t. t\<lparr>t_lockouts := rows\<rparr>) (realm, k) cols ver del) c = (Inr a, c')"
    and ch: "change_entity gs ch = (E_Lockout realm k, ver, if del then None else Some (C_Lockout cols))"
  shows "change_ok gs ch (c_tables c) a (c_tables c')"
proof -
  from wf have pw: "vt_wf (t_lockouts (c_tables c))" by (simp add: tables_wf_def)
  from pw run show ?thesis
  proof (cases rule: guarded_put)
    case (stale r)
    with wf ch show ?thesis by (auto intro!: change_ok_stale simp: vt_view_one)
  next
    case (put r rows)
    show ?thesis unfolding put(3,4)
    proof (rule change_ok_put [OF _ _ _ ch])
      fix e' show "replica_view gs (c_tables c\<lparr>t_lockouts := rows\<rparr>) e' =
          (if e' = E_Lockout realm k then Some (ver, if del then None else Some (C_Lockout cols))
           else replica_view gs (c_tables c) e')"
        using put(2) by (cases e') (auto simp: vt_view_put [OF put(2)] vt_put_def)
    qed (use wf put vt_select_unique [OF pw] in \<open>auto simp: tables_wf_def vt_put_def vt_view_def split: list.splits\<close>)
  qed
qed

lemma insert_key_InrD:
  "insert_key r t = Inr t' \<Longrightarrow>
   t' = t\<lparr>t_keys := t_keys t @ [r]\<rparr> \<and> kr_index r \<notin> set (map kr_index (t_keys t))"
  by (auto simp: insert_key_def split: if_splits)

lemma insert_keys_InrD:
  assumes "insert_keys pid ks c = (Inr u, c')"
  shows "c_tables c' = (c_tables c)\<lparr>t_keys := t_keys (c_tables c) @ map (key_row pid) ks\<rparr> \<and>
    (distinct (map kr_index (t_keys (c_tables c))) \<longrightarrow> distinct (map kr_index (t_keys (c_tables c'))))"
  using assms
proof (induction ks arbitrary: c)
  case (Cons k ks)
  from Cons.prems obtain c1 where k: "insert_key (key_row pid k) (c_tables c) = Inr (c_tables c1)"
    and r: "insert_keys pid ks c1 = (Inr u, c')" by auto
  from k have c1: "c_tables c1 = (c_tables c)\<lparr>t_keys := t_keys (c_tables c) @ [key_row pid k]\<rparr>"
    and new: "kr_index (key_row pid k) \<notin> set (map kr_index (t_keys (c_tables c)))"
    using insert_key_InrD by blast+
  have "distinct (map kr_index (t_keys (c_tables c'))) " if "distinct (map kr_index (t_keys (c_tables c)))"
    using conjunct2 [OF Cons.IH [OF r]] new that by (simp add: c1)
  with conjunct1 [OF Cons.IH [OF r]] show ?case by (simp add: c1 del: distinct_map)
qed auto

lemma insort_key_map: "insort_key f (g x) (map g xs) = map g (insort_key (\<lambda>x. f (g x)) x xs)"
  by (induction xs) auto

lemma sort_key_map: "sort_key f (map g xs) = map g (sort_key (\<lambda>x. f (g x)) xs)"
  by (induction xs) (simp_all add: insort_key_map)

lemma keys_of_replaced:
  "keys_of i (t\<lparr>t_principals := rows, t_keys := filter (\<lambda>r. kr_principal_id r \<noteq> pid) (t_keys t) @ map (key_row pid) ks\<rparr>) =
     (if i = pid then map (key_row pid) (sort_stored ks) else keys_of i t)"
proof -
  have "filter (\<lambda>k. kr_principal_id k = i) (filter (\<lambda>r. kr_principal_id r \<noteq> pid) K @ map (key_row pid) ks) =
      (if i = pid then map (key_row pid) ks else filter (\<lambda>k. kr_principal_id k = i) K)" for K
    by (auto simp: key_row_def filter_map comp_def filter_empty_conv intro: filter_cong)
  then show ?thesis by (simp add: keys_of_def sort_stored_def sort_key_map) (simp add: key_row_def)
qed

lemma stored_keys_pid: "stored_keys (map Some (map (key_row pid) ks)) = stored_keys (map Some (map (key_row 0) ks))"
  by (induction ks) (auto simp: stored_key_def key_row_def)

lemma principal_from_join:
  assumes "stored_keys (map Some ks) = stored_keys (map Some ks')"
  shows "principal_from_rows gs realm nk (join_keys cols ks) = principal_from_rows gs realm nk (join_keys cols ks')"
proof -
  have "principal_from_rows gs realm nk (join_keys cols ks) =
     principal_from_rows gs realm nk ((cols, None) # map (\<lambda>k. (cols, Some k)) ks)" for ks
    by (cases ks) (simp_all add: join_keys_def principal_from_rows_def)
  with assms show ?thesis by (simp add: principal_from_rows_def comp_def)
qed

text \<open>Replacing a principal's row together with its keys.\<close>

lemma replace_principal:
  assumes wf: "tables_wf t" and put: "vt_put (t_principals t) (realm, k) ver del cols r rows"
    and dist: "distinct (map kr_index (t_keys t'))"
    and new: "t' = t\<lparr>t_principals := rows,
        t_keys := filter (\<lambda>q. kr_principal_id q \<noteq> v_id r) (t_keys t) @ map (key_row (v_id r)) ks\<rparr>"
  shows "tables_wf t'"
    and "replica_view gs t' e = (if e = E_Principal realm k then
          Some (ver, if del then None else Some (C_Principal (principal_from_rows gs realm k
            (join_keys cols (map (key_row 0) (sort_stored ks))))))
        else replica_view gs t e)"
proof -
  have "vt_select (realm, k) rows = [r]" using put by (simp add: vt_put_def)
  then have rin: "r \<in> set rows" by (auto simp: vt_select_def filter_eq_Cons_iff)
  show "tables_wf t'"
    using wf put dist rin
    by (auto simp: new tables_wf_def vt_put_def list_all_iff key_row_def subset_iff)
  have content: "principal_content gs t' r =
      C_Principal (principal_from_rows gs realm k (join_keys cols (map (key_row 0) (sort_stored ks))))" if "\<not> del"
    using put that
    by (auto simp: vt_put_def principal_content_def new keys_of_replaced intro: principal_from_join [OF stored_keys_pid])
  have other: "principal_content gs t' q = principal_content gs t q" if "q \<in> set rows" "v_key q \<noteq> (realm, k)" for q
  proof -
    have "v_id q \<noteq> v_id r"
      using put that rin by (auto simp: vt_put_def vt_wf_def distinct_map inj_on_def)
    then show ?thesis by (simp add: principal_content_def new keys_of_replaced)
  qed
  have "vt_view (principal_content gs t') rows (r', k') = vt_view (principal_content gs t) (t_principals t) (r', k')"
    if "(r', k') \<noteq> (realm, k)" for r' k'
  proof -
    from put that have sel: "vt_select (r', k') rows = vt_select (r', k') (t_principals t)"
      by (auto simp: vt_put_def)
    show ?thesis
    proof (cases "vt_select (r', k') rows")
      case (Cons q qs)
      then have "q \<in> set (vt_select (r', k') rows)" by simp
      then have "q \<in> set rows" "v_key q = (r', k')" by (auto simp: vt_select_def)
      with other [of q] that Cons sel show ?thesis by (auto simp: vt_view_def)
    qed (simp add: vt_view_def sel)
  qed
  moreover have "vt_view (principal_content gs t') rows (realm, k) =
      Some (ver, if del then None else Some (principal_content gs t' r))"
    using put by (auto simp: vt_put_def vt_view_def)
  ultimately show "replica_view gs t' e = (if e = E_Principal realm k then
          Some (ver, if del then None else Some (C_Principal (principal_from_rows gs realm k
            (join_keys cols (map (key_row 0) (sort_stored ks))))))
        else replica_view gs t e)"
    using content by (cases e) (auto simp: new)
qed

lemma next_rowid_unused:
  assumes "tables_wf t" "q \<in> set (t_keys t)"
  shows "kr_principal_id q \<noteq> next_rowid (t_principals t)"
proof -
  from assms have "kr_principal_id q \<in> v_id ` set (t_principals t)" by (simp add: tables_wf_def list_all_iff)
  with next_rowid_fresh show ?thesis by metis
qed

lemma no_keys_of_new:
  assumes "tables_wf t"
  shows "filter (\<lambda>q. kr_principal_id q \<noteq> next_rowid (t_principals t)) (t_keys t) = t_keys t"
  by (rule filter_True) (use next_rowid_unused [OF assms] in blast)

lemma distinct_filter_keys:
  "distinct (map kr_index K) \<Longrightarrow> distinct (map kr_index (filter P K))"
  by (auto simp: distinct_map inj_on_def)

lemma replace_principal_ok:
  assumes wf: "tables_wf t" and put: "vt_put (t_principals t) (realm, k) ver del cols r rows"
    and dist: "distinct (map kr_index (t_keys t'))"
    and new: "t' = t\<lparr>t_principals := rows,
        t_keys := filter (\<lambda>q. kr_principal_id q \<noteq> v_id r) (t_keys t) @ map (key_row (v_id r)) ks\<rparr>"
    and ch: "change_entity gs ch = (E_Principal realm k, ver, if del then None else
        Some (C_Principal (principal_from_rows gs realm k (join_keys cols (map (key_row 0) (sort_stored ks))))))"
    and older: "\<And>r. vt_select (realm, k) (t_principals t) = [r] \<Longrightarrow> row_version r < ver"
  shows "change_ok gs ch t Applied_Yes t'"
proof (rule change_ok_put [OF _ _ _ ch])
  from wf have pw: "vt_wf (t_principals t)" by (simp add: tables_wf_def)
  fix w x
  assume "replica_view gs t (E_Principal realm k) = Some (w, x)"
  then show "w < ver"
    using older vt_select_unique [OF pw] by (auto simp: vt_view_def split: list.splits)
qed (use replace_principal [OF wf put dist new] new in simp_all)

lemma update_principal_InrE [elim!]:
  assumes "update_principal pid cols ver c = (Inr i, c')"
  obtains "i = pid" "c_tables c' = (c_tables c)\<lparr>t_principals := vt_update pid (set_row cols ver False) (t_principals (c_tables c)),
      t_keys := filter (\<lambda>q. kr_principal_id q \<noteq> pid) (t_keys (c_tables c))\<rparr>"
  using assms by (auto simp: update_principal_def delete_keys_def)

lemma insert_principal_InrE:
  assumes "insert_principal k cols ver c = (Inr i, c')" "vt_wf (t_principals (c_tables c))"
  obtains rows where "vt_insert k cols ver False (t_principals (c_tables c)) = Inr rows"
    "c_tables c' = (c_tables c)\<lparr>t_principals := rows\<rparr>" "i = next_rowid (t_principals (c_tables c))"
proof -
  from assms(1) obtain rows c1 where rows: "vt_insert k cols ver False (t_principals (c_tables c)) = Inr rows"
    and c1: "c_tables c1 = (c_tables c)\<lparr>t_principals := rows\<rparr>" and pid: "principal_id k c1 = (Inr i, c')"
    unfolding insert_principal_def by (elim tbind_InrE sql_insert_InrE)
  from vt_insert_props(2) [OF assms(2) rows, of k] pid
  have "i = next_rowid (t_principals (c_tables c))" "c_tables c' = c_tables c1"
    by (auto simp: principal_id_def c1)
  with rows c1 that show thesis by simp
qed

lemma upsert_principal_ok:
  assumes wf: "tables_wf (c_tables c)" and up: "upsert_principal p ver c = (Inr a, c')"
  shows "change_ok gs (UpsertPrincipal p ver) (c_tables c) a (c_tables c')"
proof -
  let ?t = "c_tables c"
  from wf have pw: "vt_wf (t_principals ?t)" and kd: "distinct (map kr_index (t_keys ?t))"
    by (simp_all add: tables_wf_def)
  from up obtain name c1 where name: "encode_principal_key (sp_name p) = Inr name" and c1: "c_tables c1 = ?t"
    and g: "unless_stale (vt_select (sp_realm p, name) (t_principals ?t)) ver (write_principal p name ver) c1 = (Inr a, c')"
    unfolding upsert_principal_def by blast
  have ks: "key_string (sp_name p) = name" by (simp add: key_string_def name)
  from pw g show ?thesis
  proof (cases rule: unless_stale_InrE)
    case (stale r)
    with wf c1 ks show ?thesis by (auto intro!: change_ok_stale simp: vt_view_one)
  next
    case (old r)
    let ?rows = "\<lambda>cols. vt_update (v_id r) (set_row cols ver False) (t_principals ?t)"
    from old(3) obtain cols c2 u where f: "principal_fields p = Inr cols" and a: "a = Applied_Yes"
      and c2: "c_tables c2 = ?t\<lparr>t_principals := ?rows cols,
          t_keys := filter (\<lambda>q. kr_principal_id q \<noteq> v_id r) (t_keys ?t)\<rparr>"
      and u: "insert_keys (v_id r) (sp_keys p) c2 = (Inr u, c')"
      using c1 by (auto simp: write_principal_def)
    note k = insert_keys_InrD [OF u]
    have put: "vt_put (t_principals ?t) (sp_realm p, name) ver False cols (set_row cols ver False r) (?rows cols)"
      using vt_put_update [OF pw old(1), of _ False] by simp
    show ?thesis unfolding a
    proof (rule replace_principal_ok [OF wf put])
      show "distinct (map kr_index (t_keys (c_tables c')))"
        by (rule mp [OF conjunct2 [OF k]]) (use kd c2 in \<open>simp add: distinct_filter_keys\<close>)
    qed (use conjunct1 [OF k] old(1,2) c2 ks f in \<open>simp_all add: upserted_principal_def\<close>)
  next
    case new
    from new(2) obtain cols i c2 u where f: "principal_fields p = Inr cols" and a: "a = Applied_Yes"
      and i: "insert_principal (sp_realm p, name) cols ver c1 = (Inr i, c2)"
      and u: "insert_keys i (sp_keys p) c2 = (Inr u, c')"
      by (auto simp: write_principal_def)
    from insert_principal_InrE [OF i] pw c1 obtain rows where
      ins: "vt_insert (sp_realm p, name) cols ver False (t_principals ?t) = Inr rows"
      and c2: "c_tables c2 = ?t\<lparr>t_principals := rows\<rparr>" and pid: "i = next_rowid (t_principals ?t)" by auto
    note k = insert_keys_InrD [OF u]
    show ?thesis unfolding a
    proof (rule replace_principal_ok [OF wf vt_put_insert [OF pw ins]])
      show "distinct (map kr_index (t_keys (c_tables c')))"
        by (rule mp [OF conjunct2 [OF k]]) (use kd c2 in simp)
    qed (use conjunct1 [OF k] new(1) c2 pid ks f no_keys_of_new [OF wf] in \<open>simp_all add: upserted_principal_def\<close>)
  qed
qed

lemma delete_principal_ok:
  assumes wf: "tables_wf (c_tables c)" and del: "delete_principal realm n ver c = (Inr a, c')"
  shows "change_ok gs (DeletePrincipal realm n ver) (c_tables c) a (c_tables c')"
proof -
  let ?t = "c_tables c"
  from wf have pw: "vt_wf (t_principals ?t)" and kd: "distinct (map kr_index (t_keys ?t))"
    by (simp_all add: tables_wf_def)
  from del obtain name c1 where name: "encode_principal_key n = Inr name" and c1: "c_tables c1 = ?t"
    and g: "unless_stale (vt_select (realm, name) (t_principals ?t)) ver (remove_principal (realm, name) (name_type n) ver) c1
        = (Inr a, c')"
    unfolding delete_principal_def by blast
  have ks: "key_string n = name" by (simp add: key_string_def name)
  from pw g show ?thesis
  proof (cases rule: unless_stale_InrE)
    case (stale r)
    with wf c1 ks show ?thesis by (auto intro!: change_ok_stale simp: vt_view_one)
  next
    case (old r)
    let ?rows = "vt_update (v_id r) (mark_deleted ver) (t_principals ?t)"
    from old(3) have a: "a = Applied_Yes"
      and c': "c_tables c' = ?t\<lparr>t_principals := ?rows,
          t_keys := filter (\<lambda>q. kr_principal_id q \<noteq> v_id r) (t_keys ?t)\<rparr>"
      using c1 by (auto simp: remove_principal_def delete_keys_def)
    have put: "vt_put (t_principals ?t) (realm, name) ver True (tombstone_principal 0) (mark_deleted ver r) ?rows"
      using vt_put_update [OF pw old(1), of _ True] by simp
    show ?thesis unfolding a
      by (rule replace_principal_ok [OF wf put, where ks = "[]"])
        (use old(1,2) c' ks kd in \<open>simp_all add: distinct_filter_keys\<close>)
  next
    case new
    from new(2) obtain rows where a: "a = Applied_Yes"
      and ins: "vt_insert (realm, name) (tombstone_principal (name_type n)) ver True (t_principals ?t) = Inr rows"
      and c': "c_tables c' = ?t\<lparr>t_principals := rows\<rparr>"
      using c1 by (auto simp: remove_principal_def)
    show ?thesis unfolding a
      by (rule replace_principal_ok [OF wf vt_put_insert [OF pw ins], where ks = "[]"])
        (use new(1) c' ks kd no_keys_of_new [OF wf] in simp_all)
  qed
qed

lemma apply_change_ok:
  assumes "tables_wf (c_tables c)" "apply_change ch c = (Inr a, c')"
  shows "change_ok gs ch (c_tables c) a (c_tables c')"
proof (cases ch)
  case (UpsertPolicy p ver)
  with assms(2) obtain c1 cols where c1: "c_tables c1 = c_tables c" and f: "policy_fields p = Inr cols"
    and run: "unless_stale (vt_select (pol_name p) (t_policies (c_tables c1))) ver
        (put_row t_policies (\<lambda>rows t. t\<lparr>t_policies := rows\<rparr>) (pol_name p) cols ver False) c1 = (Inr a, c')"
    by (auto simp: upsert_policy_def)
  from put_policy_ok [OF _ run] UpsertPolicy f assms(1) show ?thesis by (simp add: c1)
next
  case (DeletePolicy n ver)
  with assms(2) obtain c1 where c1: "c_tables c1 = c_tables c"
    and run: "unless_stale (vt_select n (t_policies (c_tables c1))) ver
        (put_row t_policies (\<lambda>rows t. t\<lparr>t_policies := rows\<rparr>) n tombstone_policy ver True) c1 = (Inr a, c')"
    by (auto simp: delete_policy_def)
  from put_policy_ok [OF _ run] DeletePolicy assms(1) show ?thesis by (simp add: c1)
next
  case (UpsertLockout r ver)
  with assms(2) obtain c1 k where c1: "c_tables c1 = c_tables c" and k: "encode_principal_key (lo_name r) = Inr k"
    and run: "unless_stale (vt_select (lo_realm r, k) (t_lockouts (c_tables c1))) ver
        (put_row t_lockouts (\<lambda>rows t. t\<lparr>t_lockouts := rows\<rparr>) (lo_realm r, k) (lockout_fields r) ver False) c1 = (Inr a, c')"
    by (auto simp: upsert_lockout_def)
  from put_lockout_ok [OF _ run] UpsertLockout assms(1) k show ?thesis by (simp add: c1 key_string_def)
next
  case (DeleteLockout realm n ver)
  with assms(2) obtain c1 k where c1: "c_tables c1 = c_tables c" and k: "encode_principal_key n = Inr k"
    and run: "unless_stale (vt_select (realm, k) (t_lockouts (c_tables c1))) ver
        (put_row t_lockouts (\<lambda>rows t. t\<lparr>t_lockouts := rows\<rparr>) (realm, k) (tombstone_lockout (name_type n)) ver True) c1
        = (Inr a, c')"
    by (auto simp: delete_lockout_def)
  from put_lockout_ok [OF _ run] DeleteLockout assms(1) k show ?thesis by (simp add: c1 key_string_def)
qed (use assms upsert_principal_ok delete_principal_ok in simp_all)

interpretation turso: versioned_store apply_change "\<lambda>c. replica_view gs (c_tables c)"
  "\<lambda>c. tables_wf (c_tables c)" "change_entity gs" for gs
  by unfold_locales (use apply_change_ok in \<open>fastforce simp: change_ok_def\<close>)+

lemma apply_changes_frame:
  assumes "tables_wf (c_tables c)" "count_changes apply_change cs y z c = (Inr r, c')"
  shows "t_state (c_tables c') = t_state (c_tables c) \<and> t_auth (c_tables c') = t_auth (c_tables c)"
  using assms
proof (induction cs arbitrary: c y z)
  case (Cons ch cs)
  from Cons.prems(2) obtain a c1 y' z' where c1: "apply_change ch c = (Inr a, c1)"
    and r: "count_changes apply_change cs y' z' c1 = (Inr r, c')"
    by (auto split: prod.splits sum.splits Applied.splits)
  from apply_change_ok [OF Cons.prems(1) c1] Cons.IH [OF _ r] show ?case
    by (simp add: change_ok_def)
qed auto

section \<open>Reading back\<close>

lemma split_nl_line: "0x0a \<notin> set x \<Longrightarrow> split_nl cur (x @ 0x0a # r) = (cur @ x) # split_nl [] r"
  by (induction x arbitrary: cur) auto

lemma split_nl_last: "0x0a \<notin> set x \<Longrightarrow> split_nl cur x = [cur @ x]"
  by (induction x arbitrary: cur) auto

lemma split_nl_join: "\<forall>x \<in> set xs. 0x0a \<notin> set x \<Longrightarrow> xs \<noteq> [] \<Longrightarrow> split_nl [] (join_list xs) = xs"
  by (induction xs rule: join_list.induct) (simp_all add: split_nl_line split_nl_last)

lemma join_list_Nil: "join_list xs = [] \<longleftrightarrow> xs = [] \<or> xs = [[]]"
  by (cases xs rule: join_list.cases) auto

definition list_storable :: "bytes list \<Rightarrow> bool" where
  "list_storable xs \<longleftrightarrow> xs \<noteq> [[]] \<and> list_all (\<lambda>x. 0x0a \<notin> set x) xs"

lemma split_join_list: "list_storable xs \<Longrightarrow> split_list (join_list xs) = xs"
  by (auto simp: list_storable_def split_list_def join_list_Nil list_all_iff split_nl_join)

definition stored_wf :: "(bytes \<Rightarrow> bool) \<Rightarrow> StoredPrincipal \<Rightarrow> bool" where
  "stored_wf gs p \<longleftrightarrow>
     name_string (sp_name p) \<noteq> [] \<and> list_all gs (name_string (sp_name p)) \<and> in_i32 (name_type (sp_name p)) \<and>
     list_all (\<lambda>k. in_i32 (sk_enctype k)) (sp_keys p) \<and>
     list_storable (sp_delegate_to p) \<and> list_storable (sp_delegate_from p)"

lemma try_u32_uint [simp]: "try_u32 msg (uint w) = Inr w"
  by (simp add: try_u32_def)

lemma try_u64_u_val: "u_val n = Inr i \<Longrightarrow> try_u64 msg i = Inr n"
  by (auto simp: u_val_def try_u64_def split: if_splits)

lemma opt_u64_opt_u: "opt_u n = Inr i \<Longrightarrow> opt_u64 msg i = Inr n"
  by (cases n) (auto simp: opt_u_def opt_u64_def try_u64_u_val)

lemma stored_keys_rows:
  "list_all (\<lambda>k. in_i32 (sk_enctype k)) ks \<Longrightarrow> stored_keys (map Some (map (key_row pid) ks)) = Inr ks"
  by (induction ks) (auto simp: stored_key_def key_row_def try_i32_def in_i32_def)

lemma set_sort_stored [simp]: "set (sort_stored ks) = set ks"
  by (simp add: sort_stored_def)

lemma upserted_principal_roundtrip:
  assumes wf: "stored_wf gs p" and name: "encode_principal_key (sp_name p) = Inr k" and f: "principal_fields p = Inr cols"
  shows "upserted_principal gs p = Inr (Some (p\<lparr>sp_keys := sort_stored (sp_keys p)\<rparr>))"
proof -
  let ?ks = "map (key_row 0) (sort_stored (sp_keys p))"
  have keys: "stored_keys (map snd (join_keys cols ?ks)) = Inr (sort_stored (sp_keys p))"
    using stored_keys_rows [of "sort_stored (sp_keys p)" 0] wf
    by (cases ?ks) (auto simp: join_keys_def stored_wf_def list_all_iff comp_def)
  from f obtain tlb where cols: "pc_name_type cols = name_type (sp_name p)" "pc_attributes cols = uint (sp_attributes p)"
      "opt_u64 m (pc_max_life cols) = Inr (sp_max_life p)"
      "opt_u64 m (pc_max_renewable_life cols) = Inr (sp_max_renewable_life p)"
      "try_u64 m (pc_security_epoch cols) = Inr (sp_security_epoch p)"
      "decode_tl_data (pc_tl_data cols) = Inr (sp_tl_data p)"
      "pc_delegate_to cols = join_list (sp_delegate_to p)" "pc_delegate_from cols = join_list (sp_delegate_from p)"
      "pc_expiration cols = sp_expiration p" "pc_pw_expiration cols = sp_pw_expiration p"
      "pc_last_pwd_change cols = sp_last_pwd_change p" "pc_mod_time cols = sp_mod_time p"
      "pc_policy cols = sp_policy p" "pc_last_admin_unlock cols = sp_last_admin_unlock p" for m
    by (auto simp: principal_fields_def opt_u64_opt_u try_u64_u_val decode_encode_tl_data)
  have dec: "decode_principal_key gs k (name_type (sp_name p)) = Inr (sp_name p)"
    using encode_principal_key_parts [OF name] wf by (simp add: decode_principal_key_def stored_wf_def)
  obtain kr rest where join: "join_keys cols ?ks = (cols, kr) # rest"
    by (cases ?ks) (auto simp: join_keys_def)
  have "upserted_principal gs p = principal_from_rows gs (sp_realm p) k (join_keys cols ?ks)"
    by (simp add: upserted_principal_def f key_string_def name)
  also have "\<dots> = Inr (Some (p\<lparr>sp_keys := sort_stored (sp_keys p)\<rparr>))"
    using wf keys by (simp add: principal_from_rows_def join cols dec try_i32_def stored_wf_def in_i32_def split_join_list)
  finally show ?thesis .
qed

lemma lookup_sql_view:
  assumes "tables_wf t"
  shows "principal_from_rows gs realm k (lookup_sql realm k t) =
    (case replica_view gs t (E_Principal realm k) of Some (_, Some (C_Principal x)) \<Rightarrow> x | _ \<Rightarrow> Inr None)"
proof -
  from assms have pw: "vt_wf (t_principals t)" by (simp add: tables_wf_def)
  show ?thesis
  proof (cases "vt_select (realm, k) (t_principals t)")
    case Nil
    then show ?thesis by (simp add: lookup_sql_def vt_view_def principal_from_rows_def)
  next
    case (Cons r rs)
    with vt_select_unique [OF pw Cons] show ?thesis
      by (simp add: lookup_sql_def vt_view_def principal_content_def) (simp add: principal_from_rows_def)
  qed
qed

section \<open>Success\<close>

text \<open>What a change must satisfy to be applied.\<close>

fun change_valid :: "Change \<Rightarrow> bool" where
  "change_valid (UpsertPrincipal p _) \<longleftrightarrow> is_ok (encode_principal_key (sp_name p)) \<and> is_ok (principal_fields p) \<and>
     distinct (map (\<lambda>k. (sk_kvno k, sk_enctype k)) (sp_keys p))"
| "change_valid (DeletePrincipal _ n _) \<longleftrightarrow> is_ok (encode_principal_key n)"
| "change_valid (UpsertPolicy p _) \<longleftrightarrow> is_ok (policy_fields p)"
| "change_valid (DeletePolicy _ _) \<longleftrightarrow> True"
| "change_valid (UpsertLockout r _) \<longleftrightarrow> is_ok (encode_principal_key (lo_name r))"
| "change_valid (DeleteLockout _ n _) \<longleftrightarrow> is_ok (encode_principal_key n)"

text \<open>A run that succeeds and leaves a connection without pending failures.\<close>

definition no_faults :: "conn \<Rightarrow> bool" where
  "no_faults c \<longleftrightarrow> list_all (\<lambda>f. f = None) (c_script c)"

definition runs :: "'a tx \<Rightarrow> conn \<Rightarrow> bool" where
  "runs m c \<longleftrightarrow> (\<exists>x c'. m c = (Inr x, c') \<and> no_faults c')"

lemma runs_bind:
  "runs m c \<Longrightarrow> (\<And>x c'. m c = (Inr x, c') \<Longrightarrow> no_faults c' \<Longrightarrow> runs (f x) c') \<Longrightarrow> runs (tbind m f) c"
  by (fastforce simp: runs_def tbind_def)

lemma runs_return [simp]: "no_faults c \<Longrightarrow> runs (treturn x) c"
  by (simp add: runs_def treturn_def)

lemma runs_lift: "is_ok r \<Longrightarrow> no_faults c \<Longrightarrow> runs (tlift r) c"
  by (cases r) (simp_all add: runs_def tlift_def)

lemma runs_statement: "is_ok (f (c_tables c)) \<Longrightarrow> no_faults c \<Longrightarrow> runs (statement f) c"
  by (cases "c_script c"; cases "f (c_tables c)")
    (auto simp: runs_def statement_def Let_def no_faults_def split: option.splits)

lemma runs_query [simp]: "no_faults c \<Longrightarrow> runs (sql_query f) c"
  by (simp add: sql_query_def runs_statement)

lemma runs_exec: "is_ok (f (c_tables c)) \<Longrightarrow> no_faults c \<Longrightarrow> runs (sql_exec f) c"
  unfolding sql_exec_def by (rule runs_statement) (auto split: sum.splits)

lemma runs_unless_stale:
  assumes "vt_wf rows" "no_faults c" "\<And>r. vt_select k rows = [r] \<Longrightarrow> runs (body (Some (v_id r))) c"
    and "vt_select k rows = [] \<Longrightarrow> runs (body None) c"
  shows "runs (unless_stale (vt_select k rows) ver body) c"
proof (cases "vt_select k rows")
  case Nil
  with assms(4) show ?thesis by (simp add: unless_stale_def)
next
  case (Cons r rs)
  with vt_select_unique [OF assms(1) Cons] have r: "vt_select k rows = [r]" "r \<in> set rows" by simp_all
  have "runs (tbind (tlift (read_version r)) (\<lambda>w. if ver \<le> w then treturn Applied_Stale else body (Some (v_id r)))) c"
    by (rule runs_bind) (use assms(2,3) r read_version_wf [OF assms(1) r(2)] in \<open>auto intro: runs_lift\<close>)
  with r show ?thesis by (simp add: unless_stale_def)
qed

lemma runs_put_row:
  assumes "no_faults c" "get (c_tables c) = rows" "old = None \<Longrightarrow> vt_select k rows = []"
  shows "runs (put_row get put k cols ver del old) c"
proof (cases old)
  case None
  have "runs (tbind (sql_exec (\<lambda>t. rbind (vt_insert k cols ver del (get t)) (\<lambda>rows. Inr (put rows t)))) (\<lambda>_. treturn Applied_Yes)) c"
    by (rule runs_bind, rule runs_exec)
      (use assms None in \<open>auto simp: vt_insert_def vt_select_Nil split: if_splits\<close>)
  with None show ?thesis by (simp add: put_row_def)
next
  case (Some i)
  have "runs (tbind (sql_exec (\<lambda>t. Inr (put (vt_update i (if del then mark_deleted ver else set_row cols ver False) (get t)) t)))
      (\<lambda>_. treturn Applied_Yes)) c"
    by (rule runs_bind, rule runs_exec) (use assms in auto)
  with Some show ?thesis by (simp add: put_row_def)
qed

lemma runs_insert_keys:
  assumes "no_faults c" "distinct (map kr_index (map (key_row pid) ks))"
    and "\<And>k q. k \<in> set ks \<Longrightarrow> q \<in> set (t_keys (c_tables c)) \<Longrightarrow> kr_index q \<noteq> kr_index (key_row pid k)"
  shows "runs (insert_keys pid ks) c"
  using assms
proof (induction ks arbitrary: c)
  case (Cons k ks)
  have "runs (tbind (sql_exec (insert_key (key_row pid k))) (\<lambda>_. insert_keys pid ks)) c"
  proof (rule runs_bind, rule runs_exec)
    show "is_ok (insert_key (key_row pid k) (c_tables c))"
      using Cons.prems(3) [of k] by (force simp: insert_key_def)
    fix x c'
    assume c': "sql_exec (insert_key (key_row pid k)) c = (Inr x, c')" "no_faults c'"
    then have "insert_key (key_row pid k) (c_tables c) = Inr (c_tables c')" by auto
    from insert_key_InrD [OF this] have "t_keys (c_tables c') = t_keys (c_tables c) @ [key_row pid k]" by simp
    moreover have "kr_index (key_row pid k) \<noteq> kr_index (key_row pid j)" if "j \<in> set ks" for j
      using Cons.prems(2) that by force
    ultimately show "runs (insert_keys pid ks) c'"
      using Cons.prems by (intro Cons.IH c') (auto simp del: distinct_map)
  qed (rule Cons.prems)
  then show ?case by simp
qed simp

lemma key_index_distinct:
  "distinct (map (\<lambda>k. (sk_kvno k, sk_enctype k)) ks) \<Longrightarrow> distinct (map kr_index (map (key_row pid) ks))"
  by (auto simp: distinct_map inj_on_def kr_index_def key_row_def word_uint_eq_iff comp_def)

lemma runs_insert:
  assumes "no_faults c" "vt_select k (get (c_tables c)) = []"
  shows "runs (sql_exec (\<lambda>t. rbind (vt_insert k cols ver del (get t)) (\<lambda>rows. Inr (put rows t)))) c"
  by (rule runs_exec) (use assms in \<open>simp_all add: vt_insert_def vt_select_Nil\<close>)

lemma runs_insert_principal:
  assumes "no_faults c" "vt_wf (t_principals (c_tables c))" "vt_select k (t_principals (c_tables c)) = []"
  shows "runs (insert_principal k cols ver) c"
  unfolding insert_principal_def
proof (rule runs_bind, rule runs_insert)
  fix x e
  assume e: "sql_exec (\<lambda>t. rbind (vt_insert k cols ver False (t_principals t)) (\<lambda>rows. Inr (t\<lparr>t_principals := rows\<rparr>))) c = (Inr x, e)"
    and nf: "no_faults e"
  from e obtain rows where rows: "vt_insert k cols ver False (t_principals (c_tables c)) = Inr rows"
    and te: "c_tables e = (c_tables c)\<lparr>t_principals := rows\<rparr>" by (rule sql_insert_InrE)
  show "runs (principal_id k) e"
    unfolding principal_id_def
    by (rule runs_bind) (use nf te vt_insert_props(2) [OF assms(2) rows, of k] in auto)
qed (use assms in auto)

lemma runs_write_principal:
  assumes wf: "tables_wf (c_tables c)" and nf: "no_faults c" and v: "change_valid (UpsertPrincipal p ver)"
    and old: "old = None \<Longrightarrow> vt_select (sp_realm p, name) (t_principals (c_tables c)) = []"
  shows "runs (write_principal p name ver old) c"
proof -
  from wf have pw: "vt_wf (t_principals (c_tables c))" by (simp add: tables_wf_def)
  from v obtain cols where f: "principal_fields p = Inr cols"
    and dist: "distinct (map (\<lambda>k. (sk_kvno k, sk_enctype k)) (sp_keys p))"
    by (cases "principal_fields p") auto
  have keys: "runs (tbind (insert_keys pid (sp_keys p)) (\<lambda>_. treturn Applied_Yes)) d"
    if "no_faults d" "\<And>q. q \<in> set (t_keys (c_tables d)) \<Longrightarrow> kr_principal_id q \<noteq> pid" for pid d
    by (rule runs_bind, rule runs_insert_keys)
      (use that key_index_distinct [OF dist] in \<open>auto simp: kr_index_def key_row_def\<close>)
  have row: "runs (case old of Some pid \<Rightarrow> update_principal pid cols ver
      | None \<Rightarrow> insert_principal (sp_realm p, name) cols ver) c"
    using runs_insert_principal [OF nf pw] nf old
    by (cases old) (auto simp: update_principal_def delete_keys_def intro!: runs_bind runs_exec)
  have fresh: "kr_principal_id q \<noteq> pid"
    if "(case old of Some pid \<Rightarrow> update_principal pid cols ver
      | None \<Rightarrow> insert_principal (sp_realm p, name) cols ver) c = (Inr pid, d)" "q \<in> set (t_keys (c_tables d))" for pid d q
  proof (cases old)
    case None
    with that insert_principal_InrE [OF _ pw] have "pid = next_rowid (t_principals (c_tables c))"
      "q \<in> set (t_keys (c_tables c))" by (force+)
    with next_rowid_unused [OF wf] show ?thesis by blast
  qed (use that in auto)
  show ?thesis unfolding write_principal_def
    by (rule runs_bind [OF runs_lift]) (use f nf row fresh keys in \<open>auto intro!: runs_bind [OF row] keys\<close>)
qed

lemma runs_remove_principal:
  assumes "no_faults c" "old = None \<Longrightarrow> vt_select k (t_principals (c_tables c)) = []"
  shows "runs (remove_principal k nt ver old) c"
proof (cases old)
  case None
  then show ?thesis unfolding remove_principal_def
    using assms by (auto intro!: runs_bind [OF runs_insert])
next
  case (Some pid)
  then show ?thesis unfolding remove_principal_def delete_keys_def
    using assms by (auto intro!: runs_bind runs_exec)
qed

lemma apply_change_runs:
  assumes wf: "tables_wf (c_tables c)" and nf: "no_faults c" and v: "change_valid ch"
  shows "runs (apply_change ch) c"
proof -
  from wf have w: "vt_wf (t_principals (c_tables c))" "vt_wf (t_policies (c_tables c))" "vt_wf (t_lockouts (c_tables c))"
    by (simp_all add: tables_wf_def)
  have guard: "runs (tbind (sql_query (\<lambda>t. vt_select k (get t))) (\<lambda>ex. unless_stale ex ver body)) c"
    if "vt_wf (get (c_tables c))"
      "\<And>d old. no_faults d \<Longrightarrow> c_tables d = c_tables c \<Longrightarrow> (old = None \<Longrightarrow> vt_select k (get (c_tables c)) = []) \<Longrightarrow>
        runs (body old) d"
    for k :: 'k and get :: "Tables \<Rightarrow> ('k, 'c) vrow list" and ver body
    by (rule runs_bind [OF runs_query [OF nf]]) (use that in \<open>auto intro!: runs_unless_stale\<close>)
  show ?thesis
  proof (cases ch)
    case (UpsertPrincipal p ver)
    with v show ?thesis
      by (auto simp: upsert_principal_def nf intro!: runs_bind [OF runs_lift] guard runs_write_principal w(1))
        (use wf in \<open>auto simp: w\<close>)
  next
    case (DeletePrincipal realm n ver)
    with v show ?thesis
      by (auto simp: delete_principal_def nf intro!: runs_bind [OF runs_lift] guard runs_remove_principal w)
  next
    case (UpsertPolicy p ver)
    have "runs (tbind (sql_query (\<lambda>t. vt_select (pol_name p) (t_policies t))) (\<lambda>existing.
        tbind (tlift (policy_fields p)) (\<lambda>cols. unless_stale existing ver
          (put_row t_policies (\<lambda>rows t. t\<lparr>t_policies := rows\<rparr>) (pol_name p) cols ver False)))) c"
      by (rule runs_bind [OF runs_query [OF nf]])
        (use v UpsertPolicy w(2) in \<open>auto intro!: runs_bind [OF runs_lift] runs_unless_stale runs_put_row\<close>)
    with UpsertPolicy show ?thesis by (simp add: upsert_policy_def)
  next
    case (DeletePolicy n ver)
    then show ?thesis by (auto simp: delete_policy_def intro!: guard runs_put_row w)
  next
    case (UpsertLockout r ver)
    with v show ?thesis
      by (auto simp: upsert_lockout_def nf intro!: runs_bind [OF runs_lift] guard runs_put_row w)
  next
    case (DeleteLockout realm n ver)
    with v show ?thesis
      by (auto simp: delete_lockout_def nf intro!: runs_bind [OF runs_lift] guard runs_put_row w)
  qed
qed

lemma apply_changes_runs:
  assumes "tables_wf (c_tables c)" "no_faults c" "list_all change_valid cs"
  shows "runs (count_changes apply_change cs y z) c"
  using assms
proof (induction cs arbitrary: c y z)
  case (Cons ch cs)
  from apply_change_runs [of c ch] Cons.prems obtain a c1 where c1: "apply_change ch c = (Inr a, c1)" "no_faults c1"
    by (auto simp: runs_def)
  from apply_change_ok [OF Cons.prems(1) c1(1)] have "tables_wf (c_tables c1)" by (simp add: change_ok_def)
  from Cons.IH [OF this c1(2)] Cons.prems(3) have "runs (count_changes apply_change cs y' z') c1" for y' z' by simp
  then show ?case by (cases a) (auto simp: runs_def c1(1))
qed (simp add: runs_def)

section \<open>Properties\<close>

text \<open>
  C17: replicas converge. Starting from replicas with the same contents, applying two lists of changes
  with the same elements, in whatever order and with whatever repetitions, gives the same contents: for
  each entity the value of the greatest version, deletions included, so a late older change never
  resurrects a deleted entity. The hypothesis on the changes is that a version names one value of an
  entity.
\<close>

theorem replica_converges:
  assumes "tables_wf (c_tables c)" "apply_changes cs c = (Inr r, c')"
    and "tables_wf (c_tables d)" "replica_view gs (c_tables d) = replica_view gs (c_tables c)"
    and "apply_changes ds d = (Inr q, d')" "set cs = set ds"
    and "lww_consistent (set (map (change_entity gs) cs)) (replica_view gs (c_tables c))"
  shows "replica_view gs (c_tables d') = replica_view gs (c_tables c') \<and>
    replica_view gs (c_tables c') = fold lww_put (map (change_entity gs) cs) (replica_view gs (c_tables c)) \<and>
    tables_wf (c_tables c') \<and> fst r + snd r = length cs"
  using turso.count_changes_converge [where gs = gs, OF assms(1) assms(2) [unfolded apply_changes_def] assms(3,4)
      assms(5) [unfolded apply_changes_def] assms(6,7)]
    turso.count_changes_ok [where gs = gs, OF assms(1) assms(2) [unfolded apply_changes_def]]
  by simp

definition example_conn :: conn where
  "example_conn = \<lparr>c_tables = empty_tables, c_script = []\<rparr>"

definition example_lockout :: LockoutRecord where
  "example_lockout = \<lparr>lo_realm = [82], lo_name = \<lparr>name_type = 1, name_string = [[117]]\<rparr>, lo_locked_at = 5,
     lo_unlock_at = None, lo_source_kdc = [107]\<rparr>"

definition example_changes :: "Change list" where
  "example_changes = [UpsertLockout example_lockout (ReplicationTs 3 0),
     DeleteLockout [82] \<lparr>name_type = 1, name_string = [[117]]\<rparr> (ReplicationTs 4 0)]"

lemma example_tables_wf: "tables_wf (c_tables example_conn)"
  by (simp add: example_conn_def empty_tables_def tables_wf_def vt_wf_def)

theorem replica_converges_witness:
  "\<exists>c' d'. snd (apply_changes example_changes example_conn) = c' \<and>
     snd (apply_changes (rev example_changes @ example_changes) example_conn) = d' \<and>
     replica_view (\<lambda>_. True) (c_tables d') = replica_view (\<lambda>_. True) (c_tables c')"
proof -
  have "fst (apply_changes example_changes example_conn) = Inr (2, 0)"
    "fst (apply_changes (rev example_changes @ example_changes) example_conn) = Inr (1, 3)"
    by code_simp+
  then obtain c' d' where r: "apply_changes example_changes example_conn = (Inr (2, 0), c')"
    "apply_changes (rev example_changes @ example_changes) example_conn = (Inr (1, 3), d')"
    by (metis prod.collapse)
  have v: "replica_view (\<lambda>_. True) (c_tables example_conn) e = None" for e
    by (cases e) (simp_all add: example_conn_def empty_tables_def vt_view_def vt_select_def)
  have "lww_consistent (set (map (change_entity (\<lambda>_. True)) example_changes)) (replica_view (\<lambda>_. True) (c_tables example_conn))"
    by (auto simp: lww_consistent_def lww_candidates_def v example_changes_def)
  with replica_converges [OF example_tables_wf r(1) example_tables_wf refl r(2)] r show ?thesis by auto
qed

text \<open>
  C36: an upserted principal is read back. After a change that was applied, a lookup of the principal
  returns every field and all keys, sorted as the lookup orders them, and lookups of other principals are as before.
\<close>

theorem upsert_lookup_roundtrip:
  assumes "tables_wf (c_tables c)" "upsert_principal p ver c = (Inr Applied_Yes, c')" "stored_wf gs p"
  shows "principal_from_rows gs (sp_realm p) (key_string (sp_name p))
      (lookup_sql (sp_realm p) (key_string (sp_name p)) (c_tables c')) =
        Inr (Some (p\<lparr>sp_keys := sort_stored (sp_keys p)\<rparr>)) \<and>
    ((realm, k) \<noteq> (sp_realm p, key_string (sp_name p)) \<longrightarrow>
      principal_from_rows gs realm k (lookup_sql realm k (c_tables c')) =
      principal_from_rows gs realm k (lookup_sql realm k (c_tables c)))"
proof -
  note ok = upsert_principal_ok [OF assms(1,2), of gs]
  then have wf': "tables_wf (c_tables c')" by (simp add: change_ok_def)
  from ok have view: "replica_view gs (c_tables c') = (replica_view gs (c_tables c))
      (E_Principal (sp_realm p) (key_string (sp_name p)) \<mapsto> (ver, Some (C_Principal (upserted_principal gs p))))"
    by (auto simp: change_ok_def lww_put_def split: if_splits)
  from assms(2) obtain n c1 where n: "encode_principal_key (sp_name p) = Inr n"
    "unless_stale (vt_select (sp_realm p, n) (t_principals (c_tables c))) ver (write_principal p n ver) c1 = (Inr Applied_Yes, c')"
    "c_tables c1 = c_tables c"
    unfolding upsert_principal_def by blast
  have "vt_wf (t_principals (c_tables c))" using assms(1) by (simp add: tables_wf_def)
  from this n(2) have "\<exists>old. write_principal p n ver old c1 = (Inr Applied_Yes, c')"
    by (cases rule: unless_stale_InrE) auto
  then obtain cols where "principal_fields p = Inr cols" by (auto simp: write_principal_def)
  from upserted_principal_roundtrip [OF assms(3) n(1) this] show ?thesis
    by (simp add: lookup_sql_view [OF wf'] lookup_sql_view [OF assms(1)] view)
qed

definition example_principal :: StoredPrincipal where
  "example_principal = \<lparr>sp_name = \<lparr>name_type = 1, name_string = [[117]]\<rparr>, sp_realm = [82], sp_attributes = 128,
     sp_max_life = Some 3600, sp_max_renewable_life = None, sp_expiration = None, sp_pw_expiration = Some 7,
     sp_last_pwd_change = None, sp_mod_time = None,
     sp_keys = [\<lparr>sk_kvno = 1, sk_enctype = 18, sk_mkvno = 1, sk_enc_key = [1], sk_salt = None, sk_s2kparams = None\<rparr>,
                \<lparr>sk_kvno = 2, sk_enctype = 18, sk_mkvno = 1, sk_enc_key = [2], sk_salt = None, sk_s2kparams = None\<rparr>],
     sp_delegate_to = [[97], [98]], sp_delegate_from = [], sp_policy = None, sp_security_epoch = 3,
     sp_last_admin_unlock = None, sp_tl_data = []\<rparr>"

theorem upsert_lookup_roundtrip_witness:
  "principal_from_rows (\<lambda>_. True) [82] [117]
     (lookup_sql [82] [117] (c_tables (snd (upsert_principal example_principal (ReplicationTs 3 0) example_conn)))) =
   Inr (Some (example_principal\<lparr>sp_keys := rev (sp_keys example_principal)\<rparr>))"
proof -
  have "fst (upsert_principal example_principal (ReplicationTs 3 0) example_conn) = Inr Applied_Yes" by code_simp
  then obtain c' where run: "upsert_principal example_principal (ReplicationTs 3 0) example_conn = (Inr Applied_Yes, c')"
    by (metis prod.collapse)
  have wf: "stored_wf (\<lambda>_. True) example_principal" by code_simp
  have "sort_stored (sp_keys example_principal) = rev (sp_keys example_principal)"
    "key_string (sp_name example_principal) = [117]" "sp_realm example_principal = [82]" by code_simp+
  with upsert_lookup_roundtrip [OF example_tables_wf run wf] show ?thesis by (simp add: run)
qed

end
