(* ===== verification/Replica.thy ===== *)
theory Replica
  imports Replica_Apply Lockout "HOL-Library.List_Lexorder" "HOL-Library.Product_Lexorder"
begin

text \<open>
  The local replica database, \<open>src/crates/krb5-rs-kdb-turso/src/replica.rs\<close>: transactions with
  retries, the checkpoint, applying a batch, rebuilding from a snapshot into a new file and switching to
  it, and the authentication counters with replicated lockouts folded in.

  A replica is its directory of database files with the \<open>CURRENT\<close> pointer, the file it serves and the
  replaced files waiting to be deleted. What the environment decides is part of the state: the failures
  of statements (\<open>r_script\<close>) and, one record per operation (\<open>r_envs\<close>), the clock, whether a new database
  opens, whether replacing \<open>CURRENT\<close> fails and which replaced files are still in use. Operations run one after
  another: a transaction that commits saw no conflicting write. Connection pools, syncing and master keys
  are left out, and deleting a file that is to be rebuilt succeeds.

  \<open>replica_sink\<close> is the interface \<open>ReplicaSink\<close> with \<open>RebuildWriter\<close> of the replication engine.
\<close>

section \<open>Transactions\<close>

definition sql_control :: "unit tx" where
  "sql_control = sql_exec Inr"

definition tx_attempt :: "'a tx \<Rightarrow> 'a tx" where
  "tx_attempt body =
     tbind sql_control (\<lambda>_. tbind body (\<lambda>out. tbind sql_control (\<lambda>_. treturn out)))"

text \<open>
  One attempt after another while the database reports a conflict and retries are \<open>left\<close>. A failed attempt is
  rolled back (the statement \<open>ROLLBACK\<close> uses up one entry of the script).
\<close>

fun tx_loop :: "nat \<Rightarrow> 'a tx \<Rightarrow> conn \<Rightarrow> nat \<Rightarrow> (StoreError + 'a) \<times> conn \<times> nat" where
  "tx_loop 0 body c n = (case tx_attempt body c of
     (Inr out, c') \<Rightarrow> (Inr out, c', n)
   | (Inl e, c') \<Rightarrow> (Inl (into_store e), c\<lparr>c_script := tl (c_script c')\<rparr>, n))"
| "tx_loop (Suc left) body c n = (case tx_attempt body c of
     (Inr out, c') \<Rightarrow> (Inr out, c', n)
   | (Inl e, c') \<Rightarrow>
       let c = c\<lparr>c_script := tl (c_script c')\<rparr> in
       if (case e of Tx_Turso t \<Rightarrow> is_conflict t | Tx_Store _ \<Rightarrow> False) then tx_loop left body c (n + 1)
       else (Inl (into_store e), c, n))"

section \<open>The replica\<close>

record Env =
  ev_now :: int
  ev_open :: "StoreError option"
  ev_io :: "StoreError option"
  ev_held :: "bytes \<Rightarrow> bool"

definition default_env :: Env where
  "default_env = \<lparr>ev_now = 0, ev_open = None, ev_io = None, ev_held = (\<lambda>_. False)\<rparr>"

record Replica =
  r_dbs :: "bytes \<rightharpoonup> Tables"
  r_current :: bytes
  r_pointer :: "bytes option"
  r_pending :: "bytes list"
  r_max_retries :: nat
  r_apply_retries :: nat
  r_auth_retries :: nat
  r_last_apply_error :: "StoreError option"
  r_script :: "TursoError option list"
  r_envs :: "Env list"

definition db_tables :: "Replica \<Rightarrow> bytes \<Rightarrow> Tables" where
  "db_tables r f = (case r_dbs r f of None \<Rightarrow> empty_tables | Some t \<Rightarrow> t)"

definition cur_tables :: "Replica \<Rightarrow> Tables" where
  "cur_tables r = db_tables r (r_current r)"

definition env_of :: "Replica \<Rightarrow> Env" where
  "env_of r = (case r_envs r of [] \<Rightarrow> default_env | e # _ \<Rightarrow> e)"

definition next_env :: "Replica \<Rightarrow> Replica" where
  "next_env r = r\<lparr>r_envs := tl (r_envs r)\<rparr>"

text \<open>\<open>write_tx\<close> on a database file, and a read on a connection of it. The retries are counted for metrics.\<close>

definition write_tx :: "bytes \<Rightarrow> 'a tx \<Rightarrow> Replica \<Rightarrow> (StoreError + 'a) \<times> Replica \<times> nat" where
  "write_tx f body r =
     (case tx_loop (r_max_retries r) body \<lparr>c_tables = db_tables r f, c_script = r_script r\<rparr> 0 of
       (res, c, n) \<Rightarrow> (res, r\<lparr>r_dbs := (r_dbs r)(f \<mapsto> c_tables c), r_script := c_script c\<rparr>, n))"

definition write_apply :: "bytes \<Rightarrow> 'a tx \<Rightarrow> Replica \<Rightarrow> (StoreError + 'a) \<times> Replica" where
  "write_apply f body r = (case write_tx f body r of
     (res, r, n) \<Rightarrow> (res, r\<lparr>r_apply_retries := r_apply_retries r + n\<rparr>))"

definition write_auth :: "bytes \<Rightarrow> 'a tx \<Rightarrow> Replica \<Rightarrow> (StoreError + 'a) \<times> Replica" where
  "write_auth f body r = (case write_tx f body r of
     (res, r, n) \<Rightarrow> (res, r\<lparr>r_auth_retries := r_auth_retries r + n\<rparr>))"

definition read_conn :: "bytes \<Rightarrow> 'a tx \<Rightarrow> Replica \<Rightarrow> (StoreError + 'a) \<times> Replica" where
  "read_conn f body r = (case body \<lparr>c_tables = db_tables r f, c_script = r_script r\<rparr> of
     (Inl e, c) \<Rightarrow> (Inl (into_store e), r\<lparr>r_script := c_script c\<rparr>)
   | (Inr x, c) \<Rightarrow> (Inr x, r\<lparr>r_script := c_script c\<rparr>))"

section \<open>Authentication state\<close>

definition auth_row :: "bytes \<Rightarrow> bytes \<Rightarrow> Tables \<Rightarrow> AuthRow list" where
  "auth_row realm k t = filter (\<lambda>a. ar_realm a = realm \<and> ar_name a = k) (t_auth t)"

definition auth_of_rows :: "AuthRow list \<Rightarrow> AuthState" where
  "auth_of_rows rows = (case rows of
     a # _ \<Rightarrow> \<lparr>fail_count = (if 0 \<le> ar_fail_count a \<and> ar_fail_count a < 2 ^ 32 then word_of_int (ar_fail_count a) else - 1),
              last_failed = ar_last_failed a, last_success = ar_last_success a\<rparr>
   | [] \<Rightarrow> default_AuthState)"

definition merge_lockout :: "int \<Rightarrow> AuthState \<Rightarrow> int \<Rightarrow> int option \<Rightarrow> AuthState" where
  "merge_lockout now s locked_at unlock_at =
     (if is_none_or unlock_at (\<lambda>u. now < u)
      then s\<lparr>fail_count := - 1, last_failed := max (last_failed s) locked_at\<rparr> else s)"

definition replica_auth_state :: "Replica auth_get" where
  "replica_auth_state r n realm =
     (let now = ev_now (env_of r) in
      read_conn (r_current r)
        (tbind (tlift (encode_principal_key n)) (\<lambda>k.
         tbind (sql_query (auth_row realm k)) (\<lambda>rows.
         tbind (sql_query (\<lambda>t. filter (\<lambda>l. \<not> v_deleted l) (vt_select (realm, k) (t_lockouts t)))) (\<lambda>locks.
           treturn (case locks of
             [] \<Rightarrow> auth_of_rows rows
           | l # _ \<Rightarrow> merge_lockout now (auth_of_rows rows) (lc_locked_at (v_cols l)) (lc_unlock_at (v_cols l)))))))
        (next_env r))"

definition set_auth :: "AuthState \<Rightarrow> AuthRow \<Rightarrow> AuthRow" where
  "set_auth s a = a\<lparr>ar_fail_count := uint (fail_count s), ar_last_failed := last_failed s, ar_last_success := last_success s\<rparr>"

definition replica_auth_apply :: "Replica auth_update" where
  "replica_auth_apply r n realm update = (case encode_principal_key n of
     Inl e \<Rightarrow> (Inl e, r)
   | Inr k \<Rightarrow> write_auth (r_current r)
       (tbind (sql_query (auth_row realm k)) (\<lambda>rows.
        let s = auth_apply (auth_of_rows rows) update in
        tbind (if rows \<noteq> [] then
            sql_exec (\<lambda>t. Inr (t\<lparr>t_auth := map (\<lambda>a. if ar_realm a = realm \<and> ar_name a = k then set_auth s a else a) (t_auth t)\<rparr>))
          else
            sql_exec (\<lambda>t. if auth_row realm k t \<noteq> [] then Inl (T_Constraint ''UNIQUE constraint failed'')
              else Inr (t\<lparr>t_auth := t_auth t @ [\<lparr>ar_realm = realm, ar_name = k, ar_fail_count = uint (fail_count s),
                ar_last_failed = last_failed s, ar_last_success = last_success s\<rparr>]\<rparr>))) (\<lambda>_. treturn s))) r)"

section \<open>The sink\<close>

definition sink_checkpoint :: "Replica \<Rightarrow> (StoreError + ReplicaCheckpoint option) \<times> Replica" where
  "sink_checkpoint r = read_conn (r_current r) read_checkpoint r"

text \<open>Delete the replaced files that no reader holds any more; one that cannot be deleted stays.\<close>

definition cleanup_old_files :: "(bytes \<Rightarrow> bool) \<Rightarrow> Replica \<Rightarrow> Replica" where
  "cleanup_old_files held r = r\<lparr>r_pending := filter held (r_pending r),
     r_dbs := (\<lambda>f. if f \<in> set (r_pending r) \<and> \<not> held f then None else r_dbs r f)\<rparr>"

definition batch_tx :: "int \<Rightarrow> ChangeBatch \<Rightarrow> ApplyOutcome tx" where
  "batch_tx now b =
     tbind (apply_changes (cb_changes b)) (\<lambda>(yes, stale).
     tbind (write_checkpoint now (cb_upto b) None) (\<lambda>_.
       treturn \<lparr>ao_applied = yes, ao_skipped_stale = stale\<rparr>))"

definition sink_apply :: "ChangeBatch \<Rightarrow> Replica \<Rightarrow> (StoreError + ApplyOutcome) \<times> Replica" where
  "sink_apply b r0 =
     (let env = env_of r0; r = next_env r0 in
      case write_apply (r_current r) (batch_tx (ev_now env) b) r of
        (res, r) \<Rightarrow>
          (res, cleanup_old_files (ev_held env)
             (r\<lparr>r_last_apply_error := (case res of Inl e \<Rightarrow> Some e | Inr _ \<Rightarrow> None)\<rparr>)))"

record TursoRebuild =
  w_file :: bytes
  w_snapshot_ts :: ReplicationTs

text \<open>The file names tried for a rebuild, and the first that is neither served nor pending.\<close>

definition rebuild_candidate :: "ReplicationTs \<Rightarrow> nat \<Rightarrow> bytes" where
  "rebuild_candidate ts n = ascii ''replica-'' @ ts_to_string ts @
     (if n = 0 then [] else [0x2d] @ dec n) @ ascii ''.db''"

lemma dec_inject: "dec m = dec n \<Longrightarrow> m = n"
  by (metis digits_value_dec of_nat_eq_iff option.inject)

lemma rebuild_candidate_inject: "rebuild_candidate ts m = rebuild_candidate ts n \<Longrightarrow> m = n"
  by (auto simp: rebuild_candidate_def split: if_splits dest: dec_inject)

lemma finite_taken: "finite {m. n \<le> m \<and> rebuild_candidate ts m \<in> set taken}"
proof (rule finite_subset)
  show "{m. n \<le> m \<and> rebuild_candidate ts m \<in> set taken} \<subseteq> rebuild_candidate ts -` set taken" by auto
  show "finite (rebuild_candidate ts -` set taken)"
    by (rule finite_vimageI) (auto simp: inj_on_def dest: rebuild_candidate_inject)
qed

function rebuild_name :: "ReplicationTs \<Rightarrow> bytes list \<Rightarrow> nat \<Rightarrow> bytes" where
  "rebuild_name ts taken n =
     (let f = rebuild_candidate ts n in if f \<in> set taken then rebuild_name ts taken (n + 1) else f)"
  by pat_completeness auto
termination
proof (relation "measure (\<lambda>(ts, taken, n). card {m. n \<le> m \<and> rebuild_candidate ts m \<in> set taken})")
  fix ts taken n f
  assume f: "f = rebuild_candidate ts n" "f \<in> set taken"
  define S where "S = {m. n \<le> m \<and> rebuild_candidate ts m \<in> set taken}"
  have "n \<in> S" using f by (simp add: S_def)
  then have "card (S - {n}) < card S" using finite_taken [of n ts taken] by (intro card_Diff1_less) (simp add: S_def)
  moreover have "{m. n + 1 \<le> m \<and> rebuild_candidate ts m \<in> set taken} = S - {n}" by (auto simp: S_def)
  ultimately show "((ts, taken, n + 1), ts, taken, n)
      \<in> measure (\<lambda>(ts, taken, n). card {m. n \<le> m \<and> rebuild_candidate ts m \<in> set taken})"
    by (simp add: S_def)
qed simp

declare rebuild_name.simps [simp del]

definition sink_begin_rebuild :: "ReplicationTs \<Rightarrow> Replica \<Rightarrow> (StoreError + TursoRebuild) \<times> Replica" where
  "sink_begin_rebuild ts r0 =
     (let env = env_of r0;
          r = cleanup_old_files (ev_held env) (next_env r0);
          f = rebuild_name ts (r_current r # r_pending r) 0;
          r = r\<lparr>r_dbs := (r_dbs r)(f := None)\<rparr>
      in case ev_open env of
           Some e \<Rightarrow> (Inl e, r)
         | None \<Rightarrow> (Inr \<lparr>w_file = f, w_snapshot_ts = ts\<rparr>, r\<lparr>r_dbs := (r_dbs r)(f \<mapsto> empty_tables)\<rparr>))"

definition sink_write :: "TursoRebuild \<Rightarrow> Change list \<Rightarrow> Replica \<Rightarrow> (StoreError + unit) \<times> Replica" where
  "sink_write w cs r = write_apply (w_file w) (tbind (apply_changes cs) (\<lambda>_. treturn ())) r"

fun chunks_of :: "nat \<Rightarrow> 'a list \<Rightarrow> 'a list list" where
  "chunks_of n xs = (if xs = [] \<or> n = 0 then [] else take n xs # chunks_of n (drop n xs))"

declare chunks_of.simps [simp del]

text \<open>\<open>INSERT ... ON CONFLICT (realm, name) DO UPDATE\<close>.\<close>

definition put_auth :: "AuthRow \<Rightarrow> Tables \<Rightarrow> Tables" where
  "put_auth a t =
     (if auth_row (ar_realm a) (ar_name a) t \<noteq> [] then
        t\<lparr>t_auth := map (\<lambda>b. if ar_realm b = ar_realm a \<and> ar_name b = ar_name a then a else b) (t_auth t)\<rparr>
      else t\<lparr>t_auth := t_auth t @ [a]\<rparr>)"

fun copy_rows :: "AuthRow list \<Rightarrow> unit tx" where
  "copy_rows [] = treturn ()"
| "copy_rows (a # as) = tbind (sql_exec (\<lambda>t. Inr (put_auth a t))) (\<lambda>_. copy_rows as)"

fun copy_chunks :: "bytes \<Rightarrow> AuthRow list list \<Rightarrow> Replica \<Rightarrow> (StoreError + unit) \<times> Replica" where
  "copy_chunks dst [] r = (Inr (), r)"
| "copy_chunks dst (ch # chs) r = (case write_auth dst (copy_rows ch) r of
     (Inl e, r) \<Rightarrow> (Inl e, r)
   | (Inr _, r) \<Rightarrow> copy_chunks dst chs r)"

definition copy_auth_state :: "bytes \<Rightarrow> bytes \<Rightarrow> Replica \<Rightarrow> (StoreError + unit) \<times> Replica" where
  "copy_auth_state src dst r =
     (case read_conn src (sql_query (\<lambda>t. sort_key (\<lambda>a. (ar_realm a, ar_name a)) (t_auth t))) r of
       (Inl e, r) \<Rightarrow> (Inl e, r)
     | (Inr rows, r) \<Rightarrow> copy_chunks dst (chunks_of 1000 rows) r)"

definition sink_commit :: "TursoRebuild \<Rightarrow> Replica \<Rightarrow> (StoreError + unit) \<times> Replica" where
  "sink_commit w r0 =
     (let env = env_of r0; r = next_env r0; ts = w_snapshot_ts w in
      case copy_auth_state (r_current r) (w_file w) r of
        (Inl e, r) \<Rightarrow> (Inl e, r)
      | (Inr _, r) \<Rightarrow>
         (case write_apply (w_file w) (write_checkpoint (ev_now env) ts (Some ts)) r of
           (Inl e, r) \<Rightarrow> (Inl e, r)
         | (Inr _, r) \<Rightarrow>
            let r = r\<lparr>r_script := tl (r_script r)\<rparr> in
            (case ev_io env of
              Some e \<Rightarrow> (Inl e, r)
            | None \<Rightarrow>
                (Inr (), cleanup_old_files (ev_held env)
                  (r\<lparr>r_pointer := Some (w_file w), r_current := w_file w, r_pending := r_pending r @ [r_current r]\<rparr>)))))"

definition sink_abort :: "TursoRebuild \<Rightarrow> Replica \<Rightarrow> (StoreError + unit) \<times> Replica" where
  "sink_abort w r = (Inr (), r\<lparr>r_dbs := (r_dbs r)(w_file w := None)\<rparr>)"

section \<open>The sink interface\<close>

text \<open>
  \<open>view\<close> is what the replica serves, \<open>cp\<close> its checkpoint and \<open>building w s\<close> says that \<open>w\<close> is an
  open rebuild, of which \<open>wview w s\<close> is what it has written.
\<close>

locale replica_sink =
  fixes checkpoint :: "'s \<Rightarrow> (StoreError + ReplicaCheckpoint option) \<times> 's"
    and apply_batch :: "ChangeBatch \<Rightarrow> 's \<Rightarrow> (StoreError + ApplyOutcome) \<times> 's"
    and begin_rebuild :: "ReplicationTs \<Rightarrow> 's \<Rightarrow> (StoreError + 'w) \<times> 's"
    and write_page :: "'w \<Rightarrow> Change list \<Rightarrow> 's \<Rightarrow> (StoreError + unit) \<times> 's"
    and commit :: "'w \<Rightarrow> 's \<Rightarrow> (StoreError + unit) \<times> 's"
    and abort :: "'w \<Rightarrow> 's \<Rightarrow> (StoreError + unit) \<times> 's"
    and inv :: "'s \<Rightarrow> bool"
    and view :: "'s \<Rightarrow> ('k, 'v) versioned"
    and cp :: "'s \<Rightarrow> ReplicaCheckpoint option"
    and building :: "'w \<Rightarrow> 's \<Rightarrow> bool"
    and wview :: "'w \<Rightarrow> 's \<Rightarrow> ('k, 'v) versioned"
    and wts :: "'w \<Rightarrow> ReplicationTs"
    and ent :: "Change \<Rightarrow> 'k \<times> ReplicationTs \<times> 'v"
  assumes checkpoint_law: "inv s \<Longrightarrow> checkpoint s = (res, s') \<Longrightarrow>
      inv s' \<and> view s' = view s \<and> cp s' = cp s \<and> (\<forall>x. res = Inr x \<longrightarrow> x = cp s)"
    and apply_ok: "inv s \<Longrightarrow> apply_batch b s = (Inr out, s') \<Longrightarrow>
      inv s' \<and> view s' = fold lww_put (map ent (cb_changes b)) (view s) \<and>
      (\<exists>x. cp s' = Some x \<and> cp_ts x = (case cp s of None \<Rightarrow> cb_upto b | Some y \<Rightarrow> max (cb_upto b) (cp_ts y)))"
    and apply_err: "inv s \<Longrightarrow> apply_batch b s = (Inl e, s') \<Longrightarrow> inv s' \<and> view s' = view s \<and> cp s' = cp s"
    and begin_ok: "inv s \<Longrightarrow> begin_rebuild ts s = (Inr w, s') \<Longrightarrow>
      inv s' \<and> view s' = view s \<and> cp s' = cp s \<and> building w s' \<and> wview w s' = Map.empty \<and> wts w = ts"
    and begin_err: "inv s \<Longrightarrow> begin_rebuild ts s = (Inl e, s') \<Longrightarrow> inv s' \<and> view s' = view s \<and> cp s' = cp s"
    and write_ok: "inv s \<Longrightarrow> building w s \<Longrightarrow> write_page w cs s = (Inr u, s') \<Longrightarrow>
      inv s' \<and> view s' = view s \<and> cp s' = cp s \<and> building w s' \<and> wview w s' = fold lww_put (map ent cs) (wview w s)"
    and write_err: "inv s \<Longrightarrow> building w s \<Longrightarrow> write_page w cs s = (Inl e, s') \<Longrightarrow>
      inv s' \<and> view s' = view s \<and> cp s' = cp s \<and> building w s'"
    and commit_ok: "inv s \<Longrightarrow> building w s \<Longrightarrow> commit w s = (Inr u, s') \<Longrightarrow>
      inv s' \<and> view s' = wview w s \<and> (\<exists>x. cp s' = Some x \<and> cp_ts x = wts w)"
    and commit_err: "inv s \<Longrightarrow> building w s \<Longrightarrow> commit w s = (Inl e, s') \<Longrightarrow>
      inv s' \<and> view s' = view s \<and> cp s' = cp s"
    and abort_law: "inv s \<Longrightarrow> building w s \<Longrightarrow> abort w s = (ares, s') \<Longrightarrow>
      inv s' \<and> view s' = view s \<and> cp s' = cp s"

section \<open>Lemmas on transactions\<close>

lemma sql_control_InrE [elim!]:
  assumes "sql_control c = (Inr u, c')"
  obtains "c_tables c' = c_tables c"
  using assms unfolding sql_control_def by (elim sql_exec_InrE) simp

lemma tx_attempt_InrE:
  assumes "tx_attempt body c = (Inr x, c')"
  obtains c1 c2 where "c_tables c1 = c_tables c" "body c1 = (Inr x, c2)" "c_tables c' = c_tables c2"
  using assms unfolding tx_attempt_def by (elim tbind_InrE sql_control_InrE treturn_InrE) auto

text \<open>A transaction takes effect as a whole, on the tables it started from, or not at all.\<close>

lemma tx_loop_InrE:
  assumes "tx_loop left body c n = (Inr x, c', m)"
  obtains c1 c2 where "c_tables c1 = c_tables c" "body c1 = (Inr x, c2)" "c_tables c' = c_tables c2"
  using assms
proof (induction left body c n arbitrary: thesis rule: tx_loop.induct)
  case (1 body c n)
  then show ?case by (auto split: prod.splits sum.splits elim: tx_attempt_InrE)
next
  case (2 left body c n)
  show ?case
  proof (cases "tx_attempt body c")
    case (Pair res c1)
    show ?thesis
    proof (cases res)
      case (Inl e)
      with 2 Pair show ?thesis by (auto simp: Let_def split: if_splits)
    next
      case (Inr y)
      with 2(2,3) Pair show ?thesis by (auto elim: tx_attempt_InrE)
    qed
  qed
qed

lemma tx_loop_Inl: "tx_loop left body c n = (Inl e, c', m) \<Longrightarrow> c_tables c' = c_tables c"
  by (induction left body c n rule: tx_loop.induct)
    (auto simp: Let_def split: prod.splits sum.splits if_splits)

lemma tx_loop_retries: "tx_loop left body c n = (res, c', m) \<Longrightarrow> n \<le> m \<and> m \<le> n + left"
  by (induction left body c n rule: tx_loop.induct)
    (force simp: Let_def split: prod.splits sum.splits if_splits)+

section \<open>The invariant\<close>

definition logical_ok :: "int \<Rightarrow> bool" where "logical_ok l \<longleftrightarrow> 0 \<le> l \<and> l < 2 ^ 32"

definition state_wf :: "Tables \<Rightarrow> bool" where
  "state_wf t \<longleftrightarrow> (case t_state t of None \<Rightarrow> True
     | Some r \<Rightarrow> logical_ok (st_checkpoint_logical r) \<and> is_none_or (st_snapshot_logical r) logical_ok)"

definition auth_key :: "AuthRow \<Rightarrow> bytes \<times> bytes" where
  "auth_key a = (ar_realm a, ar_name a)"

definition auth_wf :: "Tables \<Rightarrow> bool" where
  "auth_wf t \<longleftrightarrow> distinct (map auth_key (t_auth t))"

definition tables_ok :: "Tables \<Rightarrow> bool" where
  "tables_ok t \<longleftrightarrow> tables_wf t \<and> state_wf t \<and> auth_wf t"

definition tables_cp :: "Tables \<Rightarrow> ReplicaCheckpoint option" where
  "tables_cp t = (case checkpoint_value t of Inl _ \<Rightarrow> None | Inr x \<Rightarrow> x)"

definition replica_inv :: "Replica \<Rightarrow> bool" where
  "replica_inv r \<longleftrightarrow> (case r_dbs r (r_current r) of None \<Rightarrow> False | Some t \<Rightarrow> tables_ok t) \<and>
     r_pointer r = Some (r_current r) \<and> r_current r \<notin> set (r_pending r)"

definition replica_cp :: "Replica \<Rightarrow> ReplicaCheckpoint option" where
  "replica_cp r = tables_cp (cur_tables r)"

definition building :: "TursoRebuild \<Rightarrow> Replica \<Rightarrow> bool" where
  "building w r \<longleftrightarrow> w_file w \<noteq> r_current r \<and> w_file w \<notin> set (r_pending r) \<and>
     (case r_dbs r (w_file w) of None \<Rightarrow> False | Some t \<Rightarrow> tables_ok t \<and> t_state t = None \<and> t_auth t = [])"

lemma state_wf_value: "state_wf t \<Longrightarrow> checkpoint_value t = Inr (tables_cp t)"
  by (auto simp: state_wf_def tables_cp_def checkpoint_value_def checkpoint_of_row_def try_u32_def logical_ok_def Let_def
      split: option.splits)

lemma tables_cp_None [simp]: "t_state t = None \<Longrightarrow> tables_cp t = None"
  by (simp add: tables_cp_def checkpoint_value_def)

lemma replica_view_frame [simp]:
  "replica_view gs (t\<lparr>t_state := x\<rparr>) = replica_view gs t" "replica_view gs (t\<lparr>t_auth := y\<rparr>) = replica_view gs t"
proof -
  have "replica_view gs (t\<lparr>t_state := x\<rparr>) e = replica_view gs t e" for e by (cases e) simp_all
  moreover have "replica_view gs (t\<lparr>t_auth := y\<rparr>) e = replica_view gs t e" for e by (cases e) simp_all
  ultimately show "replica_view gs (t\<lparr>t_state := x\<rparr>) = replica_view gs t"
    "replica_view gs (t\<lparr>t_auth := y\<rparr>) = replica_view gs t" by blast+
qed

lemma tables_frame [simp]:
  "tables_wf (t\<lparr>t_state := x\<rparr>) = tables_wf t" "tables_wf (t\<lparr>t_auth := y\<rparr>) = tables_wf t"
  "state_wf (t\<lparr>t_auth := y\<rparr>) = state_wf t" "tables_cp (t\<lparr>t_auth := y\<rparr>) = tables_cp t"
  by (simp_all add: tables_wf_def state_wf_def tables_cp_def checkpoint_value_def)

lemma replica_view_empty [simp]: "replica_view gs empty_tables = Map.empty"
proof
  fix e show "replica_view gs empty_tables e = None"
    by (cases e) (simp_all add: empty_tables_def vt_view_def vt_select_def)
qed

lemma empty_tables_ok: "tables_ok empty_tables" "t_state empty_tables = None" "t_auth empty_tables = []"
  by (simp_all add: tables_ok_def empty_tables_def tables_wf_def vt_wf_def state_wf_def auth_wf_def)

lemma write_checkpoint_InrD:
  assumes "write_checkpoint now ts snap c = (Inr u, c')" "state_wf (c_tables c)"
  shows "\<exists>x. c_tables c' = (c_tables c)\<lparr>t_state := x\<rparr>" "state_wf (c_tables c')"
    "\<exists>y. tables_cp (c_tables c') = Some y \<and>
       cp_ts y = (case tables_cp (c_tables c) of None \<Rightarrow> ts | Some z \<Rightarrow> max ts (cp_ts z))"
proof -
  from assms(1) obtain cur c1 where cur: "checkpoint_value (c_tables c) = Inr cur" and c1: "c_tables c1 = c_tables c"
    and w: "(case cur of
     None \<Rightarrow> sql_exec (\<lambda>t. Inr (t\<lparr>t_state := Some
         \<lparr>st_checkpoint_wall = wall_nanos ts, st_checkpoint_logical = uint (logical ts),
          st_snapshot_wall = map_option wall_nanos snap,
          st_snapshot_logical = map_option (uint \<circ> logical) snap, st_last_success_unix = now\<rparr>\<rparr>))
   | Some cur \<Rightarrow> (let ts = max ts (cp_ts cur) in
       sql_exec (\<lambda>t. Inr (t\<lparr>t_state := map_option (\<lambda>r. r\<lparr>st_checkpoint_wall := wall_nanos ts,
         st_checkpoint_logical := uint (logical ts), st_last_success_unix := now\<rparr>) (t_state t)\<rparr>)))) c1 = (Inr u, c')"
    unfolding write_checkpoint_def read_checkpoint_def by blast
  have cp: "tables_cp (c_tables c) = cur" using cur by (simp add: tables_cp_def)
  have row: "tables_cp (t\<lparr>t_state := Some r\<rparr>) \<noteq> None \<and>
      (\<forall>y. tables_cp (t\<lparr>t_state := Some r\<rparr>) = Some y \<longrightarrow> cp_ts y = ReplicationTs (st_checkpoint_wall r) (word_of_int (st_checkpoint_logical r)))"
    if "state_wf (t\<lparr>t_state := Some r\<rparr>)" for t r
    using that
    by (auto simp: tables_cp_def checkpoint_value_def checkpoint_of_row_def try_u32_def state_wf_def logical_ok_def Let_def
        split: option.splits)
  have "\<exists>r. c_tables c' = (c_tables c)\<lparr>t_state := Some r\<rparr> \<and> state_wf ((c_tables c)\<lparr>t_state := Some r\<rparr>) \<and>
      ReplicationTs (st_checkpoint_wall r) (word_of_int (st_checkpoint_logical r)) =
        (case cur of None \<Rightarrow> ts | Some z \<Rightarrow> max ts (cp_ts z))"
  proof (cases cur)
    case None
    with w c1 show ?thesis by (cases snap) (auto simp: state_wf_def logical_ok_def)
  next
    case (Some z)
    with cur obtain r where r: "t_state (c_tables c) = Some r"
      by (auto simp: checkpoint_value_def split: option.splits)
    with w c1 Some assms(2) show ?thesis by (auto simp: Let_def state_wf_def logical_ok_def)
  qed
  then obtain r where r: "c_tables c' = (c_tables c)\<lparr>t_state := Some r\<rparr>" "state_wf ((c_tables c)\<lparr>t_state := Some r\<rparr>)"
    "ReplicationTs (st_checkpoint_wall r) (word_of_int (st_checkpoint_logical r)) =
        (case cur of None \<Rightarrow> ts | Some z \<Rightarrow> max ts (cp_ts z))" by blast
  show "\<exists>x. c_tables c' = (c_tables c)\<lparr>t_state := x\<rparr>" "state_wf (c_tables c')"
    "\<exists>y. tables_cp (c_tables c') = Some y \<and>
       cp_ts y = (case tables_cp (c_tables c) of None \<Rightarrow> ts | Some z \<Rightarrow> max ts (cp_ts z))"
    using r(1,2) row [OF r(2)] by (auto simp: cp r(3))
qed

lemma apply_changes_InrD:
  assumes "apply_changes cs c = (Inr r, c')" "tables_ok (c_tables c)"
  shows "tables_ok (c_tables c') \<and> t_state (c_tables c') = t_state (c_tables c) \<and> t_auth (c_tables c') = t_auth (c_tables c) \<and>
    replica_view gs (c_tables c') = fold lww_put (map (change_entity gs) cs) (replica_view gs (c_tables c)) \<and>
    fst r + snd r = length cs"
proof -
  from assms have wf: "tables_wf (c_tables c)" and run: "count_changes apply_change cs 0 0 c = (Inr r, c')"
    by (simp_all add: tables_ok_def apply_changes_def)
  from turso.count_changes_ok [where gs = gs, OF wf run] apply_changes_frame [OF wf run] assms(2) show ?thesis
    by (simp add: tables_ok_def state_wf_def auth_wf_def)
qed

lemma batch_tx_InrD:
  assumes "batch_tx now b c = (Inr out, c')" "tables_ok (c_tables c)"
  shows "tables_ok (c_tables c') \<and> t_auth (c_tables c') = t_auth (c_tables c) \<and>
    replica_view gs (c_tables c') = fold lww_put (map (change_entity gs) (cb_changes b)) (replica_view gs (c_tables c)) \<and>
    ao_applied out + ao_skipped_stale out = length (cb_changes b) \<and>
    (\<exists>y. tables_cp (c_tables c') = Some y \<and>
       cp_ts y = (case tables_cp (c_tables c) of None \<Rightarrow> cb_upto b | Some z \<Rightarrow> max (cb_upto b) (cp_ts z)))"
proof -
  from assms(1) obtain yes stale c1 u where run: "apply_changes (cb_changes b) c = (Inr (yes, stale), c1)"
    and w: "write_checkpoint now (cb_upto b) None c1 = (Inr u, c')"
    and out: "out = \<lparr>ao_applied = yes, ao_skipped_stale = stale\<rparr>"
    by (auto simp: batch_tx_def)
  note a = apply_changes_InrD [where gs = gs, OF run assms(2)]
  then have "state_wf (c_tables c1)" by (simp add: tables_ok_def)
  note x = write_checkpoint_InrD [OF w this]
  have "tables_cp (c_tables c1) = tables_cp (c_tables c)" using a by (simp add: tables_cp_def checkpoint_value_def)
  with x(3) have 3: "\<exists>y. tables_cp (c_tables c') = Some y \<and>
      cp_ts y = (case tables_cp (c_tables c) of None \<Rightarrow> cb_upto b | Some z \<Rightarrow> max (cb_upto b) (cp_ts z))" by simp
  from x(1) obtain z where z: "c_tables c' = (c_tables c1)\<lparr>t_state := z\<rparr>" by blast
  have "auth_wf (c_tables c')" using conjunct1 [OF a] by (simp add: z tables_ok_def auth_wf_def)
  with z a x(2) out 3 show ?thesis by (simp add: tables_ok_def)
qed

text \<open>What an operation on one database file leaves of the replica.\<close>

definition db_step :: "bytes \<Rightarrow> Tables \<Rightarrow> Replica \<Rightarrow> Replica \<Rightarrow> bool" where
  "db_step f t r r' \<longleftrightarrow> r_dbs r' = (r_dbs r)(f \<mapsto> t) \<and> r_current r' = r_current r \<and>
     r_pointer r' = r_pointer r \<and> r_pending r' = r_pending r"

lemma write_tx_cases:
  assumes "write_tx f body r = (res, r', n)"
  obtains (ok) x c1 c2 where "res = Inr x" "c_tables c1 = db_tables r f" "body c1 = (Inr x, c2)"
      "db_step f (c_tables c2) r r'"
  | (err) e where "res = Inl e" "db_step f (db_tables r f) r r'"
proof -
  obtain c m where l: "tx_loop (r_max_retries r) body \<lparr>c_tables = db_tables r f, c_script = r_script r\<rparr> 0 = (res, c, m)"
    and r': "r' = r\<lparr>r_dbs := (r_dbs r)(f \<mapsto> c_tables c), r_script := c_script c\<rparr>"
    using assms by (auto simp: write_tx_def split: prod.splits)
  show thesis
  proof (cases res)
    case (Inl e)
    from tx_loop_Inl [OF l [unfolded Inl]] have "c_tables c = db_tables r f" by simp
    with Inl r' show thesis by (auto simp: db_step_def intro!: err)
  next
    case (Inr x)
    with l obtain c1 c2 where "c_tables c1 = db_tables r f" "body c1 = (Inr x, c2)" "c_tables c = c_tables c2"
      by (auto elim!: tx_loop_InrE)
    with Inr r' show thesis by (auto simp: db_step_def intro!: ok)
  qed
qed

lemma write_apply_cases:
  assumes "write_apply f body r = (res, r')"
  obtains (ok) x c1 c2 where "res = Inr x" "c_tables c1 = db_tables r f" "body c1 = (Inr x, c2)"
      "db_step f (c_tables c2) r r'"
  | (err) e where "res = Inl e" "db_step f (db_tables r f) r r'"
proof -
  obtain r1 n where w: "write_tx f body r = (res, r1, n)" and r': "r' = r1\<lparr>r_apply_retries := r_apply_retries r1 + n\<rparr>"
    using assms by (auto simp: write_apply_def split: prod.splits)
  from w ok err r' show thesis by (cases rule: write_tx_cases) (auto simp: db_step_def)
qed

lemma write_auth_cases:
  assumes "write_auth f body r = (res, r')"
  obtains (ok) x c1 c2 where "res = Inr x" "c_tables c1 = db_tables r f" "body c1 = (Inr x, c2)"
      "db_step f (c_tables c2) r r'"
  | (err) e where "res = Inl e" "db_step f (db_tables r f) r r'"
proof -
  obtain r1 n where w: "write_tx f body r = (res, r1, n)" and r': "r' = r1\<lparr>r_auth_retries := r_auth_retries r1 + n\<rparr>"
    using assms by (auto simp: write_auth_def split: prod.splits)
  from w ok err r' show thesis by (cases rule: write_tx_cases) (auto simp: db_step_def)
qed

lemma inv_tables:
  assumes "replica_inv r"
  shows "r_dbs r (r_current r) = Some (cur_tables r)" "tables_ok (cur_tables r)"
  using assms by (auto simp: replica_inv_def cur_tables_def db_tables_def split: option.splits)

lemma building_tables:
  assumes "building w r"
  shows "r_dbs r (w_file w) = Some (db_tables r (w_file w))" "tables_ok (db_tables r (w_file w))"
    "t_state (db_tables r (w_file w)) = None" "t_auth (db_tables r (w_file w)) = []"
  using assms by (auto simp: building_def db_tables_def split: option.splits)

text \<open>A step on the served file keeps the invariant when its new tables are good, one on another file does not matter.\<close>

lemma step_current:
  assumes "db_step (r_current r) t r r'" "replica_inv r" "tables_ok t"
  shows "replica_inv r'" "cur_tables r' = t"
  using assms by (auto simp: db_step_def replica_inv_def cur_tables_def db_tables_def)

lemma step_other:
  assumes "db_step f t r r'" "replica_inv r" "f \<noteq> r_current r"
  shows "replica_inv r'" "cur_tables r' = cur_tables r" "db_tables r' f = t"
  using assms by (auto simp: db_step_def replica_inv_def cur_tables_def db_tables_def)

lemma cleanup_inv:
  assumes "replica_inv r"
  shows "replica_inv (cleanup_old_files held r)" "cur_tables (cleanup_old_files held r) = cur_tables r"
  using assms by (auto simp: cleanup_old_files_def replica_inv_def cur_tables_def db_tables_def)

lemma field_updates [simp]:
  "replica_inv (r\<lparr>r_script := x\<rparr>) = replica_inv r" "cur_tables (r\<lparr>r_script := x\<rparr>) = cur_tables r"
  "replica_inv (next_env r) = replica_inv r" "cur_tables (next_env r) = cur_tables r"
  "r_current (next_env r) = r_current r" "db_tables (next_env r) = db_tables r"
  "replica_inv (r\<lparr>r_last_apply_error := y\<rparr>) = replica_inv r"
  "cur_tables (r\<lparr>r_last_apply_error := y\<rparr>) = cur_tables r"
  "building w (next_env r) = building w r" "building w (r\<lparr>r_script := x\<rparr>) = building w r"
  "db_tables (r\<lparr>r_script := x\<rparr>) = db_tables r"
  by (auto simp: replica_inv_def cur_tables_def db_tables_def next_env_def building_def fun_eq_iff)

lemma read_conn_state: "read_conn f body r = (res, r') \<Longrightarrow> \<exists>s. r' = r\<lparr>r_script := s\<rparr>"
  by (auto simp: read_conn_def split: prod.splits sum.splits)

section \<open>The laws of the sink\<close>

lemma rebuild_name_fresh: "rebuild_name ts taken n \<notin> set taken"
proof (induction ts taken n rule: rebuild_name.induct)
  case (1 ts taken n)
  show ?case using 1 [OF refl] by (cases "rebuild_candidate ts n \<in> set taken") (simp_all add: rebuild_name.simps [of ts taken n] Let_def)
qed

lemma sink_checkpoint_law:
  assumes "replica_inv r" "sink_checkpoint r = (res, r')"
  shows "replica_inv r' \<and> cur_tables r' = cur_tables r \<and> (\<forall>x. res = Inr x \<longrightarrow> x = replica_cp r)"
proof -
  from read_conn_state [of _ _ r res r'] assms(2) obtain s where r': "r' = r\<lparr>r_script := s\<rparr>"
    by (auto simp: sink_checkpoint_def)
  have "x = replica_cp r" if x: "res = Inr x" for x
  proof -
    from assms(2) x obtain c where "read_checkpoint \<lparr>c_tables = cur_tables r, c_script = r_script r\<rparr> = (Inr x, c)"
      by (auto simp: sink_checkpoint_def read_conn_def cur_tables_def split: prod.splits sum.splits)
    then have "checkpoint_value (cur_tables r) = Inr x" unfolding read_checkpoint_def by auto
    then show ?thesis by (simp add: replica_cp_def tables_cp_def)
  qed
  with assms(1) show ?thesis by (simp add: r')
qed

lemma sink_apply_ok:
  assumes "replica_inv r" "sink_apply b r = (Inr out, r')"
  shows "replica_inv r' \<and> t_auth (cur_tables r') = t_auth (cur_tables r) \<and>
    replica_view gs (cur_tables r') = fold lww_put (map (change_entity gs) (cb_changes b)) (replica_view gs (cur_tables r)) \<and>
    ao_applied out + ao_skipped_stale out = length (cb_changes b) \<and>
    (\<exists>y. replica_cp r' = Some y \<and>
       cp_ts y = (case replica_cp r of None \<Rightarrow> cb_upto b | Some z \<Rightarrow> max (cb_upto b) (cp_ts z)))"
proof -
  obtain r1 where w: "write_apply (r_current r) (batch_tx (ev_now (env_of r)) b) (next_env r) = (Inr out, r1)"
    and r': "r' = cleanup_old_files (ev_held (env_of r)) (r1\<lparr>r_last_apply_error := None\<rparr>)"
    using assms(2) by (auto simp: sink_apply_def Let_def split: prod.splits)
  from w obtain c1 c2 where c1: "c_tables c1 = cur_tables r" and run: "batch_tx (ev_now (env_of r)) b c1 = (Inr out, c2)"
    and st: "db_step (r_current r) (c_tables c2) (next_env r) r1"
    by (cases rule: write_apply_cases) (auto simp: cur_tables_def)
  have "tables_ok (c_tables c1)" using inv_tables [OF assms(1)] c1 by simp
  note t = batch_tx_InrD [where gs = gs, OF run this]
  have st': "db_step (r_current (next_env r)) (c_tables c2) (next_env r) r1" using st by simp
  note k = step_current [OF st'] cleanup_inv
  have 1: "replica_inv r1" "cur_tables r1 = c_tables c2" using k(1,2) t assms(1) by simp_all
  have 2: "replica_inv r'" "cur_tables r' = c_tables c2" using k(3,4) 1 unfolding r' by simp_all
  from t 2 c1 show ?thesis by (simp add: replica_cp_def)
qed

lemma sink_apply_err:
  assumes "replica_inv r" "sink_apply b r = (Inl e, r')"
  shows "replica_inv r' \<and> cur_tables r' = cur_tables r"
proof -
  obtain r1 where w: "write_apply (r_current r) (batch_tx (ev_now (env_of r)) b) (next_env r) = (Inl e, r1)"
    and r': "r' = cleanup_old_files (ev_held (env_of r)) (r1\<lparr>r_last_apply_error := Some e\<rparr>)"
    using assms(2) by (auto simp: sink_apply_def Let_def split: prod.splits)
  from w have st: "db_step (r_current (next_env r)) (cur_tables r) (next_env r) r1"
    by (cases rule: write_apply_cases) (auto simp: cur_tables_def)
  note k = step_current [OF st]
  have "replica_inv r1" "cur_tables r1 = cur_tables r" using k inv_tables [OF assms(1)] assms(1) by simp_all
  then show ?thesis using cleanup_inv unfolding r' by simp
qed

lemma sink_begin_law:
  assumes "replica_inv r" "sink_begin_rebuild ts r = (res, r')"
  shows "replica_inv r' \<and> cur_tables r' = cur_tables r \<and>
    (\<forall>w. res = Inr w \<longrightarrow> building w r' \<and> db_tables r' (w_file w) = empty_tables \<and> w_snapshot_ts w = ts)"
proof -
  let ?r = "cleanup_old_files (ev_held (env_of r)) (next_env r)"
  let ?f = "rebuild_name ts (r_current ?r # r_pending ?r) 0"
  have f: "?f \<noteq> r_current ?r" "?f \<notin> set (r_pending ?r)"
    using rebuild_name_fresh [of ts "r_current ?r # r_pending ?r" 0] by auto
  have inv: "replica_inv ?r" "cur_tables ?r = cur_tables r" using cleanup_inv [of "next_env r"] assms(1) by simp_all
  show ?thesis
    using assms(2) f inv
    by (auto simp: sink_begin_rebuild_def Let_def replica_inv_def cur_tables_def db_tables_def building_def empty_tables_ok
        split: option.splits)
qed

lemma sink_write_law:
  assumes "replica_inv r" "building w r" "sink_write w cs r = (res, r')"
  shows "replica_inv r' \<and> cur_tables r' = cur_tables r \<and> building w r' \<and>
    (\<forall>u. res = Inr u \<longrightarrow> replica_view gs (db_tables r' (w_file w)) =
       fold lww_put (map (change_entity gs) cs) (replica_view gs (db_tables r (w_file w))))"
proof -
  have ne: "w_file w \<noteq> r_current r" using assms(2) by (simp add: building_def)
  note b = building_tables [OF assms(2)]
  from assms(3) show ?thesis unfolding sink_write_def
  proof (cases rule: write_apply_cases)
    case (ok x c1 c2)
    then obtain q where run: "apply_changes cs c1 = (Inr q, c2)" by auto
    with apply_changes_InrD [where gs = gs, OF run] b ok(2) have t: "tables_ok (c_tables c2)"
      "t_state (c_tables c2) = None" "t_auth (c_tables c2) = []"
      "replica_view gs (c_tables c2) = fold lww_put (map (change_entity gs) cs) (replica_view gs (db_tables r (w_file w)))"
      by simp_all
    from step_other [OF ok(4) assms(1) ne] t ok(4) assms(2) show ?thesis
      by (simp add: building_def db_step_def)
  next
    case (err e)
    from step_other [OF err(2) assms(1) ne] err b assms(2) show ?thesis
      by (simp add: building_def db_step_def)
  qed
qed

definition same_dir :: "Replica \<Rightarrow> Replica \<Rightarrow> bool" where
  "same_dir r r' \<longleftrightarrow> r_current r' = r_current r \<and> r_pointer r' = r_pointer r \<and> r_pending r' = r_pending r \<and>
     cur_tables r' = cur_tables r \<and> replica_inv r'"

lemma same_dir_other: "db_step f t r r' \<Longrightarrow> replica_inv r \<Longrightarrow> f \<noteq> r_current r \<Longrightarrow> same_dir r r' \<and> db_tables r' f = t"
  using step_other by (simp add: same_dir_def db_step_def)

lemma copy_rows_InrD: "copy_rows as c = (Inr u, c') \<Longrightarrow> c_tables c' = fold put_auth as (c_tables c)"
  by (induction as arbitrary: c) auto

lemma copy_chunks_law:
  assumes "replica_inv r" "dst \<noteq> r_current r" "copy_chunks dst chs r = (res, r')"
  shows "same_dir r r' \<and> (\<forall>u. res = Inr u \<longrightarrow> db_tables r' dst = fold put_auth (concat chs) (db_tables r dst))"
  using assms
proof (induction chs arbitrary: r)
  case Nil
  then show ?case by (simp add: same_dir_def)
next
  case (Cons ch chs)
  obtain res1 r1 where w: "write_auth dst (copy_rows ch) r = (res1, r1)" by fastforce
  from w show ?case
  proof (cases rule: write_auth_cases)
    case (ok x c1 c2)
    note k = same_dir_other [OF ok(4) Cons.prems(1,2)]
    from Cons.prems(3) w ok(1) have "copy_chunks dst chs r1 = (res, r')" by simp
    with Cons.IH [of r1] k Cons.prems(2) copy_rows_InrD [OF ok(3)] ok(2) show ?thesis by (auto simp: same_dir_def)
  next
    case (err e)
    with same_dir_other [OF err(2) Cons.prems(1,2)] Cons.prems(3) w show ?thesis by auto
  qed
qed

lemma concat_chunks: "0 < n \<Longrightarrow> concat (chunks_of n xs) = xs"
  by (induction n xs rule: chunks_of.induct) (subst chunks_of.simps, auto)

lemma auth_row_Nil: "auth_row (ar_realm a) (ar_name a) t = [] \<longleftrightarrow> auth_key a \<notin> set (map auth_key (t_auth t))"
  by (auto simp: auth_row_def auth_key_def filter_empty_conv image_iff)

lemma put_auth_all:
  "distinct (map auth_key (t_auth t @ as)) \<Longrightarrow> fold put_auth as t = t\<lparr>t_auth := t_auth t @ as\<rparr>"
proof (induction as arbitrary: t)
  case (Cons a as)
  from Cons.prems have "auth_row (ar_realm a) (ar_name a) t = []" by (auto simp: auth_row_Nil)
  then have "put_auth a t = t\<lparr>t_auth := t_auth t @ [a]\<rparr>" by (simp add: put_auth_def)
  with Cons.IH [of "t\<lparr>t_auth := t_auth t @ [a]\<rparr>"] Cons.prems show ?case by simp
qed simp

lemma auth_row_sorted: "auth_row realm k (t\<lparr>t_auth := sort_key auth_key xs\<rparr>) = filter (\<lambda>a. auth_key a = (realm, k)) xs"
proof -
  have "auth_row realm k (t\<lparr>t_auth := sort_key auth_key xs\<rparr>) = filter (\<lambda>a. auth_key a = (realm, k)) (sort_key auth_key xs)"
    by (auto simp: auth_row_def auth_key_def intro: filter_cong)
  then show ?thesis by (simp add: sort_key_stable)
qed

lemma copy_auth_state_law:
  assumes "replica_inv r" "building w r" "copy_auth_state (r_current r) (w_file w) r = (res, r')"
  shows "same_dir r r' \<and> (\<forall>u. res = Inr u \<longrightarrow>
    db_tables r' (w_file w) = (db_tables r (w_file w))\<lparr>t_auth := sort_key auth_key (t_auth (cur_tables r))\<rparr>)"
proof -
  have ne: "w_file w \<noteq> r_current r" using assms(2) by (simp add: building_def)
  have key: "(\<lambda>a. (ar_realm a, ar_name a)) = auth_key" by (simp add: auth_key_def fun_eq_iff)
  obtain res1 r1 where rd: "read_conn (r_current r) (sql_query (\<lambda>t. sort_key auth_key (t_auth t))) r = (res1, r1)"
    by fastforce
  then obtain s where r1: "r1 = r\<lparr>r_script := s\<rparr>" using read_conn_state by blast
  show ?thesis
  proof (cases res1)
    case (Inl e)
    with assms(3) rd have "r' = r1" "res = Inl e" by (auto simp: copy_auth_state_def key)
    with assms(1) r1 show ?thesis by (simp add: same_dir_def)
  next
    case (Inr rows)
    with rd obtain c where "sql_query (\<lambda>t. sort_key auth_key (t_auth t)) \<lparr>c_tables = cur_tables r, c_script = r_script r\<rparr> = (Inr rows, c)"
      by (auto simp: read_conn_def cur_tables_def split: prod.splits sum.splits)
    then have rows: "rows = sort_key auth_key (t_auth (cur_tables r))" by auto
    from assms(3) rd Inr have run: "copy_chunks (w_file w) (chunks_of 1000 rows) r1 = (res, r')"
      by (simp add: copy_auth_state_def key)
    have "distinct (map auth_key (t_auth (cur_tables r)))"
      using inv_tables(2) [OF assms(1)] by (simp add: tables_ok_def auth_wf_def)
    then have "distinct (map auth_key rows)" by (simp add: rows distinct_map)
    with building_tables(4) [OF assms(2)] have "fold put_auth rows (db_tables r (w_file w)) = (db_tables r (w_file w))\<lparr>t_auth := rows\<rparr>"
      by (simp add: put_auth_all)
    with copy_chunks_law [OF _ _ run] assms(1) ne show ?thesis
      by (simp add: r1 concat_chunks rows same_dir_def)
  qed
qed

lemma sink_commit_err:
  assumes "replica_inv r" "building w r" "sink_commit w r = (Inl e, r')"
  shows "replica_inv r' \<and> cur_tables r' = cur_tables r"
proof -
  let ?r = "next_env r"
  have pre: "replica_inv ?r" "building w ?r" "w_file w \<noteq> r_current ?r" using assms(1,2) by (simp, simp, simp add: building_def)
  obtain res1 r1 where cp: "copy_auth_state (r_current ?r) (w_file w) ?r = (res1, r1)" by fastforce
  note c = copy_auth_state_law [OF pre(1,2) cp]
  obtain res2 r2 where w: "write_apply (w_file w) (write_checkpoint (ev_now (env_of r)) (w_snapshot_ts w) (Some (w_snapshot_ts w))) r1
      = (res2, r2)" by fastforce
  have r1: "replica_inv r1" "w_file w \<noteq> r_current r1" "cur_tables r1 = cur_tables r"
    using c pre(3) by (simp_all add: same_dir_def)
  have r2: "same_dir r1 r2"
    using w by (cases rule: write_apply_cases) (use same_dir_other r1 in blast)+
  from assms(3) cp w have "r' = r1 \<or> r' = r2 \<or> (\<exists>s. r' = r2\<lparr>r_script := s\<rparr>)"
    by (auto simp: sink_commit_def Let_def split: sum.splits option.splits)
  with r1 r2 show ?thesis by (auto simp: same_dir_def)
qed

lemma sink_commit_ok:
  assumes "replica_inv r" "building w r" "sink_commit w r = (Inr u, r')"
  shows "replica_inv r'" "replica_view gs (cur_tables r') = replica_view gs (db_tables r (w_file w))"
    "\<exists>x. replica_cp r' = Some x \<and> cp_ts x = w_snapshot_ts w"
    "auth_row realm k (cur_tables r') = auth_row realm k (cur_tables r)" "r_current r' = w_file w"
proof -
  let ?r = "next_env r"
  have pre: "replica_inv ?r" "building w ?r" "w_file w \<noteq> r_current ?r" using assms(1,2) by (simp, simp, simp add: building_def)
  from assms(3) obtain u1 u2 r1 r2 where cp: "copy_auth_state (r_current ?r) (w_file w) ?r = (Inr u1, r1)"
    and w: "write_apply (w_file w) (write_checkpoint (ev_now (env_of r)) (w_snapshot_ts w) (Some (w_snapshot_ts w))) r1 = (Inr u2, r2)"
    and r': "r' = cleanup_old_files (ev_held (env_of r)) (r2\<lparr>r_script := tl (r_script r2), r_pointer := Some (w_file w),
        r_current := w_file w, r_pending := r_pending r2 @ [r_current r2]\<rparr>)"
    by (auto simp: sink_commit_def Let_def split: sum.splits option.splits prod.splits)
  let ?t = "(db_tables r (w_file w))\<lparr>t_auth := sort_key auth_key (t_auth (cur_tables r))\<rparr>"
  from copy_auth_state_law [OF pre(1,2) cp] have c: "same_dir ?r r1" and t1: "db_tables r1 (w_file w) = ?t" by simp_all
  note b = building_tables [OF assms(2)]
  have "distinct (map auth_key (t_auth (cur_tables r)))"
    using inv_tables(2) [OF assms(1)] by (simp add: tables_ok_def auth_wf_def)
  then have ok1: "tables_ok ?t" using b by (simp add: tables_ok_def auth_wf_def distinct_map)
  from w obtain c1 c2 where c1: "c_tables c1 = ?t"
    and run: "write_checkpoint (ev_now (env_of r)) (w_snapshot_ts w) (Some (w_snapshot_ts w)) c1 = (Inr u2, c2)"
    and st: "db_step (w_file w) (c_tables c2) r1 r2"
    by (cases rule: write_apply_cases) (auto simp: t1)
  have "state_wf (c_tables c1)" using ok1 c1 by (simp add: tables_ok_def)
  note x = write_checkpoint_InrD [OF run this]
  from x(1) c1 obtain z where z: "c_tables c2 = ?t\<lparr>t_state := z\<rparr>" by auto
  have ok2: "tables_ok (c_tables c2)" using ok1 x(2) by (simp add: z tables_ok_def auth_wf_def)
  have dir: "r_current r2 = r_current r" "r_pending r2 = r_pending r" "r_dbs r2 (w_file w) = Some (c_tables c2)"
    using c st by (simp_all add: same_dir_def db_step_def next_env_def)
  have new: "replica_inv (r2\<lparr>r_script := tl (r_script r2), r_pointer := Some (w_file w),
        r_current := w_file w, r_pending := r_pending r2 @ [r_current r2]\<rparr>)"
    using ok2 assms(2) by (simp add: replica_inv_def dir building_def)
  have cur: "cur_tables r' = c_tables c2" unfolding r' cleanup_inv(2) [OF new] by (simp add: cur_tables_def db_tables_def dir)
  show "replica_inv r'" unfolding r' by (rule cleanup_inv(1) [OF new])
  show "replica_view gs (cur_tables r') = replica_view gs (db_tables r (w_file w))" by (simp add: cur z)
  show "\<exists>x. replica_cp r' = Some x \<and> cp_ts x = w_snapshot_ts w"
    using x(3) by (simp add: replica_cp_def cur c1 b)
  have "auth_row realm k (c_tables c2) = auth_row realm k ?t" by (simp add: auth_row_def z)
  also have "\<dots> = auth_row realm k (cur_tables r)"
    unfolding auth_row_sorted by (auto simp: auth_row_def auth_key_def intro: filter_cong)
  finally show "auth_row realm k (cur_tables r') = auth_row realm k (cur_tables r)" by (simp add: cur)
  show "r_current r' = w_file w" by (simp add: r' cleanup_old_files_def)
qed

lemma sink_abort_law:
  assumes "replica_inv r" "building w r" "sink_abort w r = (res, r')"
  shows "replica_inv r' \<and> cur_tables r' = cur_tables r"
  using assms by (auto simp: sink_abort_def replica_inv_def building_def cur_tables_def db_tables_def)

interpretation sink: replica_sink sink_checkpoint sink_apply sink_begin_rebuild sink_write sink_commit sink_abort
  replica_inv "\<lambda>r. replica_view gs (cur_tables r)" replica_cp building
  "\<lambda>w r. replica_view gs (db_tables r (w_file w))" w_snapshot_ts "change_entity gs" for gs
proof (unfold_locales, goal_cases)
  case (1 s res s')
  with sink_checkpoint_law [OF 1] show ?case by (auto simp: replica_cp_def)
next
  case (2 s b out s')
  with sink_apply_ok [OF 2] show ?case by auto
next
  case (3 s b e s')
  with sink_apply_err [OF 3] show ?case by (simp add: replica_cp_def)
next
  case (4 s ts w s')
  with sink_begin_law [OF 4] show ?case by (simp add: replica_cp_def)
next
  case (5 s ts e s')
  with sink_begin_law [OF 5] show ?case by (simp add: replica_cp_def)
next
  case (6 s w cs u s')
  with sink_write_law [OF 6] show ?case by (simp add: replica_cp_def)
next
  case (7 s w cs e s')
  with sink_write_law [OF 7] show ?case by (simp add: replica_cp_def)
next
  case (8 s w u s')
  with sink_commit_ok [OF 8] show ?case by simp
next
  case (9 s w e s')
  with sink_commit_err [OF 9] show ?case by (simp add: replica_cp_def)
next
  case (10 s w res s')
  with sink_abort_law [OF 10] show ?case by (simp add: replica_cp_def)
qed

section \<open>The counters\<close>

lemma auth_of_rows_set:
  "auth_of_rows (\<lparr>ar_realm = x, ar_name = y, ar_fail_count = uint (fail_count s), ar_last_failed = last_failed s,
     ar_last_success = last_success s\<rparr> # rs) = s"
  "auth_of_rows (set_auth s a # rs) = s"
  by (simp_all add: auth_of_rows_def set_auth_def)

lemma auth_row_map:
  assumes "\<And>a. ar_realm (f a) = ar_realm a \<and> ar_name (f a) = ar_name a"
  shows "auth_row realm' k' (t\<lparr>t_auth := map (\<lambda>a. if ar_realm a = realm \<and> ar_name a = k then f a else a) (t_auth t)\<rparr>) =
    (if realm' = realm \<and> k' = k then map f (auth_row realm k t) else auth_row realm' k' t)"
proof -
  have "filter (\<lambda>a. ar_realm a = realm' \<and> ar_name a = k') (map (\<lambda>a. if ar_realm a = realm \<and> ar_name a = k then f a else a) xs) =
      (if realm' = realm \<and> k' = k then map f (filter (\<lambda>a. ar_realm a = realm \<and> ar_name a = k) xs)
       else filter (\<lambda>a. ar_realm a = realm' \<and> ar_name a = k') xs)" for xs
    using assms by (induction xs) auto
  then show ?thesis by (simp add: auth_row_def)
qed

lemma auth_key_map: "map auth_key (map (\<lambda>a. if P a then set_auth s a else a) xs) = map auth_key xs"
  by (auto simp: auth_key_def set_auth_def)

lemma replica_auth_apply_law:
  assumes "replica_inv r" "replica_auth_apply r n realm u = (res, r')"
  shows "replica_inv r' \<and> (\<exists>y. cur_tables r' = (cur_tables r)\<lparr>t_auth := y\<rparr>) \<and>
    (\<forall>e. res = Inl e \<longrightarrow> cur_tables r' = cur_tables r) \<and>
    (\<forall>s. res = Inr s \<longrightarrow> s = auth_apply (auth_of_rows (auth_row realm (key_string n) (cur_tables r))) u \<and>
      (\<forall>realm' k'. auth_of_rows (auth_row realm' k' (cur_tables r')) =
         (if (realm', k') = (realm, key_string n) then s else auth_of_rows (auth_row realm' k' (cur_tables r)))))"
proof (cases "encode_principal_key n")
  case (Inl e)
  with assms show ?thesis by (auto simp: replica_auth_apply_def intro: exI [of _ "t_auth (cur_tables r)"])
next
  case (Inr k)
  let ?t = "cur_tables r" and ?s = "auth_apply (auth_of_rows (auth_row realm k (cur_tables r))) u"
  have ks: "key_string n = k" by (simp add: key_string_def Inr)
  note ok = inv_tables(2) [OF assms(1)]
  from assms(2) Inr have "write_auth (r_current r)
       (tbind (sql_query (auth_row realm k)) (\<lambda>rows.
        let s = auth_apply (auth_of_rows rows) u in
        tbind (if rows \<noteq> [] then
            sql_exec (\<lambda>t. Inr (t\<lparr>t_auth := map (\<lambda>a. if ar_realm a = realm \<and> ar_name a = k then set_auth s a else a) (t_auth t)\<rparr>))
          else
            sql_exec (\<lambda>t. if auth_row realm k t \<noteq> [] then Inl (T_Constraint ''UNIQUE constraint failed'')
              else Inr (t\<lparr>t_auth := t_auth t @ [\<lparr>ar_realm = realm, ar_name = k, ar_fail_count = uint (fail_count s),
                ar_last_failed = last_failed s, ar_last_success = last_success s\<rparr>]\<rparr>))) (\<lambda>_. treturn s))) r = (res, r')"
    by (simp add: replica_auth_apply_def)
  then show ?thesis
  proof (cases rule: write_auth_cases)
    case (err e)
    with step_current [OF err(2) assms(1)] ok show ?thesis
      by (auto simp: cur_tables_def intro!: exI [of _ "t_auth (db_tables r (r_current r))"])
  next
    case (ok x c1 c2)
    have c1: "c_tables c1 = ?t" using ok(2) by (simp add: cur_tables_def)
    show ?thesis
    proof (cases "auth_row realm k ?t")
      case Nil
      let ?a = "\<lparr>ar_realm = realm, ar_name = k, ar_fail_count = uint (fail_count ?s),
                ar_last_failed = last_failed ?s, ar_last_success = last_success ?s\<rparr>"
      from ok(3) c1 Nil have x: "x = ?s" and c2: "?t\<lparr>t_auth := t_auth ?t @ [?a]\<rparr> = c_tables c2"
        by (auto simp: Let_def)
      have "tables_ok (c_tables c2)"
        using inv_tables(2) [OF assms(1)] Nil auth_row_Nil [of ?a ?t]
        by (simp add: c2 [symmetric] tables_ok_def auth_wf_def)
      note st = step_current [OF ok(4) assms(1) this]
      have rows: "auth_row realm' k' (c_tables c2) = (if realm' = realm \<and> k' = k then [?a] else auth_row realm' k' ?t)" for realm' k'
        using Nil by (auto simp: auth_row_def c2 [symmetric])
      have "auth_of_rows (auth_row realm' k' (cur_tables r')) =
          (if (realm', k') = (realm, k) then x else auth_of_rows (auth_row realm' k' ?t))" for realm' k'
        using x by (simp add: st(2) rows auth_of_rows_set)
      moreover have "\<exists>y. cur_tables r' = ?t\<lparr>t_auth := y\<rparr>" unfolding st(2) c2 [symmetric] by blast
      ultimately show ?thesis using st(1) x ok(1) by (simp add: ks)
    next
      case (Cons a as)
      let ?y = "map (\<lambda>a. if ar_realm a = realm \<and> ar_name a = k then set_auth ?s a else a) (t_auth ?t)"
      from ok(3) c1 Cons have x: "x = ?s" and c2: "c_tables c2 = ?t\<lparr>t_auth := ?y\<rparr>"
        by (auto simp: Let_def)
      have "tables_ok (c_tables c2)"
        using inv_tables(2) [OF assms(1)] by (simp add: c2 tables_ok_def auth_wf_def del: map_map) (simp only: auth_key_map)
      note st = step_current [OF ok(4) assms(1) this]
      have rows: "auth_row realm' k' (c_tables c2) = (if realm' = realm \<and> k' = k then map (set_auth ?s) (auth_row realm k ?t)
          else auth_row realm' k' ?t)" for realm' k'
        unfolding c2 by (rule auth_row_map) (simp add: set_auth_def)
      have "auth_of_rows (auth_row realm' k' (cur_tables r')) =
          (if (realm', k') = (realm, k) then x else auth_of_rows (auth_row realm' k' ?t))" for realm' k'
        unfolding st(2) rows x using Cons by (auto simp: auth_of_rows_set(2))
      moreover have "\<exists>y. cur_tables r' = ?t\<lparr>t_auth := y\<rparr>" unfolding st(2) c2 by blast
      ultimately show ?thesis using st(1) x ok(1) by (simp add: ks)
    qed
  qed
qed

lemma replica_auth_state_lockout:
  assumes "replica_inv r" "encode_principal_key n = Inr k"
    and lock: "replica_view gs (cur_tables r) (E_Lockout realm k) = Some (ver, Some (C_Lockout cols))"
    and active: "is_none_or (lc_unlock_at cols) (\<lambda>u. ev_now (env_of r) < u)"
    and res: "replica_auth_state r n realm = (Inr s, r')"
  shows "fail_count s = - 1 \<and> lc_locked_at cols \<le> last_failed s"
proof -
  from inv_tables(2) [OF assms(1)] have lw: "vt_wf (t_lockouts (cur_tables r))" by (simp add: tables_ok_def tables_wf_def)
  from lock obtain l where l: "vt_select (realm, k) (t_lockouts (cur_tables r)) = [l]" "\<not> v_deleted l" "v_cols l = cols"
    using vt_select_unique [OF lw] by (auto simp: vt_view_def split: list.splits if_splits)
  from res obtain c' where "tbind (tlift (encode_principal_key n)) (\<lambda>k.
         tbind (sql_query (auth_row realm k)) (\<lambda>rows.
         tbind (sql_query (\<lambda>t. filter (\<lambda>l. \<not> v_deleted l) (vt_select (realm, k) (t_lockouts t)))) (\<lambda>locks.
           treturn (case locks of
             [] \<Rightarrow> auth_of_rows rows
           | l # _ \<Rightarrow> merge_lockout (ev_now (env_of r)) (auth_of_rows rows) (lc_locked_at (v_cols l)) (lc_unlock_at (v_cols l))))))
        \<lparr>c_tables = cur_tables r, c_script = r_script (next_env r)\<rparr> = (Inr s, c')"
    by (auto simp: replica_auth_state_def read_conn_def Let_def cur_tables_def split: prod.splits sum.splits)
  with assms(2) l obtain rows where "s = merge_lockout (ev_now (env_of r)) (auth_of_rows rows) (lc_locked_at cols) (lc_unlock_at cols)"
    by auto
  with active show ?thesis by (simp add: merge_lockout_def)
qed

section \<open>Properties\<close>

text \<open>
  C21: applying a batch is atomic whatever statement of its transaction fails and however often it is
  retried. If it succeeds, every change has been applied as last writer wins and the checkpoint has
  moved to the batch's timestamp, never backwards; if it fails, the contents and the checkpoint
  are as before. The local authentication counters are untouched and the served file stays
  the one \<open>CURRENT\<close> names.
\<close>

theorem sink_apply_atomic:
  assumes "replica_inv r"
  shows "case sink_apply b r of (res, r') \<Rightarrow>
    replica_inv r' \<and> t_auth (cur_tables r') = t_auth (cur_tables r) \<and>
    (case res of
       Inl _ \<Rightarrow> cur_tables r' = cur_tables r
     | Inr out \<Rightarrow>
         replica_view gs (cur_tables r') = fold lww_put (map (change_entity gs) (cb_changes b)) (replica_view gs (cur_tables r)) \<and>
         ao_applied out + ao_skipped_stale out = length (cb_changes b) \<and>
         (\<exists>cp. replica_cp r' = Some cp \<and>
            cp_ts cp = (case replica_cp r of None \<Rightarrow> cb_upto b | Some old \<Rightarrow> max (cb_upto b) (cp_ts old))))"
proof -
  obtain res r' where run: "sink_apply b r = (res, r')" by fastforce
  show ?thesis
  proof (cases res)
    case (Inl e)
    with sink_apply_err [OF assms run [unfolded Inl]] run show ?thesis by simp
  next
    case (Inr out)
    with sink_apply_ok [OF assms run [unfolded Inr], of gs] run show ?thesis by simp
  qed
qed

definition example_replica :: Replica where
  "example_replica = \<lparr>r_dbs = [[97] \<mapsto> empty_tables], r_current = [97], r_pointer = Some [97], r_pending = [],
     r_max_retries = 1, r_apply_retries = 0, r_auth_retries = 0, r_last_apply_error = None,
     r_script = [None, Some (T_Busy ''busy''), None, None], r_envs = []\<rparr>"

lemma example_replica_inv: "replica_inv example_replica"
  by (simp add: example_replica_def replica_inv_def empty_tables_ok)

definition example_batch :: ChangeBatch where
  "example_batch = \<lparr>cb_upto = ReplicationTs 9 0, cb_changes = example_changes\<rparr>"

theorem sink_apply_atomic_witness:
  "(\<exists>out. fst (sink_apply example_batch example_replica) = Inr out \<and> ao_applied out = 2) \<and>
   map_option cp_ts (replica_cp (snd (sink_apply example_batch example_replica))) = Some (ReplicationTs 9 0)"
proof -
  obtain res r' where run: "sink_apply example_batch example_replica = (res, r')" by fastforce
  have "map_sum id ao_applied (fst (sink_apply example_batch example_replica)) = Inr 2" by code_simp
  then obtain out where out: "res = Inr out" "ao_applied out = 2" using run by (cases res) auto
  have "replica_cp example_replica = None"
    by (simp add: replica_cp_def cur_tables_def db_tables_def example_replica_def empty_tables_def)
  with sink_apply_atomic [OF example_replica_inv, where b = example_batch] run out show ?thesis
    by (auto simp: example_batch_def)
qed

text \<open>
  C23: a rebuild replaces the served database atomically. When it commits, the replica serves exactly what
  was written to the new file, with the snapshot's timestamp as checkpoint, the authentication counters of
  every principal as they were, and \<open>CURRENT\<close> naming the new file; when it does not, because a statement or replacing
  the pointer fails, the replica serves what it served before.
\<close>

theorem sink_commit_atomic:
  assumes "replica_inv r" "building w r"
  shows "case sink_commit w r of (res, r') \<Rightarrow>
    replica_inv r' \<and> auth_row realm k (cur_tables r') = auth_row realm k (cur_tables r) \<and>
    (case res of
       Inl _ \<Rightarrow> cur_tables r' = cur_tables r
     | Inr _ \<Rightarrow> replica_view gs (cur_tables r') = replica_view gs (db_tables r (w_file w)) \<and>
         map_option cp_ts (replica_cp r') = Some (w_snapshot_ts w) \<and> r_pointer r' = Some (w_file w))"
proof -
  obtain res r' where run: "sink_commit w r = (res, r')" by fastforce
  show ?thesis
  proof (cases res)
    case (Inl e)
    with sink_commit_err [OF assms run [unfolded Inl]] run show ?thesis by simp
  next
    case (Inr u)
    note c = sink_commit_ok [OF assms run [unfolded Inr]]
    from c(1,5) have "r_pointer r' = Some (w_file w)" by (simp add: replica_inv_def)
    with c(1) c(2) [of gs] c(3) c(4) [of realm k] run Inr show ?thesis by auto
  qed
qed

theorem sink_commit_atomic_witness:
  "r_pointer (snd (sink_commit \<lparr>w_file = [98], w_snapshot_ts = ReplicationTs 7 0\<rparr>
      (example_replica\<lparr>r_script := [], r_dbs := [[97] \<mapsto> empty_tables, [98] \<mapsto> empty_tables]\<rparr>))) = Some [98]"
proof -
  let ?r = "example_replica\<lparr>r_script := [], r_dbs := [[97] \<mapsto> empty_tables, [98] \<mapsto> empty_tables]\<rparr>"
    and ?w = "\<lparr>w_file = [98], w_snapshot_ts = ReplicationTs 7 0\<rparr> :: TursoRebuild"
  have pre: "replica_inv ?r" "building ?w ?r"
    by (simp_all add: example_replica_def replica_inv_def building_def empty_tables_ok)
  obtain res r' where run: "sink_commit ?w ?r = (res, r')" by fastforce
  have "is_ok (fst (sink_commit ?w ?r))" by code_simp
  then obtain u where "res = Inr u" using run by (cases res) simp_all
  with sink_commit_atomic [OF pre] run show ?thesis by simp
qed

text \<open>
  C40: choosing the file of a rebuild ends, with the first candidate name that is neither served nor
  waiting to be deleted, after at most one try more than there are such files; so a rebuild never writes to a file in use.
\<close>

theorem rebuild_name_first:
  "\<exists>n. rebuild_name ts taken 0 = rebuild_candidate ts n \<and> n \<le> card (set taken) \<and>
     rebuild_candidate ts n \<notin> set taken \<and> (\<forall>m < n. rebuild_candidate ts m \<in> set taken)"
proof -
  have "\<exists>n \<ge> k. rebuild_name ts taken k = rebuild_candidate ts n \<and> rebuild_candidate ts n \<notin> set taken \<and>
      (\<forall>m. k \<le> m \<and> m < n \<longrightarrow> rebuild_candidate ts m \<in> set taken)" for k
  proof (induction ts taken k rule: rebuild_name.induct)
    case (1 ts taken k)
    show ?case
    proof (cases "rebuild_candidate ts k \<in> set taken")
      case True
      from 1 [OF refl True] obtain n where n: "k + 1 \<le> n" "rebuild_name ts taken (k + 1) = rebuild_candidate ts n"
        "rebuild_candidate ts n \<notin> set taken" "\<forall>m. k + 1 \<le> m \<and> m < n \<longrightarrow> rebuild_candidate ts m \<in> set taken" by blast
      have "rebuild_candidate ts m \<in> set taken" if "k \<le> m" "m < n" for m
        using that True n(4) by (cases "m = k") auto
      with n True show ?thesis by (intro exI [of _ n]) (simp add: rebuild_name.simps [of ts taken k] Let_def)
    next
      case False
      then show ?thesis by (intro exI [of _ k]) (auto simp: rebuild_name.simps [of ts taken k] Let_def)
    qed
  qed
  from this [of 0] obtain n where n: "rebuild_name ts taken 0 = rebuild_candidate ts n"
    "rebuild_candidate ts n \<notin> set taken" "\<forall>m < n. rebuild_candidate ts m \<in> set taken" by auto
  have "card (rebuild_candidate ts ` {..<n}) = n"
    by (subst card_image) (auto simp: inj_on_def dest: rebuild_candidate_inject)
  moreover have "rebuild_candidate ts ` {..<n} \<subseteq> set taken" using n(3) by auto
  ultimately have "n \<le> card (set taken)" by (metis card_mono List.finite_set)
  with n show ?thesis by blast
qed

theorem rebuild_name_first_witness:
  "\<exists>n. rebuild_name (ReplicationTs 1 0) [rebuild_candidate (ReplicationTs 1 0) 0] 0 = rebuild_candidate (ReplicationTs 1 0) n \<and> n \<le> 1"
  using rebuild_name_first [of "ReplicationTs 1 0" "[rebuild_candidate (ReplicationTs 1 0) 0]"] by auto

text \<open>
  C24: a lockout replicated from another KDC is enforced here. While the replica holds an active lockout
  of the client, newer than its last administrative unlock, and the client's policy has a threshold, the lockout
  check refuses the client for the policy's duration, or, if the replica cannot be read, as unavailable.
\<close>

theorem replicated_lockout_enforced:
  assumes "replica_inv r" "encode_principal_key (pe_name client) = Inr k"
    and "replica_view gs (cur_tables r) (E_Lockout (pe_realm client) k) = Some (ver, Some (C_Lockout cols))"
    and "is_none_or (lc_unlock_at cols) (\<lambda>u. ev_now (env_of r) < u)"
    and "\<not> disable_lockout cfg" "lockout_policy policies client = Inr pol" "max_fail pol \<noteq> 0"
    and "(case unlock_time client of None \<Rightarrow> 0 | Some u \<Rightarrow> u) < lc_locked_at cols"
    and "lockout_duration pol = 0 \<or> now < sat_add_i64 (lc_locked_at cols) (int (unat (lockout_duration pol)))"
  shows "fst (check_lockout cfg policies replica_auth_state r client now) \<in>
    {Inl (kdc_error KDC_ERR_CLIENT_REVOKED ''LOCKED_OUT''),
     Inl (kdc_error KDC_ERR_SVC_UNAVAILABLE ''LOOKING_UP_AUTH_STATE'')}"
proof -
  obtain res r' where get: "replica_auth_state r (pe_name client) (pe_realm client) = (res, r')" by fastforce
  show ?thesis
  proof (cases res)
    case (Inl e)
    with get assms(5-7) show ?thesis by (simp add: check_lockout_def)
  next
    case (Inr s)
    have s: "fail_count s = - 1" "lc_locked_at cols \<le> last_failed s"
      using replica_auth_state_lockout [OF assms(1-4) get [unfolded Inr]] by simp_all
    have "\<not> fail_count s < max_fail pol" using s(1) by (simp add: not_less)
    moreover have "sat_add_i64 (lc_locked_at cols) d \<le> sat_add_i64 (last_failed s) d" for d
      using s(2) by (simp add: sat_add_i64_def)
    ultimately have "locked_check_p now pol s (unlock_time client)"
      using s(2) assms(7-9) by (auto simp: locked_check_p_def intro: less_le_trans)
    with get Inr assms(5-7) show ?thesis by (simp add: check_lockout_def)
  qed
qed

definition example_locked :: Replica where
  "example_locked = example_replica\<lparr>r_dbs := [[97] \<mapsto> empty_tables\<lparr>t_lockouts :=
     [\<lparr>v_id = 1, v_key = ([0x52], [0x61]), v_cols = \<lparr>lc_name_type = 1, lc_locked_at = 1000, lc_unlock_at = None, lc_source_kdc = []\<rparr>,
       v_wall = 3, v_logical = 0, v_deleted = False\<rparr>]\<rparr>]\<rparr>"

theorem replicated_lockout_enforced_witness:
  "fst (check_lockout example_cfg (\<lambda>_. Inr (Some example_policy)) replica_auth_state example_locked example_client 1500) \<noteq> Inr ()"
proof -
  have inv: "replica_inv example_locked"
    by (simp add: example_locked_def example_replica_def replica_inv_def tables_ok_def tables_wf_def vt_wf_def state_wf_def
        auth_wf_def empty_tables_def)
  have key: "encode_principal_key (pe_name example_client) = Inr [0x61]" by code_simp
  have view: "replica_view (\<lambda>_. True) (cur_tables example_locked) (E_Lockout (pe_realm example_client) [0x61]) =
      Some (ReplicationTs 3 0, Some (C_Lockout \<lparr>lc_name_type = 1, lc_locked_at = 1000, lc_unlock_at = None, lc_source_kdc = []\<rparr>))"
    by (simp add: example_locked_def example_replica_def cur_tables_def db_tables_def vt_view_def vt_select_def row_version_def
        example_client_def new_entry_def)
  have pol: "lockout_policy (\<lambda>_. Inr (Some example_policy)) example_client = Inr example_pol"
    using example_under by (simp add: under_policy_def)
  have "fst (check_lockout example_cfg (\<lambda>_. Inr (Some example_policy)) replica_auth_state example_locked example_client 1500) \<in>
    {Inl (kdc_error KDC_ERR_CLIENT_REVOKED ''LOCKED_OUT''),
     Inl (kdc_error KDC_ERR_SVC_UNAVAILABLE ''LOOKING_UP_AUTH_STATE'')}"
    by (rule replicated_lockout_enforced [OF inv key view _ _ pol])
      (simp_all add: example_unlock sat_add_i64_def i64_max_def i64_min_def)
  then show ?thesis by auto
qed

end
