(* ===== verification/Replication_Engine.thy ===== *)
theory Replication_Engine
  imports Replica
begin

text \<open>
  The polling replication engine and the freshness gates, \<open>src/src/kdc/replication/engine.rs\<close>.

  The engine is generic in its source and its sink. The operations of the traits \<open>ReplicationSource\<close> (with
  \<open>Snapshot\<close>) and \<open>ReplicaSink\<close> (with \<open>RebuildWriter\<close>) are the fields of \<open>source_ops\<close> and \<open>sink_ops\<close>, and every
  operation threads the state of its side. Durations and instants are nanoseconds. The instants the
  clock is going to show are part of the engine's state (\<open>en_instants\<close>).

  A loop whose end depends on the source is a \<open>partial_function\<close>: \<open>None\<close> is a loop that never ends.
\<close>

section \<open>Configuration and status\<close>

datatype RebuildPolicy = Rebuild_Auto | Rebuild_Manual

record ReplicationConfig =
  rc_poll_interval :: nat
  rc_batch_limit :: nat
  rc_retry_min :: nat
  rc_retry_max :: nat
  rc_rebuild :: RebuildPolicy
  rc_heartbeat_interval :: nat
  rc_kdc_id :: bytes
  rc_region :: bytes

record StatusSnapshot =
  ss_bootstrapped :: bool
  ss_applied_ts :: ReplicationTs
  ss_source_lag :: nat
  ss_observed_at :: "nat option"
  ss_consecutive_failures :: u64
  ss_failures :: u64
  ss_last_error_kind :: "StoreErrorKind option"
  ss_rebuilding :: bool
  ss_applied :: u64
  ss_skipped_stale :: u64
  ss_retries :: u64
  ss_rebuilds :: u64
  ss_snapshot_duration :: nat
  ss_needs_rebuild :: bool

definition default_status :: StatusSnapshot where
  "default_status = \<lparr>ss_bootstrapped = False, ss_applied_ts = ts_ZERO, ss_source_lag = 0, ss_observed_at = None,
     ss_consecutive_failures = 0, ss_failures = 0, ss_last_error_kind = None, ss_rebuilding = False,
     ss_applied = 0, ss_skipped_stale = 0, ss_retries = 0, ss_rebuilds = 0, ss_snapshot_duration = 0,
     ss_needs_rebuild = False\<rparr>"

text \<open>\<open>Duration\<close> is at most \<open>u64::MAX\<close> seconds and 999999999 nanoseconds; its saturating operations stop there.\<close>

definition duration_max :: nat where
  "duration_max = (2 ^ 64 - 1) * 1000000000 + 999999999"

definition sat_duration :: "nat \<Rightarrow> nat" where
  "sat_duration n = min n duration_max"

definition sat_add_u64 :: "u64 \<Rightarrow> u64 \<Rightarrow> u64" where
  "sat_add_u64 a b = (if uint a + uint b < 2 ^ 64 then a + b else - 1)"

definition sat_sub_i64 :: "int \<Rightarrow> int \<Rightarrow> int" where
  "sat_sub_i64 a b = max i64_min (min i64_max (a - b))"

text \<open>\<open>now\<close> is the instant of the call; \<open>elapsed\<close> is zero for an instant in the future.\<close>

definition freshness :: "StatusSnapshot \<Rightarrow> nat \<Rightarrow> nat option" where
  "freshness s now = map_option (\<lambda>observed. sat_duration (ss_source_lag s + (now - observed))) (ss_observed_at s)"

definition ts_delta :: "ReplicationTs \<Rightarrow> ReplicationTs \<Rightarrow> nat" where
  "ts_delta source_now ts = nat (max (sat_sub_i64 (wall_nanos source_now) (wall_nanos ts)) 0)"

definition jitter :: "u64 \<Rightarrow> nat \<Rightarrow> nat" where
  "jitter rand d = (let half = d div 2; spread = unat rand mod (half + 1) in min (half + spread) (2 ^ 64 - 1))"

section \<open>Source and sink\<close>

record ('a, 'n) source_ops =
  so_pruned_before :: "'a \<Rightarrow> (StoreError + ReplicationTs option) \<times> 'a"
  so_poll :: "ReplicationTs \<Rightarrow> nat \<Rightarrow> 'a \<Rightarrow> (StoreError + PollResult) \<times> 'a"
  so_snapshot :: "'a \<Rightarrow> (StoreError + 'n) \<times> 'a"
  so_ts :: "'n \<Rightarrow> ReplicationTs"
  so_source_now :: "'n \<Rightarrow> ReplicationTs"
  so_next_page :: "'n \<Rightarrow> 'a \<Rightarrow> (StoreError + Change list option) \<times> 'n \<times> 'a"

record ('s, 'w) sink_ops =
  si_checkpoint :: "'s \<Rightarrow> (StoreError + ReplicaCheckpoint option) \<times> 's"
  si_apply :: "ChangeBatch \<Rightarrow> 's \<Rightarrow> (StoreError + ApplyOutcome) \<times> 's"
  si_begin_rebuild :: "ReplicationTs \<Rightarrow> 's \<Rightarrow> (StoreError + 'w) \<times> 's"
  si_write :: "'w \<Rightarrow> Change list \<Rightarrow> 's \<Rightarrow> (StoreError + unit) \<times> 's"
  si_commit :: "'w \<Rightarrow> 's \<Rightarrow> (StoreError + unit) \<times> 's"
  si_abort :: "'w \<Rightarrow> 's \<Rightarrow> (StoreError + unit) \<times> 's"

record ('a, 's) Engine =
  en_source :: 'a
  en_sink :: 's
  en_status :: StatusSnapshot
  en_instants :: "nat list"

definition instant_now :: "('a, 's) Engine \<Rightarrow> nat \<times> ('a, 's) Engine" where
  "instant_now e = (case en_instants e of [] \<Rightarrow> (0, e) | t # ts \<Rightarrow> (t, e\<lparr>en_instants := ts\<rparr>))"

text \<open>An operation of the source or of the sink, run on the engine's state.\<close>

definition on_source :: "('a \<Rightarrow> 'r \<times> 'a) \<Rightarrow> ('a, 's) Engine \<Rightarrow> 'r \<times> ('a, 's) Engine" where
  "on_source f e = (case f (en_source e) of (r, a) \<Rightarrow> (r, e\<lparr>en_source := a\<rparr>))"

definition on_sink :: "('s \<Rightarrow> 'r \<times> 's) \<Rightarrow> ('a, 's) Engine \<Rightarrow> 'r \<times> ('a, 's) Engine" where
  "on_sink f e = (case f (en_sink e) of (r, s) \<Rightarrow> (r, e\<lparr>en_sink := s\<rparr>))"

definition on_status :: "(StatusSnapshot \<Rightarrow> StatusSnapshot) \<Rightarrow> ('a, 's) Engine \<Rightarrow> ('a, 's) Engine" where
  "on_status f e = e\<lparr>en_status := f (en_status e)\<rparr>"

definition clear_failure :: "StatusSnapshot \<Rightarrow> StatusSnapshot" where
  "clear_failure s = s\<lparr>ss_consecutive_failures := 0, ss_last_error_kind := None\<rparr>"

definition record_failure :: "StoreErrorKind \<Rightarrow> StatusSnapshot \<Rightarrow> StatusSnapshot" where
  "record_failure kind s = s\<lparr>ss_consecutive_failures := sat_add_u64 (ss_consecutive_failures s) 1,
     ss_failures := sat_add_u64 (ss_failures s) 1, ss_last_error_kind := Some kind\<rparr>"

section \<open>Rebuilding\<close>

text \<open>The loop that feeds the pages of the snapshot to the writer.\<close>

partial_function (option) copy_pages ::
  "('a, 'n) source_ops \<Rightarrow> ('s, 'w) sink_ops \<Rightarrow> 'w \<Rightarrow> 'n \<Rightarrow> ('a, 's) Engine \<Rightarrow>
   ((StoreError + unit) \<times> ('a, 's) Engine) option" where
  "copy_pages src snk w n e = (case so_next_page src n (en_source e) of (r, n', a) \<Rightarrow>
     let e = e\<lparr>en_source := a\<rparr> in
     case r of
       Inl err \<Rightarrow> Some (Inl err, e)
     | Inr None \<Rightarrow> Some (Inr (), e)
     | Inr (Some page) \<Rightarrow>
         if page = [] then copy_pages src snk w n' e
         else (case on_sink (si_write snk w page) e of
           (Inl err, e) \<Rightarrow> Some (Inl err, e)
         | (Inr _, e) \<Rightarrow> copy_pages src snk w n' e))"

declare copy_pages.simps [code]

definition load_snapshot ::
  "('a, 'n) source_ops \<Rightarrow> ('s, 'w) sink_ops \<Rightarrow> ('a, 's) Engine \<Rightarrow>
   ((StoreError + ReplicationTs \<times> ReplicationTs \<times> nat) \<times> ('a, 's) Engine) option" where
  "load_snapshot src snk e = (case on_source (so_snapshot src) e of
     (Inl err, e) \<Rightarrow> Some (Inl err, e)
   | (Inr n, e) \<Rightarrow>
       (case instant_now e of (observed, e) \<Rightarrow>
       (case on_sink (si_begin_rebuild snk (so_ts src n)) e of
         (Inl err, e) \<Rightarrow> Some (Inl err, e)
       | (Inr w, e) \<Rightarrow>
           (case copy_pages src snk w n e of
             None \<Rightarrow> None
           | Some (Inl err, e) \<Rightarrow> Some (Inl err, snd (on_sink (si_abort snk w) e))
           | Some (Inr _, e) \<Rightarrow>
               (case on_sink (si_commit snk w) e of
                 (Inl err, e) \<Rightarrow> Some (Inl err, e)
               | (Inr _, e) \<Rightarrow> Some (Inr (so_ts src n, so_source_now src n, observed), e))))))"

definition rebuild ::
  "('a, 'n) source_ops \<Rightarrow> ('s, 'w) sink_ops \<Rightarrow> ('a, 's) Engine \<Rightarrow> ((StoreError + unit) \<times> ('a, 's) Engine) option" where
  "rebuild src snk e =
     (case instant_now e of (start, e) \<Rightarrow>
      case load_snapshot src snk (on_status (ss_rebuilding_update (\<lambda>_. True)) e) of
        None \<Rightarrow> None
      | Some (Inl err, e) \<Rightarrow> Some (Inl err, on_status (ss_rebuilding_update (\<lambda>_. False)) e)
      | Some (Inr (ts, source_now, observed), e) \<Rightarrow>
          (case instant_now e of (finish, e) \<Rightarrow>
            Some (Inr (), on_status (\<lambda>s. s\<lparr>ss_bootstrapped := True, ss_applied_ts := ts,
              ss_source_lag := ts_delta source_now ts, ss_observed_at := Some observed, ss_rebuilding := False,
              ss_needs_rebuild := False, ss_rebuilds := sat_add_u64 (ss_rebuilds s) 1,
              ss_snapshot_duration := finish - start\<rparr>) e)))"

section \<open>One cycle\<close>

text \<open>The polled changes are applied; an empty poll still moves the checkpoint.\<close>

definition apply_poll ::
  "('s, 'w) sink_ops \<Rightarrow> ReplicationTs \<Rightarrow> PollResult \<Rightarrow> ('a, 's) Engine \<Rightarrow> (StoreError + unit) \<times> ('a, 's) Engine" where
  "apply_poll snk since p e =
     (if cb_changes (po_batch p) \<noteq> [] then
        (case on_sink (si_apply snk (po_batch p)) e of
          (Inl err, e) \<Rightarrow> (Inl err, e)
        | (Inr out, e) \<Rightarrow> (Inr (), on_status (\<lambda>s. s\<lparr>
            ss_applied := sat_add_u64 (ss_applied s) (of_nat (ao_applied out)),
            ss_skipped_stale := sat_add_u64 (ss_skipped_stale s) (of_nat (ao_skipped_stale out))\<rparr>) e))
      else if since < cb_upto (po_batch p) then
        (case on_sink (si_apply snk \<lparr>cb_upto = cb_upto (po_batch p), cb_changes = []\<rparr>) e of
          (Inl err, e) \<Rightarrow> (Inl err, e)
        | (Inr out, e) \<Rightarrow> (Inr (), e))
      else (Inr (), e))"

definition poll_apply ::
  "('a, 'n) source_ops \<Rightarrow> ('s, 'w) sink_ops \<Rightarrow> nat \<Rightarrow> ReplicationTs \<Rightarrow> ('a, 's) Engine \<Rightarrow>
   (StoreError + bool) \<times> ('a, 's) Engine" where
  "poll_apply src snk limit since e = (case on_source (so_poll src since limit) e of
     (Inl err, e) \<Rightarrow> (Inl err, e)
   | (Inr p, e) \<Rightarrow>
       (case instant_now e of (observed, e) \<Rightarrow>
        case apply_poll snk since p e of
          (Inl err, e) \<Rightarrow> (Inl err, e)
        | (Inr _, e) \<Rightarrow> (Inr (po_truncated p), on_status (\<lambda>s. s\<lparr>ss_bootstrapped := True,
            ss_applied_ts := max (cb_upto (po_batch p)) since,
            ss_source_lag := ts_delta (po_source_now p) (cb_upto (po_batch p)),
            ss_observed_at := Some observed, ss_needs_rebuild := False\<rparr>) e)))"

definition below_pruned :: "ReplicaCheckpoint \<Rightarrow> ReplicationTs option \<Rightarrow> bool" where
  "below_pruned cp pruned = (case pruned of None \<Rightarrow> False | Some p \<Rightarrow> cp_ts cp < p)"

definition cycle ::
  "('a, 'n) source_ops \<Rightarrow> ('s, 'w) sink_ops \<Rightarrow> ReplicationConfig \<Rightarrow> ('a, 's) Engine \<Rightarrow>
   ((StoreError + bool) \<times> ('a, 's) Engine) option" where
  "cycle src snk cfg e = (case on_sink (si_checkpoint snk) e of
     (Inl err, e) \<Rightarrow> Some (Inl err, e)
   | (Inr checkpoint, e) \<Rightarrow> (case on_source (so_pruned_before src) e of
     (Inl err, e) \<Rightarrow> Some (Inl err, e)
   | (Inr pruned, e) \<Rightarrow>
       if (case checkpoint of None \<Rightarrow> False | Some cp \<Rightarrow> below_pruned cp pruned \<and> rc_rebuild cfg = Rebuild_Manual) then
         Some (Inl (se_stale ''replica checkpoint is below pruned_before; manual rebuild required''),
           on_status (\<lambda>s. s\<lparr>ss_needs_rebuild := True, ss_bootstrapped := False\<rparr>) e)
       else (case checkpoint of
           None \<Rightarrow> map_option (\<lambda>(r, e). (rbind r (\<lambda>_. Inr False), e)) (rebuild src snk e)
         | Some cp \<Rightarrow>
             if below_pruned cp pruned then
               map_option (\<lambda>(r, e). (rbind r (\<lambda>_. Inr False), e)) (rebuild src snk e)
             else Some (poll_apply src snk (max (rc_batch_limit cfg) 1) (cp_ts cp) e))))"

partial_function (option) bootstrap ::
  "('a, 'n) source_ops \<Rightarrow> ('s, 'w) sink_ops \<Rightarrow> ReplicationConfig \<Rightarrow> ('a, 's) Engine \<Rightarrow>
   ((StoreError + unit) \<times> ('a, 's) Engine) option" where
  "bootstrap src snk cfg e = (case cycle src snk cfg e of
     None \<Rightarrow> None
   | Some (r, e) \<Rightarrow> (case r of
       Inr progress \<Rightarrow>
         if progress then bootstrap src snk cfg e else Some (Inr (), on_status clear_failure e)
     | Inl err \<Rightarrow> Some (Inl err, on_status (record_failure (se_kind err)) e)))"

declare bootstrap.simps [code]

section \<open>The task\<close>

text \<open>
  One round of \<open>run\<close> sees whether shutdown was requested, whether the wait at its end was cut short by it, and
  the random number of the jitter. \<open>run\<close> on a list of rounds returns the waits it made and the engine after them.
\<close>

record Round =
  ro_shutdown :: bool
  ro_stopped :: bool
  ro_rand :: u64

definition first_retry :: "ReplicationConfig \<Rightarrow> nat" where
  "first_retry cfg = max (rc_retry_min cfg) 1000000"

definition next_retry :: "ReplicationConfig \<Rightarrow> nat \<Rightarrow> nat" where
  "next_retry cfg retry = min (sat_duration (retry * 2)) (rc_retry_max cfg)"

fun run_loop ::
  "('a, 'n) source_ops \<Rightarrow> ('s, 'w) sink_ops \<Rightarrow> ReplicationConfig \<Rightarrow> nat \<Rightarrow> Round list \<Rightarrow> ('a, 's) Engine \<Rightarrow>
   (nat list \<times> ('a, 's) Engine) option" where
  "run_loop src snk cfg retry [] e = Some ([], e)"
| "run_loop src snk cfg retry (ro # ros) e =
     (if ro_shutdown ro then Some ([], e)
      else case cycle src snk cfg e of
        None \<Rightarrow> None
      | Some (Inr progress, e) \<Rightarrow>
          let retry = first_retry cfg; e = on_status clear_failure e in
          if progress then run_loop src snk cfg retry ros e
          else if ro_stopped ro then Some ([rc_poll_interval cfg], e)
          else map_option (\<lambda>(ws, e). (rc_poll_interval cfg # ws, e)) (run_loop src snk cfg retry ros e)
      | Some (Inl err, e) \<Rightarrow>
          let e = on_status (\<lambda>s. (record_failure (se_kind err) s)\<lparr>ss_retries := ss_retries s + 1\<rparr>) e;
              w = jitter (ro_rand ro) retry in
          if ro_stopped ro then Some ([w], e)
          else map_option (\<lambda>(ws, e). (w # ws, e)) (run_loop src snk cfg (next_retry cfg retry) ros e))"

definition run_engine ::
  "('a, 'n) source_ops \<Rightarrow> ('s, 'w) sink_ops \<Rightarrow> ReplicationConfig \<Rightarrow> Round list \<Rightarrow> ('a, 's) Engine \<Rightarrow>
   (nat list \<times> ('a, 's) Engine) option" where
  "run_engine src snk cfg = run_loop src snk cfg (first_retry cfg)"

text \<open>One tick of the heartbeat task; \<open>registry\<close> is the call \<open>ReplicaRegistry::heartbeat\<close>.\<close>

definition heartbeat_tick ::
  "(bytes \<Rightarrow> bytes \<Rightarrow> ReplicationTs \<Rightarrow> StoreError + unit) \<Rightarrow> ReplicationConfig \<Rightarrow> StatusSnapshot \<Rightarrow> StatusSnapshot" where
  "heartbeat_tick registry cfg s =
     (if ss_bootstrapped s then
        (case registry (rc_kdc_id cfg) (rc_region cfg) (ss_applied_ts s) of
          Inr _ \<Rightarrow> s
        | Inl e \<Rightarrow> record_failure (se_kind e) s)
      else s)"

section \<open>Gates\<close>

record SecurityState =
  sec_epoch :: u64
  sec_disabled :: bool
  sec_locked :: bool

datatype PrincipalRole = Role_Client | Role_Server

record GateSubject =
  gs_entry :: PrincipalEntry
  gs_role :: PrincipalRole

datatype AuthoritativeDenial = Denial_Disabled | Denial_LockedOut | Denial_Deleted

datatype GateDecision = Gate_Allow | Gate_Reject string | Gate_Deny nat AuthoritativeDenial

definition gate_ready :: "StatusSnapshot \<Rightarrow> nat \<Rightarrow> nat \<Rightarrow> bool" where
  "gate_ready s max_staleness now \<longleftrightarrow>
     ss_bootstrapped s \<and> \<not> ss_needs_rebuild s \<and> \<not> ss_rebuilding s \<and>
     (case freshness s now of None \<Rightarrow> False | Some f \<Rightarrow> f \<le> max_staleness)"

definition freshness_check :: "StatusSnapshot \<Rightarrow> nat \<Rightarrow> nat \<Rightarrow> GateDecision" where
  "freshness_check s max_staleness now =
     (if \<not> ss_bootstrapped s \<or> ss_needs_rebuild s \<or> ss_rebuilding s then Gate_Reject ''REPLICA_NOT_READY''
      else case freshness s now of
        None \<Rightarrow> Gate_Reject ''REPLICA_STALE''
      | Some f \<Rightarrow> if f \<le> max_staleness then Gate_Allow else Gate_Reject ''REPLICA_STALE'')"

text \<open>
  \<open>authority\<close> is the bounded call \<open>AuthoritativeState::security_state\<close>: \<open>None\<close> when the time limit passed. The
  loop stops at the first subject it refuses.
\<close>

fun strict_subjects ::
  "(PrincipalName \<Rightarrow> bytes \<Rightarrow> 'a \<Rightarrow> (StoreError + SecurityState) option \<times> 'a) \<Rightarrow> nat \<Rightarrow> GateSubject list \<Rightarrow> 'a \<Rightarrow>
   GateDecision \<times> 'a" where
  "strict_subjects authority index [] a = (Gate_Allow, a)"
| "strict_subjects authority index (sub # subs) a =
     (let principal = gs_entry sub in
      case authority (pe_name principal) (pe_realm principal) a of
        (None, a) \<Rightarrow> (Gate_Reject ''AUTHORITY_UNAVAILABLE'', a)
      | (Some (Inl e), a) \<Rightarrow>
          (if se_kind e = SE_NotFound then Gate_Deny index Denial_Deleted
           else Gate_Reject ''AUTHORITY_UNAVAILABLE'', a)
      | (Some (Inr st), a) \<Rightarrow>
          if sec_disabled st \<and> \<not> contains (attributes principal) attr_DISALLOW_ALL_TIX then
            (Gate_Deny index Denial_Disabled, a)
          else if sec_locked st \<and> gs_role sub = Role_Client then (Gate_Deny index Denial_LockedOut, a)
          else if security_epoch principal < sec_epoch st then (Gate_Reject ''AUTHORITATIVE_MISMATCH'', a)
          else strict_subjects authority (index + 1) subs a)"

definition strict_check ::
  "(PrincipalName \<Rightarrow> bytes \<Rightarrow> 'a \<Rightarrow> (StoreError + SecurityState) option \<times> 'a) \<Rightarrow> StatusSnapshot \<Rightarrow> nat \<Rightarrow> nat \<Rightarrow>
   GateSubject list \<Rightarrow> 'a \<Rightarrow> GateDecision \<times> 'a" where
  "strict_check authority s max_staleness now subjects a = (case freshness_check s max_staleness now of
     Gate_Allow \<Rightarrow> strict_subjects authority 0 subjects a
   | rejected \<Rightarrow> (rejected, a))"

end
