(* ===== verification/Authority.thy ===== *)
theory Authority
  imports Replication_Engine
begin

text \<open>
  The authoritative database and what is written to it, \<open>src/crates/krb5-rs-kdb-cockroach/src/store.rs\<close> over
  the tables of \<open>sql/v1.sql\<close> to \<open>sql/v4.sql\<close>.

  A row carries the commit timestamp of the transaction that wrote it last (\<open>crdb_internal_mvcc_timestamp\<close>). The
  body of a write transaction is a function of the tables it starts from; a transaction that fails writes nothing,
  so the failures of single statements need no place here. \<open>Txn\<close> holds what the database decides about a
  transaction: its start time \<open>now()\<close>, its commit timestamp and the random row ids.
\<close>

section \<open>Tables\<close>

record ('k, 'c) mrow =
  m_key :: 'k
  m_cols :: 'c
  m_ts :: ReplicationTs
  m_deleted :: bool

record AuthPrincipal =
  ap_name_type :: int
  ap_attributes :: int
  ap_max_life :: "int option"
  ap_max_renewable_life :: "int option"
  ap_expiration :: "int option"
  ap_pw_expiration :: "int option"
  ap_last_pwd_change :: "int option"
  ap_mod_time :: "int option"
  ap_policy :: "bytes option"
  ap_security_epoch :: int
  ap_last_admin_unlock :: "int option"
  ap_delegate_to :: "bytes list"
  ap_delegate_from :: "bytes list"
  ap_tl_data :: "bytes option"

record AuthKey =
  ak_principal :: "bytes \<times> bytes"
  ak_kvno :: int
  ak_enctype :: int
  ak_mkvno :: int
  ak_enc_key :: bytes
  ak_salt :: "bytes option"
  ak_s2kparams :: "bytes option"

record LogRow =
  lg_bucket :: int
  lg_id :: nat
  lg_ts :: ReplicationTs
  lg_entity :: string
  lg_realm :: bytes
  lg_key :: bytes
  lg_op :: string

record Meta =
  me_pruned_before :: ReplicationTs
  me_bucket_width :: int
  me_timeout_ms :: int

record Authority =
  a_principals :: "(bytes \<times> bytes, AuthPrincipal) mrow list"
  a_keys :: "AuthKey list"
  a_policies :: "(bytes, PolicyCols) mrow list"
  a_lockouts :: "(bytes \<times> bytes, LockoutCols) mrow list"
  a_log :: "LogRow list"
  a_meta :: "Meta option"
  a_auth :: "AuthRow list"
  a_realms :: "(bytes \<times> int) list"

definition initial_authority :: "Meta \<Rightarrow> Authority" where
  "initial_authority m = \<lparr>a_principals = [], a_keys = [], a_policies = [], a_lockouts = [], a_log = [],
     a_meta = Some m, a_auth = [], a_realms = []\<rparr>"

section \<open>Transactions\<close>

record Txn =
  tx_start :: int
  tx_commit :: ReplicationTs
  tx_uuid :: "string \<Rightarrow> bytes \<Rightarrow> bytes \<Rightarrow> nat"

definition se_duplicate :: StoreError where
  "se_duplicate = se_conflict ''duplicate key value violates unique constraint (SQLSTATE 23505)''"

definition conflict_exists :: StoreError where
  "conflict_exists = se_conflict ''Principal or policy already exists''"

definition mt_select :: "'k \<Rightarrow> ('k, 'c) mrow list \<Rightarrow> ('k, 'c) mrow list" where
  "mt_select k rows = filter (\<lambda>r. m_key r = k) rows"

definition mt_insert :: "Txn \<Rightarrow> 'k \<Rightarrow> 'c \<Rightarrow> ('k, 'c) mrow list \<Rightarrow> StoreError + ('k, 'c) mrow list" where
  "mt_insert tx k cols rows =
     (if k \<in> set (map m_key rows) then Inl se_duplicate
      else Inr (rows @ [\<lparr>m_key = k, m_cols = cols, m_ts = tx_commit tx, m_deleted = False\<rparr>]))"

definition mt_update :: "Txn \<Rightarrow> 'k \<Rightarrow> 'c \<Rightarrow> ('k, 'c) mrow list \<Rightarrow> ('k, 'c) mrow list" where
  "mt_update tx k cols rows =
     map (\<lambda>r. if m_key r = k then r\<lparr>m_cols := cols, m_ts := tx_commit tx, m_deleted := False\<rparr> else r) rows"

text \<open>\<open>UPDATE ... SET deleted = true WHERE ... AND deleted = false\<close> and the number of rows it changes.\<close>

definition mt_delete :: "Txn \<Rightarrow> 'k \<Rightarrow> ('c \<Rightarrow> 'c) \<Rightarrow> ('k, 'c) mrow list \<Rightarrow> nat \<times> ('k, 'c) mrow list" where
  "mt_delete tx k f rows =
     (length (filter (\<lambda>r. m_key r = k \<and> \<not> m_deleted r) rows),
      map (\<lambda>r. if m_key r = k \<and> \<not> m_deleted r then r\<lparr>m_cols := f (m_cols r), m_ts := tx_commit tx, m_deleted := True\<rparr>
               else r) rows)"

definition bucket_of :: "int \<Rightarrow> int \<Rightarrow> int" where
  "bucket_of width nanos = nanos div 1000000000 div width"

definition log_change :: "Txn \<Rightarrow> string \<Rightarrow> bytes \<Rightarrow> bytes \<Rightarrow> string \<Rightarrow> Authority \<Rightarrow> Authority" where
  "log_change tx ent realm key op a = (case a_meta a of
     None \<Rightarrow> a
   | Some m \<Rightarrow> a\<lparr>a_log := a_log a @ [\<lparr>lg_bucket = bucket_of (me_bucket_width m) (tx_start tx),
       lg_id = tx_uuid tx ent realm key, lg_ts = tx_commit tx, lg_entity = ent, lg_realm = realm, lg_key = key,
       lg_op = op\<rparr>]\<rparr>)"

section \<open>Principals\<close>

definition authority_fields :: "StoredPrincipal \<Rightarrow> StoreError + AuthPrincipal" where
  "authority_fields sp =
     rbind (opt_u (sp_max_life sp)) (\<lambda>ml.
     rbind (opt_u (sp_max_renewable_life sp)) (\<lambda>mrl.
     rbind (u_val (sp_security_epoch sp)) (\<lambda>ep.
     rbind (encode_tl_data (sp_tl_data sp)) (\<lambda>tld.
       Inr \<lparr>ap_name_type = name_type (sp_name sp), ap_attributes = uint (sp_attributes sp), ap_max_life = ml,
            ap_max_renewable_life = mrl, ap_expiration = sp_expiration sp, ap_pw_expiration = sp_pw_expiration sp,
            ap_last_pwd_change = sp_last_pwd_change sp, ap_mod_time = sp_mod_time sp, ap_policy = sp_policy sp,
            ap_security_epoch = ep, ap_last_admin_unlock = sp_last_admin_unlock sp,
            ap_delegate_to = sp_delegate_to sp, ap_delegate_from = sp_delegate_from sp, ap_tl_data = tld\<rparr>))))"

definition authority_key :: "bytes \<times> bytes \<Rightarrow> StoredKey \<Rightarrow> AuthKey" where
  "authority_key k sk = \<lparr>ak_principal = k, ak_kvno = uint (sk_kvno sk), ak_enctype = sk_enctype sk,
     ak_mkvno = uint (sk_mkvno sk), ak_enc_key = sk_enc_key sk, ak_salt = sk_salt sk, ak_s2kparams = sk_s2kparams sk\<rparr>"

definition ak_index :: "AuthKey \<Rightarrow> (bytes \<times> bytes) \<times> int \<times> int" where
  "ak_index k = (ak_principal k, ak_kvno k, ak_enctype k)"

fun insert_authority_keys :: "bytes \<times> bytes \<Rightarrow> StoredKey list \<Rightarrow> Authority \<Rightarrow> StoreError + Authority" where
  "insert_authority_keys k [] a = Inr a"
| "insert_authority_keys k (sk # sks) a =
     (if ak_index (authority_key k sk) \<in> set (map ak_index (a_keys a)) then Inl se_duplicate
      else insert_authority_keys k sks (a\<lparr>a_keys := a_keys a @ [authority_key k sk]\<rparr>))"

definition delete_authority_keys :: "bytes \<times> bytes \<Rightarrow> Authority \<Rightarrow> Authority" where
  "delete_authority_keys k a = a\<lparr>a_keys := filter (\<lambda>r. ak_principal r \<noteq> k) (a_keys a)\<rparr>"

definition authority_write_principal :: "Txn \<Rightarrow> StoredPrincipal \<Rightarrow> bool \<Rightarrow> Authority \<Rightarrow> StoreError + Authority" where
  "authority_write_principal tx sp create a =
     rbind (encode_principal_key (sp_name sp)) (\<lambda>key.
     rbind (authority_fields sp) (\<lambda>cols.
     let k = (sp_realm sp, key) in
     rbind (if create then
              rbind (mt_insert tx k cols (a_principals a)) (\<lambda>rows. Inr (a\<lparr>a_principals := rows\<rparr>))
            else Inr (delete_authority_keys k (a\<lparr>a_principals := mt_update tx k cols (a_principals a)\<rparr>))) (\<lambda>a.
     rbind (insert_authority_keys k (sp_keys sp) a) (\<lambda>a.
       Inr (log_change tx ''principal'' (sp_realm sp) key ''upsert'' a)))))"

definition authority_insert_principal :: "Txn \<Rightarrow> StoredPrincipal \<Rightarrow> Authority \<Rightarrow> StoreError + Authority" where
  "authority_insert_principal tx sp a =
     rbind (encode_principal_key (sp_name sp)) (\<lambda>key.
     case mt_select (sp_realm sp, key) (a_principals a) of
       [] \<Rightarrow> authority_write_principal tx sp True a
     | r # _ \<Rightarrow> if m_deleted r then authority_write_principal tx sp False a else Inl conflict_exists)"

text \<open>Lift the replicated lockout of a principal.\<close>

definition lift_lockout :: "Txn \<Rightarrow> bytes \<Rightarrow> bytes \<Rightarrow> Authority \<Rightarrow> Authority" where
  "lift_lockout tx realm key a = (case mt_delete tx (realm, key) id (a_lockouts a) of (lifted, rows) \<Rightarrow>
     let a = a\<lparr>a_lockouts := rows\<rparr> in
     if 0 < lifted then log_change tx ''lockout'' realm key ''delete'' a else a)"

definition is_auth_row :: "bytes \<Rightarrow> bytes \<Rightarrow> AuthRow \<Rightarrow> bool" where
  "is_auth_row realm key r \<longleftrightarrow> ar_realm r = realm \<and> ar_name r = key"

definition delete_auth_state :: "bytes \<Rightarrow> bytes \<Rightarrow> Authority \<Rightarrow> Authority" where
  "delete_auth_state realm key a = a\<lparr>a_auth := filter (\<lambda>r. \<not> is_auth_row realm key r) (a_auth a)\<rparr>"

definition put_auth_state :: "bytes \<Rightarrow> bytes \<Rightarrow> AuthState \<Rightarrow> Authority \<Rightarrow> Authority" where
  "put_auth_state realm key st a = a\<lparr>a_auth := filter (\<lambda>r. \<not> is_auth_row realm key r) (a_auth a) @
     [\<lparr>ar_realm = realm, ar_name = key, ar_fail_count = uint (fail_count st), ar_last_failed = last_failed st,
       ar_last_success = last_success st\<rparr>]\<rparr>"

definition auth_state_in :: "bytes \<Rightarrow> bytes \<Rightarrow> Authority \<Rightarrow> AuthState" where
  "auth_state_in realm key a = auth_of_rows (filter (is_auth_row realm key) (a_auth a))"

text \<open>
  The end of \<open>update_principal\<close>: \<open>sp\<close> is the updated principal and \<open>unlocked\<close> whether the update moved
  \<open>last_admin_unlock\<close>.
\<close>

definition update_principal_write :: "Txn \<Rightarrow> bytes \<Rightarrow> bytes \<Rightarrow> StoredPrincipal \<Rightarrow> bool \<Rightarrow> Authority \<Rightarrow> StoreError + Authority" where
  "update_principal_write tx realm key sp unlocked a =
     rbind (authority_write_principal tx sp False a) (\<lambda>a.
       Inr (if unlocked then
              let a = lift_lockout tx realm key a in
              a\<lparr>a_auth := map (\<lambda>r. if is_auth_row realm key r then r\<lparr>ar_fail_count := 0\<rparr> else r) (a_auth a)\<rparr>
            else a))"

text \<open>\<open>EXTRACT(EPOCH FROM now())::INT8\<close> rounds to whole seconds.\<close>

definition epoch_int8 :: "int \<Rightarrow> int" where
  "epoch_int8 nanos = (nanos + 500000000) div 1000000000"

definition authority_delete_principal :: "Txn \<Rightarrow> PrincipalName \<Rightarrow> bytes \<Rightarrow> Authority \<Rightarrow> StoreError + bool \<times> Authority" where
  "authority_delete_principal tx name realm a =
     rbind (encode_principal_key name) (\<lambda>key.
       case mt_delete tx (realm, key) (ap_mod_time_update (\<lambda>_. Some (epoch_int8 (tx_start tx)))) (a_principals a) of (gone, rows) \<Rightarrow>
         if gone = 0 then Inr (False, a)
         else
           let a = delete_auth_state realm key (delete_authority_keys (realm, key) (a\<lparr>a_principals := rows\<rparr>));
               a = log_change tx ''principal'' realm key ''delete'' a
           in Inr (True, lift_lockout tx realm key a))"

text \<open>The end of \<open>rename_raw\<close>: \<open>dest\<close> is the renamed principal and \<open>st\<close> its counters.\<close>

definition rename_write :: "Txn \<Rightarrow> bytes \<Rightarrow> bytes \<Rightarrow> StoredPrincipal \<Rightarrow> AuthState \<Rightarrow> Authority \<Rightarrow> StoreError + Authority" where
  "rename_write tx realm key dest st a =
     rbind (authority_insert_principal tx dest a) (\<lambda>a.
     let a = delete_auth_state realm key a in
     rbind (if st \<noteq> default_AuthState then
              rbind (encode_principal_key (sp_name dest)) (\<lambda>dk. Inr (put_auth_state (sp_realm dest) dk st a))
            else Inr a) (\<lambda>a.
     let a = a\<lparr>a_principals := snd (mt_delete tx (realm, key)
               (ap_mod_time_update (\<lambda>_. Some (epoch_int8 (tx_start tx)))) (a_principals a))\<rparr>;
         a = delete_authority_keys (realm, key) a
     in Inr (log_change tx ''principal'' realm key ''delete'' a)))"

text \<open>The transaction of \<open>create_realm\<close>: \<open>stored\<close> are the entries \<open>K/M\<close> and \<open>krbtgt\<close>.\<close>

fun write_new_principals :: "Txn \<Rightarrow> StoredPrincipal list \<Rightarrow> Authority \<Rightarrow> StoreError + Authority" where
  "write_new_principals tx [] a = Inr a"
| "write_new_principals tx (sp # sps) a = rbind (authority_write_principal tx sp True a) (write_new_principals tx sps)"

definition create_realm_write :: "Txn \<Rightarrow> bytes \<Rightarrow> int \<Rightarrow> StoredPrincipal list \<Rightarrow> Authority \<Rightarrow> StoreError + Authority" where
  "create_realm_write tx realm enctype stored a =
     (if realm \<in> set (map fst (a_realms a)) then Inl conflict_exists
      else write_new_principals tx stored (a\<lparr>a_realms := a_realms a @ [(realm, enctype)]\<rparr>))"

section \<open>Policies\<close>

definition authority_policy_fields :: "StoredPolicy \<Rightarrow> StoreError + PolicyCols" where
  "authority_policy_fields p =
     rbind (u_val (pol_security_epoch p)) (\<lambda>ep.
     rbind (if pol_tl_data p = [] then Inr None
            else rbind (tl_data_bytes (pol_tl_data p)) (\<lambda>b. Inr (Some b))) (\<lambda>tlb.
     Inr \<lparr>oc_pw_min_life = uint (pw_min_life p), oc_pw_max_life = uint (pw_max_life p),
          oc_pw_min_length = uint (pw_min_length p), oc_pw_min_classes = uint (pw_min_classes p),
          oc_pw_history_num = uint (pw_history_num p), oc_pw_max_fail = uint (pw_max_fail p),
          oc_pw_failcnt_interval = uint (pw_failcnt_interval p),
          oc_pw_lockout_duration = uint (pw_lockout_duration p), oc_attributes = uint (pol_attributes p),
          oc_max_life = uint (pol_max_life p), oc_max_renewable_life = uint (pol_max_renewable_life p),
          oc_allowed_keysalts = allowed_keysalts p, oc_security_epoch = ep, oc_tl_data = tlb\<rparr>))"

definition authority_write_policy :: "Txn \<Rightarrow> StoredPolicy \<Rightarrow> bool \<Rightarrow> Authority \<Rightarrow> StoreError + Authority" where
  "authority_write_policy tx p create a =
     rbind (authority_policy_fields p) (\<lambda>cols.
     rbind (if create then rbind (mt_insert tx (pol_name p) cols (a_policies a)) (\<lambda>rows. Inr (a\<lparr>a_policies := rows\<rparr>))
            else Inr (a\<lparr>a_policies := mt_update tx (pol_name p) cols (a_policies a)\<rparr>)) (\<lambda>a.
       Inr (log_change tx ''policy'' [] (pol_name p) ''upsert'' a)))"

definition authority_create_policy :: "Txn \<Rightarrow> StoredPolicy \<Rightarrow> Authority \<Rightarrow> StoreError + Authority" where
  "authority_create_policy tx p a = (case mt_select (pol_name p) (a_policies a) of
     [] \<Rightarrow> authority_write_policy tx p True a
   | r # _ \<Rightarrow> if m_deleted r then authority_write_policy tx p False a else Inl conflict_exists)"

definition authority_delete_policy :: "Txn \<Rightarrow> bytes \<Rightarrow> Authority \<Rightarrow> bool \<times> Authority" where
  "authority_delete_policy tx name a = (case mt_delete tx name id (a_policies a) of (gone, rows) \<Rightarrow>
     if gone = 0 then (False, a)
     else (True, log_change tx ''policy'' [] name ''delete'' (a\<lparr>a_policies := rows\<rparr>)))"

section \<open>Lockouts and counters\<close>

text \<open>\<open>INSERT ... ON CONFLICT (realm, name) DO UPDATE\<close> keeps the name type of the row.\<close>

definition put_lockout :: "Txn \<Rightarrow> bytes \<times> bytes \<Rightarrow> LockoutCols \<Rightarrow> (bytes \<times> bytes, LockoutCols) mrow list \<Rightarrow>
    (bytes \<times> bytes, LockoutCols) mrow list" where
  "put_lockout tx k cols rows =
     (if k \<in> set (map m_key rows) then
        map (\<lambda>r. if m_key r = k then r\<lparr>m_cols := cols\<lparr>lc_name_type := lc_name_type (m_cols r)\<rparr>,
                   m_ts := tx_commit tx, m_deleted := False\<rparr> else r) rows
      else rows @ [\<lparr>m_key = k, m_cols = cols, m_ts = tx_commit tx, m_deleted = False\<rparr>])"

definition report_lockout :: "Txn \<Rightarrow> LockoutRecord \<Rightarrow> Authority \<Rightarrow> StoreError + Authority" where
  "report_lockout tx r a =
     rbind (encode_principal_key (lo_name r)) (\<lambda>key.
       Inr (log_change tx ''lockout'' (lo_realm r) key ''upsert''
         (a\<lparr>a_lockouts := put_lockout tx (lo_realm r, key) (lockout_fields r) (a_lockouts a)\<rparr>)))"

text \<open>The record \<open>CockroachLockoutReporter::report\<close> makes of a tripped lockout.\<close>

definition lockout_record :: "bytes \<Rightarrow> LockoutReport \<Rightarrow> LockoutRecord" where
  "lockout_record source_kdc rep = \<lparr>lo_realm = lr_realm rep, lo_name = lr_principal rep, lo_locked_at = lr_stamp rep,
     lo_unlock_at = (if 0 < lr_duration rep then Some (sat_add_i64 (lr_stamp rep) (uint (lr_duration rep)))
                     else None),
     lo_source_kdc = source_kdc\<rparr>"

definition authority_auth_apply :: "PrincipalName \<Rightarrow> bytes \<Rightarrow> AuthStateUpdate \<Rightarrow> Authority \<Rightarrow> StoreError + AuthState \<times> Authority" where
  "authority_auth_apply name realm update a =
     rbind (encode_principal_key name) (\<lambda>key.
       let live = (\<exists>r \<in> set (mt_select (realm, key) (a_principals a)). \<not> m_deleted r);
           st = auth_apply (auth_state_in realm key a) update
       in Inr (st, if live then put_auth_state realm key st a else a))"

section \<open>Pruning\<close>

text \<open>\<open>scan_buckets\<close>: the buckets that can hold a log row with a timestamp in the interval.\<close>

definition overlap_ns :: "int \<Rightarrow> int" where
  "overlap_ns timeout_ms = min (max timeout_ms 0 * 1000000 + 5000000000) i64_max"

definition scan_buckets :: "ReplicationTs \<Rightarrow> ReplicationTs \<Rightarrow> int \<Rightarrow> int \<Rightarrow> int \<times> int" where
  "scan_buckets since til timeout_ms width =
     (bucket_of width (sat_sub_i64 (wall_nanos since) (overlap_ns timeout_ms)), bucket_of width (wall_nanos til))"

definition drop_tombstones :: "ReplicationTs \<Rightarrow> ('k, 'c) mrow list \<Rightarrow> ('k, 'c) mrow list" where
  "drop_tombstones cutoff rows = filter (\<lambda>r. \<not> (m_deleted r \<and> m_ts r < cutoff)) rows"

definition authority_prune :: "Txn \<Rightarrow> int \<Rightarrow> Authority \<Rightarrow> StoreError + (ReplicationTs \<times> nat) \<times> Authority" where
  "authority_prune tx nanos a =
     (if i64_max < nanos then Inl (se_backend ''duration out of range'')
      else case a_meta a of
     None \<Rightarrow> Inl (se_unavailable ''query returned an unexpected number of rows'')
   | Some m \<Rightarrow>
       if me_bucket_width m \<le> 0 \<or> me_timeout_ms m \<le> 0 then
         Inl (se_corrupt ''replication bucket width and transaction timeout must be positive'')
       else
         let cutoff = ReplicationTs (sat_sub_i64 (tx_start tx) nanos) 0;
             oldest = fst (scan_buckets cutoff cutoff (me_timeout_ms m) (me_bucket_width m));
             gone = filter (\<lambda>l. lg_bucket l < oldest) (a_log a)
         in Inr ((cutoff, length gone),
              a\<lparr>a_log := filter (\<lambda>l. \<not> lg_bucket l < oldest) (a_log a),
                a_meta := Some (m\<lparr>me_pruned_before := max (me_pruned_before m) cutoff\<rparr>),
                a_principals := drop_tombstones cutoff (a_principals a),
                a_policies := drop_tombstones cutoff (a_policies a),
                a_lockouts := drop_tombstones cutoff (a_lockouts a)\<rparr>))"

end
