(* ===== verification/Authority_Read.thy ===== *)
theory Authority_Read
  imports Authority
begin

text \<open>
  Reading the authoritative database: \<open>stored_principals\<close>, \<open>policy_of\<close> and \<open>lockout_of\<close> of
  \<open>src/crates/krb5-rs-kdb-cockroach/src/store.rs\<close>, its replication source (\<open>poll\<close>, \<open>snapshot\<close>, \<open>next_page\<close>,
  \<open>pruned_before\<close>) and \<open>security_state\<close>, with \<open>run_read\<close> and \<open>read_tx\<close> of \<open>db.rs\<close>.

  The database is multi-version: a \<open>History\<close> lists the committed states, newest first, with their commit
  timestamps, and a read \<open>AS OF SYSTEM TIME\<close> sees the state as of its timestamp. The history covers all time:
  the database never commits at or below a timestamp it has served a read at, so a later commit does not change what
  was read. What a read meets is in \<open>ReadEnv\<close>: the clock, the follower timestamp and a failure.
\<close>

section \<open>Rows\<close>

definition try_key :: "AuthKey \<Rightarrow> StoreError + StoredKey" where
  "try_key k =
     rbind (try_u32 ''kvno out of range'' (ak_kvno k)) (\<lambda>kvno.
     rbind (try_i32 ''enctype'' (ak_enctype k)) (\<lambda>etype.
     rbind (try_u32 ''mkvno out of range'' (ak_mkvno k)) (\<lambda>mkvno.
       Inr \<lparr>sk_kvno = kvno, sk_enctype = etype, sk_mkvno = mkvno, sk_enc_key = ak_enc_key k,
            sk_salt = ak_salt k, sk_s2kparams = ak_s2kparams k\<rparr>)))"

definition principal_of :: "(bytes \<Rightarrow> bool) \<Rightarrow> (bytes \<times> bytes, AuthPrincipal) mrow \<Rightarrow> StoreError + StoredPrincipal" where
  "principal_of gs r =
     (let c = m_cols r in
      rbind (try_i32 ''name type out of range'' (ap_name_type c)) (\<lambda>nt.
      rbind (decode_principal_key gs (snd (m_key r)) nt) (\<lambda>name.
      rbind (try_u32 ''attributes'' (ap_attributes c)) (\<lambda>attrs.
      rbind (opt_u64 ''negative value'' (ap_max_life c)) (\<lambda>ml.
      rbind (opt_u64 ''negative value'' (ap_max_renewable_life c)) (\<lambda>mrl.
      rbind (try_u64 ''negative epoch'' (ap_security_epoch c)) (\<lambda>ep.
      rbind (decode_tl_data (ap_tl_data c)) (\<lambda>tld.
        Inr \<lparr>sp_name = name, sp_realm = fst (m_key r), sp_attributes = attrs, sp_max_life = ml,
          sp_max_renewable_life = mrl, sp_expiration = ap_expiration c, sp_pw_expiration = ap_pw_expiration c,
          sp_last_pwd_change = ap_last_pwd_change c, sp_mod_time = ap_mod_time c, sp_keys = [],
          sp_delegate_to = ap_delegate_to c, sp_delegate_from = ap_delegate_from c, sp_policy = ap_policy c,
          sp_security_epoch = ep, sp_last_admin_unlock = ap_last_admin_unlock c, sp_tl_data = tld\<rparr>))))))))"

type_synonym JoinRow = "(bytes \<times> bytes, AuthPrincipal) mrow \<times> AuthKey option"
type_synonym PrincipalRow = "StoredPrincipal \<times> ReplicationTs \<times> bool"

text \<open>\<open>principal_sql\<close>: principals left-joined with their keys, in the order of the query.\<close>

definition authority_keys_of :: "bytes \<times> bytes \<Rightarrow> Authority \<Rightarrow> AuthKey list" where
  "authority_keys_of k a =
     sort_key (\<lambda>r. - ak_kvno r) (sort_key ak_enctype (filter (\<lambda>r. ak_principal r = k) (a_keys a)))"

definition authority_join :: "Authority \<Rightarrow> (bytes \<times> bytes, AuthPrincipal) mrow \<Rightarrow> JoinRow list" where
  "authority_join a r = (case authority_keys_of (m_key r) a of
     [] \<Rightarrow> [(r, None)] | ks \<Rightarrow> map (\<lambda>k. (r, Some k)) ks)"

definition principal_sql :: "((bytes \<times> bytes, AuthPrincipal) mrow \<Rightarrow> bool) \<Rightarrow> Authority \<Rightarrow> JoinRow list" where
  "principal_sql flt a = concat (map (authority_join a) (sort_key m_key (filter flt (a_principals a))))"

text \<open>\<open>stored_principals\<close>: group the join rows.\<close>

definition push_key :: "StoredKey \<Rightarrow> PrincipalRow list \<Rightarrow> PrincipalRow list" where
  "push_key sk out = butlast out @ [case last out of (sp, v, d) \<Rightarrow> (sp\<lparr>sp_keys := sp_keys sp @ [sk]\<rparr>, v, d)]"

fun group_rows :: "(bytes \<Rightarrow> bool) \<Rightarrow> (bytes \<times> bytes) option \<Rightarrow> PrincipalRow list \<Rightarrow> JoinRow list \<Rightarrow> StoreError + PrincipalRow list" where
  "group_rows gs prev out [] = Inr out"
| "group_rows gs prev out ((r, k) # rows) =
     rbind (if prev \<noteq> Some (m_key r) then
              rbind (principal_of gs r) (\<lambda>sp. Inr (out @ [(sp, m_ts r, m_deleted r)]))
            else Inr out) (\<lambda>out.
     rbind (case k of None \<Rightarrow> Inr out | Some k \<Rightarrow> rbind (try_key k) (\<lambda>sk. Inr (push_key sk out))) (\<lambda>out.
       group_rows gs (Some (m_key r)) out rows))"

definition stored_principals :: "(bytes \<Rightarrow> bool) \<Rightarrow> JoinRow list \<Rightarrow> StoreError + PrincipalRow list" where
  "stored_principals gs rows = group_rows gs None [] rows"

text \<open>A policy row has the columns of the replica's, read in the same order.\<close>

definition policy_of :: "(bytes, PolicyCols) mrow \<Rightarrow> StoreError + StoredPolicy \<times> ReplicationTs \<times> bool" where
  "policy_of r = rbind (policy_from_row (m_key r, m_cols r)) (\<lambda>p. Inr (p, m_ts r, m_deleted r))"

definition lockout_of ::
  "(bytes \<Rightarrow> bool) \<Rightarrow> (bytes \<times> bytes, LockoutCols) mrow \<Rightarrow> StoreError + LockoutRecord \<times> ReplicationTs \<times> bool" where
  "lockout_of gs r =
     (let c = m_cols r in
      rbind (try_i32 ''name type out of range'' (lc_name_type c)) (\<lambda>nt.
      rbind (decode_principal_key gs (snd (m_key r)) nt) (\<lambda>name.
        Inr (\<lparr>lo_realm = fst (m_key r), lo_name = name, lo_locked_at = lc_locked_at c, lo_unlock_at = lc_unlock_at c,
              lo_source_kdc = lc_source_kdc c\<rparr>, m_ts r, m_deleted r))))"

text \<open>\<open>update_policy\<close>: \<open>f\<close> is the administrator's change.\<close>

definition authority_update_policy ::
  "Txn \<Rightarrow> bytes \<Rightarrow> (StoredPolicy \<Rightarrow> StoreError + StoredPolicy) \<Rightarrow> Authority \<Rightarrow> StoreError + StoredPolicy \<times> Authority" where
  "authority_update_policy tx name f a = (case filter (\<lambda>r. \<not> m_deleted r) (mt_select name (a_policies a)) of
     [] \<Rightarrow> Inl (se_not_found ''Policy does not exist'')
   | r # _ \<Rightarrow>
       rbind (policy_of r) (\<lambda>(p, _, _).
       rbind (f p) (\<lambda>p.
       rbind (authority_write_policy tx p False a) (\<lambda>a. Inr (p, a)))))"

section \<open>Changes\<close>

definition principal_change :: "PrincipalRow \<Rightarrow> Change" where
  "principal_change row = (case row of (sp, v, deleted) \<Rightarrow>
     if deleted then DeletePrincipal (sp_realm sp) (sp_name sp) v else UpsertPrincipal sp v)"

definition policy_change :: "StoredPolicy \<times> ReplicationTs \<times> bool \<Rightarrow> Change" where
  "policy_change row = (case row of (p, v, deleted) \<Rightarrow> if deleted then DeletePolicy (pol_name p) v else UpsertPolicy p v)"

definition lockout_change :: "LockoutRecord \<times> ReplicationTs \<times> bool \<Rightarrow> Change" where
  "lockout_change row = (case row of (r, v, deleted) \<Rightarrow>
     if deleted then DeleteLockout (lo_realm r) (lo_name r) v else UpsertLockout r v)"

text \<open>One entity of \<open>materialize_changes\<close>, read from \<open>a\<close>; \<open>fallback\<close> is the version of a row that is gone.\<close>

definition materialize_principal :: "(bytes \<Rightarrow> bool) \<Rightarrow> Authority \<Rightarrow> bytes \<Rightarrow> bytes \<Rightarrow> ReplicationTs \<Rightarrow> StoreError + Change" where
  "materialize_principal gs a realm key fallback =
     rbind (stored_principals gs (principal_sql (\<lambda>r. m_key r = (realm, key)) a)) (\<lambda>found.
       case found of
         (sp, v, deleted) # _ \<Rightarrow>
           if deleted then rbind (decode_principal_key gs key 1) (\<lambda>n. Inr (DeletePrincipal realm n v))
           else Inr (UpsertPrincipal sp v)
       | [] \<Rightarrow> rbind (decode_principal_key gs key 1) (\<lambda>n. Inr (DeletePrincipal realm n fallback)))"

definition materialize_policy :: "Authority \<Rightarrow> bytes \<Rightarrow> ReplicationTs \<Rightarrow> StoreError + Change" where
  "materialize_policy a key fallback = (case mt_select key (a_policies a) of
     row # _ \<Rightarrow> rbind (policy_of row) (\<lambda>(p, v, deleted). Inr (if deleted then DeletePolicy key v else UpsertPolicy p v))
   | [] \<Rightarrow> Inr (DeletePolicy key fallback))"

definition materialize_lockout :: "(bytes \<Rightarrow> bool) \<Rightarrow> Authority \<Rightarrow> bytes \<Rightarrow> bytes \<Rightarrow> ReplicationTs \<Rightarrow> StoreError + Change" where
  "materialize_lockout gs a realm key fallback = (case mt_select (realm, key) (a_lockouts a) of
     row # _ \<Rightarrow> rbind (lockout_of gs row) (\<lambda>(r, v, deleted).
       if deleted then rbind (decode_principal_key gs key 1) (\<lambda>n. Inr (DeleteLockout realm n v))
       else Inr (UpsertLockout r v))
   | [] \<Rightarrow> rbind (decode_principal_key gs key 1) (\<lambda>n. Inr (DeleteLockout realm n fallback)))"

definition materialize_row :: "(bytes \<Rightarrow> bool) \<Rightarrow> Authority \<Rightarrow> LogRow \<Rightarrow> ReplicationTs \<Rightarrow> StoreError + Change" where
  "materialize_row gs a l fallback =
     (if lg_entity l = ''principal'' then materialize_principal gs a (lg_realm l) (lg_key l) fallback
      else if lg_entity l = ''policy'' then materialize_policy a (lg_key l) fallback
      else if lg_entity l = ''lockout'' then materialize_lockout gs a (lg_realm l) (lg_key l) fallback
      else Inl (se_corrupt ''unknown replication entity''))"

definition log_id :: "LogRow \<Rightarrow> string \<times> bytes \<times> bytes" where
  "log_id l = (lg_entity l, lg_realm l, lg_key l)"

definition fallback_version :: "LogRow list \<Rightarrow> LogRow \<Rightarrow> ReplicationTs" where
  "fallback_version rows l =
     (case map lg_ts (filter (\<lambda>o'. log_id o' = log_id l) rows) of [] \<Rightarrow> lg_ts l | t # ts \<Rightarrow> fold max ts t)"

fun materialize_loop ::
  "(bytes \<Rightarrow> bool) \<Rightarrow> Authority \<Rightarrow> LogRow list \<Rightarrow> (string \<times> bytes \<times> bytes) list \<Rightarrow> LogRow list \<Rightarrow> StoreError + Change list" where
  "materialize_loop gs a rows seen [] = Inr []"
| "materialize_loop gs a rows seen (l # ls) =
     (if log_id l \<in> set seen then materialize_loop gs a rows seen ls
      else rbind (materialize_row gs a l (fallback_version rows l)) (\<lambda>c.
           rbind (materialize_loop gs a rows (seen @ [log_id l]) ls) (\<lambda>cs. Inr (c # cs))))"

definition materialize_changes :: "(bytes \<Rightarrow> bool) \<Rightarrow> LogRow list \<Rightarrow> Authority \<Rightarrow> StoreError + Change list" where
  "materialize_changes gs rows a = rbind (materialize_loop gs a rows [] (rev rows)) (\<lambda>cs. Inr (rev cs))"

section \<open>Read transactions\<close>

type_synonym History = "(ReplicationTs \<times> Authority) list"

fun state_at :: "Meta \<Rightarrow> History \<Rightarrow> ReplicationTs \<Rightarrow> Authority" where
  "state_at m [] t = initial_authority m"
| "state_at m ((u, a) # H) t = (if u \<le> t then a else state_at m H t)"

datatype DbFailure = Pg_Retry | Pg_Error StoreError

record ReadEnv =
  rd_now :: ReplicationTs
  rd_follower :: ReplicationTs
  rd_fail :: "DbFailure option"

datatype Aost = Aost_Present | Aost_Follower | Aost_At ReplicationTs

fun read_ts :: "Aost \<Rightarrow> ReadEnv \<Rightarrow> ReplicationTs" where
  "read_ts Aost_Present env = rd_now env"
| "read_ts Aost_Follower env = rd_follower env"
| "read_ts (Aost_At t) env = t"

definition default_read :: ReadEnv where
  "default_read = \<lparr>rd_now = ts_ZERO, rd_follower = ts_ZERO, rd_fail = None\<rparr>"

definition read_env :: "ReadEnv list \<Rightarrow> ReadEnv" where
  "read_env envs = (case envs of [] \<Rightarrow> default_read | e # _ \<Rightarrow> e)"

text \<open>\<open>run_read\<close> with \<open>left\<close> retries; \<open>body\<close> gets the read timestamp, the source's clock and the state it sees.\<close>

fun run_read ::
  "nat \<Rightarrow> (ReplicationTs \<Rightarrow> Authority) \<Rightarrow> Aost \<Rightarrow> (ReplicationTs \<Rightarrow> ReplicationTs \<Rightarrow> Authority \<Rightarrow> StoreError + 'r) \<Rightarrow>
   ReadEnv list \<Rightarrow> (StoreError + 'r) \<times> ReadEnv list" where
  "run_read left st aost body envs =
     (let env = read_env envs; ts = read_ts aost env in
      case rd_fail env of
        None \<Rightarrow> (body ts (rd_now env) (st ts), tl envs)
      | Some (Pg_Error e) \<Rightarrow> (Inl e, tl envs)
      | Some Pg_Retry \<Rightarrow>
          (case left of
            0 \<Rightarrow> (Inl (se_conflict ''transaction retry limit exceeded''), tl envs)
          | Suc left \<Rightarrow> run_read left st aost body (tl envs)))"

definition max_retries :: nat where "max_retries = 80"

datatype ReplicationRead = Read_Present | Read_Follower

fun contains_str :: "string \<Rightarrow> string \<Rightarrow> bool" where
  "contains_str pat [] = (pat = [])"
| "contains_str pat (c # s) = (take (length pat) (c # s) = pat \<or> contains_str pat s)"

text \<open>\<open>read_tx\<close>: a follower read from before the schema falls back to the present once.\<close>

definition too_old :: "StoreError \<Rightarrow> bool" where
  "too_old e = list_ex (\<lambda>c. contains_str c (se_message e)) [''3D000'', ''42P01'', ''42501'', ''42703'']"

definition read_tx ::
  "ReplicationRead \<Rightarrow> (ReplicationTs \<Rightarrow> Authority) \<Rightarrow> (ReplicationTs \<Rightarrow> ReplicationTs \<Rightarrow> Authority \<Rightarrow> StoreError + 'r) \<Rightarrow>
   ReadEnv list \<Rightarrow> (StoreError + 'r) \<times> ReadEnv list" where
  "read_tx mode st body envs = (case mode of
     Read_Present \<Rightarrow> run_read max_retries st Aost_Present body envs
   | Read_Follower \<Rightarrow> (case run_read max_retries st Aost_Follower body envs of
       (Inl e, envs) \<Rightarrow> if too_old e then run_read max_retries st Aost_Present body envs else (Inl e, envs)
     | (Inr x, envs) \<Rightarrow> (Inr x, envs)))"

text \<open>\<open>Db::rows\<close>: one statement, not retried.\<close>

definition db_rows ::
  "(ReplicationTs \<Rightarrow> Authority) \<Rightarrow> Aost \<Rightarrow> (Authority \<Rightarrow> 'r) \<Rightarrow> ReadEnv list \<Rightarrow> (StoreError + 'r) \<times> ReadEnv list" where
  "db_rows st aost q envs =
     (let env = read_env envs in
      case rd_fail env of
        None \<Rightarrow> (Inr (q (st (read_ts aost env))), tl envs)
      | Some (Pg_Error e) \<Rightarrow> (Inl e, tl envs)
      | Some Pg_Retry \<Rightarrow> (Inl (se_conflict ''transaction retry exhausted''), tl envs))"

section \<open>The replication source\<close>

text \<open>
  The log rows with a timestamp in the interval and a bucket in the range, in the order of the query. The
  comparisons of \<open>crdb_internal_mvcc_timestamp\<close> as decimals are those of the timestamps.
\<close>

definition log_rows :: "int \<times> int \<Rightarrow> ReplicationTs \<Rightarrow> ReplicationTs \<Rightarrow> Authority \<Rightarrow> LogRow list" where
  "log_rows buckets since til a =
     sort_key (\<lambda>l. (lg_ts l, lg_bucket l, lg_id l))
       (filter (\<lambda>l. fst buckets \<le> lg_bucket l \<and> lg_bucket l \<le> snd buckets \<and> since < lg_ts l \<and> lg_ts l \<le> til) (a_log a))"

datatype PollMaterialization = Mat_Complete "Change list" | Mat_Truncated "LogRow list"

record PollRead =
  pr_upto :: ReplicationTs
  pr_materialization :: PollMaterialization
  pr_source_now :: ReplicationTs
  pr_truncated :: bool

definition poll_rows :: "int \<Rightarrow> int \<times> int \<Rightarrow> ReplicationTs \<Rightarrow> ReplicationTs \<Rightarrow> Authority \<Rightarrow> LogRow list \<times> ReplicationTs \<times> bool" where
  "poll_rows limit buckets since upto_read a =
     (let candidates = take (nat (limit + 1)) (log_rows buckets since upto_read a) in
      if int (length candidates) > limit then
        let cutoff = lg_ts (candidates ! nat (limit - 1));
            truncated = (log_rows buckets cutoff upto_read a \<noteq> []);
            til = (if truncated then cutoff else upto_read)
        in (log_rows buckets since til a, til, truncated)
      else (candidates, upto_read, False))"

definition poll_body ::
  "(bytes \<Rightarrow> bool) \<Rightarrow> int \<Rightarrow> ReplicationTs \<Rightarrow> ReplicationTs \<Rightarrow> ReplicationTs \<Rightarrow> Authority \<Rightarrow> StoreError + PollRead" where
  "poll_body gs limit since upto_read source_now a = (case a_meta a of
     None \<Rightarrow> Inl (se_unavailable ''query returned an unexpected number of rows'')
   | Some m \<Rightarrow>
       if me_bucket_width m \<le> 0 \<or> me_timeout_ms m \<le> 0 then
         Inl (se_corrupt ''replication bucket width and transaction timeout must be positive'')
       else if since < me_pruned_before m then
         Inl (se_stale ''replication checkpoint is below pruned_before; rebuild required'')
       else if upto_read \<le> since then
         Inr \<lparr>pr_upto = since, pr_materialization = Mat_Complete [], pr_source_now = source_now, pr_truncated = False\<rparr>
       else
         (case poll_rows limit (scan_buckets since upto_read (me_timeout_ms m) (me_bucket_width m)) since upto_read a of
           (rows, til, truncated) \<Rightarrow>
             rbind (if truncated then Inr (Mat_Truncated rows)
                    else rbind (materialize_changes gs rows a) (\<lambda>cs. Inr (Mat_Complete cs))) (\<lambda>mat.
             Inr \<lparr>pr_upto = til, pr_materialization = mat, pr_source_now = source_now, pr_truncated = truncated\<rparr>)))"

definition clamp_limit :: "nat \<Rightarrow> int" where
  "clamp_limit limit = (let l = int (max limit 1) in if l \<le> i64_max then l else i64_max - 1)"

definition authority_poll ::
  "(bytes \<Rightarrow> bool) \<Rightarrow> ReplicationRead \<Rightarrow> (ReplicationTs \<Rightarrow> Authority) \<Rightarrow> ReplicationTs \<Rightarrow> nat \<Rightarrow> ReadEnv list \<Rightarrow>
   (StoreError + PollResult) \<times> ReadEnv list" where
  "authority_poll gs mode st since limit envs =
     (case read_tx mode st (poll_body gs (clamp_limit limit) since) envs of
       (Inl e, envs) \<Rightarrow> (Inl e, envs)
     | (Inr rd, envs) \<Rightarrow>
         (case (case pr_materialization rd of
             Mat_Complete cs \<Rightarrow> (Inr cs, envs)
           | Mat_Truncated rows \<Rightarrow>
               run_read max_retries st (Aost_At (pr_upto rd)) (\<lambda>_ _. materialize_changes gs rows) envs) of
           (Inl e, envs) \<Rightarrow> (Inl e, envs)
         | (Inr cs, envs) \<Rightarrow>
             (Inr \<lparr>po_batch = \<lparr>cb_upto = pr_upto rd, cb_changes = cs\<rparr>, po_source_now = pr_source_now rd,
                   po_truncated = pr_truncated rd\<rparr>, envs)))"

definition authority_pruned_before ::
  "(ReplicationTs \<Rightarrow> Authority) \<Rightarrow> ReadEnv list \<Rightarrow> (StoreError + ReplicationTs option) \<times> ReadEnv list" where
  "authority_pruned_before st envs = (case db_rows st Aost_Present a_meta envs of
     (Inl e, envs) \<Rightarrow> (Inl e, envs)
   | (Inr None, envs) \<Rightarrow> (Inr None, envs)
   | (Inr (Some m), envs) \<Rightarrow>
       (Inr (if me_pruned_before m \<noteq> ts_ZERO then Some (me_pruned_before m) else None), envs))"

section \<open>Snapshots\<close>

datatype Stage = Stage_Principals | Stage_Policies | Stage_Lockouts | Stage_Done

record CockroachSnapshot =
  sn_ts :: ReplicationTs
  sn_source_now :: ReplicationTs
  sn_pruned_before :: ReplicationTs
  sn_stage :: Stage
  sn_cursor :: "bytes \<times> bytes"

definition authority_snapshot ::
  "ReplicationRead \<Rightarrow> (ReplicationTs \<Rightarrow> Authority) \<Rightarrow> ReadEnv list \<Rightarrow> (StoreError + CockroachSnapshot) \<times> ReadEnv list" where
  "authority_snapshot mode st envs = read_tx mode st (\<lambda>ts now a. case a_meta a of
     None \<Rightarrow> Inl (se_unavailable ''query returned an unexpected number of rows'')
   | Some m \<Rightarrow> Inr \<lparr>sn_ts = ts, sn_source_now = now, sn_pruned_before = me_pruned_before m, sn_stage = Stage_Principals,
       sn_cursor = ([], [])\<rparr>) envs"

definition snapshot_page :: nat where "snapshot_page = 100"

text \<open>The rows after the cursor that a snapshot keeps: live ones and tombstones that are not pruned yet.\<close>

definition page_rows :: "ReplicationTs \<Rightarrow> 'k::linorder \<Rightarrow> ('k, 'c) mrow list \<Rightarrow> ('k, 'c) mrow list" where
  "page_rows pruned cur rows =
     sort_key m_key (filter (\<lambda>r. cur < m_key r \<and> (\<not> m_deleted r \<or> pruned \<le> m_ts r)) rows)"

fun map_result :: "('x \<Rightarrow> 'e + 'y) \<Rightarrow> 'x list \<Rightarrow> 'e + 'y list" where
  "map_result f [] = Inr []"
| "map_result f (x # xs) = rbind (f x) (\<lambda>y. rbind (map_result f xs) (\<lambda>ys. Inr (y # ys)))"

definition principals_page :: "(bytes \<Rightarrow> bool) \<Rightarrow> CockroachSnapshot \<Rightarrow> Authority \<Rightarrow> JoinRow list" where
  "principals_page gs n a =
     (let keys = map m_key (take snapshot_page (page_rows (sn_pruned_before n) (sn_cursor n) (a_principals a)))
      in principal_sql (\<lambda>r. m_key r \<in> set keys) a)"

definition next_stage :: "Stage \<Rightarrow> CockroachSnapshot \<Rightarrow> CockroachSnapshot" where
  "next_stage stage n = n\<lparr>sn_stage := stage, sn_cursor := ([], [])\<rparr>"

text \<open>
  One round of \<open>next_page\<close>'s loop: \<open>None\<close> when it goes on with the next stage.
\<close>

definition page_round ::
  "(bytes \<Rightarrow> bool) \<Rightarrow> (ReplicationTs \<Rightarrow> Authority) \<Rightarrow> CockroachSnapshot \<Rightarrow> ReadEnv list \<Rightarrow>
   (StoreError + Change list option) option \<times> CockroachSnapshot \<times> ReadEnv list" where
  "page_round gs st n envs = (case sn_stage n of
     Stage_Principals \<Rightarrow> (case db_rows st (Aost_At (sn_ts n)) (principals_page gs n) envs of
         (Inl e, envs) \<Rightarrow> (Some (Inl e), n, envs)
       | (Inr rows, envs) \<Rightarrow> (case stored_principals gs rows of
           Inl e \<Rightarrow> (Some (Inl e), n, envs)
         | Inr [] \<Rightarrow> (None, next_stage Stage_Policies n, envs)
         | Inr prs \<Rightarrow> (let l = fst (last prs) in case encode_principal_key (sp_name l) of
             Inl e \<Rightarrow> (Some (Inl e), n, envs)
           | Inr key \<Rightarrow> (Some (Inr (Some (map principal_change prs))), n\<lparr>sn_cursor := (sp_realm l, key)\<rparr>, envs))))
   | Stage_Policies \<Rightarrow> (case db_rows st (Aost_At (sn_ts n))
           (\<lambda>a. take snapshot_page (page_rows (sn_pruned_before n) (fst (sn_cursor n)) (a_policies a))) envs of
         (Inl e, envs) \<Rightarrow> (Some (Inl e), n, envs)
       | (Inr [], envs) \<Rightarrow> (None, next_stage Stage_Lockouts n, envs)
       | (Inr rows, envs) \<Rightarrow> (let n = n\<lparr>sn_cursor := (m_key (last rows), [])\<rparr> in
           case map_result policy_of rows of
             Inl e \<Rightarrow> (Some (Inl e), n, envs)
           | Inr ps \<Rightarrow> (Some (Inr (Some (map policy_change ps))), n, envs)))
   | Stage_Lockouts \<Rightarrow> (case db_rows st (Aost_At (sn_ts n))
           (\<lambda>a. take snapshot_page (page_rows (sn_pruned_before n) (sn_cursor n) (a_lockouts a))) envs of
         (Inl e, envs) \<Rightarrow> (Some (Inl e), n, envs)
       | (Inr [], envs) \<Rightarrow> (None, n\<lparr>sn_stage := Stage_Done\<rparr>, envs)
       | (Inr rows, envs) \<Rightarrow> (let n = n\<lparr>sn_cursor := m_key (last rows)\<rparr> in
           case map_result (lockout_of gs) rows of
             Inl e \<Rightarrow> (Some (Inl e), n, envs)
           | Inr rs \<Rightarrow> (Some (Inr (Some (map lockout_change rs))), n, envs)))
   | Stage_Done \<Rightarrow> (Some (Inr None), n, envs))"

fun stage_left :: "Stage \<Rightarrow> nat" where
  "stage_left Stage_Principals = 3"
| "stage_left Stage_Policies = 2"
| "stage_left Stage_Lockouts = 1"
| "stage_left Stage_Done = 0"

lemma page_round_None: "page_round gs st n envs = (None, n', envs') \<Longrightarrow> stage_left (sn_stage n') < stage_left (sn_stage n)"
  by (auto simp: page_round_def next_stage_def Let_def split: Stage.splits sum.splits prod.splits list.splits)

function authority_next_page ::
  "(bytes \<Rightarrow> bool) \<Rightarrow> (ReplicationTs \<Rightarrow> Authority) \<Rightarrow> CockroachSnapshot \<Rightarrow> ReadEnv list \<Rightarrow>
   (StoreError + Change list option) \<times> CockroachSnapshot \<times> ReadEnv list" where
  "authority_next_page gs st n envs = (case page_round gs st n envs of
     (Some r, n, envs) \<Rightarrow> (r, n, envs)
   | (None, n, envs) \<Rightarrow> authority_next_page gs st n envs)"
  by pat_completeness auto
termination
  by (relation "measure (\<lambda>(gs, st, n, envs). stage_left (sn_stage n))") (auto dest: page_round_None [OF sym])

declare authority_next_page.simps [simp del]

definition cockroach_source ::
  "(bytes \<Rightarrow> bool) \<Rightarrow> ReplicationRead \<Rightarrow> (ReplicationTs \<Rightarrow> Authority) \<Rightarrow> (ReadEnv list, CockroachSnapshot) source_ops" where
  "cockroach_source gs mode st = \<lparr>so_pruned_before = authority_pruned_before st, so_poll = authority_poll gs mode st,
     so_snapshot = authority_snapshot mode st, so_ts = sn_ts, so_source_now = sn_source_now,
     so_next_page = authority_next_page gs st\<rparr>"

section \<open>Security state\<close>

text \<open>
  \<open>security_state\<close> with the statement timeout: \<open>timed_out\<close> says that it passed. \<open>now\<close> is the KDC's clock in seconds.
\<close>

definition security_rows :: "bytes \<times> bytes \<Rightarrow> Authority \<Rightarrow> (AuthPrincipal \<times> LockoutCols option) list" where
  "security_rows k a = concat (map (\<lambda>p.
     case filter (\<lambda>l. \<not> m_deleted l) (mt_select k (a_lockouts a)) of
       [] \<Rightarrow> [(m_cols p, None)] | ls \<Rightarrow> map (\<lambda>l. (m_cols p, Some (m_cols l))) ls)
     (filter (\<lambda>p. \<not> m_deleted p) (mt_select k (a_principals a))))"

definition authority_security_state ::
  "(ReplicationTs \<Rightarrow> Authority) \<Rightarrow> bool \<Rightarrow> int \<Rightarrow> PrincipalName \<Rightarrow> bytes \<Rightarrow> ReadEnv list \<Rightarrow>
   (StoreError + SecurityState) \<times> ReadEnv list" where
  "authority_security_state st timed_out now name realm envs = (case encode_principal_key name of
     Inl e \<Rightarrow> (Inl e, envs)
   | Inr key \<Rightarrow>
       if timed_out then (Inl (se_unavailable ''authoritative read timed out''), tl envs)
       else (case db_rows st Aost_Present (security_rows (realm, key)) envs of
         (Inl e, envs) \<Rightarrow> (Inl e, envs)
       | (Inr [], envs) \<Rightarrow> (Inl (se_not_found ''Principal does not exist''), envs)
       | (Inr ((p, l) # _), envs) \<Rightarrow>
           (Inr \<lparr>sec_epoch = (if 0 \<le> ap_security_epoch p then word_of_int (ap_security_epoch p) else 0),
                 sec_disabled = (word_of_int (ap_attributes p) AND (ucast attr_DISALLOW_ALL_TIX :: u64) \<noteq> 0),
                 sec_locked = (case l of None \<Rightarrow> False | Some c \<Rightarrow> is_none_or (lc_unlock_at c) (\<lambda>u. now < u))\<rparr>, envs)))"

end
