(* ===== verification/Authority_History.thy ===== *)
theory Authority_History
  imports Authority_Read
begin

text \<open>
  How the authoritative data evolves. \<open>authority_row\<close> is the row of an entity with what belongs to it;
  \<open>exec\<close> runs one administrative transaction; \<open>history\<close> is the set of histories such transactions make. The
  invariants are those the replication log needs: every row has its log row until that is pruned, every log row is
  in a bucket a poll scans, and between two timestamps nothing changes that the log does not name.
\<close>

section \<open>Entities\<close>

datatype AuthContent =
    AC_Principal AuthPrincipal "AuthKey list"
  | AC_Policy PolicyCols
  | AC_Lockout LockoutCols

definition mt_get :: "'k \<Rightarrow> ('k, 'c) mrow list \<Rightarrow> ('k, 'c) mrow option" where
  "mt_get k rows = (case mt_select k rows of [] \<Rightarrow> None | r # _ \<Rightarrow> Some r)"

fun authority_row :: "Authority \<Rightarrow> Entity \<Rightarrow> (ReplicationTs \<times> bool \<times> AuthContent) option" where
  "authority_row a (E_Principal realm name) =
     map_option (\<lambda>r. (m_ts r, m_deleted r, AC_Principal (m_cols r) (authority_keys_of (realm, name) a)))
       (mt_get (realm, name) (a_principals a))"
| "authority_row a (E_Policy name) =
     map_option (\<lambda>r. (m_ts r, m_deleted r, AC_Policy (m_cols r))) (mt_get name (a_policies a))"
| "authority_row a (E_Lockout realm name) =
     map_option (\<lambda>r. (m_ts r, m_deleted r, AC_Lockout (m_cols r))) (mt_get (realm, name) (a_lockouts a))"

definition log_entity :: "LogRow \<Rightarrow> Entity option" where
  "log_entity l =
     (if lg_entity l = ''principal'' then Some (E_Principal (lg_realm l) (lg_key l))
      else if lg_entity l = ''policy'' then Some (E_Policy (lg_key l))
      else if lg_entity l = ''lockout'' then Some (E_Lockout (lg_realm l) (lg_key l))
      else None)"

text \<open>A key that \<open>encode_principal_key\<close> makes: decoding and encoding it again gives it back.\<close>

definition canonical_key :: "bytes \<Rightarrow> bool" where
  "canonical_key k = (case key_parts [] k of Inl _ \<Rightarrow> False | Inr ps \<Rightarrow> key_comps False ps = Inr k)"

definition authority_wf :: "Authority \<Rightarrow> bool" where
  "authority_wf a \<longleftrightarrow> distinct (map m_key (a_principals a)) \<and> distinct (map m_key (a_policies a)) \<and>
     distinct (map m_key (a_lockouts a)) \<and>
     list_all (\<lambda>k. canonical_key (snd k) \<and> k \<noteq> ([], [])) (map m_key (a_principals a)) \<and>
     list_all (\<lambda>k. k \<noteq> []) (map m_key (a_policies a)) \<and>
     list_all (\<lambda>k. canonical_key (snd k) \<and> k \<noteq> ([], [])) (map m_key (a_lockouts a))"

section \<open>Transactions on histories\<close>

datatype AuthOp =
    Op_Create StoredPrincipal
  | Op_Update bytes bytes StoredPrincipal bool
  | Op_Delete PrincipalName bytes
  | Op_Rename bytes bytes StoredPrincipal AuthState
  | Op_Create_Realm bytes int "StoredPrincipal list"
  | Op_Create_Policy StoredPolicy
  | Op_Update_Policy bytes "StoredPolicy \<Rightarrow> StoreError + StoredPolicy"
  | Op_Delete_Policy bytes
  | Op_Report_Lockout LockoutRecord
  | Op_Auth PrincipalName bytes AuthStateUpdate
  | Op_Prune int

fun exec :: "Txn \<Rightarrow> AuthOp \<Rightarrow> Authority \<Rightarrow> StoreError + Authority" where
  "exec tx (Op_Create sp) a = authority_insert_principal tx sp a"
| "exec tx (Op_Update realm key sp unlocked) a = update_principal_write tx realm key sp unlocked a"
| "exec tx (Op_Delete name realm) a = rbind (authority_delete_principal tx name realm a) (\<lambda>(_, a). Inr a)"
| "exec tx (Op_Rename realm key dest st) a = rename_write tx realm key dest st a"
| "exec tx (Op_Create_Realm realm enctype stored) a = create_realm_write tx realm enctype stored a"
| "exec tx (Op_Create_Policy p) a = authority_create_policy tx p a"
| "exec tx (Op_Update_Policy name f) a = rbind (authority_update_policy tx name f a) (\<lambda>(_, a). Inr a)"
| "exec tx (Op_Delete_Policy name) a = Inr (snd (authority_delete_policy tx name a))"
| "exec tx (Op_Report_Lockout r) a = report_lockout tx r a"
| "exec tx (Op_Auth name realm update) a = rbind (authority_auth_apply name realm update a) (\<lambda>(_, a). Inr a)"
| "exec tx (Op_Prune nanos) a = rbind (authority_prune tx nanos a) (\<lambda>(_, a). Inr a)"

text \<open>
  What holds where an operation is called: names are not empty, an update is of the live principal it has read and
  keeps its name, and so does an update of a policy.
\<close>

definition named :: "StoredPrincipal \<Rightarrow> bool" where
  "named sp \<longleftrightarrow> sp_realm sp \<noteq> [] \<or> encode_principal_key (sp_name sp) \<noteq> Inr []"

definition live_principal :: "Authority \<Rightarrow> bytes \<Rightarrow> bytes \<Rightarrow> bool" where
  "live_principal a realm key \<longleftrightarrow> (case mt_get (realm, key) (a_principals a) of None \<Rightarrow> False | Some r \<Rightarrow> \<not> m_deleted r)"

fun op_ok :: "Authority \<Rightarrow> AuthOp \<Rightarrow> bool" where
  "op_ok a (Op_Create sp) = named sp"
| "op_ok a (Op_Update realm key sp unlocked) =
     (live_principal a realm key \<and> sp_realm sp = realm \<and> encode_principal_key (sp_name sp) = Inr key)"
| "op_ok a (Op_Rename realm key dest st) = (live_principal a realm key \<and> named dest)"
| "op_ok a (Op_Create_Realm realm enctype stored) = list_all named stored"
| "op_ok a (Op_Create_Policy p) = (pol_name p \<noteq> [])"
| "op_ok a (Op_Update_Policy name f) = (\<forall>p p'. f p = Inr p' \<longrightarrow> pol_name p' = pol_name p)"
| "op_ok a (Op_Report_Lockout r) = (lo_realm r \<noteq> [] \<or> encode_principal_key (lo_name r) \<noteq> Inr [])"
| "op_ok a _ = True"

definition latest :: "Meta \<Rightarrow> History \<Rightarrow> Authority" where
  "latest m H = (case H of [] \<Rightarrow> initial_authority m | (_, a) # _ \<Rightarrow> a)"

text \<open>
  The commit timestamp of a transaction: not before the last one, not before the transaction's start and,
  by \<open>transaction_timeout\<close> and \<open>COMMIT_SKEW_MARGIN\<close>, not later than the overlap after it.
\<close>

definition timely :: "Meta \<Rightarrow> History \<Rightarrow> Txn \<Rightarrow> bool" where
  "timely m H tx \<longleftrightarrow> (case H of [] \<Rightarrow> True | (u, _) # _ \<Rightarrow> u \<le> tx_commit tx) \<and>
     i64_min \<le> tx_start tx \<and> tx_start tx \<le> wall_nanos (tx_commit tx) \<and> wall_nanos (tx_commit tx) \<le> i64_max \<and>
     wall_nanos (tx_commit tx) \<le> tx_start tx + overlap_ns (me_timeout_ms m)"

definition meta_ok :: "Meta \<Rightarrow> bool" where
  "meta_ok m \<longleftrightarrow> me_pruned_before m = ts_ZERO \<and> 0 < me_bucket_width m \<and> 0 < me_timeout_ms m"

inductive history :: "Meta \<Rightarrow> History \<Rightarrow> bool" for m where
  history_init: "meta_ok m \<Longrightarrow> history m []"
| history_commit: "history m H \<Longrightarrow> timely m H tx \<Longrightarrow> op_ok (latest m H) op \<Longrightarrow> exec tx op (latest m H) = Inr a \<Longrightarrow>
    history m ((tx_commit tx, a) # H)"

inductive_cases history_ConsE: "history m (x # H)"

section \<open>Rows under the statements\<close>

lemma mt_get_filter:
  "mt_get k rows = (case filter (\<lambda>r. m_key r = k) rows of [] \<Rightarrow> None | r # _ \<Rightarrow> Some r)"
  by (simp add: mt_get_def mt_select_def)

lemma mt_get_Nil [simp]: "mt_get k [] = None"
  by (simp add: mt_get_filter)

lemma mt_get_Cons [simp]: "mt_get k (r # rows) = (if m_key r = k then Some r else mt_get k rows)"
  by (simp add: mt_get_filter)

lemma mt_get_append: "mt_get k (xs @ ys) = (case mt_get k xs of None \<Rightarrow> mt_get k ys | Some r \<Rightarrow> Some r)"
  by (induction xs) auto

lemma mt_get_None_iff: "mt_get k rows = None \<longleftrightarrow> k \<notin> set (map m_key rows)"
  by (induction rows) auto

lemma mt_get_SomeD: "mt_get k rows = Some r \<Longrightarrow> r \<in> set rows \<and> m_key r = k"
  by (induction rows) (auto split: if_splits)

lemma mt_get_distinct: "distinct (map m_key rows) \<Longrightarrow> r \<in> set rows \<Longrightarrow> mt_get (m_key r) rows = Some r"
  by (induction rows) force+

lemma mt_get_map:
  assumes "\<And>r. m_key (f r) = m_key r"
  shows "mt_get k (map f rows) = map_option f (mt_get k rows)"
  by (induction rows) (auto simp: assms)

lemma mt_select_get: "mt_select k rows = [] \<longleftrightarrow> mt_get k rows = None" "mt_select k rows = r # rs \<Longrightarrow> mt_get k rows = Some r"
  by (simp_all add: mt_get_def split: list.splits)

lemma mt_insert_InrE:
  assumes "mt_insert tx k cols rows = Inr rows'"
  obtains "\<And>k'. mt_get k' rows' =
      (if k' = k then Some \<lparr>m_key = k, m_cols = cols, m_ts = tx_commit tx, m_deleted = False\<rparr> else mt_get k' rows)"
    "map m_key rows' = map m_key rows @ [k]" "k \<notin> set (map m_key rows)"
proof -
  from assms have k: "k \<notin> set (map m_key rows)"
    and rows': "rows' = rows @ [\<lparr>m_key = k, m_cols = cols, m_ts = tx_commit tx, m_deleted = False\<rparr>]"
    by (auto simp: mt_insert_def split: if_splits)
  from k have "mt_get k rows = None" by (simp add: mt_get_None_iff)
  then have "mt_get k' rows' =
      (if k' = k then Some \<lparr>m_key = k, m_cols = cols, m_ts = tx_commit tx, m_deleted = False\<rparr> else mt_get k' rows)" for k'
    by (simp add: rows' mt_get_append split: option.splits)
  with k rows' that show thesis by simp
qed

lemma mt_update_get:
  "mt_get k' (mt_update tx k cols rows) =
     (if k' = k then map_option (\<lambda>r. r\<lparr>m_cols := cols, m_ts := tx_commit tx, m_deleted := False\<rparr>) (mt_get k rows)
      else mt_get k' rows)"
  by (cases "mt_get k' rows") (auto simp: mt_update_def mt_get_map dest: mt_get_SomeD)

lemma mt_update_keys [simp]: "map m_key (mt_update tx k cols rows) = map m_key rows"
  by (auto simp: mt_update_def)

lemma mt_delete_keys [simp]: "map m_key (snd (mt_delete tx k f rows)) = map m_key rows"
  by (auto simp: mt_delete_def)

lemma mt_delete_get:
  "mt_get k' (snd (mt_delete tx k f rows)) =
     (if k' = k then map_option (\<lambda>r. if m_deleted r then r
        else r\<lparr>m_cols := f (m_cols r), m_ts := tx_commit tx, m_deleted := True\<rparr>) (mt_get k rows)
      else mt_get k' rows)"
  by (cases "mt_get k' rows") (auto simp: mt_delete_def mt_get_map dest: mt_get_SomeD)

lemma mt_delete_count:
  assumes "distinct (map m_key rows)"
  shows "fst (mt_delete tx k f rows) = 0 \<longleftrightarrow> (case mt_get k rows of None \<Rightarrow> True | Some r \<Rightarrow> m_deleted r)"
proof -
  have "fst (mt_delete tx k f rows) = 0 \<longleftrightarrow> (\<forall>r \<in> set rows. m_key r = k \<longrightarrow> m_deleted r)"
    by (auto simp: mt_delete_def filter_empty_conv)
  also have "\<dots> \<longleftrightarrow> (case mt_get k rows of None \<Rightarrow> True | Some r \<Rightarrow> m_deleted r)"
    using mt_get_distinct [OF assms] mt_get_SomeD [of k rows] by (fastforce split: option.splits)
  finally show ?thesis .
qed

lemma keys_of_update [simp]:
  "authority_keys_of k (a\<lparr>a_principals := p\<rparr>) = authority_keys_of k a"
  "authority_keys_of k (a\<lparr>a_policies := o'\<rparr>) = authority_keys_of k a"
  "authority_keys_of k (a\<lparr>a_lockouts := l\<rparr>) = authority_keys_of k a"
  "authority_keys_of k (a\<lparr>a_log := g\<rparr>) = authority_keys_of k a"
  "authority_keys_of k (a\<lparr>a_meta := m\<rparr>) = authority_keys_of k a"
  "authority_keys_of k (a\<lparr>a_auth := t\<rparr>) = authority_keys_of k a"
  "authority_keys_of k (a\<lparr>a_realms := r\<rparr>) = authority_keys_of k a"
  by (simp_all add: authority_keys_of_def)

lemma row_update [simp]:
  "authority_row (a\<lparr>a_log := g\<rparr>) k = authority_row a k"
  "authority_row (a\<lparr>a_meta := m\<rparr>) k = authority_row a k"
  "authority_row (a\<lparr>a_auth := t\<rparr>) k = authority_row a k"
  "authority_row (a\<lparr>a_realms := r\<rparr>) k = authority_row a k"
  by (cases k; simp)+

lemma wf_update [simp]:
  "authority_wf (a\<lparr>a_log := g\<rparr>) = authority_wf a"
  "authority_wf (a\<lparr>a_meta := m\<rparr>) = authority_wf a"
  "authority_wf (a\<lparr>a_auth := t\<rparr>) = authority_wf a"
  "authority_wf (a\<lparr>a_realms := r\<rparr>) = authority_wf a"
  "authority_wf (a\<lparr>a_keys := y\<rparr>) = authority_wf a"
  by (simp_all add: authority_wf_def)

section \<open>What a transaction logs\<close>

text \<open>
  From \<open>a\<close> to \<open>b\<close> only entities with a log row of this transaction change, they get its commit timestamp, and
  the log only grows by such rows.
\<close>

definition logged :: "Txn \<Rightarrow> Authority \<Rightarrow> Authority \<Rightarrow> bool" where
  "logged tx a b \<longleftrightarrow> a_meta b = a_meta a \<and> (authority_wf a \<longrightarrow> authority_wf b) \<and>
     (\<forall>k. authority_row b k = authority_row a k \<or>
        (\<exists>d c. authority_row b k = Some (tx_commit tx, d, c)) \<and>
        (\<exists>l \<in> set (a_log b). log_entity l = Some k \<and> lg_ts l = tx_commit tx)) \<and>
     (\<exists>ls. a_log b = a_log a @ ls \<and> (\<forall>l \<in> set ls. lg_ts l = tx_commit tx \<and>
        (\<forall>m. a_meta a = Some m \<longrightarrow> lg_bucket l = bucket_of (me_bucket_width m) (tx_start tx)) \<and>
        (\<exists>k d c. log_entity l = Some k \<and> authority_row b k = Some (tx_commit tx, d, c))))"

lemma logged_refl: "logged tx a a"
  by (simp add: logged_def)

lemma logged_same:
  assumes "\<And>k. authority_row b k = authority_row a k" "a_log b = a_log a" "a_meta b = a_meta a"
    "authority_wf a \<Longrightarrow> authority_wf b"
  shows "logged tx a b"
  using assms by (simp add: logged_def)

lemma logged_trans:
  assumes "logged tx a b" "logged tx b c"
  shows "logged tx a c"
proof -
  from assms(1) obtain ls1 where ab: "a_meta b = a_meta a" "authority_wf a \<longrightarrow> authority_wf b"
    "\<And>k. authority_row b k = authority_row a k \<or> (\<exists>d c. authority_row b k = Some (tx_commit tx, d, c)) \<and>
        (\<exists>l \<in> set (a_log b). log_entity l = Some k \<and> lg_ts l = tx_commit tx)"
    "a_log b = a_log a @ ls1"
    "\<And>l. l \<in> set ls1 \<Longrightarrow> lg_ts l = tx_commit tx \<and>
        (\<forall>m. a_meta a = Some m \<longrightarrow> lg_bucket l = bucket_of (me_bucket_width m) (tx_start tx)) \<and>
        (\<exists>k d c. log_entity l = Some k \<and> authority_row b k = Some (tx_commit tx, d, c))"
    unfolding logged_def by blast
  from assms(2) obtain ls2 where bc: "a_meta c = a_meta b" "authority_wf b \<longrightarrow> authority_wf c"
    "\<And>k. authority_row c k = authority_row b k \<or> (\<exists>d e. authority_row c k = Some (tx_commit tx, d, e)) \<and>
        (\<exists>l \<in> set (a_log c). log_entity l = Some k \<and> lg_ts l = tx_commit tx)"
    "a_log c = a_log b @ ls2"
    "\<And>l. l \<in> set ls2 \<Longrightarrow> lg_ts l = tx_commit tx \<and>
        (\<forall>m. a_meta b = Some m \<longrightarrow> lg_bucket l = bucket_of (me_bucket_width m) (tx_start tx)) \<and>
        (\<exists>k d e. log_entity l = Some k \<and> authority_row c k = Some (tx_commit tx, d, e))"
    unfolding logged_def by blast
  have row: "authority_row c k = authority_row a k \<or> (\<exists>d e. authority_row c k = Some (tx_commit tx, d, e)) \<and>
        (\<exists>l \<in> set (a_log c). log_entity l = Some k \<and> lg_ts l = tx_commit tx)" for k
    using ab(3) [of k] bc(3) [of k] bc(4) by auto
  have "\<exists>k d e. log_entity l = Some k \<and> authority_row c k = Some (tx_commit tx, d, e)" if l: "l \<in> set (ls1 @ ls2)" for l
  proof (cases "l \<in> set ls2")
    case True
    from bc(5) [OF this] show ?thesis by simp
  next
    case False
    with l have "l \<in> set ls1" by simp
    from ab(5) [OF this] obtain k d e where k: "log_entity l = Some k" "authority_row b k = Some (tx_commit tx, d, e)" by blast
    with bc(3) [of k] show ?thesis by (elim disjE) auto
  qed
  then have "a_log c = a_log a @ (ls1 @ ls2) \<and> (\<forall>l \<in> set (ls1 @ ls2). lg_ts l = tx_commit tx \<and>
        (\<forall>m. a_meta a = Some m \<longrightarrow> lg_bucket l = bucket_of (me_bucket_width m) (tx_start tx)) \<and>
        (\<exists>k d e. log_entity l = Some k \<and> authority_row c k = Some (tx_commit tx, d, e)))"
    using ab bc by auto
  then have "\<exists>ls. a_log c = a_log a @ ls \<and> (\<forall>l \<in> set ls. lg_ts l = tx_commit tx \<and>
        (\<forall>m. a_meta a = Some m \<longrightarrow> lg_bucket l = bucket_of (me_bucket_width m) (tx_start tx)) \<and>
        (\<exists>k d e. log_entity l = Some k \<and> authority_row c k = Some (tx_commit tx, d, e)))" by (rule exI)
  moreover have "a_meta c = a_meta a" "authority_wf a \<longrightarrow> authority_wf c" using ab(1,2) bc(1,2) by simp_all
  ultimately show ?thesis using row unfolding logged_def by (intro conjI allI) assumption+
qed

lemma log_entity_names:
  "log_entity \<lparr>lg_bucket = b, lg_id = i, lg_ts = t, lg_entity = ''principal'', lg_realm = realm, lg_key = key, lg_op = op\<rparr> =
     Some (E_Principal realm key)"
  "log_entity \<lparr>lg_bucket = b, lg_id = i, lg_ts = t, lg_entity = ''policy'', lg_realm = realm, lg_key = key, lg_op = op\<rparr> =
     Some (E_Policy key)"
  "log_entity \<lparr>lg_bucket = b, lg_id = i, lg_ts = t, lg_entity = ''lockout'', lg_realm = realm, lg_key = key, lg_op = op\<rparr> =
     Some (E_Lockout realm key)"
  by (simp_all add: log_entity_def)

text \<open>The pattern of every operation: write the row of one entity, then log it.\<close>

lemma logged_put:
  assumes m: "a_meta a = Some m"
    and ent: "\<And>b i t op. log_entity \<lparr>lg_bucket = b, lg_id = i, lg_ts = t, lg_entity = ent, lg_realm = realm, lg_key = key,
       lg_op = op\<rparr> = Some k"
    and b: "a_meta b = a_meta a" "a_log b = a_log a" "authority_wf a \<Longrightarrow> authority_wf b"
    and k: "authority_row b k = Some (tx_commit tx, d, c)" and other: "\<And>k'. k' \<noteq> k \<Longrightarrow> authority_row b k' = authority_row a k'"
  shows "logged tx a (log_change tx ent realm key op b)"
proof -
  let ?b = "log_change tx ent realm key op b"
  have row: "authority_row ?b k' = authority_row b k'" for k' using m b(1) by (simp add: log_change_def)
  obtain l where l: "a_log ?b = a_log a @ [l]" "lg_ts l = tx_commit tx" "log_entity l = Some k"
    "lg_bucket l = bucket_of (me_bucket_width m) (tx_start tx)"
    using m b ent by (simp add: log_change_def)
  have "authority_row ?b k' = authority_row a k' \<or> (\<exists>d c. authority_row ?b k' = Some (tx_commit tx, d, c)) \<and>
      (\<exists>l \<in> set (a_log ?b). log_entity l = Some k' \<and> lg_ts l = tx_commit tx)" for k'
    using row [of k'] other [of k'] k l by (cases "k' = k") auto
  moreover have "authority_wf a \<longrightarrow> authority_wf ?b" "a_meta ?b = a_meta a" using m b by (simp_all add: log_change_def)
  ultimately show ?thesis using l m k row unfolding logged_def by auto
qed

lemma canonical_encode: "encode_principal_key n = Inr k \<Longrightarrow> canonical_key k"
proof -
  assume k: "encode_principal_key n = Inr k"
  show ?thesis
  proof (cases "name_string n = []")
    case True
    with k have "k = []" by (simp add: encode_principal_key_def)
    then show ?thesis by (simp add: canonical_key_def)
  next
    case False
    from encode_principal_key_parts [OF k False] k show ?thesis
      by (simp add: canonical_key_def encode_principal_key_def)
  qed
qed

lemma filter_key_ne: "k' \<noteq> k \<Longrightarrow> filter (\<lambda>r. ak_principal r \<noteq> k \<and> ak_principal r = k') rs = filter (\<lambda>r. ak_principal r = k') rs"
  by (rule filter_cong) auto

lemma delete_keys_of: "k' \<noteq> k \<Longrightarrow> authority_keys_of k' (delete_authority_keys k a) = authority_keys_of k' a"
  by (simp add: authority_keys_of_def delete_authority_keys_def filter_key_ne)

lemma insert_keys_Inr:
  "insert_authority_keys k sks a = Inr b \<Longrightarrow>
     (\<exists>ks. b = a\<lparr>a_keys := ks\<rparr>) \<and> (k' \<noteq> k \<longrightarrow> authority_keys_of k' b = authority_keys_of k' a)"
proof (induction sks arbitrary: a)
  case Nil
  then have "b = a\<lparr>a_keys := a_keys a\<rparr>" by simp
  then have "\<exists>ks. b = a\<lparr>a_keys := ks\<rparr>" by (rule exI)
  with Nil show ?case by simp
next
  case (Cons sk sks)
  let ?a = "a\<lparr>a_keys := a_keys a @ [authority_key k sk]\<rparr>"
  from Cons.prems have "insert_authority_keys k sks ?a = Inr b" by (simp split: if_splits)
  from Cons.IH [OF this] show ?case by (auto simp: authority_keys_of_def authority_key_def)
qed

text \<open>Writing the row and the keys of one principal.\<close>

lemma principal_rows_put:
  assumes get: "\<And>k'. mt_get k' rows = (if k' = (realm, key) then Some r else mt_get k' (a_principals a))"
    and r: "m_ts r = t" and ks: "insert_authority_keys (realm, key) sks b = Inr b'"
    and b: "a_principals b = rows" "a_policies b = a_policies a" "a_lockouts b = a_lockouts a"
      "\<And>k'. k' \<noteq> (realm, key) \<Longrightarrow> authority_keys_of k' b = authority_keys_of k' a"
  shows "\<exists>c. authority_row b' (E_Principal realm key) = Some (t, m_deleted r, c)"
    and "k \<noteq> E_Principal realm key \<Longrightarrow> authority_row b' k = authority_row a k"
proof -
  from insert_keys_Inr [OF ks] obtain kr where b': "b' = b\<lparr>a_keys := kr\<rparr>" by blast
  show "\<exists>c. authority_row b' (E_Principal realm key) = Some (t, m_deleted r, c)"
    using b' b(1) get [of "(realm, key)"] r by simp
  show "authority_row b' k = authority_row a k" if "k \<noteq> E_Principal realm key"
    using that b' b get insert_keys_Inr [OF ks] by (cases k) (auto split: if_splits)
qed

lemma write_principal_logged:
  assumes m: "a_meta a = Some m" and w: "authority_write_principal tx sp create a = Inr b"
    and k: "encode_principal_key (sp_name sp) = Inr key"
    and new: "create \<Longrightarrow> named sp" "\<not> create \<Longrightarrow> mt_get (sp_realm sp, key) (a_principals a) \<noteq> None"
  shows "logged tx a b"
proof -
  let ?k = "(sp_realm sp, key)"
  from w k obtain cols a1 a2 where cols: "authority_fields sp = Inr cols"
    and a1: "(if create then rbind (mt_insert tx ?k cols (a_principals a)) (\<lambda>rows. Inr (a\<lparr>a_principals := rows\<rparr>))
       else Inr (delete_authority_keys ?k (a\<lparr>a_principals := mt_update tx ?k cols (a_principals a)\<rparr>))) = Inr a1"
    and a2: "insert_authority_keys ?k (sp_keys sp) a1 = Inr a2"
    and b: "b = log_change tx ''principal'' (sp_realm sp) key ''upsert'' a2"
    by (auto simp: authority_write_principal_def Let_def)
  from insert_keys_Inr [OF a2] obtain kr where kr: "a2 = a1\<lparr>a_keys := kr\<rparr>" by blast
  obtain r where r: "m_ts r = tx_commit tx" "m_key r = ?k"
    and get: "\<And>k'. mt_get k' (a_principals a1) = (if k' = ?k then Some r else mt_get k' (a_principals a))"
    and keys: "set (map m_key (a_principals a1)) = insert ?k (set (map m_key (a_principals a)))"
      "distinct (map m_key (a_principals a)) \<Longrightarrow> distinct (map m_key (a_principals a1))"
    and rest: "a_policies a1 = a_policies a" "a_lockouts a1 = a_lockouts a" "a_log a1 = a_log a" "a_meta a1 = a_meta a"
      "\<And>k'. k' \<noteq> ?k \<Longrightarrow> authority_keys_of k' a1 = authority_keys_of k' a"
  proof (cases create)
    case True
    with a1 obtain rows where rows: "mt_insert tx ?k cols (a_principals a) = Inr rows" "a1 = a\<lparr>a_principals := rows\<rparr>" by auto
    show thesis
    proof (rule mt_insert_InrE [OF rows(1)])
      assume ins: "\<And>k'. mt_get k' rows = (if k' = ?k then Some \<lparr>m_key = ?k, m_cols = cols, m_ts = tx_commit tx, m_deleted = False\<rparr>
          else mt_get k' (a_principals a))"
        "map m_key rows = map m_key (a_principals a) @ [?k]" "?k \<notin> set (map m_key (a_principals a))"
      show thesis
        by (rule that [of "\<lparr>m_key = ?k, m_cols = cols, m_ts = tx_commit tx, m_deleted = False\<rparr>"])
          (use ins rows(2) in \<open>simp_all del: set_map\<close>)
    qed
  next
    case False
    with new(2) obtain r0 where r0: "mt_get ?k (a_principals a) = Some r0" by auto
    from a1 False have a1': "a1 = delete_authority_keys ?k (a\<lparr>a_principals := mt_update tx ?k cols (a_principals a)\<rparr>)" by simp
    from mt_get_SomeD [OF r0] have "insert ?k (set (map m_key (a_principals a))) = set (map m_key (a_principals a))"
      by (metis image_eqI insert_absorb list.set_map)
    with r0 a1' mt_get_SomeD [OF r0] show thesis
      by (intro that [of "r0\<lparr>m_cols := cols, m_ts := tx_commit tx, m_deleted := False\<rparr>"])
        (simp_all add: mt_update_get delete_keys_of del: set_map, simp_all add: delete_authority_keys_def mt_update_get del: set_map)
  qed
  have wf: "authority_wf a2" if "authority_wf a"
  proof -
    have "canonical_key key" by (rule canonical_encode [OF k])
    moreover have "?k \<noteq> ([], [])"
      using new that k by (cases create) (auto simp: named_def authority_wf_def list_all_iff mt_get_None_iff)
    ultimately show ?thesis using that keys rest kr by (auto simp: authority_wf_def list_all_iff simp flip: set_map)
  qed
  from principal_rows_put(1) [OF get r(1) a2 refl rest(1,2,5)]
  obtain c where c: "authority_row a2 (E_Principal (sp_realm sp) key) = Some (tx_commit tx, m_deleted r, c)" by blast
  show ?thesis unfolding b
    by (rule logged_put [OF m log_entity_names(1) _ _ _ c principal_rows_put(2) [OF get r(1) a2 refl rest(1,2,5)]])
      (use kr rest wf in simp_all)
qed

lemma write_principal_key:
  assumes "authority_write_principal tx sp create a = Inr b"
  obtains key where "encode_principal_key (sp_name sp) = Inr key"
  using assms by (auto simp: authority_write_principal_def)

lemma insert_principal_logged:
  assumes m: "a_meta a = Some m" and w: "authority_insert_principal tx sp a = Inr b" and "named sp"
  shows "logged tx a b"
proof -
  from w obtain key where k: "encode_principal_key (sp_name sp) = Inr key"
    by (auto simp: authority_insert_principal_def)
  show ?thesis
  proof (cases "mt_select (sp_realm sp, key) (a_principals a)")
    case Nil
    with w k have "authority_write_principal tx sp True a = Inr b" by (simp add: authority_insert_principal_def)
    from write_principal_logged [OF m this k] \<open>named sp\<close> show ?thesis by simp
  next
    case (Cons r rs)
    with w k have "authority_write_principal tx sp False a = Inr b"
      by (simp add: authority_insert_principal_def split: if_splits)
    from write_principal_logged [OF m this k] mt_select_get(2) [OF Cons] show ?thesis by simp
  qed
qed

lemma write_new_logged:
  assumes "a_meta a = Some m" "write_new_principals tx sps a = Inr b" "list_all named sps"
  shows "logged tx a b"
  using assms
proof (induction sps arbitrary: a)
  case Nil
  then show ?case by (simp add: logged_refl)
next
  case (Cons sp sps)
  from Cons.prems obtain a1 where w: "authority_write_principal tx sp True a = Inr a1"
    and r: "write_new_principals tx sps a1 = Inr b" by auto
  from write_principal_key [OF w] obtain key where key: "encode_principal_key (sp_name sp) = Inr key" .
  have 1: "logged tx a a1" by (rule write_principal_logged [OF Cons.prems(1) w key]) (use Cons.prems in auto)
  then have "a_meta a1 = Some m" using Cons.prems(1) by (simp add: logged_def)
  from logged_trans [OF 1 Cons.IH [OF this r]] Cons.prems(3) show ?case by simp
qed

lemma mt_delete_wf:
  "authority_wf (a\<lparr>a_principals := snd (mt_delete tx k f (a_principals a))\<rparr>) = authority_wf a"
  "authority_wf (a\<lparr>a_policies := snd (mt_delete tx k' f' (a_policies a))\<rparr>) = authority_wf a"
  "authority_wf (a\<lparr>a_lockouts := snd (mt_delete tx k f'' (a_lockouts a))\<rparr>) = authority_wf a"
  by (simp_all add: authority_wf_def)

lemma mt_delete_none:
  "fst (mt_delete tx k f rows) = 0 \<Longrightarrow> snd (mt_delete tx k f rows) = rows"
  by (induction rows) (auto simp: mt_delete_def split: if_splits)

lemma mt_delete_some:
  assumes "fst (mt_delete tx k f rows) \<noteq> 0" "distinct (map m_key rows)"
  obtains r where "mt_get k (snd (mt_delete tx k f rows)) = Some r" "m_ts r = tx_commit tx" "m_deleted r"
  using assms mt_delete_count [OF assms(2), of tx k f] by (auto simp: mt_delete_get split: option.splits)

lemma lift_lockout_logged:
  assumes m: "a_meta a = Some m" and wf: "authority_wf a"
  shows "logged tx a (lift_lockout tx realm key a)"
proof (cases "fst (mt_delete tx (realm, key) id (a_lockouts a)) = 0")
  case True
  from mt_delete_none [OF this] True have "lift_lockout tx realm key a = a"
    by (auto simp: lift_lockout_def Let_def split: prod.splits)
  then show ?thesis by (simp add: logged_refl)
next
  case False
  let ?b = "a\<lparr>a_lockouts := snd (mt_delete tx (realm, key) id (a_lockouts a))\<rparr>"
  have "distinct (map m_key (a_lockouts a))" using wf by (simp add: authority_wf_def)
  from mt_delete_some [OF False this] obtain r
    where r: "mt_get (realm, key) (a_lockouts ?b) = Some r" "m_ts r = tx_commit tx" by auto
  have eq: "lift_lockout tx realm key a = log_change tx ''lockout'' realm key ''delete'' ?b"
    using False by (auto simp: lift_lockout_def Let_def split: prod.splits)
  have row: "authority_row ?b (E_Lockout realm key) = Some (tx_commit tx, m_deleted r, AC_Lockout (m_cols r))" using r by simp
  show ?thesis unfolding eq
  proof (rule logged_put [OF m log_entity_names(3) _ _ _ row])
    show "authority_row ?b k' = authority_row a k'" if "k' \<noteq> E_Lockout realm key" for k'
      using that by (cases k') (auto simp: mt_delete_get)
  qed (simp_all add: mt_delete_wf)
qed

lemma update_principal_logged:
  assumes m: "a_meta a = Some m" and wf: "authority_wf a" and live: "live_principal a realm key"
    and sp: "sp_realm sp = realm" "encode_principal_key (sp_name sp) = Inr key"
    and u: "update_principal_write tx realm key sp unlocked a = Inr b"
  shows "logged tx a b"
proof -
  from u obtain a1 where w: "authority_write_principal tx sp False a = Inr a1"
    and b: "b = (if unlocked then (lift_lockout tx realm key a1)\<lparr>a_auth :=
         map (\<lambda>r. if is_auth_row realm key r then r\<lparr>ar_fail_count := 0\<rparr> else r) (a_auth (lift_lockout tx realm key a1))\<rparr> else a1)"
    by (auto simp: update_principal_write_def Let_def)
  have 1: "logged tx a a1"
    by (rule write_principal_logged [OF m w sp(2)]) (use live sp in \<open>auto simp: live_principal_def split: option.splits\<close>)
  then have "a_meta a1 = Some m" "authority_wf a1" using m wf by (simp_all add: logged_def)
  from lift_lockout_logged [OF this] have "logged tx a1 (lift_lockout tx realm key a1)" .
  then have "logged tx a1 b"
    using b by (auto simp: logged_refl intro: logged_trans [OF _ logged_same])
  with 1 show ?thesis by (rule logged_trans)
qed

text \<open>Marking a live principal deleted, with its keys, and logging it.\<close>

lemma drop_principal_logged:
  assumes m: "a_meta a = Some m" and wf: "authority_wf a"
    and live: "fst (mt_delete tx (realm, key) f (a_principals a)) \<noteq> 0"
    and b: "b = a\<lparr>a_principals := snd (mt_delete tx (realm, key) f (a_principals a)),
      a_keys := filter (\<lambda>r. ak_principal r \<noteq> (realm, key)) (a_keys a), a_auth := t\<rparr>"
  shows "logged tx a (log_change tx ''principal'' realm key op b)"
proof -
  have "distinct (map m_key (a_principals a))" using wf by (simp add: authority_wf_def)
  from mt_delete_some [OF live this] obtain r
    where r: "mt_get (realm, key) (a_principals b) = Some r" "m_ts r = tx_commit tx"
    by (auto simp: b)
  then have row: "authority_row b (E_Principal realm key) =
      Some (tx_commit tx, m_deleted r, AC_Principal (m_cols r) (authority_keys_of (realm, key) b))" by simp
  show ?thesis
  proof (rule logged_put [OF m log_entity_names(1) _ _ _ row])
    show "authority_row b k' = authority_row a k'" if "k' \<noteq> E_Principal realm key" for k'
    proof (cases k')
      case (E_Principal x1 x2)
      with that have "authority_keys_of (x1, x2) b = authority_keys_of (x1, x2) a"
        by (simp add: b authority_keys_of_def filter_key_ne)
      with that E_Principal show ?thesis by (auto simp: b mt_delete_get)
    qed (simp_all add: b)
  qed (simp_all add: b mt_delete_wf)
qed

lemma delete_principal_logged:
  assumes m: "a_meta a = Some m" and wf: "authority_wf a" and d: "authority_delete_principal tx name realm a = Inr (gone, b)"
  shows "logged tx a b"
proof -
  from d obtain key where key: "encode_principal_key name = Inr key" by (auto simp: authority_delete_principal_def)
  let ?f = "ap_mod_time_update (\<lambda>_. Some (epoch_int8 (tx_start tx)))"
  show ?thesis
  proof (cases "fst (mt_delete tx (realm, key) ?f (a_principals a)) = 0")
    case True
    with d key show ?thesis by (auto simp: authority_delete_principal_def logged_refl split: prod.splits)
  next
    case False
    let ?b = "log_change tx ''principal'' realm key ''delete'' (a\<lparr>a_principals := snd (mt_delete tx (realm, key) ?f (a_principals a)),
      a_keys := filter (\<lambda>r. ak_principal r \<noteq> (realm, key)) (a_keys a),
      a_auth := filter (\<lambda>r. \<not> is_auth_row realm key r) (a_auth a)\<rparr>)"
    have 1: "logged tx a ?b" by (rule drop_principal_logged [OF m wf False refl])
    then have "a_meta ?b = Some m" "authority_wf ?b" using m wf by (simp_all add: logged_def)
    note 2 = logged_trans [OF 1 lift_lockout_logged [OF this]]
    obtain n rows where "mt_delete tx (realm, key) ?f (a_principals a) = (n, rows)" by (metis surj_pair)
    with d key False have "b = lift_lockout tx realm key ?b"
      by (auto simp: authority_delete_principal_def Let_def delete_auth_state_def delete_authority_keys_def)
    with 2 show ?thesis by simp
  qed
qed

lemma write_principal_other:
  assumes w: "authority_write_principal tx sp create a = Inr b" and k: "encode_principal_key (sp_name sp) = Inr key"
    and ne: "(realm, name) \<noteq> (sp_realm sp, key)"
  shows "authority_row b (E_Principal realm name) = authority_row a (E_Principal realm name)"
proof -
  let ?k = "(sp_realm sp, key)"
  from w k obtain cols a1 a2 where cols: "authority_fields sp = Inr cols"
    and a1: "(if create then rbind (mt_insert tx ?k cols (a_principals a)) (\<lambda>rows. Inr (a\<lparr>a_principals := rows\<rparr>))
       else Inr (delete_authority_keys ?k (a\<lparr>a_principals := mt_update tx ?k cols (a_principals a)\<rparr>))) = Inr a1"
    and a2: "insert_authority_keys ?k (sp_keys sp) a1 = Inr a2"
    and b: "b = log_change tx ''principal'' (sp_realm sp) key ''upsert'' a2"
    by (auto simp: authority_write_principal_def Let_def)
  have "mt_get (realm, name) (a_principals a1) = mt_get (realm, name) (a_principals a)"
    using a1 ne by (auto simp: delete_authority_keys_def mt_update_get split: if_splits elim!: mt_insert_InrE)
  moreover have "authority_keys_of (realm, name) a1 = authority_keys_of (realm, name) a"
    using a1 ne by (auto simp: delete_keys_of split: if_splits)
  moreover from insert_keys_Inr [OF a2] obtain kr where "a2 = a1\<lparr>a_keys := kr\<rparr>" by blast
  moreover have "authority_keys_of (realm, name) a2 = authority_keys_of (realm, name) a1"
    using insert_keys_Inr [OF a2] ne by blast
  ultimately show ?thesis by (simp add: b log_change_def split: option.splits)
qed

lemma rename_logged:
  assumes m: "a_meta a = Some m" and wf: "authority_wf a" and live: "live_principal a realm key" and dest: "named dest"
    and r: "rename_write tx realm key dest st a = Inr b"
  shows "logged tx a b"
proof -
  let ?f = "ap_mod_time_update (\<lambda>_. Some (epoch_int8 (tx_start tx)))"
  from r obtain a1 where ins: "authority_insert_principal tx dest a = Inr a1"
    by (auto simp: rename_write_def Let_def)
  from ins obtain dk where dk: "encode_principal_key (sp_name dest) = Inr dk" by (auto simp: authority_insert_principal_def)
  obtain t where b: "b = log_change tx ''principal'' realm key ''delete''
      (a1\<lparr>a_principals := snd (mt_delete tx (realm, key) ?f (a_principals a1)),
        a_keys := filter (\<lambda>r. ak_principal r \<noteq> (realm, key)) (a_keys a1), a_auth := t\<rparr>)"
  proof (cases "st = default_AuthState")
    case True
    with r ins dk that [of "filter (\<lambda>r. \<not> is_auth_row realm key r) (a_auth a1)"] show thesis
      by (cases a1) (simp add: rename_write_def Let_def delete_auth_state_def delete_authority_keys_def)
  next
    case False
    with r ins dk that [of "a_auth (put_auth_state (sp_realm dest) dk st (delete_auth_state realm key a1))"] show thesis
      by (cases a1) (simp add: rename_write_def Let_def delete_auth_state_def put_auth_state_def delete_authority_keys_def)
  qed
  have 1: "logged tx a a1" by (rule insert_principal_logged [OF m ins dest])
  then have a1: "a_meta a1 = Some m" "authority_wf a1" using m wf by (simp_all add: logged_def)
  have ne: "(sp_realm dest, dk) \<noteq> (realm, key)"
    using ins dk live by (auto simp: authority_insert_principal_def live_principal_def mt_get_def split: list.splits if_splits)
  have same: "authority_row a1 (E_Principal realm key) = authority_row a (E_Principal realm key)"
  proof (cases "mt_select (sp_realm dest, dk) (a_principals a)")
    case Nil
    with ins dk have "authority_write_principal tx dest True a = Inr a1" by (simp add: authority_insert_principal_def)
    then show ?thesis by (rule write_principal_other [OF _ dk]) (use ne in auto)
  next
    case (Cons x xs)
    with ins dk have "authority_write_principal tx dest False a = Inr a1"
      by (simp add: authority_insert_principal_def split: if_splits)
    then show ?thesis by (rule write_principal_other [OF _ dk]) (use ne in auto)
  qed
  with live have "fst (mt_delete tx (realm, key) ?f (a_principals a1)) \<noteq> 0"
    using a1(2) by (subst mt_delete_count) (auto simp: authority_wf_def live_principal_def split: option.splits)
  from logged_trans [OF 1 drop_principal_logged [OF a1 this refl]] show ?thesis by (simp add: b)
qed

lemma write_policy_logged:
  assumes m: "a_meta a = Some m" and w: "authority_write_policy tx p create a = Inr b" and ne: "pol_name p \<noteq> []"
    and old: "\<not> create \<Longrightarrow> mt_get (pol_name p) (a_policies a) \<noteq> None"
  shows "logged tx a b"
proof -
  let ?k = "pol_name p"
  from w obtain cols a1 where
    a1: "(if create then rbind (mt_insert tx ?k cols (a_policies a)) (\<lambda>rows. Inr (a\<lparr>a_policies := rows\<rparr>))
          else Inr (a\<lparr>a_policies := mt_update tx ?k cols (a_policies a)\<rparr>)) = Inr a1"
    and b: "b = log_change tx ''policy'' [] ?k ''upsert'' a1"
    by (auto simp: authority_write_policy_def)
  obtain rows r where rows: "a1 = a\<lparr>a_policies := rows\<rparr>" "m_ts r = tx_commit tx"
    "\<And>k'. mt_get k' rows = (if k' = ?k then Some r else mt_get k' (a_policies a))"
    "authority_wf a \<Longrightarrow> distinct (map m_key rows)" "set (map m_key rows) \<subseteq> insert ?k (set (map m_key (a_policies a)))"
  proof (cases create)
    case True
    with a1 obtain rows where rows: "mt_insert tx ?k cols (a_policies a) = Inr rows" "a1 = a\<lparr>a_policies := rows\<rparr>" by auto
    show thesis
    proof (rule mt_insert_InrE [OF rows(1)])
      assume ins: "\<And>k'. mt_get k' rows = (if k' = ?k then Some \<lparr>m_key = ?k, m_cols = cols, m_ts = tx_commit tx, m_deleted = False\<rparr>
          else mt_get k' (a_policies a))"
        "map m_key rows = map m_key (a_policies a) @ [?k]" "?k \<notin> set (map m_key (a_policies a))"
      show thesis
        by (rule that [of rows "\<lparr>m_key = ?k, m_cols = cols, m_ts = tx_commit tx, m_deleted = False\<rparr>"])
          (use ins rows(2) in \<open>simp_all add: authority_wf_def del: set_map\<close>)
    qed
  next
    case False
    with old obtain r0 where "mt_get ?k (a_policies a) = Some r0" by auto
    with False a1 show thesis
      by (intro that [of "mt_update tx ?k cols (a_policies a)" "r0\<lparr>m_cols := cols, m_ts := tx_commit tx, m_deleted := False\<rparr>"])
        (auto simp: mt_update_get authority_wf_def simp del: set_map)
  qed
  have wf: "authority_wf a1" if "authority_wf a"
    using that rows(1,4,5) ne by (auto simp: authority_wf_def list_all_iff simp flip: set_map)
  have row: "authority_row a1 (E_Policy ?k) = Some (tx_commit tx, m_deleted r, AC_Policy (m_cols r))" using rows by simp
  show ?thesis unfolding b
  proof (rule logged_put [OF m log_entity_names(2) _ _ wf row])
    show "authority_row a1 k' = authority_row a k'" if "k' \<noteq> E_Policy ?k" for k'
      using that rows by (cases k') auto
  qed (simp_all add: rows(1))
qed

lemma create_policy_logged:
  assumes m: "a_meta a = Some m" and w: "authority_create_policy tx p a = Inr b" and ne: "pol_name p \<noteq> []"
  shows "logged tx a b"
proof (cases "mt_select (pol_name p) (a_policies a)")
  case Nil
  with w have "authority_write_policy tx p True a = Inr b" by (simp add: authority_create_policy_def)
  from write_policy_logged [OF m this ne] show ?thesis by simp
next
  case (Cons r rs)
  with w have "authority_write_policy tx p False a = Inr b" by (simp add: authority_create_policy_def split: if_splits)
  from write_policy_logged [OF m this ne] mt_select_get(2) [OF Cons] show ?thesis by simp
qed

lemma policy_from_row_name: "policy_from_row (n, c) = Inr p \<Longrightarrow> pol_name p = n"
  by (auto simp: policy_from_row_def Let_def)

lemma update_policy_logged:
  assumes m: "a_meta a = Some m" and wf: "authority_wf a" and f: "\<forall>p p'. f p = Inr p' \<longrightarrow> pol_name p' = pol_name p"
    and u: "authority_update_policy tx name f a = Inr (q, b)"
  shows "logged tx a b"
proof -
  from u obtain r rs p where r: "filter (\<lambda>r. \<not> m_deleted r) (mt_select name (a_policies a)) = r # rs"
    and p: "policy_from_row (m_key r, m_cols r) = Inr p" and q: "f p = Inr q" and w: "authority_write_policy tx q False a = Inr b"
    by (auto simp: authority_update_policy_def policy_of_def split: list.splits)
  from r have "r \<in> set (filter (\<lambda>r. \<not> m_deleted r) (mt_select name (a_policies a)))" by simp
  then have rr: "r \<in> set (a_policies a)" "m_key r = name" by (simp_all add: mt_select_def)
  with q f policy_from_row_name [OF p] have name: "pol_name q = name" by simp
  from rr wf have "name \<noteq> []" by (auto simp: authority_wf_def list_all_iff)
  moreover have "mt_get name (a_policies a) \<noteq> None" using rr by (auto simp: mt_get_None_iff)
  ultimately show ?thesis using write_policy_logged [OF m w] name by simp
qed

lemma delete_policy_logged:
  assumes m: "a_meta a = Some m" and wf: "authority_wf a"
  shows "logged tx a (snd (authority_delete_policy tx name a))"
proof (cases "fst (mt_delete tx name id (a_policies a)) = 0")
  case True
  then show ?thesis by (auto simp: authority_delete_policy_def logged_refl split: prod.splits)
next
  case False
  let ?b = "a\<lparr>a_policies := snd (mt_delete tx name id (a_policies a))\<rparr>"
  have "distinct (map m_key (a_policies a))" using wf by (simp add: authority_wf_def)
  from mt_delete_some [OF False this] obtain r where r: "mt_get name (a_policies ?b) = Some r" "m_ts r = tx_commit tx" by auto
  have row: "authority_row ?b (E_Policy name) = Some (tx_commit tx, m_deleted r, AC_Policy (m_cols r))" using r by simp
  have eq: "snd (authority_delete_policy tx name a) = log_change tx ''policy'' [] name ''delete'' ?b"
    using False by (auto simp: authority_delete_policy_def split: prod.splits)
  show ?thesis unfolding eq
  proof (rule logged_put [OF m log_entity_names(2) _ _ _ row])
    show "authority_row ?b k' = authority_row a k'" if "k' \<noteq> E_Policy name" for k'
      using that by (cases k') (auto simp: mt_delete_get)
  qed (simp_all add: mt_delete_wf)
qed

lemma put_lockout_get:
  "\<exists>r. m_ts r = tx_commit tx \<and> (\<forall>k'. mt_get k' (put_lockout tx k cols rows) = (if k' = k then Some r else mt_get k' rows))"
proof (cases "mt_get k rows")
  case None
  then have "k \<notin> set (map m_key rows)" by (simp add: mt_get_None_iff)
  with None show ?thesis
    by (intro exI [of _ "\<lparr>m_key = k, m_cols = cols, m_ts = tx_commit tx, m_deleted = False\<rparr>"])
      (simp add: put_lockout_def mt_get_append split: option.splits)
next
  case (Some r0)
  then have "k \<in> set (map m_key rows)" by (metis mt_get_None_iff option.distinct(1))
  then have "mt_get k' (put_lockout tx k cols rows) = (if k' = k then
      Some (r0\<lparr>m_cols := cols\<lparr>lc_name_type := lc_name_type (m_cols r0)\<rparr>, m_ts := tx_commit tx, m_deleted := False\<rparr>)
      else mt_get k' rows)" for k'
    using Some by (cases "mt_get k' rows") (auto simp: put_lockout_def mt_get_map dest: mt_get_SomeD)
  then show ?thesis by (intro exI conjI allI) (auto)
qed

lemma report_lockout_logged:
  assumes m: "a_meta a = Some m" and r: "report_lockout tx rec a = Inr b"
    and ne: "lo_realm rec \<noteq> [] \<or> encode_principal_key (lo_name rec) \<noteq> Inr []"
  shows "logged tx a b"
proof -
  from r obtain key where key: "encode_principal_key (lo_name rec) = Inr key" by (auto simp: report_lockout_def)
  let ?k = "(lo_realm rec, key)"
  let ?b = "a\<lparr>a_lockouts := put_lockout tx ?k (lockout_fields rec) (a_lockouts a)\<rparr>"
  from r key have b: "b = log_change tx ''lockout'' (lo_realm rec) key ''upsert'' ?b" by (simp add: report_lockout_def)
  from put_lockout_get [of tx ?k "lockout_fields rec" "a_lockouts a"] obtain r0 where r0: "m_ts r0 = tx_commit tx"
    "\<And>k'. mt_get k' (a_lockouts ?b) = (if k' = ?k then Some r0 else mt_get k' (a_lockouts a))" by auto
  have row: "authority_row ?b (E_Lockout (lo_realm rec) key) = Some (tx_commit tx, m_deleted r0, AC_Lockout (m_cols r0))"
    using r0 by simp
  have keys: "map m_key (put_lockout tx ?k cols rows) = (if ?k \<in> set (map m_key rows) then map m_key rows else map m_key rows @ [?k])"
    for cols rows by (auto simp: put_lockout_def)
  have wf: "authority_wf ?b" if "authority_wf a"
    using that keys [of "lockout_fields rec" "a_lockouts a"] canonical_encode [OF key] ne key
    by (auto simp: authority_wf_def)
  show ?thesis unfolding b
  proof (rule logged_put [OF m log_entity_names(3) _ _ wf row])
    show "authority_row ?b k' = authority_row a k'" if "k' \<noteq> E_Lockout (lo_realm rec) key" for k'
    proof (cases k')
      case (E_Lockout x1 x2)
      with that r0(2) [of "(x1, x2)"] show ?thesis by auto
    qed simp_all
  qed simp_all
qed

lemma auth_apply_logged: "authority_auth_apply name realm u a = Inr (s, b) \<Longrightarrow> logged tx a b"
  by (rule logged_same) (auto simp: authority_auth_apply_def Let_def put_auth_state_def split: if_splits)

text \<open>Every operation but pruning logs what it changes.\<close>

lemma exec_logged:
  assumes "a_meta a = Some m" "authority_wf a" "op_ok a op" "exec tx op a = Inr b" "\<And>n. op \<noteq> Op_Prune n"
  shows "logged tx a b"
proof (cases op)
  case (Op_Create_Realm realm enctype stored)
  let ?a = "a\<lparr>a_realms := a_realms a @ [(realm, enctype)]\<rparr>"
  have "logged tx a ?a" by (rule logged_same) simp_all
  moreover have "logged tx ?a b"
    by (rule write_new_logged [of _ m]) (use assms Op_Create_Realm in \<open>auto simp: create_realm_write_def split: if_splits\<close>)
  ultimately show ?thesis by (rule logged_trans)
qed (use assms in \<open>auto intro: insert_principal_logged update_principal_logged delete_principal_logged rename_logged
    create_policy_logged update_policy_logged delete_policy_logged report_lockout_logged auth_apply_logged\<close>)

end
