(* ===== verification/Authority_Mvcc.thy ===== *)
theory Authority_Mvcc
  imports Authority_History
begin

text \<open>
  The invariants of the authoritative database over its history, and how the states at two timestamps
  are related.
\<close>

section \<open>The state invariant\<close>

definition pruned_mark :: "Authority \<Rightarrow> ReplicationTs" where
  "pruned_mark a = (case a_meta a of None \<Rightarrow> ts_ZERO | Some m \<Rightarrow> me_pruned_before m)"

definition bucket_in :: "Meta \<Rightarrow> LogRow \<Rightarrow> bool" where
  "bucket_in m l \<longleftrightarrow>
     bucket_of (me_bucket_width m) (sat_sub_i64 (wall_nanos (lg_ts l)) (overlap_ns (me_timeout_ms m))) \<le> lg_bucket l \<and>
     lg_bucket l \<le> bucket_of (me_bucket_width m) (wall_nanos (lg_ts l))"

text \<open>
  Every row newer than the pruning mark has its log row; every log row newer than it has its entity's row, at
  least as new.
\<close>

definition state_ok :: "Meta \<Rightarrow> ReplicationTs \<Rightarrow> Authority \<Rightarrow> bool" where
  "state_ok m t a \<longleftrightarrow> authority_wf a \<and> (\<exists>p. a_meta a = Some (m\<lparr>me_pruned_before := p\<rparr>)) \<and>
     (\<forall>k v d c. authority_row a k = Some (v, d, c) \<longrightarrow> v \<le> t) \<and>
     (\<forall>l \<in> set (a_log a). lg_ts l \<le> t \<and> bucket_in m l) \<and>
     (\<forall>k v d c. authority_row a k = Some (v, d, c) \<and> pruned_mark a < v \<longrightarrow>
        (\<exists>l \<in> set (a_log a). log_entity l = Some k \<and> lg_ts l = v)) \<and>
     (\<forall>l \<in> set (a_log a). \<exists>k. log_entity l = Some k \<and>
        (pruned_mark a < lg_ts l \<longrightarrow> (\<exists>v d c. authority_row a k = Some (v, d, c) \<and> lg_ts l \<le> v)))"

lemma state_okD:
  assumes "state_ok m t a"
  shows "authority_wf a" and "\<exists>p. a_meta a = Some (m\<lparr>me_pruned_before := p\<rparr>)"
    and "authority_row a k = Some (v, d, c) \<Longrightarrow> v \<le> t"
    and "l \<in> set (a_log a) \<Longrightarrow> lg_ts l \<le> t" and "l \<in> set (a_log a) \<Longrightarrow> bucket_in m l"
    and "authority_row a k = Some (v, d, c) \<Longrightarrow> pruned_mark a < v \<Longrightarrow> \<exists>l \<in> set (a_log a). log_entity l = Some k \<and> lg_ts l = v"
    and "l \<in> set (a_log a) \<Longrightarrow> \<exists>k. log_entity l = Some k \<and>
        (pruned_mark a < lg_ts l \<longrightarrow> (\<exists>v d c. authority_row a k = Some (v, d, c) \<and> lg_ts l \<le> v))"
  using assms unfolding state_ok_def by blast+

lemma state_okI:
  assumes "authority_wf a" "\<exists>p. a_meta a = Some (m\<lparr>me_pruned_before := p\<rparr>)"
    and "\<And>k v d c. authority_row a k = Some (v, d, c) \<Longrightarrow> v \<le> t"
    and "\<And>l. l \<in> set (a_log a) \<Longrightarrow> lg_ts l \<le> t \<and> bucket_in m l"
    and "\<And>k v d c. authority_row a k = Some (v, d, c) \<Longrightarrow> pruned_mark a < v \<Longrightarrow>
      \<exists>l \<in> set (a_log a). log_entity l = Some k \<and> lg_ts l = v"
    and "\<And>l. l \<in> set (a_log a) \<Longrightarrow> \<exists>k. log_entity l = Some k \<and>
        (pruned_mark a < lg_ts l \<longrightarrow> (\<exists>v d c. authority_row a k = Some (v, d, c) \<and> lg_ts l \<le> v))"
  shows "state_ok m t a"
  using assms unfolding state_ok_def by blast

lemma state_ok_mono: "state_ok m t a \<Longrightarrow> t \<le> t' \<Longrightarrow> state_ok m t' a"
  unfolding state_ok_def by (meson order.trans)

lemma initial_row [simp]: "authority_row (initial_authority m) k = None"
  by (cases k) (simp_all add: initial_authority_def)

lemma initial_ok: "state_ok m t (initial_authority m)"
proof -
  have "m = m\<lparr>me_pruned_before := me_pruned_before m\<rparr>" by simp
  then have "\<exists>p. m = m\<lparr>me_pruned_before := p\<rparr>" by (rule exI)
  then show ?thesis by (simp add: state_ok_def) (simp add: initial_authority_def authority_wf_def)
qed

lemma wall_mono: "s \<le> t \<Longrightarrow> wall_nanos s \<le> wall_nanos t"
  by (cases s; cases t) (auto simp: less_eq_ReplicationTs_def)

lemma bucket_mono: "0 < w \<Longrightarrow> x \<le> y \<Longrightarrow> bucket_of w x \<le> bucket_of w y"
  by (simp add: bucket_of_def zdiv_mono1)

lemma sat_sub_mono: "x \<le> y \<Longrightarrow> sat_sub_i64 x z \<le> sat_sub_i64 y z"
  by (simp add: sat_sub_i64_def)

text \<open>The bucket of a timely transaction lies in the range a poll scans for its commit timestamp.\<close>

lemma timely_bucket:
  assumes "timely m H tx" "0 < me_bucket_width m" "lg_ts l = tx_commit tx"
    "lg_bucket l = bucket_of (me_bucket_width m) (tx_start tx)"
  shows "bucket_in m l"
proof -
  have "sat_sub_i64 (wall_nanos (tx_commit tx)) (overlap_ns (me_timeout_ms m)) \<le> tx_start tx"
    "tx_start tx \<le> wall_nanos (tx_commit tx)"
    using assms(1) by (auto simp: timely_def sat_sub_i64_def)
  with assms(2-4) show ?thesis by (auto simp: bucket_in_def intro: bucket_mono)
qed

lemma logged_ok:
  assumes ok: "state_ok m t a" and lg: "logged tx a b" and t: "t \<le> tx_commit tx" and tm: "timely m H tx"
    and w: "0 < me_bucket_width m"
  shows "state_ok m (tx_commit tx) b"
proof -
  from lg obtain ls where ls: "a_log b = a_log a @ ls" "\<And>l. l \<in> set ls \<Longrightarrow> lg_ts l = tx_commit tx \<and>
      (\<forall>m. a_meta a = Some m \<longrightarrow> lg_bucket l = bucket_of (me_bucket_width m) (tx_start tx)) \<and>
      (\<exists>k d c. log_entity l = Some k \<and> authority_row b k = Some (tx_commit tx, d, c))"
    unfolding logged_def by blast
  from state_okD(2) [OF ok] obtain p where p: "a_meta a = Some (m\<lparr>me_pruned_before := p\<rparr>)" by blast
  have meta: "a_meta b = a_meta a" and wf: "authority_wf b" using lg state_okD(1) [OF ok] by (simp_all add: logged_def)
  then have pm: "pruned_mark b = pruned_mark a" by (simp add: pruned_mark_def)
  have row: "authority_row b k = authority_row a k \<or> (\<exists>d c. authority_row b k = Some (tx_commit tx, d, c)) \<and>
      (\<exists>l \<in> set (a_log b). log_entity l = Some k \<and> lg_ts l = tx_commit tx)" for k
    using lg unfolding logged_def by blast
  have 1: "v \<le> tx_commit tx" if "authority_row b k = Some (v, d, c)" for k v d c
    using row [of k] that state_okD(3) [OF ok, of k v d c] t by auto
  have 2: "lg_ts l \<le> tx_commit tx \<and> bucket_in m l" if "l \<in> set (a_log b)" for l
  proof (cases "l \<in> set (a_log a)")
    case True
    with state_okD(4,5) [OF ok True] t show ?thesis by simp
  next
    case False
    with that ls(1) have "l \<in> set ls" by simp
    from ls(2) [OF this] p timely_bucket [OF tm w] show ?thesis by auto
  qed
  have 3: "\<exists>l \<in> set (a_log b). log_entity l = Some k \<and> lg_ts l = v"
    if "authority_row b k = Some (v, d, c)" "pruned_mark b < v" for k v d c
    using row [of k] that state_okD(6) [OF ok, of k v d c] ls(1) pm by auto
  have 4: "\<exists>k. log_entity l = Some k \<and> (pruned_mark b < lg_ts l \<longrightarrow> (\<exists>v d c. authority_row b k = Some (v, d, c) \<and> lg_ts l \<le> v))"
    if "l \<in> set (a_log b)" for l
  proof (cases "l \<in> set (a_log a)")
    case True
    from state_okD(7) [OF ok True] obtain k where k: "log_entity l = Some k"
      "pruned_mark a < lg_ts l \<longrightarrow> (\<exists>v d c. authority_row a k = Some (v, d, c) \<and> lg_ts l \<le> v)" by blast
    have "lg_ts l \<le> tx_commit tx" using 2 [OF that] by simp
    with k row [of k] pm show ?thesis by (intro exI [of _ k]) auto
  next
    case False
    with that ls(1) have "l \<in> set ls" by simp
    from ls(2) [OF this] show ?thesis by auto
  qed
  show ?thesis using wf _ 1 2 3 4 by (rule state_okI) (use meta p in auto)
qed

section \<open>Pruning\<close>

lemma mt_get_filter_rows:
  assumes "distinct (map m_key rows)"
  shows "mt_get k (filter P rows) = (case mt_get k rows of None \<Rightarrow> None | Some r \<Rightarrow> if P r then Some r else None)"
  using assms
proof (induction rows)
  case (Cons r rows)
  show ?case
  proof (cases "m_key r = k")
    case True
    with Cons.prems have "mt_get k rows = None" by (simp add: mt_get_None_iff)
    with Cons True show ?thesis by auto
  next
    case False
    with Cons show ?thesis by simp
  qed
qed simp

lemma prune_InrE:
  assumes ok: "state_ok m t a" and pr: "authority_prune tx nanos a = Inr (x, b)"
  obtains cutoff where "pruned_mark b = max (pruned_mark a) cutoff" "authority_wf b"
    "\<exists>p. a_meta b = Some (m\<lparr>me_pruned_before := p\<rparr>)"
    "a_log b = filter (\<lambda>l. \<not> lg_bucket l < fst (scan_buckets cutoff cutoff (me_timeout_ms m) (me_bucket_width m))) (a_log a)"
    "\<And>k. authority_row b k = (case authority_row a k of None \<Rightarrow> None
       | Some (v, d, c) \<Rightarrow> if d \<and> v < cutoff then None else Some (v, d, c))"
proof -
  from state_okD(2) [OF ok] obtain p where p: "a_meta a = Some (m\<lparr>me_pruned_before := p\<rparr>)" by blast
  define cutoff where "cutoff = ReplicationTs (sat_sub_i64 (tx_start tx) nanos) 0"
  from pr p have b: "b = a\<lparr>a_principals := drop_tombstones cutoff (a_principals a),
      a_policies := drop_tombstones cutoff (a_policies a), a_lockouts := drop_tombstones cutoff (a_lockouts a),
      a_log := filter (\<lambda>l. \<not> lg_bucket l < fst (scan_buckets cutoff cutoff (me_timeout_ms m) (me_bucket_width m))) (a_log a),
      a_meta := Some (m\<lparr>me_pruned_before := max p cutoff\<rparr>)\<rparr>"
    by (cases a) (auto simp: authority_prune_def Let_def cutoff_def split: if_splits)
  have wf: "authority_wf a" by (rule state_okD(1) [OF ok])
  have dist: "distinct (map m_key (a_principals a))" "distinct (map m_key (a_policies a))" "distinct (map m_key (a_lockouts a))"
    using wf by (simp_all add: authority_wf_def)
  show thesis
  proof (rule that [of cutoff])
    show "pruned_mark b = max (pruned_mark a) cutoff" using p by (simp add: b pruned_mark_def)
    show "authority_wf b" using wf by (auto simp: b authority_wf_def drop_tombstones_def list_all_iff distinct_map_filter)
    show "authority_row b k = (case authority_row a k of None \<Rightarrow> None
       | Some (v, d, c) \<Rightarrow> if d \<and> v < cutoff then None else Some (v, d, c))" for k
    proof (cases k)
      case (E_Principal x1 x2)
      have "authority_keys_of (x1, x2) b = authority_keys_of (x1, x2) a" by (simp add: b)
      then show ?thesis using E_Principal dist(1)
        by (auto simp: b drop_tombstones_def mt_get_filter_rows split: option.splits)
    qed (use dist in \<open>auto simp: b drop_tombstones_def mt_get_filter_rows split: option.splits\<close>)
  qed (auto simp: b)
qed

text \<open>A log row newer than the cutoff is in a bucket that pruning keeps.\<close>

lemma prune_keeps_bucket:
  assumes "bucket_in m l" "cutoff \<le> lg_ts l" "0 < me_bucket_width m"
  shows "\<not> lg_bucket l < fst (scan_buckets cutoff cutoff (me_timeout_ms m) (me_bucket_width m))"
proof -
  have "bucket_of (me_bucket_width m) (sat_sub_i64 (wall_nanos cutoff) (overlap_ns (me_timeout_ms m))) \<le>
      bucket_of (me_bucket_width m) (sat_sub_i64 (wall_nanos (lg_ts l)) (overlap_ns (me_timeout_ms m)))"
    using assms(2,3) by (intro bucket_mono sat_sub_mono wall_mono)
  with assms(1) show ?thesis by (simp add: bucket_in_def scan_buckets_def)
qed

lemma prune_ok:
  assumes ok: "state_ok m t a" and pr: "authority_prune tx nanos a = Inr (x, b)" and w: "0 < me_bucket_width m"
  shows "state_ok m t b"
proof -
  obtain cutoff where b: "pruned_mark b = max (pruned_mark a) cutoff" "authority_wf b"
    "\<exists>p. a_meta b = Some (m\<lparr>me_pruned_before := p\<rparr>)"
    "a_log b = filter (\<lambda>l. \<not> lg_bucket l < fst (scan_buckets cutoff cutoff (me_timeout_ms m) (me_bucket_width m))) (a_log a)"
    "\<And>k. authority_row b k = (case authority_row a k of None \<Rightarrow> None
       | Some (v, d, c) \<Rightarrow> if d \<and> v < cutoff then None else Some (v, d, c))" by (rule prune_InrE [OF ok pr]) (rule that)
  have rowD: "authority_row a k = Some (v, d, c)" if "authority_row b k = Some (v, d, c)" for k v d c
    using that b(5) [of k] by (auto split: option.splits if_splits)
  have 3: "\<exists>l \<in> set (a_log b). log_entity l = Some k \<and> lg_ts l = v"
    if r: "authority_row b k = Some (v, d, c)" "pruned_mark b < v" for k v d c
  proof -
    have "pruned_mark a < v" "cutoff < v" using r(2) b(1) by simp_all
    from state_okD(6) [OF ok rowD [OF r(1)] this(1)] obtain l where l: "l \<in> set (a_log a)" "log_entity l = Some k" "lg_ts l = v"
      by blast
    have "l \<in> set (a_log b)"
      using l prune_keeps_bucket [OF state_okD(5) [OF ok l(1)] _ w, of cutoff] \<open>cutoff < v\<close> b(4) by simp
    with l show ?thesis by blast
  qed
  have 4: "\<exists>k. log_entity l = Some k \<and> (pruned_mark b < lg_ts l \<longrightarrow> (\<exists>v d c. authority_row b k = Some (v, d, c) \<and> lg_ts l \<le> v))"
    if "l \<in> set (a_log b)" for l
  proof -
    from that b(4) have "l \<in> set (a_log a)" by simp
    from state_okD(7) [OF ok this] obtain k where k: "log_entity l = Some k"
      "pruned_mark a < lg_ts l \<longrightarrow> (\<exists>v d c. authority_row a k = Some (v, d, c) \<and> lg_ts l \<le> v)" by blast
    have "\<exists>v d c. authority_row b k = Some (v, d, c) \<and> lg_ts l \<le> v" if "pruned_mark b < lg_ts l"
    proof -
      from that b(1) k(2) obtain v d c where v: "authority_row a k = Some (v, d, c)" "lg_ts l \<le> v" "cutoff < lg_ts l" by auto
      then have "\<not> v < cutoff" by auto
      with v b(5) [of k] show ?thesis by simp
    qed
    with k(1) show ?thesis by blast
  qed
  have 1: "v \<le> t" if "authority_row b k = Some (v, d, c)" for k v d c by (rule state_okD(3) [OF ok rowD [OF that]])
  have 2: "lg_ts l \<le> t \<and> bucket_in m l" if "l \<in> set (a_log b)" for l
    using that b(4) state_okD(4,5) [OF ok] by simp
  show ?thesis using b(2,3) 1 2 3 4 by (rule state_okI)
qed

section \<open>Two timestamps\<close>

text \<open>
  From the state \<open>a\<close> as of \<open>t\<close> to a later state \<open>b\<close>: what is not newer than \<open>t\<close> is unchanged, a live entity
  leaves no gap unless the pruning mark has passed \<open>t\<close>, and the log keeps its rows above that mark.
\<close>

definition evolves :: "ReplicationTs \<Rightarrow> Authority \<Rightarrow> Authority \<Rightarrow> bool" where
  "evolves t a b \<longleftrightarrow> pruned_mark a \<le> pruned_mark b \<and>
     (\<forall>k v d c. authority_row b k = Some (v, d, c) \<and> v \<le> t \<longrightarrow> authority_row a k = Some (v, d, c)) \<and>
     (\<forall>k v c. authority_row a k = Some (v, False, c) \<longrightarrow> authority_row b k \<noteq> None \<or> t < pruned_mark b) \<and>
     (\<forall>l \<in> set (a_log b). lg_ts l \<le> t \<longrightarrow> l \<in> set (a_log a)) \<and>
     (\<forall>l \<in> set (a_log a). pruned_mark b < lg_ts l \<longrightarrow> l \<in> set (a_log b))"

lemma evolvesD:
  assumes "evolves t a b"
  shows "pruned_mark a \<le> pruned_mark b"
    and "authority_row b k = Some (v, d, c) \<Longrightarrow> v \<le> t \<Longrightarrow> authority_row a k = Some (v, d, c)"
    and "authority_row a k = Some (v, False, c) \<Longrightarrow> pruned_mark b \<le> t \<Longrightarrow> authority_row b k \<noteq> None"
    and "l \<in> set (a_log b) \<Longrightarrow> lg_ts l \<le> t \<Longrightarrow> l \<in> set (a_log a)"
    and "l \<in> set (a_log a) \<Longrightarrow> pruned_mark b < lg_ts l \<Longrightarrow> l \<in> set (a_log b)"
  using assms unfolding evolves_def by (blast | meson leD)+

lemma evolvesI:
  assumes "pruned_mark a \<le> pruned_mark b"
    and "\<And>k v d c. authority_row b k = Some (v, d, c) \<Longrightarrow> v \<le> t \<Longrightarrow> authority_row a k = Some (v, d, c)"
    and "\<And>k v c. authority_row a k = Some (v, False, c) \<Longrightarrow> pruned_mark b \<le> t \<Longrightarrow> authority_row b k \<noteq> None"
    and "\<And>l. l \<in> set (a_log b) \<Longrightarrow> lg_ts l \<le> t \<Longrightarrow> l \<in> set (a_log a)"
    and "\<And>l. l \<in> set (a_log a) \<Longrightarrow> pruned_mark b < lg_ts l \<Longrightarrow> l \<in> set (a_log b)"
  shows "evolves t a b"
  using assms unfolding evolves_def by (meson leI)

lemma evolves_refl: "evolves t a a"
  by (rule evolvesI) auto

lemma evolves_logged:
  assumes ev: "evolves t a b" and lg: "logged tx b c" and t: "t < tx_commit tx"
  shows "evolves t a c"
proof -
  from lg obtain ls where ls: "a_log c = a_log b @ ls" "\<And>l. l \<in> set ls \<Longrightarrow> lg_ts l = tx_commit tx"
    unfolding logged_def by blast
  have row: "authority_row c k = authority_row b k \<or> (\<exists>d e. authority_row c k = Some (tx_commit tx, d, e))" for k
    using lg unfolding logged_def by blast
  have pm: "pruned_mark c = pruned_mark b" using lg by (simp add: logged_def pruned_mark_def)
  show ?thesis
  proof (rule evolvesI)
    show "pruned_mark a \<le> pruned_mark c" using evolvesD(1) [OF ev] pm by simp
    show "authority_row a k = Some (v, d, e)" if "authority_row c k = Some (v, d, e)" "v \<le> t" for k v d e
      using row [of k] that evolvesD(2) [OF ev, of k v d e] t by auto
    show "authority_row c k \<noteq> None" if "authority_row a k = Some (v, False, e)" "pruned_mark c \<le> t" for k v e
      using row [of k] that evolvesD(3) [OF ev, of k v e] pm by auto
    show "l \<in> set (a_log a)" if "l \<in> set (a_log c)" "lg_ts l \<le> t" for l
      using that ls t evolvesD(4) [OF ev, of l] by fastforce
    show "l \<in> set (a_log c)" if "l \<in> set (a_log a)" "pruned_mark c < lg_ts l" for l
      using that ls pm evolvesD(5) [OF ev, of l] by simp
  qed
qed

lemma evolves_prune:
  assumes ev: "evolves t a b" and ok: "state_ok m u b" and pr: "authority_prune tx nanos b = Inr (x, c)"
    and w: "0 < me_bucket_width m"
  shows "evolves t a c"
proof -
  obtain cutoff where c: "pruned_mark c = max (pruned_mark b) cutoff" "authority_wf c"
    "\<exists>p. a_meta c = Some (m\<lparr>me_pruned_before := p\<rparr>)"
    "a_log c = filter (\<lambda>l. \<not> lg_bucket l < fst (scan_buckets cutoff cutoff (me_timeout_ms m) (me_bucket_width m))) (a_log b)"
    "\<And>k. authority_row c k = (case authority_row b k of None \<Rightarrow> None
       | Some (v, d, c) \<Rightarrow> if d \<and> v < cutoff then None else Some (v, d, c))" by (rule prune_InrE [OF ok pr]) (rule that)
  have pm: "pruned_mark b \<le> pruned_mark c" "cutoff \<le> pruned_mark c" using c(1) by simp_all
  show ?thesis
  proof (rule evolvesI)
    show "pruned_mark a \<le> pruned_mark c" using evolvesD(1) [OF ev] pm by simp
    show "authority_row a k = Some (v, d, e)" if "authority_row c k = Some (v, d, e)" "v \<le> t" for k v d e
      using that c(5) [of k] evolvesD(2) [OF ev, of k v d e] by (auto split: option.splits if_splits)
    show "authority_row c k \<noteq> None" if live: "authority_row a k = Some (v, False, e)" and le: "pruned_mark c \<le> t" for k v e
    proof -
      from evolvesD(3) [OF ev live] pm le obtain v' d' e' where b: "authority_row b k = Some (v', d', e')" by fastforce
      have "\<not> (d' \<and> v' < cutoff)"
      proof
        assume dv: "d' \<and> v' < cutoff"
        with pm(2) le have "v' \<le> t" by (meson less_imp_le order.trans)
        from evolvesD(2) [OF ev b this] live dv show False by simp
      qed
      with b c(5) [of k] show ?thesis by simp
    qed
    show "l \<in> set (a_log a)" if "l \<in> set (a_log c)" "lg_ts l \<le> t" for l
      using that c(4) evolvesD(4) [OF ev, of l] by simp
    show "l \<in> set (a_log c)" if l: "l \<in> set (a_log a)" "pruned_mark c < lg_ts l" for l
    proof -
      have lb: "l \<in> set (a_log b)" using evolvesD(5) [OF ev l(1)] l(2) pm by simp
      moreover have "cutoff \<le> lg_ts l" using l(2) pm by simp
      ultimately show ?thesis using prune_keeps_bucket [OF state_okD(5) [OF ok lb] _ w] c(4) by simp
    qed
  qed
qed

section \<open>Histories\<close>

lemma history_meta: "history m H \<Longrightarrow> meta_ok m"
  by (induction rule: history.induct)

lemma history_states:
  "history m H \<Longrightarrow> (\<forall>u. (case H of [] \<Rightarrow> True | (w, _) # _ \<Rightarrow> w \<le> u) \<longrightarrow> state_ok m u (latest m H))"
proof (induction rule: history.induct)
  case history_init
  then show ?case by (simp add: latest_def initial_ok)
next
  case (history_commit H tx op a)
  let ?b = "latest m H"
  have w: "0 < me_bucket_width m" using history_meta [OF history_commit.hyps(1)] by (simp add: meta_ok_def)
  have "case H of [] \<Rightarrow> True | (w, _) # _ \<Rightarrow> w \<le> tx_commit tx" using history_commit.hyps(2) by (auto simp: timely_def)
  with history_commit.IH have ok: "state_ok m (tx_commit tx) ?b" by blast
  from state_okD(2) [OF ok] obtain p where p: "a_meta ?b = Some (m\<lparr>me_pruned_before := p\<rparr>)" by blast
  have "state_ok m (tx_commit tx) a"
  proof (cases "\<exists>n. op = Op_Prune n")
    case True
    with history_commit.hyps(4) obtain n x where "authority_prune tx n ?b = Inr (x, a)" by auto
    from prune_ok [OF ok this w] show ?thesis .
  next
    case False
    have "logged tx ?b a"
      by (rule exec_logged [OF p state_okD(1) [OF ok] history_commit.hyps(3,4)]) (use False in auto)
    from logged_ok [OF ok this order.refl history_commit.hyps(2) w] show ?thesis .
  qed
  then show ?case by (auto simp: latest_def intro: state_ok_mono)
qed

lemma history_tail: "history m (x # H) \<Longrightarrow> history m H"
  by (erule history_ConsE) simp

lemma state_at_ok: "history m H \<Longrightarrow> state_ok m t (state_at m H t)"
proof (induction H)
  case Nil
  then show ?case by (simp add: initial_ok)
next
  case (Cons x H)
  obtain u a where x: "x = (u, a)" by (cases x)
  from history_states [OF Cons.prems] x have "u \<le> t \<Longrightarrow> state_ok m t a" by (simp add: latest_def)
  with Cons.IH [OF history_tail [OF Cons.prems]] x show ?case by simp
qed

lemma history_step:
  assumes h: "history m ((u, c) # H)" and ev: "evolves t a (latest m H)" and t: "t < u"
  shows "evolves t a c"
proof -
  from h obtain tx op where 1: "u = tx_commit tx" "history m H" "timely m H tx" "op_ok (latest m H) op"
    "exec tx op (latest m H) = Inr c" by (auto elim: history_ConsE)
  have w: "0 < me_bucket_width m" using history_meta [OF h] by (simp add: meta_ok_def)
  have "case H of [] \<Rightarrow> True | (w, _) # _ \<Rightarrow> w \<le> tx_commit tx" using 1 by (auto simp: timely_def)
  with history_states [OF 1(2)] have ok: "state_ok m (tx_commit tx) (latest m H)" by blast
  from state_okD(2) [OF ok] obtain p where p: "a_meta (latest m H) = Some (m\<lparr>me_pruned_before := p\<rparr>)" by blast
  show ?thesis
  proof (cases "\<exists>n. op = Op_Prune n")
    case True
    with 1 obtain n x where "authority_prune tx n (latest m H) = Inr (x, c)" by auto
    from evolves_prune [OF ev ok this w] show ?thesis .
  next
    case False
    have "logged tx (latest m H) c"
      by (rule exec_logged [OF p state_okD(1) [OF ok]]) (use False 1 in auto)
    from evolves_logged [OF ev this] 1 t show ?thesis by simp
  qed
qed

lemma evolves_latest: "history m H \<Longrightarrow> evolves t (state_at m H t) (latest m H)"
proof (induction H)
  case Nil
  then show ?case by (simp add: latest_def evolves_refl)
next
  case (Cons x H)
  obtain u c where x: "x = (u, c)" by (cases x)
  show ?case
  proof (cases "u \<le> t")
    case True
    with x show ?thesis by (simp add: latest_def evolves_refl)
  next
    case False
    from history_step [OF Cons.prems [unfolded x] Cons.IH [OF history_tail [OF Cons.prems]]] False x
    show ?thesis by (simp add: latest_def)
  qed
qed

lemma history_evolves: "history m H \<Longrightarrow> t \<le> u \<Longrightarrow> evolves t (state_at m H t) (state_at m H u)"
proof (induction H)
  case Nil
  then show ?case by (simp add: evolves_refl)
next
  case (Cons x H)
  obtain w c where x: "x = (w, c)" by (cases x)
  note h = Cons.prems(1)
  consider "w \<le> t" | "t < w" "w \<le> u" | "u < w" using Cons.prems(2) by fastforce
  then show ?case
  proof cases
    case 1
    then have "w \<le> u" using Cons.prems(2) by (rule order.trans)
    with 1 x show ?thesis by (simp add: evolves_refl)
  next
    case 2
    from history_step [OF h [unfolded x] evolves_latest [OF history_tail [OF h]] 2(1)] 2 x show ?thesis by (simp add: evolves_refl)
  next
    case 3
    with Cons.prems(2) have "\<not> w \<le> t" "\<not> w \<le> u" by auto
    with Cons.IH [OF history_tail [OF h] Cons.prems(2)] x show ?thesis by simp
  qed
qed

end
