(* ===== verification/Engine_Correct.thy ===== *)
theory Engine_Correct
  imports Replication_Engine
begin

text \<open>
  What the replication engine guarantees. \<open>replication_source\<close> is the interface \<open>ReplicationSource\<close> with the laws
  its documentation promises, over \<open>truth t\<close>, the authority's data as of timestamp \<open>t\<close>; \<open>replication\<close> joins it with
  the laws of a sink. In it the replica's data is, after any number of cycles with failures anywhere, the
  authority's data as of the replica's checkpoint, and the engine's loops end.
\<close>

section \<open>Tracking\<close>

text \<open>
  The live entities of a versioned map (\<open>None\<close> is a deleted one), and what it means that a replica \<open>r\<close> holds the
  authority's data \<open>a\<close> as of \<open>t\<close>: the same live entities with the same versions, and nothing newer than \<open>t\<close>.
  Tombstones may differ, for the authority prunes them.
\<close>

definition live_view :: "('k, 'c option) versioned \<Rightarrow> 'k \<rightharpoonup> ReplicationTs \<times> 'c" where
  "live_view m k = (case m k of Some (v, Some c) \<Rightarrow> Some (v, c) | _ \<Rightarrow> None)"

definition tracks :: "('k, 'c option) versioned \<Rightarrow> ReplicationTs \<Rightarrow> ('k, 'c option) versioned \<Rightarrow> bool" where
  "tracks r t a \<longleftrightarrow> live_view r = live_view a \<and> (\<forall>k v c. r k = Some (v, c) \<longrightarrow> v \<le> t)"

text \<open>What a poll after \<open>since\<close> sees of earlier data: what is not newer than \<open>since\<close> was there, and no live entity vanished.\<close>

definition carried :: "ReplicationTs \<Rightarrow> ('k, 'c option) versioned \<Rightarrow> ('k, 'c option) versioned \<Rightarrow> bool" where
  "carried since a b \<longleftrightarrow>
     (\<forall>k v c. b k = Some (v, c) \<and> v \<le> since \<longrightarrow> a k = Some (v, c)) \<and>
     (\<forall>k v c. a k = Some (v, Some c) \<longrightarrow> b k \<noteq> None)"

text \<open>Putting some of the entries of \<open>a\<close>, each newer than what is there, leaves exactly these.\<close>

lemma lww_fold_graph:
  assumes sub: "\<And>k v c. (k, v, c) \<in> set cs \<Longrightarrow> a k = Some (v, c)"
    and new: "\<And>k v c w d. (k, v, c) \<in> set cs \<Longrightarrow> r k = Some (w, d) \<Longrightarrow> w < v"
  shows "fold lww_put cs r k = (if \<exists>v c. (k, v, c) \<in> set cs then a k else r k)"
proof (cases "\<exists>v c. (k, v, c) \<in> set cs")
  case True
  then obtain v c where c: "(k, v, c) \<in> set cs" by blast
  then have "(v, c) \<in> lww_candidates (set cs) r k" by (simp add: lww_candidates_def)
  from lww_fold_greatest [OF this] obtain w d where f: "fold lww_put cs r k = Some (w, d)" "v \<le> w" by auto
  from lww_fold_candidate [OF f(1)] have "r k = Some (w, d) \<or> (k, w, d) \<in> set cs"
    by (auto simp: lww_candidates_def)
  with c f(2) new sub True f(1) show ?thesis by (metis leD)
next
  case False
  then have "lww_candidates (set cs) r k = set_option (r k)" by (auto simp: lww_candidates_def)
  with False show ?thesis
    using lww_fold_candidate [of cs r k] lww_fold_greatest [of _ cs r k]
    by (cases "fold lww_put cs r k"; cases "r k") auto
qed

lemma tracks_poll:
  assumes r: "tracks r since a" and "since \<le> til" and b: "\<And>k v c. b k = Some (v, c) \<Longrightarrow> v \<le> til"
    and cs: "set cs = {(k, v, c). b k = Some (v, c) \<and> since < v}" and car: "carried since a b"
  shows "tracks (fold lww_put cs r) til b"
proof -
  have new: "fold lww_put cs r k = (if \<exists>v c. (k, v, c) \<in> set cs then b k else r k)" for k
    by (rule lww_fold_graph) (use r cs in \<open>auto simp: tracks_def dest: order.strict_trans1\<close>)
  have "live_view (fold lww_put cs r) k = live_view b k" for k
  proof (cases "b k")
    case None
    then have "a k \<noteq> Some (v, Some c)" for v c using car unfolding carried_def by blast
    then have "live_view a k = None" by (auto simp: live_view_def split: option.splits)
    with r have "live_view r k = None" by (simp add: tracks_def)
    with None new [of k] cs show ?thesis by (simp add: live_view_def)
  next
    case (Some x)
    obtain v c where x: "x = (v, c)" by (cases x)
    show ?thesis
    proof (cases "since < v")
      case True
      with Some x new [of k] cs show ?thesis by (simp add: live_view_def)
    next
      case False
      then have "a k = b k" using car Some x by (auto simp: carried_def)
      with r have "live_view r k = live_view b k" by (metis live_view_def tracks_def)
      with Some x new [of k] cs False show ?thesis by (simp add: live_view_def)
    qed
  qed
  moreover have "v \<le> til" if "fold lww_put cs r k = Some (v, c)" for k v c
  proof (cases "\<exists>v c. (k, v, c) \<in> set cs")
    case True
    with that new [of k] b show ?thesis by simp
  next
    case False
    with that new [of k] have "r k = Some (v, c)" by simp
    with r have "v \<le> since" unfolding tracks_def by blast
    with \<open>since \<le> til\<close> show ?thesis by simp
  qed
  ultimately show ?thesis unfolding tracks_def by blast
qed

lemma tracks_snapshot:
  assumes a: "\<And>k v c. a k = Some (v, c) \<Longrightarrow> v \<le> t"
    and sub: "set cs \<subseteq> {(k, v, c). a k = Some (v, c)}" and all: "\<And>k v c. a k = Some (v, Some c) \<Longrightarrow> (k, v, Some c) \<in> set cs"
  shows "tracks (fold lww_put cs Map.empty) t a"
proof -
  have new: "fold lww_put cs Map.empty k = (if \<exists>v c. (k, v, c) \<in> set cs then a k else None)" for k
    by (rule lww_fold_graph) (use sub in auto)
  have "live_view (fold lww_put cs Map.empty) k = live_view a k" for k
    using new [of k] all by (fastforce simp: live_view_def split: option.splits)
  with new a show ?thesis by (auto simp: tracks_def split: if_splits)
qed

section \<open>The source interface\<close>

text \<open>
  \<open>todo n\<close> is what the snapshot cursor \<open>n\<close> has still to deliver. A poll delivers the current state of the entities
  changed after \<open>since\<close>; a snapshot delivers at least the live entities of its timestamp. \<open>pages_left\<close> and \<open>backlog\<close>
  bound the number of pages and of truncated polls.
\<close>

locale replication_source =
  fixes src :: "('a, 'n) source_ops"
    and ainv :: "'a \<Rightarrow> bool"
    and truth :: "ReplicationTs \<Rightarrow> ('k, 'c option) versioned"
    and ent :: "Change \<Rightarrow> 'k \<times> ReplicationTs \<times> 'c option"
    and todo :: "'n \<Rightarrow> ('k \<times> ReplicationTs \<times> 'c option) set"
    and pages_left :: "'n \<Rightarrow> nat"
    and backlog :: "ReplicationTs \<Rightarrow> nat"
  assumes truth_le: "truth t k = Some (v, c) \<Longrightarrow> v \<le> t"
    and pruned_law: "ainv a \<Longrightarrow> so_pruned_before src a = (pres, a') \<Longrightarrow> ainv a'"
    and poll_inv: "ainv a \<Longrightarrow> so_poll src since limit a = (qres, a') \<Longrightarrow> ainv a'"
    and poll_ok: "ainv a \<Longrightarrow> 0 < limit \<Longrightarrow> so_poll src since limit a = (Inr p, a') \<Longrightarrow>
      since \<le> cb_upto (po_batch p) \<and>
      set (map ent (cb_changes (po_batch p))) = {(k, v, c). truth (cb_upto (po_batch p)) k = Some (v, c) \<and> since < v} \<and>
      carried since (truth since) (truth (cb_upto (po_batch p)))"
    and poll_progress: "ainv a \<Longrightarrow> 0 < limit \<Longrightarrow> so_poll src since limit a = (Inr p, a') \<Longrightarrow> po_truncated p \<Longrightarrow>
      backlog (cb_upto (po_batch p)) < backlog since"
    and snapshot_inv: "ainv a \<Longrightarrow> so_snapshot src a = (sres, a') \<Longrightarrow> ainv a'"
    and snapshot_ok: "ainv a \<Longrightarrow> so_snapshot src a = (Inr n, a') \<Longrightarrow>
      todo n \<subseteq> {(k, v, c). truth (so_ts src n) k = Some (v, c)} \<and>
      (\<forall>k v c. truth (so_ts src n) k = Some (v, Some c) \<longrightarrow> (k, v, Some c) \<in> todo n)"
    and next_inv: "ainv a \<Longrightarrow> so_next_page src n a = (nres, n', a') \<Longrightarrow> ainv a'"
    and next_some: "ainv a \<Longrightarrow> so_next_page src n a = (Inr (Some page), n', a') \<Longrightarrow>
      todo n = set (map ent page) \<union> todo n' \<and> pages_left n' < pages_left n"
    and next_none: "ainv a \<Longrightarrow> so_next_page src n a = (Inr None, n', a') \<Longrightarrow> todo n = {}"

locale replication =
  replication_source src ainv truth ent todo pages_left backlog +
  sink: replica_sink "si_checkpoint snk" "si_apply snk" "si_begin_rebuild snk" "si_write snk" "si_commit snk" "si_abort snk"
    inv view cp building wview wts ent
  for src :: "('a, 'n) source_ops" and ainv truth and ent :: "Change \<Rightarrow> 'k \<times> ReplicationTs \<times> 'c option"
    and todo pages_left backlog
    and snk :: "('s, 'w) sink_ops" and inv view cp building wview wts
begin

text \<open>What a sink operation that does not take effect leaves alone.\<close>

definition same_sink :: "('a, 's) Engine \<Rightarrow> ('a, 's) Engine \<Rightarrow> bool" where
  "same_sink e e' \<longleftrightarrow> ainv (en_source e') \<and> inv (en_sink e') \<and> view (en_sink e') = view (en_sink e) \<and>
     cp (en_sink e') = cp (en_sink e) \<and> en_status e' = en_status e"

text \<open>The outcome of the copying loop from cursor \<open>n\<close>.\<close>

definition copied :: "'w \<Rightarrow> 'n \<Rightarrow> ('a, 's) Engine \<Rightarrow> StoreError + unit \<Rightarrow> ('a, 's) Engine \<Rightarrow> bool" where
  "copied w n e r e' \<longleftrightarrow> same_sink e e' \<and> building w (en_sink e') \<and>
     (r = Inr () \<longrightarrow> (\<exists>cs. set (map ent cs) = todo n \<and>
        wview w (en_sink e') = fold lww_put (map ent cs) (wview w (en_sink e))))"

lemma copied_done:
  assumes "ainv a" "inv (en_sink e)" "building w (en_sink e)" "todo n = {}"
  shows "copied w n e (Inr ()) (e\<lparr>en_source := a\<rparr>)"
proof -
  have "\<exists>cs. set (map ent cs) = todo n \<and> wview w (en_sink e) = fold lww_put (map ent cs) (wview w (en_sink e))"
    using assms(4) by (intro exI [of _ "[]"]) simp
  with assms show ?thesis by (simp add: copied_def same_sink_def)
qed

lemma copied_page:
  assumes "todo n = set (map ent page) \<union> todo n1" and "view s1 = view (en_sink e)" "cp s1 = cp (en_sink e)"
    and "wview w s1 = fold lww_put (map ent page) (wview w (en_sink e))"
    and c: "copied w n1 (e\<lparr>en_source := a1, en_sink := s1\<rparr>) r e'"
  shows "copied w n e r e'"
proof -
  have "\<exists>cs. set (map ent cs) = todo n \<and>
      wview w (en_sink e') = fold lww_put (map ent cs) (wview w (en_sink e))" if "r = Inr ()"
  proof -
    from that c obtain cs where "set (map ent cs) = todo n1"
      "wview w (en_sink e') = fold lww_put (map ent cs) (wview w s1)" by (auto simp: copied_def)
    with assms show ?thesis by (intro exI [of _ "page @ cs"]) simp
  qed
  with assms show ?thesis by (simp add: copied_def same_sink_def)
qed

lemma copy_pages:
  assumes "ainv (en_source e)" "inv (en_sink e)" "building w (en_sink e)"
  shows "\<exists>r e'. copy_pages src snk w n e = Some (r, e') \<and> copied w n e r e'"
  using assms
proof (induction "pages_left n" arbitrary: n e rule: less_induct)
  case less
  obtain r n1 a1 where nx: "so_next_page src n (en_source e) = (r, n1, a1)" by (metis prod_cases3)
  note inv1 = next_inv [OF less.prems(1) nx]
  consider (err) err where "r = Inl err" | (fin) "r = Inr None" | (page) page where "r = Inr (Some page)"
    by (metis option.exhaust sum.exhaust)
  then show ?case
  proof cases
    case err
    then show ?thesis using less.prems inv1 nx
      by (subst copy_pages.simps) (simp add: copied_def same_sink_def)
  next
    case fin
    with nx next_none [OF less.prems(1)] have "todo n = {}" by simp
    from copied_done [OF inv1 less.prems(2,3) this] nx fin
    show ?thesis by (subst copy_pages.simps) simp
  next
    case page
    note step = next_some [OF less.prems(1) nx [unfolded page]]
    show ?thesis
    proof (cases "page = []")
      case True
      from less.hyps [of n1 "e\<lparr>en_source := a1\<rparr>"] step inv1 less.prems
      obtain r' e' where ih: "copy_pages src snk w n1 (e\<lparr>en_source := a1\<rparr>) = Some (r', e')"
        "copied w n1 (e\<lparr>en_source := a1\<rparr>) r' e'" by auto
      with nx page True step show ?thesis
        by (subst copy_pages.simps) (simp add: copied_def same_sink_def)
    next
      case False
      obtain rw s1 where wr: "si_write snk w page (en_sink e) = (rw, s1)" by (metis surj_pair)
      show ?thesis
      proof (cases rw)
        case (Inl err)
        with sink.write_err [OF less.prems(2,3)] wr nx page False inv1 show ?thesis
          by (subst copy_pages.simps) (simp add: on_sink_def copied_def same_sink_def)
      next
        case (Inr u)
        note ok = sink.write_ok [OF less.prems(2,3) wr [unfolded Inr]]
        from less.hyps [of n1 "e\<lparr>en_source := a1, en_sink := s1\<rparr>"] step inv1 ok
        obtain r' e' where ih: "copy_pages src snk w n1 (e\<lparr>en_source := a1, en_sink := s1\<rparr>) = Some (r', e')"
          "copied w n1 (e\<lparr>en_source := a1, en_sink := s1\<rparr>) r' e'" by auto
        from copied_page [OF _ _ _ _ ih(2)] step ok have "copied w n e r' e'" by simp
        moreover have "copy_pages src snk w n e = Some (r', e')"
          using nx page wr ih(1) Inr False by (subst copy_pages.simps) (simp add: on_sink_def)
        ultimately show ?thesis by simp
      qed
    qed
  qed
qed

text \<open>
  The invariant of the engine: the replica holds the authority's data as of its checkpoint, and a status that
  says bootstrapped names that checkpoint.
\<close>

definition engine_ok :: "('a, 's) Engine \<Rightarrow> bool" where
  "engine_ok e \<longleftrightarrow> ainv (en_source e) \<and> inv (en_sink e) \<and>
     (\<forall>x. cp (en_sink e) = Some x \<longrightarrow> tracks (view (en_sink e)) (cp_ts x) (truth (cp_ts x))) \<and>
     (ss_bootstrapped (en_status e) \<longrightarrow> (\<exists>x. cp (en_sink e) = Some x \<and> cp_ts x = ss_applied_ts (en_status e)))"

lemma same_sink_ok: "engine_ok e \<Longrightarrow> same_sink e e' \<Longrightarrow> engine_ok e'"
  by (simp add: engine_ok_def same_sink_def)

lemma same_sink_trans: "same_sink e e1 \<Longrightarrow> same_sink e1 e2 \<Longrightarrow> same_sink e e2"
  by (simp add: same_sink_def)

lemma instant_same: "ainv (en_source e) \<Longrightarrow> inv (en_sink e) \<Longrightarrow> instant_now e = (t, e') \<Longrightarrow> same_sink e e'"
  by (auto simp: instant_now_def same_sink_def split: list.splits)

lemma load_snapshot:
  assumes "ainv (en_source e)" "inv (en_sink e)"
  shows "\<exists>r e'. load_snapshot src snk e = Some (r, e') \<and>
    (case r of Inl _ \<Rightarrow> same_sink e e'
     | Inr (ts, now, observed) \<Rightarrow> ainv (en_source e') \<and> inv (en_sink e') \<and> en_status e' = en_status e \<and>
         tracks (view (en_sink e')) ts (truth ts) \<and> (\<exists>x. cp (en_sink e') = Some x \<and> cp_ts x = ts))"
proof -
  obtain sr a1 where sn: "so_snapshot src (en_source e) = (sr, a1)" by (metis surj_pair)
  note a1 = snapshot_inv [OF assms(1) sn]
  show ?thesis
  proof (cases sr)
    case (Inl err)
    with sn a1 assms show ?thesis by (simp add: load_snapshot_def on_source_def same_sink_def)
  next
    case (Inr n)
    note snap = snapshot_ok [OF assms(1) sn [unfolded Inr]]
    obtain ob e1 where ob: "instant_now (e\<lparr>en_source := a1\<rparr>) = (ob, e1)" by (metis surj_pair)
    then have e1: "same_sink e e1" using a1 assms
      by (auto simp: instant_now_def same_sink_def split: list.splits)
    then have inv1: "inv (en_sink e1)" by (simp add: same_sink_def)
    obtain br s1 where be: "si_begin_rebuild snk (so_ts src n) (en_sink e1) = (br, s1)" by (metis surj_pair)
    show ?thesis
    proof (cases br)
      case (Inl err)
      with sink.begin_err [OF inv1] be e1 sn Inr ob \<open>sr = Inr n\<close> show ?thesis
        by (simp add: load_snapshot_def on_source_def on_sink_def same_sink_def)
    next
      case (Inr w)
      note bo = sink.begin_ok [OF inv1 be [unfolded Inr]]
      define e2 where "e2 = e1\<lparr>en_sink := s1\<rparr>"
      have pre: "ainv (en_source e2)" "inv (en_sink e2)" "building w (en_sink e2)" and e2: "same_sink e e2"
        using bo e1 by (simp_all add: e2_def same_sink_def)
      from copy_pages [OF pre]
      obtain r3 e3 where cpy: "copy_pages src snk w n e2 = Some (r3, e3)" "copied w n e2 r3 e3" by blast
      then have e3: "same_sink e e3" "building w (en_sink e3)" using same_sink_trans [OF e2] by (simp_all add: copied_def)
      then have inv3: "inv (en_sink e3)" by (simp add: same_sink_def)
      show ?thesis
      proof (cases r3)
        case (Inl err)
        obtain ar s4 where ab: "si_abort snk w (en_sink e3) = (ar, s4)" by (metis surj_pair)
        from sink.abort_law [OF inv3 e3(2) ab] e3 cpy sn ob be Inl \<open>sr = Inr n\<close> \<open>br = Inr w\<close> ab show ?thesis
          by (simp add: load_snapshot_def on_source_def on_sink_def same_sink_def e2_def)
      next
        case (Inr u)
        obtain cr s4 where co: "si_commit snk w (en_sink e3) = (cr, s4)" by (metis surj_pair)
        have load: "load_snapshot src snk e = (case cr of
            Inl err \<Rightarrow> Some (Inl err, e3\<lparr>en_sink := s4\<rparr>)
          | Inr _ \<Rightarrow> Some (Inr (so_ts src n, so_source_now src n, ob), e3\<lparr>en_sink := s4\<rparr>))"
          using cpy sn ob be Inr \<open>sr = Inr n\<close> \<open>br = Inr w\<close> co
          by (simp add: load_snapshot_def on_source_def on_sink_def e2_def split: sum.splits)
        show ?thesis
        proof (cases cr)
          case (Inl err)
          with sink.commit_err [OF inv3 e3(2)] co e3 load show ?thesis by (simp add: same_sink_def)
        next
          case (Inr v)
          note cm = sink.commit_ok [OF inv3 e3(2) co [unfolded Inr]]
          from cpy(2) \<open>r3 = Inr u\<close> obtain cs where cs: "set (map ent cs) = todo n"
            "wview w (en_sink e3) = fold lww_put (map ent cs) Map.empty"
            using bo by (auto simp: copied_def e2_def)
          have "tracks (fold lww_put (map ent cs) Map.empty) (so_ts src n) (truth (so_ts src n))"
            by (rule tracks_snapshot) (use truth_le snap cs(1) in auto)
          with cm cs(2) e3 bo load Inr show ?thesis by (simp add: same_sink_def)
        qed
      qed
    qed
  qed
qed

lemma rebuild:
  assumes "engine_ok e"
  shows "\<exists>r e'. rebuild src snk e = Some (r, e') \<and> engine_ok e' \<and> (\<forall>u. r = Inr u \<longrightarrow> ss_bootstrapped (en_status e'))"
proof -
  from assms have inv0: "ainv (en_source e)" "inv (en_sink e)" by (simp_all add: engine_ok_def)
  obtain st e1 where st: "instant_now e = (st, e1)" by (metis surj_pair)
  define e2 where "e2 = on_status (ss_rebuilding_update (\<lambda>_. True)) e1"
  have e1: "same_sink e e1" by (rule instant_same [OF inv0 st])
  then have "ainv (en_source e2)" "inv (en_sink e2)" by (simp_all add: e2_def on_status_def same_sink_def)
  from load_snapshot [OF this] obtain r e3 where ld: "load_snapshot src snk e2 = Some (r, e3)"
    "case r of Inl _ \<Rightarrow> same_sink e2 e3
     | Inr (ts, now, observed) \<Rightarrow> ainv (en_source e3) \<and> inv (en_sink e3) \<and> en_status e3 = en_status e2 \<and>
         tracks (view (en_sink e3)) ts (truth ts) \<and> (\<exists>x. cp (en_sink e3) = Some x \<and> cp_ts x = ts)" by blast
  show ?thesis
  proof (cases r)
    case (Inl err)
    with ld st e1 assms show ?thesis
      by (simp add: rebuild_def e2_def on_status_def engine_ok_def same_sink_def)
  next
    case (Inr y)
    obtain ts now ob where y: "y = (ts, now, ob)" by (metis prod_cases3)
    obtain fi e4 where fi: "instant_now e3 = (fi, e4)" by (metis surj_pair)
    have "same_sink e3 e4" using instant_same [OF _ _ fi] ld(2) Inr y by simp
    with ld st fi Inr y show ?thesis
      by (simp add: rebuild_def e2_def on_status_def engine_ok_def same_sink_def) auto
  qed
qed

lemma apply_poll:
  assumes inv0: "ainv (en_source e)" "inv (en_sink e)"
    and x: "cp (en_sink e) = Some x" "tracks (view (en_sink e)) (cp_ts x) (truth (cp_ts x))"
    and p: "cp_ts x \<le> cb_upto (po_batch p)" "carried (cp_ts x) (truth (cp_ts x)) (truth (cb_upto (po_batch p)))"
      "set (map ent (cb_changes (po_batch p))) =
         {(k, v, c). truth (cb_upto (po_batch p)) k = Some (v, c) \<and> cp_ts x < v}"
    and ap: "apply_poll snk (cp_ts x) p e = (r, e')"
  shows "ainv (en_source e') \<and> inv (en_sink e') \<and>
    (case r of Inl _ \<Rightarrow> view (en_sink e') = view (en_sink e) \<and> cp (en_sink e') = cp (en_sink e) \<and> en_status e' = en_status e
     | Inr _ \<Rightarrow> tracks (view (en_sink e')) (cb_upto (po_batch p)) (truth (cb_upto (po_batch p))) \<and>
         (\<exists>y. cp (en_sink e') = Some y \<and> cp_ts y = cb_upto (po_batch p)))"
proof -
  let ?u = "cb_upto (po_batch p)"
  have tr: "tracks (fold lww_put (map ent (cb_changes (po_batch p))) (view (en_sink e))) ?u (truth ?u)"
    by (rule tracks_poll [OF x(2) p(1) truth_le p(3,2)])
  have ok: ?thesis
    if b: "cb_changes b = cb_changes (po_batch p)" "cb_upto b = ?u" and sr: "si_apply snk b (en_sink e) = (Inr out, s1)"
      and "r = Inr ()" "en_sink e' = s1" "en_source e' = en_source e" for b out s1
    using sink.apply_ok [OF inv0(2) sr] that inv0 x(1) tr p(1) by (auto simp: max_def)
  have err: ?thesis
    if sr: "si_apply snk b (en_sink e) = (Inl er, s1)" and "r = Inl er" "e' = e\<lparr>en_sink := s1\<rparr>" for b er s1
    using sink.apply_err [OF inv0(2) sr] that inv0 by simp
  consider (change) "cb_changes (po_batch p) \<noteq> []" | (move) "cb_changes (po_batch p) = []" "cp_ts x < ?u"
    | (stay) "cb_changes (po_batch p) = []" "cp_ts x = ?u" using p(1) by fastforce
  then show ?thesis
  proof cases
    case change
    obtain sr s1 where sr: "si_apply snk (po_batch p) (en_sink e) = (sr, s1)" by (metis surj_pair)
    show ?thesis
    proof (cases sr)
      case (Inl er)
      with change ap sr show ?thesis by (intro err [of "po_batch p" er s1]) (simp_all add: apply_poll_def on_sink_def)
    next
      case (Inr out)
      with change ap sr show ?thesis
        by (intro ok [of "po_batch p" out s1]) (auto simp: apply_poll_def on_sink_def on_status_def)
    qed
  next
    case move
    let ?b = "\<lparr>cb_upto = ?u, cb_changes = []\<rparr>"
    obtain sr s1 where sr: "si_apply snk ?b (en_sink e) = (sr, s1)" by (metis surj_pair)
    show ?thesis
    proof (cases sr)
      case (Inl er)
      with move ap sr show ?thesis by (intro err [of ?b er s1]) (simp_all add: apply_poll_def on_sink_def)
    next
      case (Inr out)
      with move ap sr show ?thesis by (intro ok [of ?b out s1]) (auto simp: apply_poll_def on_sink_def)
    qed
  next
    case stay
    with ap have "r = Inr ()" "e' = e" by (simp_all add: apply_poll_def)
    with stay inv0 x show ?thesis by simp
  qed
qed

lemma poll_apply:
  assumes ok: "engine_ok e" and x: "cp (en_sink e) = Some x" and limit: "0 < limit"
    and pa: "poll_apply src snk limit (cp_ts x) e = (r, e')"
  shows "engine_ok e' \<and> (\<forall>b. r = Inr b \<longrightarrow> ss_bootstrapped (en_status e') \<and>
    (b \<longrightarrow> (\<exists>y. cp (en_sink e') = Some y \<and> backlog (cp_ts y) < backlog (cp_ts x))))"
proof -
  from ok have inv0: "ainv (en_source e)" "inv (en_sink e)" by (simp_all add: engine_ok_def)
  obtain pr a1 where po: "so_poll src (cp_ts x) limit (en_source e) = (pr, a1)" by (metis surj_pair)
  note a1 = poll_inv [OF inv0(1) po]
  show ?thesis
  proof (cases pr)
    case (Inl err)
    with po pa ok a1 show ?thesis by (auto simp: poll_apply_def on_source_def engine_ok_def)
  next
    case (Inr p)
    note pol = poll_ok [OF inv0(1) limit po [unfolded Inr]]
    obtain ob e1 where ob: "instant_now (e\<lparr>en_source := a1\<rparr>) = (ob, e1)" by (metis surj_pair)
    then have e1: "same_sink e e1" using a1 inv0 by (auto simp: instant_now_def same_sink_def split: list.splits)
    then have pre: "ainv (en_source e1)" "inv (en_sink e1)" "cp (en_sink e1) = Some x"
      "tracks (view (en_sink e1)) (cp_ts x) (truth (cp_ts x))" "en_status e1 = en_status e"
      using ok x by (simp_all add: same_sink_def engine_ok_def)
    obtain ar e2 where ap: "apply_poll snk (cp_ts x) p e1 = (ar, e2)" by (metis surj_pair)
    note res = apply_poll [OF pre(1-4) _ _ _ ap]
    show ?thesis
    proof (cases ar)
      case (Inl err)
      with res pol have e2: "ainv (en_source e2)" "inv (en_sink e2)" "view (en_sink e2) = view (en_sink e1)"
        "cp (en_sink e2) = cp (en_sink e1)" "en_status e2 = en_status e1" by simp_all
      have "r = Inl err" "e' = e2" using Inl ap ob po Inr \<open>pr = Inr p\<close> pa
        by (simp_all add: poll_apply_def on_source_def)
      moreover have "same_sink e e2" using e2 e1 by (simp add: same_sink_def)
      ultimately show ?thesis using same_sink_ok [OF ok] by simp
    next
      case (Inr u)
      with res pol obtain y where e2: "ainv (en_source e2)" "inv (en_sink e2)"
        "tracks (view (en_sink e2)) (cb_upto (po_batch p)) (truth (cb_upto (po_batch p)))"
        "cp (en_sink e2) = Some y" "cp_ts y = cb_upto (po_batch p)" by auto
      have r: "r = Inr (po_truncated p)" and e': "e' = on_status (\<lambda>s. s\<lparr>ss_bootstrapped := True,
            ss_applied_ts := max (cb_upto (po_batch p)) (cp_ts x),
            ss_source_lag := ts_delta (po_source_now p) (cb_upto (po_batch p)),
            ss_observed_at := Some ob, ss_needs_rebuild := False\<rparr>) e2"
        using Inr ap ob po \<open>pr = Inr p\<close> pa by (simp_all add: poll_apply_def on_source_def)
      have "engine_ok e'" using e2 e' pol by (simp add: engine_ok_def on_status_def max_absorb1)
      moreover have "backlog (cp_ts y) < backlog (cp_ts x)" if "po_truncated p"
        using poll_progress [OF inv0(1) limit po [unfolded \<open>pr = Inr p\<close>] that] e2 by simp
      ultimately show ?thesis using r e' e2 by (simp add: on_status_def)
    qed
  qed
qed

text \<open>A cycle always ends; it keeps the invariant whatever fails; and one that asks for another has made progress.\<close>

lemma cycle:
  assumes ok: "engine_ok e"
  shows "\<exists>r e'. cycle src snk cfg e = Some (r, e') \<and> engine_ok e' \<and>
    (\<forall>b. r = Inr b \<longrightarrow> ss_bootstrapped (en_status e') \<and>
      (b \<longrightarrow> (\<exists>x y. cp (en_sink e) = Some x \<and> cp (en_sink e') = Some y \<and> backlog (cp_ts y) < backlog (cp_ts x))))"
proof -
  from ok have inv0: "ainv (en_source e)" "inv (en_sink e)" by (simp_all add: engine_ok_def)
  obtain cr s1 where ck: "si_checkpoint snk (en_sink e) = (cr, s1)" by (metis surj_pair)
  define e1 where "e1 = e\<lparr>en_sink := s1\<rparr>"
  have e1: "same_sink e e1" "\<And>c. cr = Inr c \<Longrightarrow> c = cp (en_sink e1)"
    using sink.checkpoint_law [OF inv0(2) ck] inv0 by (simp_all add: e1_def same_sink_def)
  obtain pr a1 where pb: "so_pruned_before src (en_source e1) = (pr, a1)" by (metis surj_pair)
  define e2 where "e2 = e1\<lparr>en_source := a1\<rparr>"
  have "ainv (en_source e1)" using e1 by (simp add: same_sink_def)
  from pruned_law [OF this pb] have e2: "same_sink e e2" using e1 by (simp add: same_sink_def e2_def)
  note ok2 = same_sink_ok [OF ok e2]
  from rebuild [OF ok2] obtain rr er where rb: "rebuild src snk e2 = Some (rr, er)" "engine_ok er"
    "\<forall>u. rr = Inr u \<longrightarrow> ss_bootstrapped (en_status er)" by blast
  have rbd: ?thesis if "cycle src snk cfg e = map_option (\<lambda>(r, e). (rbind r (\<lambda>_. Inr False), e)) (rebuild src snk e2)"
    using that rb by (cases rr) auto
  show ?thesis
  proof (cases "\<exists>err. cr = Inl err \<or> pr = Inl err")
    case True
    then show ?thesis
    proof (cases cr)
      case (Inl err)
      with ck same_sink_ok [OF ok e1(1)] show ?thesis by (simp add: cycle_def on_sink_def e1_def)
    next
      case (Inr c)
      with True obtain err where "pr = Inl err" by auto
      with Inr ck pb ok2 show ?thesis by (simp add: cycle_def on_sink_def on_source_def e1_def e2_def)
    qed
  next
    case False
    then obtain c pruned where c: "cr = Inr c" "pr = Inr pruned" by (cases cr; cases pr) auto
    with e1(2) e2 have cpe: "c = cp (en_sink e2)" by (simp add: e2_def)
    show ?thesis
    proof (cases c)
      case None
      with c ck pb show ?thesis by (intro rbd) (simp add: cycle_def on_sink_def on_source_def e1_def e2_def)
    next
      case (Some x)
      consider (manual) "below_pruned x pruned" "rc_rebuild cfg = Rebuild_Manual"
        | (auto) "below_pruned x pruned" "rc_rebuild cfg \<noteq> Rebuild_Manual" | (poll) "\<not> below_pruned x pruned" by blast
      then show ?thesis
      proof cases
        case manual
        with c Some ck pb ok2 show ?thesis
          by (simp add: cycle_def on_sink_def on_source_def on_status_def e1_def e2_def engine_ok_def)
      next
        case auto
        with c Some ck pb show ?thesis
          by (intro rbd) (simp add: cycle_def on_sink_def on_source_def e1_def e2_def)
      next
        case poll
        obtain r e3 where pa: "poll_apply src snk (max (rc_batch_limit cfg) 1) (cp_ts x) e2 = (r, e3)" by (metis surj_pair)
        from poll_apply [OF ok2 _ _ pa] cpe Some e2 have "engine_ok e3 \<and> (\<forall>b. r = Inr b \<longrightarrow>
            ss_bootstrapped (en_status e3) \<and>
            (b \<longrightarrow> (\<exists>y. cp (en_sink e3) = Some y \<and> backlog (cp_ts y) < backlog (cp_ts x))))" by simp
        moreover have "cp (en_sink e) = Some x" using cpe Some e2 by (simp add: same_sink_def)
        moreover have "cycle src snk cfg e = Some (r, e3)"
          using poll c Some ck pb pa by (simp add: cycle_def on_sink_def on_source_def e1_def e2_def)
        ultimately show ?thesis by auto
      qed
    qed
  qed
qed

text \<open>Startup ends: a truncated poll leaves less to fetch.\<close>

lemma bootstrap:
  assumes "engine_ok e"
  shows "\<exists>r e'. bootstrap src snk cfg e = Some (r, e') \<and> engine_ok e' \<and> (r = Inr () \<longrightarrow> ss_bootstrapped (en_status e'))"
  using assms
proof (induction "case cp (en_sink e) of None \<Rightarrow> 0 | Some x \<Rightarrow> backlog (cp_ts x)" arbitrary: e rule: less_induct)
  case less
  from cycle [OF less.prems, of cfg] obtain r e1 where cy: "cycle src snk cfg e = Some (r, e1)" "engine_ok e1"
    "\<forall>b. r = Inr b \<longrightarrow> ss_bootstrapped (en_status e1) \<and>
      (b \<longrightarrow> (\<exists>x y. cp (en_sink e) = Some x \<and> cp (en_sink e1) = Some y \<and> backlog (cp_ts y) < backlog (cp_ts x)))" by blast
  consider (err) err where "r = Inl err" | (more) "r = Inr True" | (fin) "r = Inr False" by (metis sum.exhaust)
  then show ?case
  proof cases
    case err
    with cy show ?thesis
      by (subst bootstrap.simps) (simp add: on_status_def record_failure_def engine_ok_def)
  next
    case more
    with cy less.hyps [of e1] show ?thesis by (subst bootstrap.simps) auto
  next
    case fin
    with cy(3) have "ss_bootstrapped (en_status e1)" by blast
    with fin cy(1,2) show ?thesis
      by (subst bootstrap.simps) (simp add: on_status_def clear_failure_def engine_ok_def)
  qed
qed

lemma run_loop:
  "engine_ok e \<Longrightarrow> \<exists>ws e'. run_loop src snk cfg retry ros e = Some (ws, e') \<and> engine_ok e'"
proof (induction ros arbitrary: e retry)
  case Nil
  then show ?case by simp
next
  case (Cons ro ros)
  from cycle [OF Cons.prems, of cfg] obtain r e1 where cy: "cycle src snk cfg e = Some (r, e1)" "engine_ok e1" by blast
  define e2 where "e2 = (case r of Inr _ \<Rightarrow> on_status clear_failure e1
    | Inl err \<Rightarrow> on_status (\<lambda>s. (record_failure (se_kind err) s)\<lparr>ss_retries := ss_retries s + 1\<rparr>) e1)"
  have "engine_ok e2" using cy(2)
    by (simp add: e2_def on_status_def clear_failure_def record_failure_def engine_ok_def split: sum.splits)
  with Cons.IH [of e2 "first_retry cfg"] Cons.IH [of e2 "next_retry cfg retry"] Cons.prems cy(1)
  show ?case by (cases r) (auto simp: e2_def Let_def)
qed

end

end
