(* ===== verification/Authority_Source.thy ===== *)
theory Authority_Source
  imports Authority_Mvcc Engine_Correct
begin

text \<open>
  The authoritative database as a replication source: what \<open>poll\<close> and the pages of a snapshot deliver is the data
  as of a timestamp. The interface \<open>replication_source\<close> is interpreted here on \<open>cockroach_source\<close> over any
  history of the database.
\<close>

section \<open>What is read\<close>

text \<open>A principal with its keys, as \<open>stored_principals\<close> reads it.\<close>

definition read_principal :: "(bytes \<Rightarrow> bool) \<Rightarrow> bytes \<times> bytes \<Rightarrow> AuthPrincipal \<Rightarrow> AuthKey list \<Rightarrow> StoreError + StoredPrincipal" where
  "read_principal gs k cols ks =
     rbind (principal_of gs \<lparr>m_key = k, m_cols = cols, m_ts = ts_ZERO, m_deleted = False\<rparr>) (\<lambda>sp.
     rbind (map_result try_key ks) (\<lambda>sks. Inr (sp\<lparr>sp_keys := sks\<rparr>)))"

fun auth_content :: "(bytes \<Rightarrow> bool) \<Rightarrow> Entity \<Rightarrow> AuthContent \<Rightarrow> Content" where
  "auth_content gs (E_Principal realm name) (AC_Principal cols ks) =
     C_Principal (rbind (read_principal gs (realm, name) cols ks) (upserted_principal gs))"
| "auth_content gs (E_Policy name) (AC_Policy cols) =
     C_Policy (rbind (policy_from_row (name, cols)) (\<lambda>p. rbind (policy_fields p) (\<lambda>c. policy_from_row (pol_name p, c))))"
| "auth_content gs _ (AC_Lockout cols) = C_Lockout cols"
| "auth_content gs _ _ = C_Principal (Inr None)"

text \<open>The authority's data in the form of the replica's (\<open>replica_view\<close>).\<close>

definition authority_view :: "(bytes \<Rightarrow> bool) \<Rightarrow> Authority \<Rightarrow> (Entity, Content option) versioned" where
  "authority_view gs a k = map_option (\<lambda>(v, d, c). (v, if d then None else Some (auth_content gs k c))) (authority_row a k)"

lemma authority_view_Some:
  "authority_view gs a k = Some (v, x) \<longleftrightarrow>
     (\<exists>d c. authority_row a k = Some (v, d, c) \<and> x = (if d then None else Some (auth_content gs k c)))"
  by (auto simp: authority_view_def)

lemma map_result_Inr: "map_result f xs = Inr ys \<Longrightarrow> list_all2 (\<lambda>x y. f x = Inr y) xs ys"
  by (induction xs arbitrary: ys) auto

lemma principal_of_cong: "m_key r = m_key r' \<Longrightarrow> m_cols r = m_cols r' \<Longrightarrow> principal_of gs r = principal_of gs r'"
  by (simp add: principal_of_def)

lemma push_key_snoc: "push_key sk (out @ [(sp, v, d)]) = out @ [(sp\<lparr>sp_keys := sp_keys sp @ [sk]\<rparr>, v, d)]"
  by (simp add: push_key_def)

lemma group_keys:
  "group_rows gs (Some (m_key r)) (out @ [(sp, v, d)]) (map (\<lambda>k. (r, Some k)) ks @ rows) =
     rbind (map_result try_key ks) (\<lambda>sks.
       group_rows gs (Some (m_key r)) (out @ [(sp\<lparr>sp_keys := sp_keys sp @ sks\<rparr>, v, d)]) rows)"
proof (induction ks arbitrary: sp)
  case Nil
  then show ?case by simp
next
  case (Cons k ks)
  show ?case
  proof (cases "try_key k")
    case (Inr sk)
    with Cons show ?thesis by (cases "map_result try_key ks") (simp_all add: push_key_snoc)
  qed simp
qed

lemma group_join:
  assumes "prev \<noteq> Some (m_key r)" "group_rows gs prev out (authority_join a r @ rows) = Inr res"
  obtains sp where "read_principal gs (m_key r) (m_cols r) (authority_keys_of (m_key r) a) = Inr sp"
    "group_rows gs (Some (m_key r)) (out @ [(sp, m_ts r, m_deleted r)]) rows = Inr res"
proof -
  let ?ks = "authority_keys_of (m_key r) a"
  have pr: "principal_of gs r = principal_of gs \<lparr>m_key = m_key r, m_cols = m_cols r, m_ts = ts_ZERO, m_deleted = False\<rparr>"
    by (rule principal_of_cong) simp_all
  from assms obtain sp where sp: "principal_of gs r = Inr sp"
    by (auto simp: authority_join_def split: list.splits)
  have "sp_keys sp = []" using sp by (auto simp: principal_of_def Let_def)
  then have sp': "sp\<lparr>sp_keys := sp_keys sp @ sks\<rparr> = sp\<lparr>sp_keys := sks\<rparr>" "sp\<lparr>sp_keys := []\<rparr> = sp" for sks by simp_all
  have "group_rows gs prev out (authority_join a r @ rows) =
      group_rows gs (Some (m_key r)) (out @ [(sp, m_ts r, m_deleted r)]) (map (\<lambda>k. (r, Some k)) ?ks @ rows)"
    using assms(1) sp by (cases ?ks) (simp_all add: authority_join_def)
  then have "rbind (map_result try_key ?ks) (\<lambda>sks.
      group_rows gs (Some (m_key r)) (out @ [(sp\<lparr>sp_keys := sks\<rparr>, m_ts r, m_deleted r)]) rows) = Inr res"
    using assms(2) by (simp add: group_keys sp')
  then obtain sks where "map_result try_key ?ks = Inr sks"
    "group_rows gs (Some (m_key r)) (out @ [(sp\<lparr>sp_keys := sks\<rparr>, m_ts r, m_deleted r)]) rows = Inr res" by auto
  then show thesis using sp pr by (intro that [of "sp\<lparr>sp_keys := sks\<rparr>"]) (simp_all add: read_principal_def)
qed

definition reads :: "(bytes \<Rightarrow> bool) \<Rightarrow> Authority \<Rightarrow> (bytes \<times> bytes, AuthPrincipal) mrow \<Rightarrow> PrincipalRow \<Rightarrow> bool" where
  "reads gs a r p \<longleftrightarrow> (case p of (sp, v, d) \<Rightarrow> v = m_ts r \<and> d = m_deleted r \<and>
     read_principal gs (m_key r) (m_cols r) (authority_keys_of (m_key r) a) = Inr sp)"

lemma group_all:
  assumes "distinct (map m_key rs)" "\<And>r. r \<in> set rs \<Longrightarrow> prev \<noteq> Some (m_key r)"
    "group_rows gs prev out (concat (map (authority_join a) rs)) = Inr res"
  shows "\<exists>ps. res = out @ ps \<and> list_all2 (reads gs a) rs ps"
  using assms
proof (induction rs arbitrary: prev out)
  case Nil
  then show ?case by simp
next
  case (Cons r rs)
  from Cons.prems have "prev \<noteq> Some (m_key r)" "group_rows gs prev out (authority_join a r @ concat (map (authority_join a) rs)) = Inr res"
    by auto
  then obtain sp where sp: "read_principal gs (m_key r) (m_cols r) (authority_keys_of (m_key r) a) = Inr sp"
    "group_rows gs (Some (m_key r)) (out @ [(sp, m_ts r, m_deleted r)]) (concat (map (authority_join a) rs)) = Inr res"
    by (rule group_join)
  from Cons.IH [OF _ _ sp(2)] Cons.prems(1) obtain ps where
    "res = (out @ [(sp, m_ts r, m_deleted r)]) @ ps" "list_all2 (reads gs a) rs ps" by force
  moreover have "reads gs a r (sp, m_ts r, m_deleted r)" using sp(1) by (simp add: reads_def)
  ultimately show ?case by (intro exI [of _ "(sp, m_ts r, m_deleted r) # ps"]) simp
qed

text \<open>\<open>stored_principals\<close> reads each selected principal once, with all its keys.\<close>

lemma stored_principals_reads:
  assumes "distinct (map m_key (a_principals a))" "stored_principals gs (principal_sql flt a) = Inr ps"
  shows "list_all2 (reads gs a) (sort_key m_key (filter flt (a_principals a))) ps"
proof -
  have "distinct (map m_key (sort_key m_key (filter flt (a_principals a))))"
    using assms(1) by (simp add: distinct_map distinct_map_filter inj_on_def)
  from group_all [OF this _ assms(2) [unfolded stored_principals_def principal_sql_def]] show ?thesis by auto
qed

section \<open>Changes are the entities of the view\<close>

lemma decode_canonical:
  assumes "canonical_key k" "decode_principal_key gs k nt = Inr n"
  shows "encode_principal_key n = Inr k" "name_type n = nt" "key_string n = k"
proof -
  from assms show e: "encode_principal_key n = Inr k"
    by (auto simp: decode_principal_key_def canonical_key_def encode_principal_key_def split: if_splits)
  from assms show "name_type n = nt" by (auto simp: decode_principal_key_def split: if_splits)
  from e show "key_string n = k" by (simp add: key_string_def)
qed

lemma read_principal_name:
  assumes "canonical_key (snd k)" "read_principal gs k cols ks = Inr sp"
  shows "sp_realm sp = fst k" "encode_principal_key (sp_name sp) = Inr (snd k)"
  using assms decode_canonical(1) [OF assms(1)] by (auto simp: read_principal_def principal_of_def Let_def)

lemma principal_change_entity:
  assumes "canonical_key (snd (m_key r))" "reads gs a r p"
  shows "change_entity gs (principal_change p) = (E_Principal (fst (m_key r)) (snd (m_key r)), m_ts r,
    if m_deleted r then None
    else Some (auth_content gs (E_Principal (fst (m_key r)) (snd (m_key r)))
      (AC_Principal (m_cols r) (authority_keys_of (m_key r) a))))"
proof -
  obtain sp where p: "p = (sp, m_ts r, m_deleted r)"
    and sp: "read_principal gs (m_key r) (m_cols r) (authority_keys_of (m_key r) a) = Inr sp"
    using assms(2) by (cases p) (auto simp: reads_def)
  from read_principal_name [OF assms(1) sp] sp show ?thesis by (simp add: p principal_change_def key_string_def)
qed

lemma policy_change_entity:
  assumes "policy_of r = Inr p"
  shows "change_entity gs (policy_change p) = (E_Policy (m_key r), m_ts r,
    if m_deleted r then None else Some (auth_content gs (E_Policy (m_key r)) (AC_Policy (m_cols r))))"
  using assms policy_from_row_name [of "m_key r" "m_cols r"] by (auto simp: policy_of_def policy_change_def)

lemma lockout_change_entity:
  assumes "canonical_key (snd (m_key r))" "lockout_of gs r = Inr p"
  shows "change_entity gs (lockout_change p) = (E_Lockout (fst (m_key r)) (snd (m_key r)), m_ts r,
    if m_deleted r then None
    else Some (auth_content gs (E_Lockout (fst (m_key r)) (snd (m_key r))) (AC_Lockout (m_cols r))))"
proof -
  from assms(2) obtain n where n: "decode_principal_key gs (snd (m_key r)) (lc_name_type (m_cols r)) = Inr n"
    and p: "p = (\<lparr>lo_realm = fst (m_key r), lo_name = n, lo_locked_at = lc_locked_at (m_cols r),
      lo_unlock_at = lc_unlock_at (m_cols r), lo_source_kdc = lc_source_kdc (m_cols r)\<rparr>, m_ts r, m_deleted r)"
    by (auto simp: lockout_of_def Let_def try_i32_def split: if_splits)
  from decode_canonical [OF assms(1) n] show ?thesis by (simp add: p lockout_change_def lockout_fields_def)
qed

lemma sort_filter_single:
  assumes "distinct (map m_key rows)"
  shows "sort_key m_key (filter (\<lambda>r. m_key r = k) rows) = (case mt_get k rows of None \<Rightarrow> [] | Some r \<Rightarrow> [r])"
proof -
  have "filter (\<lambda>r. m_key r = k) rows = (case mt_get k rows of None \<Rightarrow> [] | Some r \<Rightarrow> [r])"
    using assms
  proof (induction rows)
    case (Cons r rows)
    then have "m_key r = k \<Longrightarrow> mt_get k rows = None" by (auto simp: mt_get_None_iff)
    with Cons show ?case by auto
  qed simp
  then show ?thesis by (simp split: option.splits)
qed

lemma wf_canonical:
  "authority_wf a \<Longrightarrow> mt_get k (a_principals a) = Some r \<Longrightarrow> canonical_key (snd k) \<and> m_key r = k"
  "authority_wf a \<Longrightarrow> mt_get k (a_lockouts a) = Some r' \<Longrightarrow> canonical_key (snd k) \<and> m_key r' = k"
  by (auto simp: authority_wf_def list_all_iff dest!: mt_get_SomeD)

lemma materialize_row_entity:
  assumes wf: "authority_wf a" and l: "log_entity l = Some k" and row: "authority_view gs a k = Some (v, x)"
    and m: "materialize_row gs a l fb = Inr ch"
  shows "change_entity gs ch = (k, v, x)"
proof (cases k)
  case (E_Principal realm key)
  with l have l': "lg_entity l = ''principal''" "lg_realm l = realm" "lg_key l = key"
    by (auto simp: log_entity_def split: if_splits)
  from row E_Principal obtain r where r: "mt_get (realm, key) (a_principals a) = Some r" by (auto simp: authority_view_def)
  note can = wf_canonical(1) [OF wf r]
  have dist: "distinct (map m_key (a_principals a))" using wf by (simp add: authority_wf_def)
  from m l' obtain ps where ps: "stored_principals gs (principal_sql (\<lambda>r. m_key r = (realm, key)) a) = Inr ps"
    by (auto simp: materialize_row_def materialize_principal_def)
  from stored_principals_reads [OF dist ps] sort_filter_single [OF dist] r obtain p where p: "ps = [p]" "reads gs a r p"
    by (auto simp: list_all2_Cons1)
  then obtain sp where sp: "p = (sp, m_ts r, m_deleted r)" by (cases p) (auto simp: reads_def)
  have pc: "change_entity gs (principal_change p) = (k, v, x)"
    using principal_change_entity [OF _ p(2)] can row r E_Principal by (auto simp: authority_view_def)
  show ?thesis
  proof (cases "m_deleted r")
    case True
    with m l' ps p sp obtain n where n: "decode_principal_key gs key 1 = Inr n" and ch: "ch = DeletePrincipal realm n (m_ts r)"
      by (auto simp: materialize_row_def materialize_principal_def)
    with decode_canonical [OF _ n] can pc True sp E_Principal show ?thesis by (simp add: principal_change_def)
  next
    case False
    with m l' ps p sp pc show ?thesis
      by (simp add: materialize_row_def materialize_principal_def principal_change_def)
  qed
next
  case (E_Policy key)
  with l have l': "lg_entity l = ''policy''" "lg_key l = key" by (auto simp: log_entity_def split: if_splits)
  from row E_Policy obtain r where r: "mt_get key (a_policies a) = Some r" by (auto simp: authority_view_def)
  then have key: "m_key r = key" by (auto dest: mt_get_SomeD)
  from r obtain rs where sel: "mt_select key (a_policies a) = r # rs" by (auto simp: mt_get_def split: list.splits)
  with m l' obtain p where p: "policy_from_row (key, m_cols r) = Inr p"
    and ch: "ch = (if m_deleted r then DeletePolicy key (m_ts r) else UpsertPolicy p (m_ts r))"
    using key by (auto simp: materialize_row_def materialize_policy_def policy_of_def)
  then have "change_entity gs ch = change_entity gs (policy_change (p, m_ts r, m_deleted r))"
    using policy_from_row_name [OF p] by (simp add: policy_change_def)
  also have "\<dots> = (k, v, x)"
    using policy_change_entity [of r "(p, m_ts r, m_deleted r)" gs] p r row E_Policy key
    by (auto simp: policy_of_def authority_view_def)
  finally show ?thesis .
next
  case (E_Lockout realm key)
  with l have l': "lg_entity l = ''lockout''" "lg_realm l = realm" "lg_key l = key"
    by (auto simp: log_entity_def split: if_splits)
  from row E_Lockout obtain r where r: "mt_get (realm, key) (a_lockouts a) = Some r" by (auto simp: authority_view_def)
  note can = wf_canonical(2) [OF wf r]
  from r obtain rs where sel: "mt_select (realm, key) (a_lockouts a) = r # rs" by (auto simp: mt_get_def split: list.splits)
  with m l' obtain rec where rec: "lockout_of gs r = Inr (rec, m_ts r, m_deleted r)"
    by (auto simp: materialize_row_def materialize_lockout_def lockout_of_def Let_def)
  have pc: "change_entity gs (lockout_change (rec, m_ts r, m_deleted r)) = (k, v, x)"
    using lockout_change_entity [OF _ rec] can row r E_Lockout by (auto simp: authority_view_def)
  show ?thesis
  proof (cases "m_deleted r")
    case True
    with m l' sel rec obtain n where n: "decode_principal_key gs key 1 = Inr n" and ch: "ch = DeleteLockout realm n (m_ts r)"
      by (auto simp: materialize_row_def materialize_lockout_def)
    with decode_canonical [OF _ n] can pc True E_Lockout show ?thesis by (simp add: lockout_change_def)
  next
    case False
    with m l' sel rec pc show ?thesis by (simp add: materialize_row_def materialize_lockout_def lockout_change_def)
  qed
qed

definition log_triple :: "(bytes \<Rightarrow> bool) \<Rightarrow> Authority \<Rightarrow> LogRow \<Rightarrow> (Entity \<times> ReplicationTs \<times> Content option) \<Rightarrow> bool" where
  "log_triple gs a l = (\<lambda>(k, v, x). log_entity l = Some k \<and> authority_view gs a k = Some (v, x))"

lemma log_id_entity: "log_id l = log_id l' \<Longrightarrow> log_entity l = log_entity l'"
  by (simp add: log_id_def log_entity_def)

lemma materialize_loop_set:
  assumes wf: "authority_wf a" and "\<And>l. l \<in> set ls \<Longrightarrow> \<exists>p. log_triple gs a l p" and "materialize_loop gs a rows seen ls = Inr cs"
  shows "set (map (change_entity gs) cs) = {p. \<exists>l \<in> set ls. log_id l \<notin> set seen \<and> log_triple gs a l p}"
  using assms(2,3)
proof (induction ls arbitrary: seen cs)
  case Nil
  then show ?case by simp
next
  case (Cons l ls)
  show ?case
  proof (cases "log_id l \<in> set seen")
    case True
    with Cons.IH [of seen cs] Cons.prems show ?thesis by auto
  next
    case False
    with Cons.prems(2) obtain c cs' where c: "materialize_row gs a l (fallback_version rows l) = Inr c"
      "materialize_loop gs a rows (seen @ [log_id l]) ls = Inr cs'" "cs = c # cs'" by auto
    from Cons.prems(1) [of l] obtain k v x where t: "log_entity l = Some k" "authority_view gs a k = Some (v, x)"
      by (auto simp: log_triple_def)
    have one: "log_triple gs a l p \<longleftrightarrow> p = (k, v, x)" for p using t by (cases p) (auto simp: log_triple_def)
    have same: "log_triple gs a l' p \<longleftrightarrow> p = (k, v, x)" if "log_id l' = log_id l" for l' p
      using log_id_entity [OF that] one [of p] by (simp add: log_triple_def)
    have "{p. \<exists>l' \<in> set (l # ls). log_id l' \<notin> set seen \<and> log_triple gs a l' p} =
        insert (k, v, x) {p. \<exists>l' \<in> set ls. log_id l' \<notin> set (seen @ [log_id l]) \<and> log_triple gs a l' p}"
    proof (intro set_eqI iffI)
      fix p assume "p \<in> {p. \<exists>l' \<in> set (l # ls). log_id l' \<notin> set seen \<and> log_triple gs a l' p}"
      then obtain l' where l': "l' \<in> set (l # ls)" "log_id l' \<notin> set seen" "log_triple gs a l' p" by blast
      show "p \<in> insert (k, v, x) {p. \<exists>l' \<in> set ls. log_id l' \<notin> set (seen @ [log_id l]) \<and> log_triple gs a l' p}"
      proof (cases "log_id l' = log_id l")
        case True
        with same [OF True] l'(3) show ?thesis by simp
      next
        case False
        with l' have "l' \<in> set ls" "log_id l' \<notin> set (seen @ [log_id l])" by auto
        with l'(3) show ?thesis by blast
      qed
    next
      fix p assume "p \<in> insert (k, v, x) {p. \<exists>l' \<in> set ls. log_id l' \<notin> set (seen @ [log_id l]) \<and> log_triple gs a l' p}"
      with one False show "p \<in> {p. \<exists>l' \<in> set (l # ls). log_id l' \<notin> set seen \<and> log_triple gs a l' p}" by auto
    qed
    moreover have "set (map (change_entity gs) cs') =
        {p. \<exists>l' \<in> set ls. log_id l' \<notin> set (seen @ [log_id l]) \<and> log_triple gs a l' p}"
      using Cons.IH [OF _ c(2)] Cons.prems(1) by simp
    ultimately show ?thesis using c(3) materialize_row_entity [OF wf t c(1)] by simp
  qed
qed

lemma materialize_set:
  assumes wf: "authority_wf a" and "\<And>l. l \<in> set rows \<Longrightarrow> \<exists>p. log_triple gs a l p" and m: "materialize_changes gs rows a = Inr cs"
  shows "set (map (change_entity gs) cs) = {p. \<exists>l \<in> set rows. log_triple gs a l p}"
proof -
  from m obtain cs' where "materialize_loop gs a rows [] (rev rows) = Inr cs'" "cs = rev cs'" by (auto simp: materialize_changes_def)
  with materialize_loop_set [OF wf, of "rev rows" gs rows "[]" cs'] assms(2) show ?thesis by simp
qed

section \<open>Polling\<close>

text \<open>The log rows of an interval, at the state as of its end, name exactly the entities changed in it.\<close>

lemma log_names_changes:
  assumes ok: "state_ok m t a" and mark: "pruned_mark a \<le> since"
    and rows: "set rows = {l \<in> set (a_log a). since < lg_ts l}" and mat: "materialize_changes gs rows a = Inr cs"
  shows "set (map (change_entity gs) cs) = {(k, v, x). authority_view gs a k = Some (v, x) \<and> since < v}"
proof -
  have ex: "\<exists>k v x. log_entity l = Some k \<and> authority_view gs a k = Some (v, x) \<and> since < v" if "l \<in> set rows" for l
  proof -
    from that rows have l: "l \<in> set (a_log a)" "since < lg_ts l" by auto
    then have "pruned_mark a < lg_ts l" using mark by simp
    with state_okD(7) [OF ok l(1)] obtain k v d c where
      "log_entity l = Some k" "authority_row a k = Some (v, d, c)" "lg_ts l \<le> v" by blast
    with l(2) show ?thesis by (auto simp: authority_view_Some)
  qed
  have "set (map (change_entity gs) cs) = {p. \<exists>l \<in> set rows. log_triple gs a l p}"
    by (rule materialize_set [OF state_okD(1) [OF ok] _ mat]) (use ex in \<open>fastforce simp: log_triple_def\<close>)
  also have "\<dots> = {(k, v, x). authority_view gs a k = Some (v, x) \<and> since < v}"
  proof (intro set_eqI iffI)
    fix p assume "p \<in> {p. \<exists>l \<in> set rows. log_triple gs a l p}"
    then obtain l where "l \<in> set rows" "log_triple gs a l p" by blast
    with ex [of l] show "p \<in> {(k, v, x). authority_view gs a k = Some (v, x) \<and> since < v}"
      by (auto simp: log_triple_def)
  next
    fix p assume "p \<in> {(k, v, x). authority_view gs a k = Some (v, x) \<and> since < v}"
    then obtain k v x where p: "p = (k, v, x)" "authority_view gs a k = Some (v, x)" "since < v" by auto
    then obtain d c where row: "authority_row a k = Some (v, d, c)" by (auto simp: authority_view_Some)
    have "pruned_mark a < v" using mark p(3) by simp
    from state_okD(6) [OF ok row this] obtain l where "l \<in> set (a_log a)" "log_entity l = Some k" "lg_ts l = v" by blast
    with p rows show "p \<in> {p. \<exists>l \<in> set rows. log_triple gs a l p}" by (auto simp: log_triple_def)
  qed
  finally show ?thesis .
qed

lemma run_read_Inr:
  assumes "run_read left st aost body envs = (Inr x, envs')"
  obtains env where "body (read_ts aost env) (rd_now env) (st (read_ts aost env)) = Inr x"
  using assms
proof (induction left st aost body envs rule: run_read.induct)
  case (1 left st aost body envs)
  show ?case
  proof (cases "rd_fail (read_env envs)")
    case None
    with 1 show ?thesis by (subst (asm) (2) run_read.simps) (auto simp: Let_def)
  next
    case (Some f)
    with 1 show ?thesis
      by (cases f; cases left) (subst (asm) (2) run_read.simps, auto simp: Let_def)+
  qed
qed

declare run_read.simps [simp del]

lemma read_tx_Inr:
  assumes "read_tx mode st body envs = (Inr x, envs')"
  obtains ts now where "body ts now (st ts) = Inr x"
proof (cases mode)
  case Read_Present
  with assms show thesis by (auto simp: read_tx_def elim: run_read_Inr intro: that)
next
  case Read_Follower
  obtain r e1 where r: "run_read max_retries st Aost_Follower body envs = (r, e1)" by (metis surj_pair)
  show thesis
  proof (cases r)
    case (Inr y)
    with r assms Read_Follower have "run_read max_retries st Aost_Follower body envs = (Inr x, e1)" by (simp add: read_tx_def)
    then show thesis by (elim run_read_Inr) (rule that)
  next
    case (Inl e)
    with r assms Read_Follower have "run_read max_retries st Aost_Present body e1 = (Inr x, envs')"
      by (simp add: read_tx_def split: if_splits)
    then show thesis by (elim run_read_Inr) (rule that)
  qed
qed

lemma log_rows_set:
  "set (log_rows buckets since til a) =
     {l \<in> set (a_log a). fst buckets \<le> lg_bucket l \<and> lg_bucket l \<le> snd buckets \<and> since < lg_ts l \<and> lg_ts l \<le> til}"
  by (auto simp: log_rows_def)

lemma poll_rows_spec:
  assumes limit: "0 < limit" and p: "poll_rows limit buckets since u a = (rows, til, truncated)"
  shows "set rows = set (log_rows buckets since til a)" "til \<le> u" "\<not> truncated \<Longrightarrow> til = u"
    "truncated \<Longrightarrow> \<exists>l \<in> set (a_log a). lg_ts l = til \<and> since < til"
proof -
  let ?c = "take (nat (limit + 1)) (log_rows buckets since u a)"
  have all: "set rows = set (log_rows buckets since til a) \<and> til \<le> u \<and> (\<not> truncated \<longrightarrow> til = u) \<and>
    (truncated \<longrightarrow> (\<exists>l \<in> set (a_log a). lg_ts l = til \<and> since < til))"
  proof (cases "limit < int (length ?c)")
    case True
    let ?l = "?c ! nat (limit - 1)"
    have "nat (limit - 1) < length ?c" using True limit by linarith
    then have "?l \<in> set ?c" by (rule nth_mem)
    then have "?l \<in> set (log_rows buckets since u a)" by (rule in_set_takeD)
    then have l: "?l \<in> set (a_log a)" "since < lg_ts ?l" "lg_ts ?l \<le> u" by (auto simp: log_rows_set)
    from p True have "rows = log_rows buckets since til a" "truncated = (log_rows buckets (lg_ts ?l) u a \<noteq> [])"
      "til = (if truncated then lg_ts ?l else u)" by (auto simp: poll_rows_def Let_def split: if_splits)
    with l show ?thesis by auto
  next
    case False
    then have "length (log_rows buckets since u a) \<le> nat limit" using limit by (simp add: nat_add_distrib min_def split: if_splits)
    then have "?c = log_rows buckets since u a" using limit by (simp add: nat_add_distrib)
    with p False show ?thesis by (auto simp: poll_rows_def Let_def)
  qed
  then show "set rows = set (log_rows buckets since til a)" "til \<le> u" "\<not> truncated \<Longrightarrow> til = u"
    "truncated \<Longrightarrow> \<exists>l \<in> set (a_log a). lg_ts l = til \<and> since < til" by auto
qed

text \<open>The bucket range leaves no row of the interval out.\<close>

lemma scan_complete:
  assumes ok: "state_ok m t a" and w: "0 < me_bucket_width m" and "til \<le> u"
  shows "set (log_rows (scan_buckets since u (me_timeout_ms m) (me_bucket_width m)) since til a) =
    {l \<in> set (a_log a). since < lg_ts l \<and> lg_ts l \<le> til}"
proof -
  have "fst (scan_buckets since u (me_timeout_ms m) (me_bucket_width m)) \<le> lg_bucket l \<and>
      lg_bucket l \<le> snd (scan_buckets since u (me_timeout_ms m) (me_bucket_width m))"
    if l: "l \<in> set (a_log a)" "since < lg_ts l" "lg_ts l \<le> til" for l
  proof -
    have "bucket_of (me_bucket_width m) (sat_sub_i64 (wall_nanos since) (overlap_ns (me_timeout_ms m))) \<le>
        bucket_of (me_bucket_width m) (sat_sub_i64 (wall_nanos (lg_ts l)) (overlap_ns (me_timeout_ms m)))"
      using l(2) w by (intro bucket_mono sat_sub_mono wall_mono) auto
    moreover have "bucket_of (me_bucket_width m) (wall_nanos (lg_ts l)) \<le> bucket_of (me_bucket_width m) (wall_nanos u)"
      using l(3) \<open>til \<le> u\<close> w by (intro bucket_mono wall_mono) auto
    ultimately show ?thesis using state_okD(5) [OF ok l(1)] by (auto simp: bucket_in_def scan_buckets_def)
  qed
  then show ?thesis by (auto simp: log_rows_set)
qed

lemma evolves_carried:
  assumes "evolves since a b" "pruned_mark b \<le> since"
  shows "carried since (authority_view gs a) (authority_view gs b)"
  unfolding carried_def
proof (intro conjI allI impI)
  fix k v x assume "authority_view gs b k = Some (v, x) \<and> v \<le> since"
  then obtain d c where b: "authority_row b k = Some (v, d, c)" "v \<le> since" "x = (if d then None else Some (auth_content gs k c))"
    by (auto simp: authority_view_Some)
  from evolvesD(2) [OF assms(1) b(1,2)] b(3) show "authority_view gs a k = Some (v, x)" by (simp add: authority_view_def)
next
  fix k v c assume "authority_view gs a k = Some (v, Some c)"
  then obtain e where "authority_row a k = Some (v, False, e)" by (auto simp: authority_view_Some split: if_splits)
  from evolvesD(3) [OF assms(1) this assms(2)] show "authority_view gs b k \<noteq> None" by (simp add: authority_view_def)
qed

definition poll_good :: "(bytes \<Rightarrow> bool) \<Rightarrow> Meta \<Rightarrow> History \<Rightarrow> ReplicationTs \<Rightarrow> ReplicationTs \<Rightarrow> Change list \<Rightarrow> bool" where
  "poll_good gs m H since til cs \<longleftrightarrow> since \<le> til \<and>
     set (map (change_entity gs) cs) = {(k, v, x). authority_view gs (state_at m H til) k = Some (v, x) \<and> since < v} \<and>
     carried since (authority_view gs (state_at m H since)) (authority_view gs (state_at m H til))"

lemma authority_view_le: "state_ok m t a \<Longrightarrow> authority_view gs a k = Some (v, x) \<Longrightarrow> v \<le> t"
  by (auto simp: authority_view_Some dest: state_okD(3))

lemma poll_good_refl:
  assumes "history m H"
  shows "poll_good gs m H since since []"
proof -
  have "\<not> since < v" if "authority_view gs (state_at m H since) k = Some (v, x)" for k v x
    using authority_view_le [OF state_at_ok [OF assms] that] by simp
  then show ?thesis by (auto simp: poll_good_def carried_def)
qed

text \<open>The rows found as of \<open>u\<close> up to \<open>til\<close>, materialised as of \<open>til\<close>.\<close>

lemma poll_good_rows:
  assumes h: "history m H" and le: "since \<le> til" "til \<le> u" and mark: "pruned_mark (state_at m H u) \<le> since"
    and rows: "set rows = {l \<in> set (a_log (state_at m H u)). since < lg_ts l \<and> lg_ts l \<le> til}"
    and mat: "materialize_changes gs rows (state_at m H til) = Inr cs"
  shows "poll_good gs m H since til cs"
proof -
  note ev = history_evolves [OF h le(2)]
  have pm: "pruned_mark (state_at m H til) \<le> since" using evolvesD(1) [OF ev] mark by simp
  note ok = state_at_ok [OF h, of til]
  have "set rows = {l \<in> set (a_log (state_at m H til)). since < lg_ts l}"
  proof (intro set_eqI iffI)
    fix l assume "l \<in> set rows"
    then show "l \<in> {l \<in> set (a_log (state_at m H til)). since < lg_ts l}" using rows evolvesD(4) [OF ev, of l] by auto
  next
    fix l assume l: "l \<in> {l \<in> set (a_log (state_at m H til)). since < lg_ts l}"
    then have "lg_ts l \<le> til" using state_okD(4) [OF ok] by auto
    moreover have "pruned_mark (state_at m H u) < lg_ts l" using l mark by auto
    ultimately show "l \<in> set rows" using rows l evolvesD(5) [OF ev, of l] by auto
  qed
  from log_names_changes [OF ok pm this mat] evolves_carried [OF history_evolves [OF h le(1)] pm] le(1)
  show ?thesis by (simp add: poll_good_def)
qed

lemma clamp_limit_pos: "0 < clamp_limit n"
  by (auto simp: clamp_limit_def Let_def i64_max_def max_def)

text \<open>What the first read transaction of a poll finds at its timestamp \<open>u\<close>.\<close>

lemma poll_body_Inr:
  assumes h: "history m H" and b: "poll_body gs limit since u now (state_at m H u) = Inr rd" and limit: "0 < limit"
  shows "pr_truncated rd \<Longrightarrow> \<exists>l \<in> set (a_log (state_at m H u)). lg_ts l = pr_upto rd \<and> since < pr_upto rd"
    and "pr_materialization rd = Mat_Complete cs \<Longrightarrow> poll_good gs m H since (pr_upto rd) cs"
    and "pr_materialization rd = Mat_Truncated rows \<Longrightarrow> materialize_changes gs rows (state_at m H (pr_upto rd)) = Inr cs \<Longrightarrow>
      poll_good gs m H since (pr_upto rd) cs"
proof -
  let ?a = "state_at m H u"
  note ok = state_at_ok [OF h, of u]
  from state_okD(2) [OF ok] obtain q where q: "a_meta ?a = Some (m\<lparr>me_pruned_before := q\<rparr>)" by blast
  have w: "0 < me_bucket_width m" using history_meta [OF h] by (simp add: meta_ok_def)
  have all: "(pr_truncated rd \<longrightarrow> (\<exists>l \<in> set (a_log ?a). lg_ts l = pr_upto rd \<and> since < pr_upto rd)) \<and>
    (\<forall>cs. pr_materialization rd = Mat_Complete cs \<longrightarrow> poll_good gs m H since (pr_upto rd) cs) \<and>
    (\<forall>rows cs. pr_materialization rd = Mat_Truncated rows \<and> materialize_changes gs rows (state_at m H (pr_upto rd)) = Inr cs \<longrightarrow>
      poll_good gs m H since (pr_upto rd) cs)"
  proof (cases "u \<le> since")
    case True
    with b q have "rd = \<lparr>pr_upto = since, pr_materialization = Mat_Complete [], pr_source_now = now, pr_truncated = False\<rparr>"
      by (auto simp: poll_body_def split: if_splits)
    then show ?thesis by (simp add: poll_good_refl [OF h])
  next
    case False
    obtain rows til tr where pr: "poll_rows limit (scan_buckets since u (me_timeout_ms m) (me_bucket_width m)) since u ?a = (rows, til, tr)"
      by (metis prod_cases3)
    note spec = poll_rows_spec [OF limit pr]
    have mark: "pruned_mark ?a \<le> since" using b q by (auto simp: poll_body_def pruned_mark_def split: if_splits)
    have rows: "set rows = {l \<in> set (a_log ?a). since < lg_ts l \<and> lg_ts l \<le> til}"
      using spec(1) scan_complete [OF ok w spec(2)] by simp
    have le: "since \<le> til" using False spec(3,4) by (cases tr) auto
    note good = poll_good_rows [OF h le spec(2) mark rows]
    show ?thesis
    proof (cases tr)
      case True
      with b q False pr have "rd = \<lparr>pr_upto = til, pr_materialization = Mat_Truncated rows, pr_source_now = now, pr_truncated = True\<rparr>"
        by (auto simp: poll_body_def split: if_splits)
      with True spec(4) good show ?thesis by simp
    next
      case False
      with b q \<open>\<not> u \<le> since\<close> pr obtain cs where "materialize_changes gs rows ?a = Inr cs"
        "rd = \<lparr>pr_upto = til, pr_materialization = Mat_Complete cs, pr_source_now = now, pr_truncated = False\<rparr>"
        by (auto simp: poll_body_def split: if_splits)
      with False spec(3) good show ?thesis by simp
    qed
  qed
  then show "pr_truncated rd \<Longrightarrow> \<exists>l \<in> set (a_log ?a). lg_ts l = pr_upto rd \<and> since < pr_upto rd"
    "pr_materialization rd = Mat_Complete cs \<Longrightarrow> poll_good gs m H since (pr_upto rd) cs"
    "pr_materialization rd = Mat_Truncated rows \<Longrightarrow> materialize_changes gs rows (state_at m H (pr_upto rd)) = Inr cs \<Longrightarrow>
      poll_good gs m H since (pr_upto rd) cs" by blast+
qed

text \<open>How much of the log is still ahead of a checkpoint.\<close>

definition backlog :: "History \<Rightarrow> ReplicationTs \<Rightarrow> nat" where
  "backlog H t = length (filter (\<lambda>l. t < lg_ts l) (concat (map (a_log \<circ> snd) H)))"

lemma filter_length_less:
  assumes "\<And>x. x \<in> set xs \<Longrightarrow> Q x \<Longrightarrow> P x" "y \<in> set xs" "P y" "\<not> Q y"
  shows "length (filter Q xs) < length (filter P xs)"
proof -
  have "filter Q xs = filter Q (filter P xs)" using assms(1) by (induction xs) auto
  moreover have "length (filter Q (filter P xs)) < length (filter P xs)"
    by (rule length_filter_less [of y]) (use assms(2-4) in auto)
  ultimately show ?thesis by simp
qed

lemma state_at_log: "l \<in> set (a_log (state_at m H t)) \<Longrightarrow> l \<in> set (concat (map (a_log \<circ> snd) H))"
  by (induction H) (auto simp: initial_authority_def split: if_splits)

lemma backlog_less:
  assumes "l \<in> set (a_log (state_at m H u))" "lg_ts l = til" "since < til"
  shows "backlog H til < backlog H since"
  unfolding backlog_def
  by (rule filter_length_less [OF _ state_at_log [OF assms(1)]]) (use assms(2,3) in \<open>auto intro: order.strict_trans\<close>)

lemma authority_poll_ok:
  assumes h: "history m H" and p: "authority_poll gs mode (state_at m H) since limit envs = (Inr p, envs')"
  shows "poll_good gs m H since (cb_upto (po_batch p)) (cb_changes (po_batch p)) \<and>
    (po_truncated p \<longrightarrow> backlog H (cb_upto (po_batch p)) < backlog H since)"
proof -
  from p obtain rd e1 where rd: "read_tx mode (state_at m H) (poll_body gs (clamp_limit limit) since) envs = (Inr rd, e1)"
    by (auto simp: authority_poll_def split: prod.splits sum.splits)
  from read_tx_Inr [OF rd] obtain u now where b: "poll_body gs (clamp_limit limit) since u now (state_at m H u) = Inr rd" .
  note body = poll_body_Inr [OF h b clamp_limit_pos]
  have bl: "pr_truncated rd \<longrightarrow> backlog H (pr_upto rd) < backlog H since" using body(1) backlog_less by blast
  show ?thesis
  proof (cases "pr_materialization rd")
    case (Mat_Complete cs)
    with p rd body(2) [OF Mat_Complete] bl show ?thesis by (auto simp: authority_poll_def)
  next
    case (Mat_Truncated rows)
    with p rd obtain cs e2 where rr: "run_read max_retries (state_at m H) (Aost_At (pr_upto rd)) (\<lambda>_ _. materialize_changes gs rows) e1 = (Inr cs, e2)"
      and p': "p = \<lparr>po_batch = \<lparr>cb_upto = pr_upto rd, cb_changes = cs\<rparr>, po_source_now = pr_source_now rd, po_truncated = pr_truncated rd\<rparr>"
      by (auto simp: authority_poll_def split: prod.splits sum.splits)
    from run_read_Inr [OF rr] have "materialize_changes gs rows (state_at m H (pr_upto rd)) = Inr cs" by auto
    from body(3) [OF Mat_Truncated this] bl p' show ?thesis by simp
  qed
qed

end
