(* ===== verification/Authority_Snapshot.thy ===== *)
theory Authority_Snapshot
  imports Authority_Source
begin

text \<open>
  The pages of a snapshot: together they deliver the data as of the snapshot's timestamp. With
  \<open>authority_poll_ok\<close> this makes the authoritative database a \<open>replication_source\<close>.
\<close>

section \<open>Pages of a table\<close>

lemma page_rows_set:
  "set (page_rows p cur rows) = {r \<in> set rows. cur < m_key r \<and> (\<not> m_deleted r \<or> p \<le> m_ts r)}"
  by (auto simp: page_rows_def)

lemma page_rows_sorted: "sorted (map m_key (page_rows p cur rows))"
  by (simp add: page_rows_def)

lemma page_rows_distinct: "distinct (map m_key rows) \<Longrightarrow> distinct (map m_key (page_rows p cur rows))"
  by (simp add: page_rows_def distinct_map inj_on_def)

lemma page_rows_length: "length (page_rows p cur rows) \<le> length rows"
  by (simp add: page_rows_def)

text \<open>A page and the rows after its last key are the rows after the cursor.\<close>

lemma page_split:
  assumes dist: "distinct (map m_key rows)" and page: "page = take n (page_rows p cur rows)" "page \<noteq> []"
  shows "set (page_rows p cur rows) = set page \<union> set (page_rows p (m_key (last page)) rows)"
    and "length (page_rows p (m_key (last page)) rows) < length (page_rows p cur rows)"
proof -
  let ?xs = "page_rows p cur rows" and ?c = "m_key (last page)"
  have "last page \<in> set page" using page(2) by simp
  then have lx: "last page \<in> set ?xs" using page(1) by (metis in_set_takeD)
  then have cur: "cur < ?c" by (simp add: page_rows_set)
  have split: "map m_key ?xs = map m_key page @ map m_key (drop n ?xs)" using page(1) by (metis append_take_drop_id map_append)
  have "?c \<in> set (map m_key page)" using page(2) by simp
  then have after: "?c < m_key r" if "r \<in> set (drop n ?xs)" for r
  proof -
    have "m_key r \<in> set (map m_key (drop n ?xs))" using that by simp
    with split page_rows_sorted [of p cur rows] page_rows_distinct [OF dist, of p cur] \<open>?c \<in> set (map m_key page)\<close>
    show ?thesis by (auto simp: sorted_append less_le simp del: set_map)
  qed
  show "set ?xs = set page \<union> set (page_rows p ?c rows)"
  proof (intro set_eqI iffI)
    fix r assume r: "r \<in> set ?xs"
    then have "r \<in> set page \<or> r \<in> set (drop n ?xs)" using page(1) by (metis Un_iff append_take_drop_id set_append)
    then show "r \<in> set page \<union> set (page_rows p ?c rows)" using after r by (auto simp: page_rows_set)
  next
    fix r assume "r \<in> set page \<union> set (page_rows p ?c rows)"
    then show "r \<in> set ?xs" using page(1) cur by (auto simp: page_rows_set dest: in_set_takeD order.strict_trans)
  qed
  have "length (page_rows p ?c rows) = length (filter (\<lambda>r. ?c < m_key r \<and> (\<not> m_deleted r \<or> p \<le> m_ts r)) rows)"
    "length ?xs = length (filter (\<lambda>r. cur < m_key r \<and> (\<not> m_deleted r \<or> p \<le> m_ts r)) rows)"
    by (simp_all add: page_rows_def)
  then show "length (page_rows p ?c rows) < length ?xs"
    using lx cur by (auto simp: page_rows_set intro!: filter_length_less [of rows _ _ "last page"] dest: order.strict_trans)
qed

lemma page_selected:
  assumes dist: "distinct (map m_key rows)" and page: "page = take n (page_rows p cur rows)"
  shows "sort_key m_key (filter (\<lambda>r. m_key r \<in> set (map m_key page)) rows) = page"
proof (rule map_sorted_distinct_set_unique [where f = m_key])
  have sub: "set page \<subseteq> set rows" using page by (auto simp: page_rows_set dest: in_set_takeD)
  have inj: "inj_on m_key (set rows)" using dist by (simp add: distinct_map)
  show "set (sort_key m_key (filter (\<lambda>r. m_key r \<in> set (map m_key page)) rows)) = set page"
    using sub inj by (auto dest: inj_onD)
  show "inj_on m_key (set (sort_key m_key (filter (\<lambda>r. m_key r \<in> set (map m_key page)) rows)) \<union> set page)"
    by (rule inj_on_subset [OF inj]) (use sub in auto)
  show "distinct (map m_key (sort_key m_key (filter (\<lambda>r. m_key r \<in> set (map m_key page)) rows)))"
    using dist by (simp add: distinct_map inj_on_def)
  show "sorted (map m_key page)" "distinct (map m_key page)"
    using page page_rows_sorted [of p cur rows] page_rows_distinct [OF dist, of p cur]
    by (simp_all add: sorted_wrt_take flip: take_map)
qed simp

section \<open>What is still to be delivered\<close>

definition principal_triple :: "(bytes \<Rightarrow> bool) \<Rightarrow> Authority \<Rightarrow> (bytes \<times> bytes, AuthPrincipal) mrow \<Rightarrow> Entity \<times> ReplicationTs \<times> Content option" where
  "principal_triple gs a r = (E_Principal (fst (m_key r)) (snd (m_key r)), m_ts r,
    if m_deleted r then None
    else Some (auth_content gs (E_Principal (fst (m_key r)) (snd (m_key r)))
      (AC_Principal (m_cols r) (authority_keys_of (m_key r) a))))"

definition policy_triple :: "(bytes \<Rightarrow> bool) \<Rightarrow> (bytes, PolicyCols) mrow \<Rightarrow> Entity \<times> ReplicationTs \<times> Content option" where
  "policy_triple gs r = (E_Policy (m_key r), m_ts r,
    if m_deleted r then None else Some (auth_content gs (E_Policy (m_key r)) (AC_Policy (m_cols r))))"

definition lockout_triple :: "(bytes \<Rightarrow> bool) \<Rightarrow> (bytes \<times> bytes, LockoutCols) mrow \<Rightarrow> Entity \<times> ReplicationTs \<times> Content option" where
  "lockout_triple gs r = (E_Lockout (fst (m_key r)) (snd (m_key r)), m_ts r,
    if m_deleted r then None
    else Some (auth_content gs (E_Lockout (fst (m_key r)) (snd (m_key r))) (AC_Lockout (m_cols r))))"

definition snap_todo ::
  "(bytes \<Rightarrow> bool) \<Rightarrow> (ReplicationTs \<Rightarrow> Authority) \<Rightarrow> CockroachSnapshot \<Rightarrow> (Entity \<times> ReplicationTs \<times> Content option) set" where
  "snap_todo gs st n =
     (let a = st (sn_ts n); p = sn_pruned_before n; cur = sn_cursor n;
          policies = (\<lambda>c. policy_triple gs ` set (page_rows p c (a_policies a)));
          lockouts = (\<lambda>c. lockout_triple gs ` set (page_rows p c (a_lockouts a)))
      in case sn_stage n of
        Stage_Principals \<Rightarrow> principal_triple gs a ` set (page_rows p cur (a_principals a)) \<union> policies [] \<union> lockouts ([], [])
      | Stage_Policies \<Rightarrow> policies (fst cur) \<union> lockouts ([], [])
      | Stage_Lockouts \<Rightarrow> lockouts cur
      | Stage_Done \<Rightarrow> {})"

definition snap_left :: "(ReplicationTs \<Rightarrow> Authority) \<Rightarrow> CockroachSnapshot \<Rightarrow> nat" where
  "snap_left st n =
     (let a = st (sn_ts n); p = sn_pruned_before n; cur = sn_cursor n;
          policies = (\<lambda>c. length (page_rows p c (a_policies a)));
          lockouts = (\<lambda>c. length (page_rows p c (a_lockouts a)))
      in case sn_stage n of
        Stage_Principals \<Rightarrow> length (page_rows p cur (a_principals a)) + policies [] + lockouts ([], [])
      | Stage_Policies \<Rightarrow> policies (fst cur) + lockouts ([], [])
      | Stage_Lockouts \<Rightarrow> lockouts cur
      | Stage_Done \<Rightarrow> 0)"

lemma view_triples:
  assumes "authority_wf a"
  shows "{(k, v, x). authority_view gs a k = Some (v, x)} =
    principal_triple gs a ` set (a_principals a) \<union> policy_triple gs ` set (a_policies a) \<union> lockout_triple gs ` set (a_lockouts a)"
proof (intro set_eqI iffI)
  fix t assume "t \<in> {(k, v, x). authority_view gs a k = Some (v, x)}"
  then obtain k v x where t: "t = (k, v, x)" "authority_view gs a k = Some (v, x)" by auto
  show "t \<in> principal_triple gs a ` set (a_principals a) \<union> policy_triple gs ` set (a_policies a) \<union> lockout_triple gs ` set (a_lockouts a)"
  proof (cases k)
    case (E_Principal realm key)
    with t obtain r where r: "mt_get (realm, key) (a_principals a) = Some r" by (auto simp: authority_view_def)
    with mt_get_SomeD [OF r] t E_Principal have "t = principal_triple gs a r" "r \<in> set (a_principals a)"
      by (auto simp: authority_view_def principal_triple_def)
    then show ?thesis by blast
  next
    case (E_Policy key)
    with t obtain r where r: "mt_get key (a_policies a) = Some r" by (auto simp: authority_view_def)
    with mt_get_SomeD [OF r] t E_Policy have "t = policy_triple gs r" "r \<in> set (a_policies a)"
      by (auto simp: authority_view_def policy_triple_def)
    then show ?thesis by blast
  next
    case (E_Lockout realm key)
    with t obtain r where r: "mt_get (realm, key) (a_lockouts a) = Some r" by (auto simp: authority_view_def)
    with mt_get_SomeD [OF r] t E_Lockout have "t = lockout_triple gs r" "r \<in> set (a_lockouts a)"
      by (auto simp: authority_view_def lockout_triple_def)
    then show ?thesis by blast
  qed
next
  have dist: "distinct (map m_key (a_principals a))" "distinct (map m_key (a_policies a))" "distinct (map m_key (a_lockouts a))"
    using assms by (simp_all add: authority_wf_def)
  fix t assume "t \<in> principal_triple gs a ` set (a_principals a) \<union> policy_triple gs ` set (a_policies a) \<union> lockout_triple gs ` set (a_lockouts a)"
  then consider (p) r where "r \<in> set (a_principals a)" "t = principal_triple gs a r"
    | (o) r where "r \<in> set (a_policies a)" "t = policy_triple gs r"
    | (l) r where "r \<in> set (a_lockouts a)" "t = lockout_triple gs r" by blast
  then show "t \<in> {(k, v, x). authority_view gs a k = Some (v, x)}"
  proof cases
    case p
    with mt_get_distinct [OF dist(1) p(1)] show ?thesis by (simp add: authority_view_def principal_triple_def)
  next
    case o
    with mt_get_distinct [OF dist(2) o(1)] show ?thesis by (simp add: authority_view_def policy_triple_def)
  next
    case l
    with mt_get_distinct [OF dist(3) l(1)] show ?thesis by (simp add: authority_view_def lockout_triple_def)
  qed
qed

section \<open>The rounds\<close>

lemma db_rows_Inr: "db_rows st (Aost_At t) q envs = (Inr x, envs') \<Longrightarrow> x = q (st t)"
  by (auto simp: db_rows_def Let_def split: option.splits DbFailure.splits)

lemma next_stage_simps [simp]:
  "sn_ts (next_stage s n) = sn_ts n" "sn_pruned_before (next_stage s n) = sn_pruned_before n"
  "sn_stage (next_stage s n) = s" "sn_cursor (next_stage s n) = ([], [])"
  by (simp_all add: next_stage_def)

lemma list_all2_map_eq: "list_all2 (\<lambda>x y. g y = f x) xs ys \<Longrightarrow> map g ys = map f xs"
  by (induction rule: list_all2_induct) simp_all

lemma reads_length: "list_all2 P xs ys \<Longrightarrow> ys = [] \<longleftrightarrow> xs = []"
  by (auto dest: list_all2_lengthD)

lemma list_all2_last: "list_all2 P xs ys \<Longrightarrow> xs \<noteq> [] \<Longrightarrow> P (last xs) (last ys)"
  by (induction rule: list_all2_induct) (auto dest: list_all2_lengthD)

lemma principals_page_reads:
  assumes wf: "authority_wf a" and ps: "stored_principals gs (principals_page gs n a) = Inr ps"
  shows "list_all2 (reads gs a) (take snapshot_page (page_rows (sn_pruned_before n) (sn_cursor n) (a_principals a))) ps"
proof -
  let ?page = "take snapshot_page (page_rows (sn_pruned_before n) (sn_cursor n) (a_principals a))"
  have dist: "distinct (map m_key (a_principals a))" using wf by (simp add: authority_wf_def)
  from stored_principals_reads [OF dist ps [unfolded principals_page_def Let_def]] page_selected [OF dist refl]
  show ?thesis by simp
qed

lemma principals_changes:
  assumes wf: "authority_wf a" and "list_all2 (reads gs a) page ps" and sub: "set page \<subseteq> set (a_principals a)"
  shows "map (change_entity gs) (map principal_change ps) = map (principal_triple gs a) page"
proof -
  have "list_all2 (\<lambda>r p. change_entity gs (principal_change p) = principal_triple gs a r) page ps"
  proof (rule list.rel_mono_strong)
    show "list_all2 (reads gs a) page ps" by fact
    fix r p assume "r \<in> set page" "p \<in> set ps" and rd: "reads gs a r p"
    with sub wf have "canonical_key (snd (m_key r))" by (auto simp: authority_wf_def list_all_iff)
    from principal_change_entity [OF this rd] show "change_entity gs (principal_change p) = principal_triple gs a r"
      by (simp add: principal_triple_def)
  qed
  from list_all2_map_eq [OF this] show ?thesis by (simp add: comp_def)
qed

definition round_law ::
  "(bytes \<Rightarrow> bool) \<Rightarrow> (ReplicationTs \<Rightarrow> Authority) \<Rightarrow> CockroachSnapshot \<Rightarrow> (StoreError + Change list option) option \<Rightarrow>
   CockroachSnapshot \<Rightarrow> bool" where
  "round_law gs st n r n' \<longleftrightarrow> sn_ts n' = sn_ts n \<and>
     (r = None \<longrightarrow> snap_todo gs st n' = snap_todo gs st n \<and> snap_left st n' = snap_left st n) \<and>
     (\<forall>page. r = Some (Inr (Some page)) \<longrightarrow>
        snap_todo gs st n = set (map (change_entity gs) page) \<union> snap_todo gs st n' \<and> snap_left st n' < snap_left st n) \<and>
     (r = Some (Inr None) \<longrightarrow> snap_todo gs st n = {})"

lemma round_law_page:
  assumes "r = Some (Inr (Some page))" "set (map (change_entity gs) page) = S"
    and "snap_todo gs st n = S \<union> snap_todo gs st n'" "snap_left st n' < snap_left st n" "sn_ts n' = sn_ts n"
  shows "round_law gs st n r n'"
  using assms by (auto simp: round_law_def)

lemma round_principals:
  assumes wf: "authority_wf (st (sn_ts n))" and stage: "sn_stage n = Stage_Principals" and r: "page_round gs st n envs = (r, n', envs')"
  shows "round_law gs st n r n'"
proof -
  let ?a = "st (sn_ts n)" and ?p = "sn_pruned_before n"
  let ?page = "take snapshot_page (page_rows ?p (sn_cursor n) (a_principals ?a))"
  obtain q e1 where q: "db_rows st (Aost_At (sn_ts n)) (principals_page gs n) envs = (q, e1)" by (metis surj_pair)
  have err: "round_law gs st n r n'" if "r = Some (Inl e)" "n' = n" for e using that by (simp add: round_law_def)
  show ?thesis
  proof (cases q)
    case (Inl e)
    with r stage q show ?thesis by (intro err [of e]) (simp_all add: page_round_def)
  next
    case (Inr rows)
    with q have rows: "rows = principals_page gs n ?a" by (auto dest: db_rows_Inr)
    show ?thesis
    proof (cases "stored_principals gs rows")
      case (Inl e)
      with r stage q Inr show ?thesis by (intro err [of e]) (simp_all add: page_round_def)
    next
      case (Inr ps)
      note rd = principals_page_reads [OF wf Inr [unfolded rows]]
      have dist: "distinct (map m_key (a_principals ?a))" using wf by (simp add: authority_wf_def)
      have sub: "set ?page \<subseteq> set (a_principals ?a)" by (auto simp: page_rows_set dest: in_set_takeD)
      show ?thesis
      proof (cases "ps = []")
        case True
        then have "page_rows ?p (sn_cursor n) (a_principals ?a) = []" using reads_length [OF rd] by (simp add: snapshot_page_def)
        with True r stage q \<open>q = Inr rows\<close> Inr show ?thesis
          by (auto simp: page_round_def round_law_def snap_todo_def snap_left_def)
      next
        case False
        then have pne: "?page \<noteq> []" using reads_length [OF rd] by simp
        have "reads gs ?a (last ?page) (last ps)"
          by (rule list_all2_last [OF rd pne])
        then obtain sp where sp: "fst (last ps) = sp"
          "read_principal gs (m_key (last ?page)) (m_cols (last ?page)) (authority_keys_of (m_key (last ?page)) ?a) = Inr sp"
          by (cases "last ps") (auto simp: reads_def)
        have "last ?page \<in> set (a_principals ?a)" using pne sub last_in_set by blast
        then have "canonical_key (snd (m_key (last ?page)))" using wf by (auto simp: authority_wf_def list_all_iff)
        note nm = read_principal_name [OF this sp(2)]
        have r': "r = Some (Inr (Some (map principal_change ps)))" "n' = n\<lparr>sn_cursor := m_key (last ?page)\<rparr>"
          using r stage q \<open>q = Inr rows\<close> Inr False sp(1) nm by (auto simp: page_round_def Let_def split: list.splits)
        have ch: "set (map (change_entity gs) (map principal_change ps)) = principal_triple gs ?a ` set ?page"
          using principals_changes [OF wf rd sub] by (metis set_map)
        show ?thesis
        proof (rule round_law_page [OF r'(1) ch])
          show "snap_todo gs st n = principal_triple gs ?a ` set ?page \<union> snap_todo gs st n'"
            using page_split(1) [OF dist refl pne] r'(2) stage by (simp add: snap_todo_def Let_def image_Un Un_assoc)
          show "snap_left st n' < snap_left st n"
            using page_split(2) [OF dist refl pne] r'(2) stage by (simp add: snap_left_def Let_def)
        qed (simp add: r'(2))
      qed
    qed
  qed
qed

lemma policies_changes:
  assumes "map_result policy_of page = Inr ps"
  shows "set (map (change_entity gs) (map policy_change ps)) = policy_triple gs ` set page"
proof -
  have "list_all2 (\<lambda>r p. change_entity gs (policy_change p) = policy_triple gs r) page ps"
    by (rule list.rel_mono_strong [OF map_result_Inr [OF assms]]) (simp add: policy_change_entity policy_triple_def)
  from list_all2_map_eq [OF this] have "map (change_entity gs) (map policy_change ps) = map (policy_triple gs) page"
    by (simp add: comp_def)
  then show ?thesis by (metis set_map)
qed

lemma lockouts_changes:
  assumes wf: "authority_wf a" and sub: "set page \<subseteq> set (a_lockouts a)" and m: "map_result (lockout_of gs) page = Inr ps"
  shows "set (map (change_entity gs) (map lockout_change ps)) = lockout_triple gs ` set page"
proof -
  have "list_all2 (\<lambda>r p. change_entity gs (lockout_change p) = lockout_triple gs r) page ps"
  proof (rule list.rel_mono_strong [OF map_result_Inr [OF m]])
    fix r p assume "r \<in> set page" "p \<in> set ps" and rd: "lockout_of gs r = Inr p"
    with sub wf have "canonical_key (snd (m_key r))" by (auto simp: authority_wf_def list_all_iff)
    from lockout_change_entity [OF this rd] show "change_entity gs (lockout_change p) = lockout_triple gs r"
      by (simp add: lockout_triple_def)
  qed
  from list_all2_map_eq [OF this] have "map (change_entity gs) (map lockout_change ps) = map (lockout_triple gs) page"
    by (simp add: comp_def)
  then show ?thesis by (metis set_map)
qed

lemma round_law_err: "sn_ts n' = sn_ts n \<Longrightarrow> round_law gs st n (Some (Inl e)) n'"
  by (simp add: round_law_def)

lemma round_policies:
  assumes wf: "authority_wf (st (sn_ts n))" and stage: "sn_stage n = Stage_Policies" and r: "page_round gs st n envs = (r, n', envs')"
  shows "round_law gs st n r n'"
proof -
  let ?a = "st (sn_ts n)" and ?p = "sn_pruned_before n"
  let ?q = "\<lambda>a. take snapshot_page (page_rows ?p (fst (sn_cursor n)) (a_policies a))"
  obtain q e1 where q: "db_rows st (Aost_At (sn_ts n)) ?q envs = (q, e1)" by (metis surj_pair)
  show ?thesis
  proof (cases q)
    case (Inl e)
    with r stage q have "r = Some (Inl e)" "n' = n" by (simp_all add: page_round_def)
    then show ?thesis by (simp add: round_law_err)
  next
    case (Inr page)
    with q have page: "page = ?q ?a" by (auto dest: db_rows_Inr)
    have dist: "distinct (map m_key (a_policies ?a))" using wf by (simp add: authority_wf_def)
    show ?thesis
    proof (cases "page = []")
      case True
      then have "page_rows ?p (fst (sn_cursor n)) (a_policies ?a) = []" using page by (simp add: snapshot_page_def)
      with True r stage q Inr show ?thesis by (auto simp: page_round_def round_law_def snap_todo_def snap_left_def)
    next
      case False
      let ?n = "n\<lparr>sn_cursor := (m_key (last page), [])\<rparr>"
      have n': "n' = ?n" and rr: "r = Some (case map_result policy_of page of Inl e \<Rightarrow> Inl e | Inr ps \<Rightarrow> Inr (Some (map policy_change ps)))"
        using r stage q Inr False by (auto simp: page_round_def Let_def split: list.splits sum.splits)
      show ?thesis
      proof (cases "map_result policy_of page")
        case (Inl e)
        with n' rr show ?thesis by (simp add: round_law_err)
      next
        case (Inr ps)
        show ?thesis
        proof (rule round_law_page [OF _ policies_changes [OF Inr]])
          show "snap_todo gs st n = policy_triple gs ` set page \<union> snap_todo gs st n'"
            using page_split(1) [OF dist page False] n' stage by (simp add: snap_todo_def Let_def image_Un Un_assoc)
          show "snap_left st n' < snap_left st n"
            using page_split(2) [OF dist page False] n' stage by (simp add: snap_left_def Let_def)
        qed (simp_all add: n' rr Inr)
      qed
    qed
  qed
qed

lemma round_lockouts:
  assumes wf: "authority_wf (st (sn_ts n))" and stage: "sn_stage n = Stage_Lockouts" and r: "page_round gs st n envs = (r, n', envs')"
  shows "round_law gs st n r n'"
proof -
  let ?a = "st (sn_ts n)" and ?p = "sn_pruned_before n"
  let ?q = "\<lambda>a. take snapshot_page (page_rows ?p (sn_cursor n) (a_lockouts a))"
  obtain q e1 where q: "db_rows st (Aost_At (sn_ts n)) ?q envs = (q, e1)" by (metis surj_pair)
  show ?thesis
  proof (cases q)
    case (Inl e)
    with r stage q have "r = Some (Inl e)" "n' = n" by (simp_all add: page_round_def)
    then show ?thesis by (simp add: round_law_err)
  next
    case (Inr page)
    with q have page: "page = ?q ?a" by (auto dest: db_rows_Inr)
    have dist: "distinct (map m_key (a_lockouts ?a))" using wf by (simp add: authority_wf_def)
    have sub: "set page \<subseteq> set (a_lockouts ?a)" by (auto simp: page page_rows_set dest: in_set_takeD)
    show ?thesis
    proof (cases "page = []")
      case True
      then have "page_rows ?p (sn_cursor n) (a_lockouts ?a) = []" using page by (simp add: snapshot_page_def)
      with True r stage q Inr show ?thesis by (auto simp: page_round_def round_law_def snap_todo_def snap_left_def)
    next
      case False
      let ?n = "n\<lparr>sn_cursor := m_key (last page)\<rparr>"
      have n': "n' = ?n" and rr: "r = Some (case map_result (lockout_of gs) page of Inl e \<Rightarrow> Inl e | Inr ps \<Rightarrow> Inr (Some (map lockout_change ps)))"
        using r stage q Inr False by (auto simp: page_round_def Let_def split: list.splits sum.splits)
      show ?thesis
      proof (cases "map_result (lockout_of gs) page")
        case (Inl e)
        with n' rr show ?thesis by (simp add: round_law_err)
      next
        case (Inr ps)
        show ?thesis
        proof (rule round_law_page [OF _ lockouts_changes [OF wf sub Inr]])
          show "snap_todo gs st n = lockout_triple gs ` set page \<union> snap_todo gs st n'"
            using page_split(1) [OF dist page False] n' stage by (simp add: snap_todo_def Let_def image_Un Un_assoc)
          show "snap_left st n' < snap_left st n"
            using page_split(2) [OF dist page False] n' stage by (simp add: snap_left_def Let_def)
        qed (simp_all add: n' rr Inr)
      qed
    qed
  qed
qed

lemma page_round_law:
  assumes "authority_wf (st (sn_ts n))" "page_round gs st n envs = (r, n', envs')"
  shows "round_law gs st n r n'"
proof (cases "sn_stage n")
  case Stage_Done
  with assms show ?thesis by (auto simp: page_round_def round_law_def snap_todo_def)
next
  case Stage_Principals
  from round_principals [OF assms(1) this assms(2)] show ?thesis .
next
  case Stage_Policies
  from round_policies [OF assms(1) this assms(2)] show ?thesis .
next
  case Stage_Lockouts
  from round_lockouts [OF assms(1) this assms(2)] show ?thesis .
qed

lemma next_page_law:
  assumes "authority_wf (st (sn_ts n))" "authority_next_page gs st n envs = (r, n', envs')"
  shows "round_law gs st n (Some r) n'"
  using assms
proof (induction gs st n envs rule: authority_next_page.induct)
  case (1 gs st n envs)
  obtain r1 n1 e1 where pr: "page_round gs st n envs = (r1, n1, e1)" by (metis prod_cases3)
  note law = page_round_law [OF 1(2) pr]
  show ?case
  proof (cases r1)
    case None
    with pr 1(3) have nx: "authority_next_page gs st n1 e1 = (r, n', envs')" by (simp add: authority_next_page.simps [of gs st n])
    have "sn_ts n1 = sn_ts n" "snap_todo gs st n1 = snap_todo gs st n" "snap_left st n1 = snap_left st n"
      using law None by (simp_all add: round_law_def)
    moreover from this have "round_law gs st n1 (Some r) n'" using 1(1) [OF pr [symmetric] None refl _ nx] 1(2) by simp
    ultimately show ?thesis by (simp add: round_law_def)
  next
    case (Some x)
    with pr 1(3) have "x = r" "n1 = n'" by (simp_all add: authority_next_page.simps [of gs st n])
    with law Some show ?thesis by simp
  qed
qed

lemma name_pos: "k \<noteq> [] \<Longrightarrow> [] < (k :: bytes)"
  by (auto simp: neq_Nil_conv)

lemma key_pos: "k \<noteq> ([], []) \<Longrightarrow> ([], []) < (k :: bytes \<times> bytes)"
  by (cases k) (auto simp: less_prod_def name_pos)

lemma authority_snapshot_ok:
  assumes h: "history m H" and s: "authority_snapshot mode (state_at m H) envs = (Inr n, envs')"
  shows "snap_todo gs (state_at m H) n \<subseteq> {(k, v, x). authority_view gs (state_at m H (sn_ts n)) k = Some (v, x)}"
    and "authority_view gs (state_at m H (sn_ts n)) k = Some (v, Some c) \<Longrightarrow> (k, v, Some c) \<in> snap_todo gs (state_at m H) n"
proof -
  from s obtain ts now where b: "(case a_meta (state_at m H ts) of None \<Rightarrow> Inl (se_unavailable ''query returned an unexpected number of rows'')
     | Some q \<Rightarrow> Inr \<lparr>sn_ts = ts, sn_source_now = now, sn_pruned_before = me_pruned_before q, sn_stage = Stage_Principals,
         sn_cursor = ([], [])\<rparr>) = Inr n"
    unfolding authority_snapshot_def by (rule read_tx_Inr)
  then have n: "sn_stage n = Stage_Principals" "sn_cursor n = ([], [])" by (auto split: option.splits)
  let ?a = "state_at m H (sn_ts n)"
  have wf: "authority_wf ?a" by (rule state_okD(1) [OF state_at_ok [OF h]])
  have todo: "snap_todo gs (state_at m H) n = principal_triple gs ?a ` set (page_rows (sn_pruned_before n) ([], []) (a_principals ?a)) \<union>
      policy_triple gs ` set (page_rows (sn_pruned_before n) [] (a_policies ?a)) \<union>
      lockout_triple gs ` set (page_rows (sn_pruned_before n) ([], []) (a_lockouts ?a))"
    using n by (simp add: snap_todo_def Let_def)
  show "snap_todo gs (state_at m H) n \<subseteq> {(k, v, x). authority_view gs ?a k = Some (v, x)}"
    unfolding todo view_triples [OF wf] by (auto simp: page_rows_set)
  have first: "([], []) < m_key r" if "r \<in> set (a_principals ?a)" for r
    using wf that by (intro key_pos) (auto simp: authority_wf_def list_all_iff)
  have second: "[] < m_key r" if "r \<in> set (a_policies ?a)" for r
    using wf that by (intro name_pos) (auto simp: authority_wf_def list_all_iff)
  have third: "([], []) < m_key r" if "r \<in> set (a_lockouts ?a)" for r
    using wf that by (intro key_pos) (auto simp: authority_wf_def list_all_iff)
  show "(k, v, Some c) \<in> snap_todo gs (state_at m H) n" if "authority_view gs ?a k = Some (v, Some c)"
  proof -
    from that have "(k, v, Some c) \<in> {(k, v, x). authority_view gs ?a k = Some (v, x)}" by simp
    then consider (p) r where "r \<in> set (a_principals ?a)" "(k, v, Some c) = principal_triple gs ?a r"
      | (o) r where "r \<in> set (a_policies ?a)" "(k, v, Some c) = policy_triple gs r"
      | (l) r where "r \<in> set (a_lockouts ?a)" "(k, v, Some c) = lockout_triple gs r"
      unfolding view_triples [OF wf] by blast
    then show ?thesis
    proof cases
      case p
      then have "r \<in> set (page_rows (sn_pruned_before n) ([], []) (a_principals ?a))"
        using first by (simp add: page_rows_set principal_triple_def split: if_splits)
      with p(2) show ?thesis unfolding todo by blast
    next
      case o
      then have "r \<in> set (page_rows (sn_pruned_before n) [] (a_policies ?a))"
        using second by (simp add: page_rows_set policy_triple_def split: if_splits)
      with o(2) show ?thesis unfolding todo by blast
    next
      case l
      then have "r \<in> set (page_rows (sn_pruned_before n) ([], []) (a_lockouts ?a))"
        using third by (simp add: page_rows_set lockout_triple_def split: if_splits)
      with l(2) show ?thesis unfolding todo by blast
    qed
  qed
qed

section \<open>The interface\<close>

text \<open>The histories of the authoritative database, with the configuration it was created with.\<close>

typedef authority_log = "{(m, H). history m H}"
proof
  let ?m = "\<lparr>me_pruned_before = ts_ZERO, me_bucket_width = 10, me_timeout_ms = 30000\<rparr>"
  show "(?m, []) \<in> {(m, H). history m H}" by (simp add: history_init meta_ok_def)
qed

definition log_state :: "authority_log \<Rightarrow> ReplicationTs \<Rightarrow> Authority" where
  "log_state L t = (case Rep_authority_log L of (m, H) \<Rightarrow> state_at m H t)"

definition log_backlog :: "authority_log \<Rightarrow> ReplicationTs \<Rightarrow> nat" where
  "log_backlog L = backlog (snd (Rep_authority_log L))"

lemma log_state_at: "log_state L = state_at (fst (Rep_authority_log L)) (snd (Rep_authority_log L))"
  by (rule ext) (simp add: log_state_def split: prod.splits)

lemma log_history: "history (fst (Rep_authority_log L)) (snd (Rep_authority_log L))"
  using Rep_authority_log [of L] by (simp add: split_beta)

lemma log_ok: "\<exists>m. state_ok m t (log_state L t)"
  using state_at_ok [OF log_history, of L t] by (auto simp: log_state_at)

interpretation authority: replication_source "cockroach_source gs mode (log_state L)" "\<lambda>_. True"
  "\<lambda>t. authority_view gs (log_state L t)" "change_entity gs" "snap_todo gs (log_state L)" "snap_left (log_state L)"
  "log_backlog L" for gs mode L
proof (unfold_locales, goal_cases)
  case (1 t k v c)
  with log_ok [of t L] show ?case by (auto intro: authority_view_le)
next
  case (4 a limit since p a')
  with authority_poll_ok [OF log_history, of gs mode L since limit a p a'] show ?case
    by (simp add: cockroach_source_def log_state_at poll_good_def)
next
  case (5 a limit since p a')
  with authority_poll_ok [OF log_history, of gs mode L since limit a p a'] show ?case
    by (simp add: cockroach_source_def log_state_at log_backlog_def)
next
  case (7 a n a')
  then have "authority_snapshot mode (state_at (fst (Rep_authority_log L)) (snd (Rep_authority_log L))) a = (Inr n, a')"
    by (simp add: cockroach_source_def log_state_at)
  note ok = authority_snapshot_ok [OF log_history this, of gs]
  show ?case using ok(1) by (auto simp: cockroach_source_def log_state_at intro: ok(2))
next
  case (9 a n page n' a')
  have "authority_wf (log_state L (sn_ts n))" using log_ok [of "sn_ts n" L] by (auto dest: state_okD(1))
  from next_page_law [of "log_state L", OF this, of gs a "Inr (Some page)" n' a'] 9 show ?case
    by (simp add: cockroach_source_def round_law_def)
next
  case (10 a n n' a')
  have "authority_wf (log_state L (sn_ts n))" using log_ok [of "sn_ts n" L] by (auto dest: state_okD(1))
  from next_page_law [of "log_state L", OF this, of gs a "Inr None" n' a'] 10 show ?case
    by (simp add: cockroach_source_def round_law_def)
qed simp_all

end
