(* ===== verification/Replication_System.thy ===== *)
theory Replication_System
  imports Authority_Snapshot "HOL-Library.Code_Target_Nat"
begin

text \<open>
  The replication engine between the authoritative database and the local replica: the interface \<open>replication\<close>
  on the models of both sides, and what follows for a KDC that serves from the replica.
\<close>

section \<open>The composed system\<close>

definition turso_sink :: "(Replica, TursoRebuild) sink_ops" where
  "turso_sink = \<lparr>si_checkpoint = sink_checkpoint, si_apply = sink_apply, si_begin_rebuild = sink_begin_rebuild,
     si_write = sink_write, si_commit = sink_commit, si_abort = sink_abort\<rparr>"

lemma turso_sink_simps [simp]:
  "si_checkpoint turso_sink = sink_checkpoint" "si_apply turso_sink = sink_apply"
  "si_begin_rebuild turso_sink = sink_begin_rebuild" "si_write turso_sink = sink_write"
  "si_commit turso_sink = sink_commit" "si_abort turso_sink = sink_abort"
  by (simp_all add: turso_sink_def)

interpretation system: replication "cockroach_source gs mode (log_state L)" "\<lambda>_. True"
  "\<lambda>t. authority_view gs (log_state L t)" "change_entity gs" "snap_todo gs (log_state L)" "snap_left (log_state L)"
  "log_backlog L" turso_sink replica_inv "\<lambda>r. replica_view gs (cur_tables r)" replica_cp building
  "\<lambda>w r. replica_view gs (db_tables r (w_file w))" w_snapshot_ts for gs mode L
  unfolding replication_def
  using authority.replication_source_axioms [of gs mode L] sink.replica_sink_axioms [of gs] by simp

text \<open>
  The engine as it is built on an opened replica, and what a replica has to be for it: it holds the authority's
  data as of its checkpoint, if it has one.
\<close>

definition new_engine :: "ReadEnv list \<Rightarrow> Replica \<Rightarrow> nat list \<Rightarrow> (ReadEnv list, Replica) Engine" where
  "new_engine envs r instants = \<lparr>en_source = envs, en_sink = r, en_status = default_status, en_instants = instants\<rparr>"

definition in_step :: "(bytes \<Rightarrow> bool) \<Rightarrow> Meta \<Rightarrow> History \<Rightarrow> Replica \<Rightarrow> bool" where
  "in_step gs m H r \<longleftrightarrow> replica_inv r \<and> (\<forall>x. replica_cp r = Some x \<longrightarrow>
     tracks (replica_view gs (cur_tables r)) (cp_ts x) (authority_view gs (state_at m H (cp_ts x))))"

lemma log_of:
  assumes "history m H"
  obtains L where "log_state L = state_at m H"
proof
  show "log_state (Abs_authority_log (m, H)) = state_at m H"
    using assms by (simp add: log_state_at Abs_authority_log_inverse)
qed

lemma engine_ok_iff:
  assumes "log_state L = state_at m H"
  shows "system.engine_ok gs L e \<longleftrightarrow> in_step gs m H (en_sink e) \<and>
    (ss_bootstrapped (en_status e) \<longrightarrow>
      (\<exists>x. replica_cp (en_sink e) = Some x \<and> cp_ts x = ss_applied_ts (en_status e)))"
  by (subst system.engine_ok_def) (simp add: in_step_def assms)

lemma new_engine_ok:
  "log_state L = state_at m H \<Longrightarrow> in_step gs m H r \<Longrightarrow> system.engine_ok gs L (new_engine envs r instants)"
  by (subst engine_ok_iff, assumption) (simp add: new_engine_def default_status_def)

lemma run_engine_ok:
  assumes "history m H" "in_step gs m H r"
  shows "\<exists>ws e. run_engine (cockroach_source gs mode (state_at m H)) turso_sink cfg rounds (new_engine envs r instants) =
      Some (ws, e) \<and> in_step gs m H (en_sink e) \<and>
    (ss_bootstrapped (en_status e) \<longrightarrow>
      (\<exists>x. replica_cp (en_sink e) = Some x \<and> cp_ts x = ss_applied_ts (en_status e)))"
proof -
  from log_of [OF assms(1)] obtain L where L: "log_state L = state_at m H" .
  from system.run_loop [OF new_engine_ok [OF L assms(2)], of mode cfg "first_retry cfg" rounds envs instants]
  obtain ws e where "run_engine (cockroach_source gs mode (log_state L)) turso_sink cfg rounds (new_engine envs r instants) =
      Some (ws, e)" and e: "system.engine_ok gs L e" unfolding run_engine_def by blast
  with engine_ok_iff [OF L, THEN iffD1, OF e] show ?thesis by (simp add: L)
qed

text \<open>
  C1: Whatever the authoritative database committed, pruned and reported, and whatever failed on either side, after
  any number of rounds of the engine the KDC's replica holds exactly the live principals, policies and lockouts that
  the authority had at the replica's checkpoint, each with the authority's version; every round of the loop ends.
\<close>

theorem replica_tracks_authority:
  assumes "history m H" and "in_step gs m H r"
  shows "\<exists>ws e. run_engine (cockroach_source gs mode (state_at m H)) turso_sink cfg rounds (new_engine envs r instants) =
      Some (ws, e) \<and> replica_inv (en_sink e) \<and>
    (\<forall>x. replica_cp (en_sink e) = Some x \<longrightarrow>
      live_view (replica_view gs (cur_tables (en_sink e))) = live_view (authority_view gs (state_at m H (cp_ts x))))"
  using run_engine_ok [OF assms, of mode cfg rounds envs instants] by (auto simp: in_step_def tracks_def)

text \<open>
  C9: The first synchronisation ends for every authority, every replica and every sequence of failures: the loop
  over truncated polls and the loop over the snapshot's pages are finite. When it reports success the replica has a
  checkpoint, the status names it, and the replica holds the authority's live data as of it.
\<close>

theorem bootstrap_ends:
  assumes "history m H" and "in_step gs m H r"
  shows "\<exists>res e. bootstrap (cockroach_source gs mode (state_at m H)) turso_sink cfg (new_engine envs r instants) =
      Some (res, e) \<and>
    (res = Inr () \<longrightarrow> ss_bootstrapped (en_status e) \<and>
      (\<exists>x. replica_cp (en_sink e) = Some x \<and> cp_ts x = ss_applied_ts (en_status e) \<and>
        live_view (replica_view gs (cur_tables (en_sink e))) = live_view (authority_view gs (state_at m H (cp_ts x)))))"
proof -
  from log_of [OF assms(1)] obtain L where L: "log_state L = state_at m H" .
  from system.bootstrap [OF new_engine_ok [OF L assms(2)], of mode cfg envs instants] obtain res e where
    "bootstrap (cockroach_source gs mode (log_state L)) turso_sink cfg (new_engine envs r instants) = Some (res, e)"
    and e: "system.engine_ok gs L e" "res = Inr () \<longrightarrow> ss_bootstrapped (en_status e)" by blast
  moreover have "res = Inr () \<longrightarrow> ss_bootstrapped (en_status e) \<and>
      (\<exists>x. replica_cp (en_sink e) = Some x \<and> cp_ts x = ss_applied_ts (en_status e) \<and>
        live_view (replica_view gs (cur_tables (en_sink e))) = live_view (authority_view gs (state_at m H (cp_ts x))))"
    using engine_ok_iff [OF L, THEN iffD1, OF e(1)] e(2) by (auto simp: in_step_def tracks_def)
  ultimately show ?thesis by (auto simp: L)
qed

text \<open>
  C11: A poll of the authority that succeeds returns, up to the time it names, exactly the entities whose newest
  version is after \<open>since\<close>, each with its version and content or as deleted, even when the watermark was moved by
  pruning, rows were committed in buckets of an earlier time, or the batch was cut at the limit. A batch that was cut
  leaves fewer commits to poll, so that polling on ends.
\<close>

theorem poll_returns_changes:
  assumes "history m H" and "authority_poll gs mode (state_at m H) since limit envs = (Inr p, envs')"
  shows "since \<le> cb_upto (po_batch p) \<and>
    set (map (change_entity gs) (cb_changes (po_batch p))) =
      {(k, v, x). authority_view gs (state_at m H (cb_upto (po_batch p))) k = Some (v, x) \<and> since < v} \<and>
    (po_truncated p \<longrightarrow> backlog H (cb_upto (po_batch p)) < backlog H since)"
  using authority_poll_ok [OF assms] unfolding poll_good_def by (elim conjE) (intro conjI)

section \<open>The strict gate\<close>

text \<open>
  The call of the strict gate to \<open>security_state\<close> under its own time limit. Of each call it is known whether this
  limit passed, whether the statement timed out and what the KDC's clock showed.
\<close>

type_synonym Call = "bool \<times> bool \<times> int"

definition default_call :: Call where
  "default_call = (False, False, 0)"

definition bounded_security_state ::
  "(ReplicationTs \<Rightarrow> Authority) \<Rightarrow> PrincipalName \<Rightarrow> bytes \<Rightarrow> Call list \<times> ReadEnv list \<Rightarrow>
   (StoreError + SecurityState) option \<times> Call list \<times> ReadEnv list" where
  "bounded_security_state st name realm a = (case a of (calls, envs) \<Rightarrow>
     (case (case calls of [] \<Rightarrow> default_call | c # _ \<Rightarrow> c) of (passed, timed_out, now) \<Rightarrow>
       if passed then (None, tl calls, envs)
       else (case authority_security_state st timed_out now name realm envs of
         (r, envs) \<Rightarrow> (Some r, tl calls, envs))))"

text \<open>What the authority has to say of a subject at time \<open>now\<close> for a ticket to be issued.\<close>

definition admits :: "Authority \<Rightarrow> int \<Rightarrow> GateSubject \<Rightarrow> bool" where
  "admits a now sub = (case encode_principal_key (pe_name (gs_entry sub)) of
     Inl _ \<Rightarrow> False
   | Inr key \<Rightarrow> (case mt_get (pe_realm (gs_entry sub), key) (a_principals a) of
       None \<Rightarrow> False
     | Some p \<Rightarrow> \<not> m_deleted p \<and>
         (word_of_int (ap_attributes (m_cols p)) AND (ucast attr_DISALLOW_ALL_TIX :: u64) \<noteq> 0 \<longrightarrow>
            contains (attributes (gs_entry sub)) attr_DISALLOW_ALL_TIX) \<and>
         (ap_security_epoch (m_cols p) \<le> i64_max \<longrightarrow>
            ap_security_epoch (m_cols p) \<le> uint (security_epoch (gs_entry sub))) \<and>
         (gs_role sub = Role_Client \<longrightarrow>
            (case mt_get (pe_realm (gs_entry sub), key) (a_lockouts a) of
               None \<Rightarrow> True
             | Some l \<Rightarrow> m_deleted l \<or> (case lc_unlock_at (m_cols l) of None \<Rightarrow> False | Some u \<Rightarrow> u \<le> now)))))"

lemma in_set_tlD: "x \<in> set (tl xs) \<Longrightarrow> x \<in> set xs"
  by (cases xs) simp_all

lemma mt_select_distinct:
  "distinct (map m_key rows) \<Longrightarrow> mt_select k rows = (case mt_get k rows of None \<Rightarrow> [] | Some r \<Rightarrow> [r])"
  by (induction rows) (auto simp: mt_select_def filter_empty_conv mt_get_None_iff dest!: mt_get_SomeD
      intro: rev_image_eqI split: option.splits)

lemma security_rows_wf:
  assumes "authority_wf a"
  shows "security_rows k a = (case mt_get k (a_principals a) of
      None \<Rightarrow> []
    | Some p \<Rightarrow> if m_deleted p then []
        else [(m_cols p, case mt_get k (a_lockouts a) of
          None \<Rightarrow> None | Some l \<Rightarrow> if m_deleted l then None else Some (m_cols l))])"
  using assms by (auto simp: security_rows_def authority_wf_def mt_select_distinct split: option.splits)

lemma security_state_InrE:
  assumes "authority_security_state st timed_out now name realm envs = (Inr s, envs')"
  obtains key p l rest where "encode_principal_key name = Inr key" "envs' = tl envs"
    "security_rows (realm, key) (st (rd_now (read_env envs))) = (p, l) # rest"
    "s = \<lparr>sec_epoch = (if 0 \<le> ap_security_epoch p then word_of_int (ap_security_epoch p) else 0),
          sec_disabled = (word_of_int (ap_attributes p) AND (ucast attr_DISALLOW_ALL_TIX :: u64) \<noteq> 0),
          sec_locked = (case l of None \<Rightarrow> False | Some c \<Rightarrow> is_none_or (lc_unlock_at c) (\<lambda>u. now < u))\<rparr>"
  using assms
  by (auto simp: authority_security_state_def db_rows_def Let_def split: sum.splits if_splits option.splits DbFailure.splits list.splits)

lemma epoch_not_less:
  "\<not> w < (if 0 \<le> e then word_of_int e else 0 :: u64) \<Longrightarrow> e \<le> i64_max \<Longrightarrow> e \<le> uint w"
  by (cases "0 \<le> e") (auto simp: word_less_def uint_word_of_int i64_max_def intro: order_trans [OF _ uint_ge_0])

lemma security_state_admits:
  assumes wf: "authority_wf (st (rd_now (read_env envs)))"
    and s: "authority_security_state st timed_out now (pe_name (gs_entry sub)) (pe_realm (gs_entry sub)) envs = (Inr s, envs')"
    and "\<not> (sec_disabled s \<and> \<not> contains (attributes (gs_entry sub)) attr_DISALLOW_ALL_TIX)"
    and "\<not> (sec_locked s \<and> gs_role sub = Role_Client)" and "\<not> security_epoch (gs_entry sub) < sec_epoch s"
  shows "admits (st (rd_now (read_env envs))) now sub"
proof (rule security_state_InrE [OF s])
  fix key p l rest
  assume k: "encode_principal_key (pe_name (gs_entry sub)) = Inr key"
    and "security_rows (pe_realm (gs_entry sub), key) (st (rd_now (read_env envs))) = (p, l) # rest"
    and s: "s = \<lparr>sec_epoch = (if 0 \<le> ap_security_epoch p then word_of_int (ap_security_epoch p) else 0),
          sec_disabled = (word_of_int (ap_attributes p) AND (ucast attr_DISALLOW_ALL_TIX :: u64) \<noteq> 0),
          sec_locked = (case l of None \<Rightarrow> False | Some c \<Rightarrow> is_none_or (lc_unlock_at c) (\<lambda>u. now < u))\<rparr>"
  moreover have "ap_security_epoch p \<le> i64_max \<longrightarrow> ap_security_epoch p \<le> uint (security_epoch (gs_entry sub))"
    using assms(5) epoch_not_less by (simp add: s)
  ultimately show ?thesis using assms(3,4)
    by (auto simp: admits_def security_rows_wf [OF wf] split: option.splits if_splits)
qed

text \<open>A run of the gate over its subjects: each was admitted by a read of it.\<close>

lemma strict_subjects_admits:
  assumes "\<And>t. authority_wf (st t)"
    and "strict_subjects (bounded_security_state st) i subs (calls, envs) = (Gate_Allow, a')"
  shows "\<forall>sub \<in> set subs. \<exists>env \<in> insert default_read (set envs). \<exists>call \<in> insert default_call (set calls).
    admits (st (rd_now env)) (snd (snd call)) sub"
  using assms(2)
proof (induction subs arbitrary: i calls envs)
  case Nil
  then show ?case by simp
next
  case (Cons sub subs)
  obtain passed timed_out now where c: "(case calls of [] \<Rightarrow> default_call | c # _ \<Rightarrow> c) = (passed, timed_out, now)"
    by (metis prod_cases3)
  obtain res envs1 where res: "authority_security_state st timed_out now (pe_name (gs_entry sub)) (pe_realm (gs_entry sub)) envs =
    (res, envs1)" by (metis surj_pair)
  have call: "bounded_security_state st (pe_name (gs_entry sub)) (pe_realm (gs_entry sub)) (calls, envs) =
    (if passed then (None, tl calls, envs) else (Some res, tl calls, envs1))"
    by (simp add: bounded_security_state_def c res)
  from Cons.prems obtain s where s: "res = Inr s"
      "\<not> (sec_disabled s \<and> \<not> contains (attributes (gs_entry sub)) attr_DISALLOW_ALL_TIX)"
      "\<not> (sec_locked s \<and> gs_role sub = Role_Client)" "\<not> security_epoch (gs_entry sub) < sec_epoch s"
      "strict_subjects (bounded_security_state st) (i + 1) subs (tl calls, envs1) = (Gate_Allow, a')"
    by (auto simp: call Let_def split: sum.splits if_splits)
  have "admits (st (rd_now (read_env envs))) now sub"
    by (rule security_state_admits [of st, OF assms(1) res [unfolded s(1)] s(2-4)])
  moreover have "read_env envs \<in> insert default_read (set envs)" by (cases envs) (simp_all add: read_env_def)
  moreover have "(passed, timed_out, now) \<in> insert default_call (set calls)" using c by (cases calls) auto
  moreover have "set envs1 \<subseteq> set envs" using res s(1)
    by (auto elim!: security_state_InrE dest: in_set_tlD)
  moreover have "set (tl calls) \<subseteq> set calls" by (auto dest: in_set_tlD)
  moreover note Cons.IH [OF s(5)]
  ultimately show ?case unfolding list.set ball_simps
    by (intro conjI) (metis snd_conv, blast)
qed


section \<open>An example\<close>

text \<open>A principal is created and later reported as locked out; the engine copies a snapshot and then polls.\<close>

definition example_meta :: Meta where
  "example_meta = \<lparr>me_pruned_before = ts_ZERO, me_bucket_width = 10, me_timeout_ms = 30000\<rparr>"

definition example_tx :: "int \<Rightarrow> int \<Rightarrow> Txn" where
  "example_tx start commit = \<lparr>tx_start = start, tx_commit = ReplicationTs commit 0, tx_uuid = \<lambda>_ _ _. 0\<rparr>"

definition example_commit :: "Txn \<Rightarrow> AuthOp \<Rightarrow> History \<Rightarrow> History" where
  "example_commit tx op H = (case exec tx op (latest example_meta H) of Inl _ \<Rightarrow> H | Inr a \<Rightarrow> (tx_commit tx, a) # H)"

definition example_history :: History where
  "example_history = example_commit (example_tx 190 200) (Op_Report_Lockout example_lockout)
     (example_commit (example_tx 100 120) (Op_Create example_principal) [])"

lemma example_commit_history:
  "history example_meta H \<Longrightarrow> timely example_meta H tx \<Longrightarrow> op_ok (latest example_meta H) op \<Longrightarrow>
   history example_meta (example_commit tx op H)"
  by (auto simp: example_commit_def intro: history_commit split: sum.split)

lemma example_history: "history example_meta example_history"
  unfolding example_history_def
proof (intro example_commit_history history_init)
  show "meta_ok example_meta" by code_simp
  show "timely example_meta [] (example_tx 100 120)" by code_simp
  show "op_ok (latest example_meta []) (Op_Create example_principal)" unfolding op_ok.simps by code_simp
  show "timely example_meta (example_commit (example_tx 100 120) (Op_Create example_principal) []) (example_tx 190 200)"
    by code_simp
  show "op_ok (latest example_meta (example_commit (example_tx 100 120) (Op_Create example_principal) []))
     (Op_Report_Lockout example_lockout)" unfolding op_ok.simps by code_simp
qed

definition example_reads :: "ReadEnv list" where
  "example_reads = replicate 6 \<lparr>rd_now = ReplicationTs 150 0, rd_follower = ts_ZERO, rd_fail = None\<rparr> @
     replicate 2 \<lparr>rd_now = ReplicationTs 250 0, rd_follower = ts_ZERO, rd_fail = None\<rparr>"

definition example_config :: ReplicationConfig where
  "example_config = \<lparr>rc_poll_interval = 1000, rc_batch_limit = 100, rc_retry_min = 2, rc_retry_max = 30,
     rc_rebuild = Rebuild_Auto, rc_heartbeat_interval = 0, rc_kdc_id = [107], rc_region = [114]\<rparr>"

definition example_run where
  "example_run n = run_engine (cockroach_source (\<lambda>_. True) Read_Present (state_at example_meta example_history)) turso_sink
     example_config (replicate n \<lparr>ro_shutdown = False, ro_stopped = False, ro_rand = 7\<rparr>)
     (new_engine example_reads example_replica [1, 2, 3, 4, 5, 6])"

lemma example_in_step: "in_step gs example_meta H example_replica"
  by (simp add: in_step_def example_replica_inv) (simp add: replica_cp_def cur_tables_def db_tables_def tables_cp_def
    example_replica_def empty_tables_def checkpoint_value_def)

lemma example_run_synced:
  "map_option (\<lambda>(ws, e). (ws, map_option cp_ts (replica_cp (en_sink e)))) (example_run 2) =
   Some ([1000, 1000], Some (ReplicationTs 250 0))"
  by code_simp

theorem replica_tracks_authority_witness:
  "\<exists>ws e. example_run 2 = Some (ws, e) \<and>
     live_view (replica_view (\<lambda>_. True) (cur_tables (en_sink e))) =
     live_view (authority_view (\<lambda>_. True) (state_at example_meta example_history (ReplicationTs 250 0)))"
  using replica_tracks_authority [OF example_history example_in_step, of "\<lambda>_. True" Read_Present example_config
      "replicate 2 \<lparr>ro_shutdown = False, ro_stopped = False, ro_rand = 7\<rparr>" example_reads "[1, 2, 3, 4, 5, 6]"]
    example_run_synced
  unfolding example_run_def [symmetric] by auto

lemma example_bootstrap_done:
  "map_option fst (bootstrap (cockroach_source (\<lambda>_. True) Read_Present (state_at example_meta example_history)) turso_sink
     example_config (new_engine example_reads example_replica [1, 2, 3])) = Some (Inr ())"
  by code_simp

theorem bootstrap_ends_witness:
  "\<exists>e. bootstrap (cockroach_source (\<lambda>_. True) Read_Present (state_at example_meta example_history)) turso_sink
     example_config (new_engine example_reads example_replica [1, 2, 3]) = Some (Inr (), e) \<and>
     (\<exists>x. replica_cp (en_sink e) = Some x \<and> cp_ts x = ss_applied_ts (en_status e))"
  using bootstrap_ends [OF example_history example_in_step, of "\<lambda>_. True" Read_Present example_config example_reads "[1, 2, 3]"]
    example_bootstrap_done by auto

lemma example_poll_succeeds:
  "case authority_poll (\<lambda>_. True) Read_Present (state_at example_meta example_history) (ReplicationTs 150 0) 100
     (drop 6 example_reads) of (r, _) \<Rightarrow> (case r of Inl _ \<Rightarrow> False | Inr p \<Rightarrow> cb_upto (po_batch p) = ReplicationTs 250 0)"
  by code_simp

theorem poll_returns_changes_witness:
  "\<exists>p envs'. authority_poll (\<lambda>_. True) Read_Present (state_at example_meta example_history) (ReplicationTs 150 0) 100
     (drop 6 example_reads) = (Inr p, envs') \<and>
   set (map (change_entity (\<lambda>_. True)) (cb_changes (po_batch p))) =
     {(k, v, x). authority_view (\<lambda>_. True) (state_at example_meta example_history (ReplicationTs 250 0)) k = Some (v, x) \<and>
        ReplicationTs 150 0 < v}"
proof -
  from example_poll_succeeds obtain p envs' where
    p: "authority_poll (\<lambda>_. True) Read_Present (state_at example_meta example_history) (ReplicationTs 150 0) 100
     (drop 6 example_reads) = (Inr p, envs')" "cb_upto (po_batch p) = ReplicationTs 250 0"
    by (auto split: prod.splits sum.splits)
  from poll_returns_changes [OF example_history p(1)] p show ?thesis by auto
qed

definition example_subject :: GateSubject where
  "example_subject = \<lparr>gs_entry = example_client\<lparr>pe_name := sp_name example_principal, pe_realm := sp_realm example_principal,
     security_epoch := 3\<rparr>, gs_role = Role_Server\<rparr>"

lemma example_gate_allows:
  "case example_run 2 of None \<Rightarrow> False
   | Some (ws, e) \<Rightarrow> fst (strict_check (bounded_security_state (state_at example_meta example_history)) (en_status e) 100 50
       [example_subject] ([(False, False, 9)], drop 7 example_reads)) = Gate_Allow"
  by code_simp


end
