(* ===== verification/Mit_Name.thy ===== *)
theory Mit_Name
  imports Auth_State
begin

text \<open>
  Principal names in the text form of MIT's databases, \<open>src/src/kdc/kdb/mit/name.rs\<close>: components joined by
  slashes, an at sign, the realm, with escapes. \<open>gs\<close> says which strings are a \<open>GeneralString\<close>.
\<close>

definition name_escape :: "u8 \<Rightarrow> bytes" where
  "name_escape b =
     (if b = 0x2f \<or> b = 0x40 \<or> b = 0x5c then [0x5c, b]
      else if b = 0x09 then [0x5c, 0x74]
      else if b = 0x0a then [0x5c, 0x6e]
      else if b = 0x08 then [0x5c, 0x62]
      else if b = 0x00 then [0x5c, 0x30]
      else [b])"

definition append_component :: "bytes \<Rightarrow> bytes" where
  "append_component c = concat (map name_escape c)"

fun unparse_components :: "bytes list \<Rightarrow> bytes" where
  "unparse_components [] = []"
| "unparse_components [c] = append_component c"
| "unparse_components (c # cs) = append_component c @ 0x2f # unparse_components cs"

definition mit_unparse_name :: "PrincipalName \<Rightarrow> bytes \<Rightarrow> bytes" where
  "mit_unparse_name n realm = unparse_components (name_string n) @ 0x40 # append_component realm"

definition name_unescape :: "u8 \<Rightarrow> u8" where
  "name_unescape e =
     (if e = 0x6e then 0x0a else if e = 0x74 then 0x09 else if e = 0x62 then 0x08 else if e = 0x30 then 0x00 else e)"

text \<open>A byte goes to the realm or to the last component.\<close>

definition mit_push_byte :: "u8 \<Rightarrow> bool \<Rightarrow> bytes list \<Rightarrow> bytes \<Rightarrow> StoreError + bytes list \<times> bytes" where
  "mit_push_byte b in_realm comps realm =
     (if in_realm then Inr (comps, realm @ [b])
      else if comps = [] then Inl (se_corrupt ''MIT principal has no components'')
      else Inr (butlast comps @ [last comps @ [b]], realm))"

fun parse_loop :: "bytes \<Rightarrow> bool \<Rightarrow> bytes list \<Rightarrow> bytes \<Rightarrow> StoreError + bool \<times> bytes list \<times> bytes" where
  "parse_loop [] in_realm comps realm = Inr (in_realm, comps, realm)"
| "parse_loop (b # s) in_realm comps realm =
     (if b = 0x5c then
        (case s of
           [] \<Rightarrow> Inl (se_corrupt ''MIT principal key ends in a quote character'')
         | e # s \<Rightarrow> rbind (mit_push_byte (name_unescape e) in_realm comps realm) (\<lambda>(comps, realm).
             parse_loop s in_realm comps realm))
      else if b = 0x2f then
        if in_realm then Inl (se_corrupt ''unescaped component separator in MIT realm'')
        else parse_loop s in_realm (comps @ [[]]) realm
      else if b = 0x40 then
        if in_realm then Inl (se_corrupt ''multiple unescaped realm separators in MIT key'')
        else parse_loop s True comps realm
      else rbind (mit_push_byte b in_realm comps realm) (\<lambda>(comps, realm). parse_loop s in_realm comps realm))"

definition infer_name_type :: "bytes list \<Rightarrow> int" where
  "infer_name_type comps =
     (if length comps = 2 \<and> comps ! 0 = ascii ''krbtgt'' then 2
      else if 2 \<le> length comps \<and> comps ! 0 = ascii ''WELLKNOWN'' then 11
      else 1)"

definition parse_name_inner ::
  "(bytes \<Rightarrow> bool) \<Rightarrow> bytes \<Rightarrow> bytes option \<Rightarrow> StoreError + PrincipalName \<times> bytes" where
  "parse_name_inner gs key default_realm =
     (if 0 \<in> set key then Inl (se_corrupt ''MIT principal key contains an unescaped NUL'')
      else rbind (parse_loop key False [[]] []) (\<lambda>(has_realm, comps, realm).
        rbind (if has_realm then Inr realm
               else case default_realm of
                 None \<Rightarrow> Inl (se_corrupt ''MIT principal key has no realm separator'')
               | Some d \<Rightarrow> Inr (realm @ d)) (\<lambda>realm.
        if \<not> valid_utf8 realm then Inl (se_corrupt ''MIT principal realm is not UTF-8'')
        else if \<not> list_all gs comps then Inl (se_corrupt ''invalid MIT principal component'')
        else Inr (\<lparr>name_type = infer_name_type comps, name_string = comps\<rparr>, realm))))"

definition parse_name :: "(bytes \<Rightarrow> bool) \<Rightarrow> bytes \<Rightarrow> StoreError + PrincipalName \<times> bytes" where
  "parse_name gs key = parse_name_inner gs key None"

definition parse_name_with_default :: "(bytes \<Rightarrow> bool) \<Rightarrow> bytes \<Rightarrow> bytes \<Rightarrow> StoreError + PrincipalName \<times> bytes" where
  "parse_name_with_default gs name default_realm = parse_name_inner gs name (Some default_realm)"

section \<open>Parsing undoes unparsing\<close>

lemma escape_cases:
  obtains "name_escape b = [b]" "b \<noteq> 0x5c" "b \<noteq> 0x2f" "b \<noteq> 0x40" "b \<noteq> 0"
  | e where "name_escape b = [0x5c, e]" "name_unescape e = b" "e \<noteq> 0"
proof -
  have "name_escape b = [b] \<and> b \<noteq> 0x5c \<and> b \<noteq> 0x2f \<and> b \<noteq> 0x40 \<and> b \<noteq> 0 \<or>
      (\<exists>e. name_escape b = [0x5c, e] \<and> name_unescape e = b \<and> e \<noteq> 0)"
    by (auto simp: name_escape_def name_unescape_def)
  with that show thesis by blast
qed

lemma parse_loop_escape:
  "parse_loop (name_escape b @ s) in_realm comps realm =
   rbind (mit_push_byte b in_realm comps realm) (\<lambda>(comps, realm). parse_loop s in_realm comps realm)"
  by (cases b rule: escape_cases) simp_all

lemma parse_loop_realm:
  "parse_loop (append_component c) True comps realm = Inr (True, comps, realm @ c)"
proof (induction c arbitrary: realm)
  case (Cons b c)
  from Cons.IH [of "realm @ [b]"] show ?case by (simp add: append_component_def parse_loop_escape mit_push_byte_def)
qed (simp add: append_component_def)

lemma parse_loop_component:
  "parse_loop (append_component c @ s) False (cs @ [d]) realm = parse_loop s False (cs @ [d @ c]) realm"
proof (induction c arbitrary: d)
  case (Cons b c)
  from Cons.IH [of "d @ [b]"] show ?case by (simp add: append_component_def parse_loop_escape mit_push_byte_def)
qed (simp add: append_component_def)

lemma parse_loop_components:
  assumes "cs \<noteq> []"
  shows "parse_loop (unparse_components cs @ s) False (ds @ [[]]) realm = parse_loop s False (ds @ cs) realm"
  using assms
proof (induction cs arbitrary: ds rule: unparse_components.induct)
  case (3 c d cs)
  show ?case using "3.IH" [of "ds @ [c]"] parse_loop_component [of c _ ds "[]"] by simp
qed (use parse_loop_component [of _ _ _ "[]"] in auto)

lemma no_nul_escape: "0 \<notin> set (append_component c)"
proof -
  have "0 \<notin> set (name_escape b)" for b by (cases b rule: escape_cases) auto
  then show ?thesis by (auto simp: append_component_def)
qed

lemma no_nul_components: "0 \<notin> set (unparse_components cs)"
  by (induction cs rule: unparse_components.induct) (auto simp: no_nul_escape)

lemma parse_unparse_name:
  assumes "name_string n \<noteq> []" "list_all gs (name_string n)" "valid_utf8 realm"
  shows "parse_name gs (mit_unparse_name n realm) = Inr (n\<lparr>name_type := infer_name_type (name_string n)\<rparr>, realm)"
proof -
  have "parse_loop (mit_unparse_name n realm) False [[]] [] = Inr (True, name_string n, realm)"
    using parse_loop_components [OF assms(1), of _ "[]"] by (simp add: mit_unparse_name_def parse_loop_realm)
  then show ?thesis using assms no_nul_components no_nul_escape
    by (simp add: parse_name_def parse_name_inner_def mit_unparse_name_def)
qed

text \<open>
  C33: The database key of a principal parses back to its components and realm, for every name with a component,
  whatever bytes its components and realm hold; the name type is the one MIT infers. So two principals have the same
  key only when components and realm are equal.
\<close>

theorem mit_name_roundtrip:
  assumes "name_string n \<noteq> []" and "list_all gs (name_string n)" and "valid_utf8 realm"
  shows "parse_name gs (mit_unparse_name n realm) = Inr (n\<lparr>name_type := infer_name_type (name_string n)\<rparr>, realm) \<and>
    (\<forall>m r. name_string m \<noteq> [] \<and> mit_unparse_name m r = mit_unparse_name n realm \<longrightarrow> name_string m = name_string n \<and> r = realm)"
proof (intro conjI allI impI)
  show "parse_name gs (mit_unparse_name n realm) = Inr (n\<lparr>name_type := infer_name_type (name_string n)\<rparr>, realm)"
    by (rule parse_unparse_name [OF assms])
next
  have loop: "name_string k \<noteq> [] \<Longrightarrow> parse_loop (mit_unparse_name k r) False [[]] [] = Inr (True, name_string k, r)" for k r
    using parse_loop_components [of "name_string k" _ "[]"] by (simp add: mit_unparse_name_def parse_loop_realm)
  fix m r assume "name_string m \<noteq> [] \<and> mit_unparse_name m r = mit_unparse_name n realm"
  with loop [of m r] loop [of n realm] assms(1) show "name_string m = name_string n" "r = realm" by auto
qed

theorem mit_name_roundtrip_witness:
  "parse_name (\<lambda>_. True) (mit_unparse_name \<lparr>name_type = 1, name_string = [[0x61, 0x2f], [0x00, 0x40]]\<rparr> [0x52, 0x40]) =
     Inr (\<lparr>name_type = 1, name_string = [[0x61, 0x2f], [0x00, 0x40]]\<rparr>, [0x52, 0x40])"
proof -
  have "valid_utf8 [0x52, 0x40]" by code_simp
  then show ?thesis
    using mit_name_roundtrip [of "\<lparr>name_type = 1, name_string = [[0x61, 0x2f], [0x00, 0x40]]\<rparr>" "\<lambda>_. True" "[0x52, 0x40]"]
    by (simp add: infer_name_type_def ascii_def)
qed

end
