(* ===== verification/Mit_Codec.thy ===== *)
theory Mit_Codec
  imports Mit_Name
begin

text \<open>
  Principal, policy and lockout records in the format of MIT's LMDB databases,
  \<open>src/src/kdc/kdb/mit/codec.rs\<close>. A signed 16-bit number is its \<open>u16\<close> word. A reader's state is the
  unread rest of the record.
\<close>

section \<open>Records\<close>

record KeyData =
  kd_ver :: u16
  kd_kvno :: u16
  kd_fields :: "(u16 \<times> bytes) list"

record MitEntry =
  mit_principal :: PrincipalName
  mit_realm :: bytes
  mit_attributes :: u32
  mit_max_life :: u32
  mit_max_renewable_life :: u32
  mit_expiration :: u32
  mit_pw_expiration :: u32
  mit_last_success :: u32
  mit_last_failed :: u32
  mit_fail_auth_count :: u32
  mit_tl_data :: "PolicyTlData list"
  mit_key_data :: "KeyData list"

record MitPolicy =
  mp_name :: bytes
  mp_pw_min_life :: u32
  mp_pw_max_life :: u32
  mp_pw_min_length :: u32
  mp_pw_min_classes :: u32
  mp_pw_history_num :: u32
  mp_pw_max_fail :: u32
  mp_pw_failcnt_interval :: u32
  mp_pw_lockout_duration :: u32
  mp_attributes :: u32
  mp_max_life :: u32
  mp_max_renewable_life :: u32
  mp_allowed_keysalts :: "bytes option"
  mp_tl_data :: "PolicyTlData list"

section \<open>Writing\<close>

definition mit_len :: "string \<Rightarrow> nat \<Rightarrow> StoreError + u16" where
  "mit_len msg n = (if n < 2 ^ 16 then Inr (word_of_nat n) else Inl (se_corrupt msg))"

fun mw_tl_data :: "PolicyTlData list \<Rightarrow> StoreError + bytes" where
  "mw_tl_data [] = Inr []"
| "mw_tl_data (t # ts) =
     rbind (mit_len ''MIT tl-data exceeds u16 length'' (length (tl_content t))) (\<lambda>len.
     rbind (mw_tl_data ts) (\<lambda>r. Inr (le16 (tl_kind t) @ le16 len @ tl_content t @ r)))"

fun mw_fields :: "(u16 \<times> bytes) list \<Rightarrow> StoreError + bytes" where
  "mw_fields [] = Inr []"
| "mw_fields ((kind, data) # fs) =
     rbind (mit_len ''MIT key-data field exceeds u16 length'' (length data)) (\<lambda>len.
     rbind (mw_fields fs) (\<lambda>r. Inr (le16 kind @ le16 len @ data @ r)))"

fun mw_key_data :: "KeyData list \<Rightarrow> StoreError + bytes" where
  "mw_key_data [] = Inr []"
| "mw_key_data (k # ks) =
     (if \<not> (1 \<le> kd_ver k \<and> kd_ver k \<le> 2) \<or> unat (kd_ver k) \<noteq> length (kd_fields k) \<or> 2 < length (kd_fields k) then
        Inl (se_corrupt ''MIT key-data version does not match its fields'')
      else rbind (mw_fields (kd_fields k)) (\<lambda>f.
           rbind (mw_key_data ks) (\<lambda>r. Inr (le16 (kd_ver k) @ le16 (kd_kvno k) @ f @ r))))"

definition mit_encode :: "MitEntry \<Rightarrow> StoreError + bytes \<times> bytes" where
  "mit_encode e =
     rbind (mit_len ''too many MIT tl-data items'' (length (mit_tl_data e))) (\<lambda>tl_count.
     rbind (mit_len ''too many MIT key-data items'' (length (mit_key_data e))) (\<lambda>key_count.
     rbind (mw_tl_data (mit_tl_data e)) (\<lambda>tls.
     rbind (mw_key_data (mit_key_data e)) (\<lambda>ks.
       Inr (mit_unparse_name (mit_principal e) (mit_realm e),
         le32 (mit_attributes e) @ le32 (mit_max_life e) @ le32 (mit_max_renewable_life e) @
         le32 (mit_expiration e) @ le32 (mit_pw_expiration e) @ le16 tl_count @ le16 key_count @ tls @ ks)))))"

definition mit_policy_encode :: "MitPolicy \<Rightarrow> StoreError + bytes" where
  "mit_policy_encode p =
     (let keysalts = (case mp_allowed_keysalts p of None \<Rightarrow> [] | Some k \<Rightarrow> k) in
      if 2 ^ 32 \<le> length keysalts then Inl (se_corrupt ''MIT allowed-keysalts exceeds u32 length'')
      else
        rbind (mit_len ''too many MIT policy tl-data items'' (length (mp_tl_data p))) (\<lambda>tl_count.
        rbind (mw_tl_data (mp_tl_data p)) (\<lambda>tls.
          Inr (le32 (mp_pw_min_life p) @ le32 (mp_pw_max_life p) @ le32 (mp_pw_min_length p) @
            le32 (mp_pw_min_classes p) @ le32 (mp_pw_history_num p) @ le32 (mp_pw_max_fail p) @
            le32 (mp_pw_failcnt_interval p) @ le32 (mp_pw_lockout_duration p) @ le32 (mp_attributes p) @
            le32 (mp_max_life p) @ le32 (mp_max_renewable_life p) @ le32 (word_of_nat (length keysalts)) @
            keysalts @ le16 tl_count @ tls))))"

definition encode_lockout :: "u32 \<Rightarrow> u32 \<Rightarrow> u32 \<Rightarrow> bytes" where
  "encode_lockout succeeded failed n = le32 succeeded @ le32 failed @ le32 n"

section \<open>Reading\<close>

definition mit_truncated :: StoreError where
  "mit_truncated = se_corrupt ''truncated MIT klmdb record''"

definition mr_u16 :: "bytes \<Rightarrow> StoreError + u16 \<times> bytes" where
  "mr_u16 s = rbind (rd_take mit_truncated 2 s) (\<lambda>(b, s). Inr (of_le16 b, s))"

definition mr_u32 :: "bytes \<Rightarrow> StoreError + u32 \<times> bytes" where
  "mr_u32 s = rbind (rd_take mit_truncated 4 s) (\<lambda>(b, s). Inr (of_le32 b, s))"

text \<open>A 16-bit tag, a 16-bit length and as many bytes.\<close>

definition mr_field :: "bytes \<Rightarrow> StoreError + (u16 \<times> bytes) \<times> bytes" where
  "mr_field s =
     rbind (mr_u16 s) (\<lambda>(kind, s).
     rbind (mr_u16 s) (\<lambda>(len, s).
     rbind (rd_take mit_truncated (unat len) s) (\<lambda>(d, s). Inr ((kind, d), s))))"

definition mr_tl :: "bytes \<Rightarrow> StoreError + PolicyTlData \<times> bytes" where
  "mr_tl s = rbind (mr_field s) (\<lambda>((kind, d), s). Inr (\<lparr>tl_kind = kind, tl_content = d\<rparr>, s))"

definition mr_tl_data :: "u16 \<Rightarrow> bytes \<Rightarrow> StoreError + PolicyTlData list \<times> bytes" where
  "mr_tl_data n s =
     (if length s div 4 < unat n then Inl (se_corrupt ''MIT tl-data count exceeds record length'')
      else rd_n mr_tl (unat n) s)"

definition mr_key :: "bytes \<Rightarrow> StoreError + KeyData \<times> bytes" where
  "mr_key s =
     rbind (mr_u16 s) (\<lambda>(ver, s).
     rbind (mr_u16 s) (\<lambda>(kvno, s).
     if \<not> (1 \<le> ver \<and> ver \<le> 2) then Inl (se_corrupt ''invalid MIT key-data version'')
     else rbind (rd_n mr_field (unat ver) s) (\<lambda>(fs, s).
       Inr (\<lparr>kd_ver = ver, kd_kvno = kvno, kd_fields = fs\<rparr>, s))))"

definition mit_decode :: "(bytes \<Rightarrow> bool) \<Rightarrow> bytes \<Rightarrow> bytes \<Rightarrow> StoreError + MitEntry" where
  "mit_decode gs key val =
     rbind (parse_name gs key) (\<lambda>(principal, realm).
     rbind (mr_u32 val) (\<lambda>(attributes, s).
     rbind (mr_u32 s) (\<lambda>(max_life, s).
     rbind (mr_u32 s) (\<lambda>(max_renewable_life, s).
     rbind (mr_u32 s) (\<lambda>(expiration, s).
     rbind (mr_u32 s) (\<lambda>(pw_expiration, s).
     rbind (mr_u16 s) (\<lambda>(tl_count, s).
     rbind (mr_u16 s) (\<lambda>(key_count, s).
     rbind (mr_tl_data tl_count s) (\<lambda>(tls, s).
     if length s div 4 < unat key_count then Inl (se_corrupt ''MIT key-data count exceeds record length'')
     else rbind (rd_n mr_key (unat key_count) s) (\<lambda>(ks, s).
       if s \<noteq> [] then Inl (se_corrupt ''trailing bytes in MIT klmdb record'')
       else Inr \<lparr>mit_principal = principal, mit_realm = realm, mit_attributes = attributes, mit_max_life = max_life,
         mit_max_renewable_life = max_renewable_life, mit_expiration = expiration,
         mit_pw_expiration = pw_expiration, mit_last_success = 0, mit_last_failed = 0, mit_fail_auth_count = 0,
         mit_tl_data = tls, mit_key_data = ks\<rparr>))))))))))"

definition mit_policy_decode :: "bytes \<Rightarrow> bytes \<Rightarrow> StoreError + MitPolicy" where
  "mit_policy_decode name val =
     (if \<not> valid_utf8 name then Inl (se_corrupt ''MIT policy name is not UTF-8'')
      else
     rbind (rd_n mr_u32 11 val) (\<lambda>(ns, s).
     rbind (mr_u32 s) (\<lambda>(keysalt_len, s).
     rbind (if keysalt_len = 0 then Inr (None, s)
            else rbind (rd_take mit_truncated (unat keysalt_len) s) (\<lambda>(k, s).
              if valid_utf8 k then Inr (Some k, s)
              else Inl (se_corrupt ''MIT allowed-keysalts is not UTF-8''))) (\<lambda>(keysalts, s).
     rbind (mr_u16 s) (\<lambda>(tl_count, s).
     rbind (mr_tl_data tl_count s) (\<lambda>(tls, s).
       if s \<noteq> [] then Inl (se_corrupt ''trailing bytes in MIT klmdb record'')
       else Inr \<lparr>mp_name = name, mp_pw_min_life = ns ! 0, mp_pw_max_life = ns ! 1, mp_pw_min_length = ns ! 2,
         mp_pw_min_classes = ns ! 3, mp_pw_history_num = ns ! 4, mp_pw_max_fail = ns ! 5,
         mp_pw_failcnt_interval = ns ! 6, mp_pw_lockout_duration = ns ! 7, mp_attributes = ns ! 8,
         mp_max_life = ns ! 9, mp_max_renewable_life = ns ! 10, mp_allowed_keysalts = keysalts,
         mp_tl_data = tls\<rparr>))))))"

definition decode_lockout :: "bytes \<Rightarrow> StoreError + u32 \<times> u32 \<times> u32" where
  "decode_lockout v =
     (if length v \<noteq> 12 then Inl (se_corrupt ''MIT lockout record must be exactly 12 bytes'')
      else Inr (of_le32 (take 4 v), of_le32 (take 4 (drop 4 v)), of_le32 (take 4 (drop 8 v))))"

section \<open>Counters\<close>

definition mit_auth_state :: "MitEntry \<Rightarrow> AuthState" where
  "mit_auth_state e = \<lparr>fail_count = mit_fail_auth_count e, last_failed = uint (mit_last_failed e),
     last_success = uint (mit_last_success e)\<rparr>"

definition u32_time :: "string \<Rightarrow> int \<Rightarrow> StoreError + u32" where
  "u32_time msg t = (if 0 \<le> t \<and> t < 2 ^ 32 then Inr (word_of_int t) else Inl (se_backend msg))"

definition mit_set_auth_state :: "AuthState \<Rightarrow> MitEntry \<Rightarrow> StoreError + MitEntry" where
  "mit_set_auth_state st e =
     rbind (u32_time ''last_failed is outside the u32 range of MIT'' (last_failed st)) (\<lambda>lf.
     rbind (u32_time ''last_success is outside the u32 range of MIT'' (last_success st)) (\<lambda>ls.
       Inr (e\<lparr>mit_fail_auth_count := fail_count st, mit_last_failed := lf, mit_last_success := ls\<rparr>)))"

section \<open>The formats as codecs\<close>

definition field_enc :: "u16 \<times> bytes \<Rightarrow> bytes" where
  "field_enc f = le16 (fst f) @ le16 (word_of_nat (length (snd f))) @ snd f"

definition field_wf :: "u16 \<times> bytes \<Rightarrow> bool" where
  "field_wf f \<longleftrightarrow> length (snd f) < 2 ^ 16"

definition key_enc :: "KeyData \<Rightarrow> bytes" where
  "key_enc k = le16 (kd_ver k) @ le16 (kd_kvno k) @ concat (map field_enc (kd_fields k))"

definition key_wf :: "KeyData \<Rightarrow> bool" where
  "key_wf k \<longleftrightarrow> 1 \<le> kd_ver k \<and> kd_ver k \<le> 2 \<and> unat (kd_ver k) = length (kd_fields k) \<and> list_all field_wf (kd_fields k)"

interpretation mr_u16: exact_codec le16 mr_u16 "\<lambda>_. True"
  by unfold_locales (auto simp: mr_u16_def dest!: rd_take_InrD)

interpretation mr_u32: exact_codec le32 mr_u32 "\<lambda>_. True"
  by unfold_locales (auto simp: mr_u32_def dest!: rd_take_InrD)

lemma unat_word16_less: "unat (w :: u16) < 65536"
  using unsigned_less [of w, where 'a = nat] by simp

interpretation mr_field: exact_codec field_enc mr_field field_wf
proof
  fix f :: "u16 \<times> bytes" and s
  assume "field_wf f"
  then show "mr_field (field_enc f @ s) = Inr (f, s)"
    by (simp add: mr_field_def field_enc_def field_wf_def mr_u16.dec_enc unat_of_nat)
next
  fix s f t assume "mr_field s = Inr (f, t)"
  then obtain kind len d s1 s2 where s: "mr_u16 s = Inr (kind, s1)" "mr_u16 s1 = Inr (len, s2)"
    "rd_take mit_truncated (unat len) s2 = Inr (d, t)" "f = (kind, d)" by (auto simp: mr_field_def)
  from mr_u16.enc_dec [OF s(1)] mr_u16.enc_dec [OF s(2)] rd_take_InrD [OF s(3)] unat_word16_less [of len]
  show "field_wf f \<and> s = field_enc f @ t" by (simp add: s(4) field_wf_def field_enc_def)
qed

interpretation mr_tl: exact_codec tl_enc mr_tl tl_wf
proof
  fix x s assume "tl_wf x"
  then show "mr_tl (tl_enc x @ s) = Inr (x, s)"
    using mr_field.dec_enc [of "(tl_kind x, tl_content x)" s]
    by (simp add: mr_tl_def tl_wf_def tl_enc_def field_enc_def field_wf_def)
next
  fix s x t assume "mr_tl s = Inr (x, t)"
  then obtain kind d where "mr_field s = Inr ((kind, d), t)" "x = \<lparr>tl_kind = kind, tl_content = d\<rparr>"
    by (auto simp: mr_tl_def)
  with mr_field.enc_dec [OF this(1)] show "tl_wf x \<and> s = tl_enc x @ t"
    by (simp add: tl_wf_def tl_enc_def field_enc_def field_wf_def)
qed

interpretation mr_key: exact_codec key_enc mr_key key_wf
proof
  fix k s assume "key_wf k"
  then show "mr_key (key_enc k @ s) = Inr (k, s)"
    by (simp add: mr_key_def key_enc_def key_wf_def mr_u16.dec_enc mr_field.rd_n_enc)
next
  fix s k t assume "mr_key s = Inr (k, t)"
  then obtain ver kvno fs s1 s2 where s: "mr_u16 s = Inr (ver, s1)" "mr_u16 s1 = Inr (kvno, s2)"
    "1 \<le> ver" "ver \<le> 2" "rd_n mr_field (unat ver) s2 = Inr (fs, t)"
    "k = \<lparr>kd_ver = ver, kd_kvno = kvno, kd_fields = fs\<rparr>"
    by (auto simp: mr_key_def split: if_splits)
  from mr_u16.enc_dec [OF s(1)] mr_u16.enc_dec [OF s(2)] mr_field.rd_n_exact [OF s(5)] s(3,4)
  show "key_wf k \<and> s = key_enc k @ t" by (simp add: s(6) key_wf_def key_enc_def)
qed

lemma mit_len_Inr: "mit_len msg n = Inr w \<longleftrightarrow> n < 2 ^ 16 \<and> w = word_of_nat n"
  by (auto simp: mit_len_def)

lemma mw_tl_data_Inr: "mw_tl_data ts = Inr b \<longleftrightarrow> list_all tl_wf ts \<and> b = concat (map tl_enc ts)"
  by (induction ts arbitrary: b) (auto simp: rbind_eq_Inr mit_len_Inr tl_wf_def tl_enc_def)

lemma mw_fields_Inr: "mw_fields fs = Inr b \<longleftrightarrow> list_all field_wf fs \<and> b = concat (map field_enc fs)"
proof (induction fs arbitrary: b)
  case (Cons f fs)
  then show ?case by (cases f) (simp add: rbind_eq_Inr mit_len_Inr field_wf_def field_enc_def, blast)
qed auto

lemma mw_key_data_Inr: "mw_key_data ks = Inr b \<longleftrightarrow> list_all key_wf ks \<and> b = concat (map key_enc ks)"
proof (induction ks arbitrary: b)
  case (Cons k ks)
  have "key_wf k \<longleftrightarrow> \<not> (\<not> (1 \<le> kd_ver k \<and> kd_ver k \<le> 2) \<or> unat (kd_ver k) \<noteq> length (kd_fields k) \<or>
      2 < length (kd_fields k)) \<and> list_all field_wf (kd_fields k)"
    by (auto simp: key_wf_def word_le_nat_alt)
  then show ?case using Cons.IH by (auto simp: rbind_eq_Inr mw_fields_Inr key_enc_def)
qed auto

text \<open>An item takes at least four bytes, so the sanity checks of the counts pass.\<close>

lemma length_concat_ge4:
  "(\<And>x. x \<in> set xs \<Longrightarrow> 4 \<le> length (f x)) \<Longrightarrow> 4 * length xs \<le> length (concat (map f xs))"
proof (induction xs)
  case (Cons x xs)
  then have "4 \<le> length (f x)" "4 * length xs \<le> length (concat (map f xs))" by auto
  then show ?case by simp
qed simp

lemma mr_tl_data_enc:
  assumes "length ts < 2 ^ 16" "list_all tl_wf ts"
  shows "mr_tl_data (word_of_nat (length ts)) (concat (map tl_enc ts) @ s) = Inr (ts, s)"
proof -
  have "4 * length ts \<le> length (concat (map tl_enc ts))" by (rule length_concat_ge4) (simp add: tl_enc_def)
  then show ?thesis using assms mr_tl.rd_n_enc [OF assms(2)] by (simp add: mr_tl_data_def unat_of_nat)
qed

lemma mr_tl_data_exact:
  "mr_tl_data n s = Inr (ts, t) \<Longrightarrow> list_all tl_wf ts \<and> length ts = unat n \<and> s = concat (map tl_enc ts) @ t"
  by (auto simp: mr_tl_data_def dest: mr_tl.rd_n_exact split: if_splits)

lemma rd_key_enc:
  assumes "length ks < 2 ^ 16" "list_all key_wf ks"
  shows "\<not> length (concat (map key_enc ks)) div 4 < unat (word_of_nat (length ks) :: u16)"
    and "rd_n mr_key (unat (word_of_nat (length ks) :: u16)) (concat (map key_enc ks)) = Inr (ks, [])"
proof -
  have "4 * length ks \<le> length (concat (map key_enc ks))" by (rule length_concat_ge4) (simp add: key_enc_def)
  then show "\<not> length (concat (map key_enc ks)) div 4 < unat (word_of_nat (length ks) :: u16)"
    using assms(1) by (simp add: unat_of_nat)
  show "rd_n mr_key (unat (word_of_nat (length ks) :: u16)) (concat (map key_enc ks)) = Inr (ks, [])"
    using assms mr_key.rd_n_enc [OF assms(2), of "[]"] by (simp add: unat_of_nat)
qed

section \<open>Round trips\<close>

lemma mit_encode_Inr:
  "mit_encode e = Inr (key, val) \<longleftrightarrow>
     length (mit_tl_data e) < 2 ^ 16 \<and> length (mit_key_data e) < 2 ^ 16 \<and> list_all tl_wf (mit_tl_data e) \<and>
     list_all key_wf (mit_key_data e) \<and> key = mit_unparse_name (mit_principal e) (mit_realm e) \<and>
     val = le32 (mit_attributes e) @ le32 (mit_max_life e) @ le32 (mit_max_renewable_life e) @
       le32 (mit_expiration e) @ le32 (mit_pw_expiration e) @ le16 (word_of_nat (length (mit_tl_data e))) @
       le16 (word_of_nat (length (mit_key_data e))) @ concat (map tl_enc (mit_tl_data e)) @
       concat (map key_enc (mit_key_data e))"
  by (auto simp: mit_encode_def rbind_eq_Inr mit_len_Inr mw_tl_data_Inr mw_key_data_Inr)

lemma mit_decode_encode:
  assumes "mit_encode e = Inr (key, val)" "name_string (mit_principal e) \<noteq> []"
    "list_all gs (name_string (mit_principal e))" "valid_utf8 (mit_realm e)"
  shows "mit_decode gs key val = Inr (e\<lparr>mit_principal := (mit_principal e)\<lparr>name_type :=
      infer_name_type (name_string (mit_principal e))\<rparr>,
    mit_last_success := 0, mit_last_failed := 0, mit_fail_auth_count := 0\<rparr>)"
  using assms parse_unparse_name [OF assms(2-4)]
  by (simp add: mit_encode_Inr mit_decode_def mr_u32.dec_enc mr_u16.dec_enc mr_tl_data_enc rd_key_enc)

lemma mit_encode_decode:
  assumes "mit_decode gs key val = Inr e"
  shows "mit_encode e = Inr (mit_unparse_name (mit_principal e) (mit_realm e), val)"
proof -
  from assms obtain nr at ml mrl ex pw tc kc tls ks s1 s2 s3 s4 s5 s6 s7 s8 where
    d: "mr_u32 val = Inr (at, s1)" "mr_u32 s1 = Inr (ml, s2)" "mr_u32 s2 = Inr (mrl, s3)" "mr_u32 s3 = Inr (ex, s4)"
      "mr_u32 s4 = Inr (pw, s5)" "mr_u16 s5 = Inr (tc, s6)" "mr_u16 s6 = Inr (kc, s7)"
      "mr_tl_data tc s7 = Inr (tls, s8)" "rd_n mr_key (unat kc) s8 = Inr (ks, [])"
    and e: "e = \<lparr>mit_principal = fst nr, mit_realm = snd nr, mit_attributes = at, mit_max_life = ml,
         mit_max_renewable_life = mrl, mit_expiration = ex, mit_pw_expiration = pw, mit_last_success = 0,
         mit_last_failed = 0, mit_fail_auth_count = 0, mit_tl_data = tls, mit_key_data = ks\<rparr>"
    by (fastforce simp: mit_decode_def split: if_splits)
  note b = mr_u32.enc_dec [OF d(1)] mr_u32.enc_dec [OF d(2)] mr_u32.enc_dec [OF d(3)] mr_u32.enc_dec [OF d(4)]
    mr_u32.enc_dec [OF d(5)] mr_u16.enc_dec [OF d(6)] mr_u16.enc_dec [OF d(7)] mr_tl_data_exact [OF d(8)]
    mr_key.rd_n_exact [OF d(9)]
  from b unat_word16_less [of tc] unat_word16_less [of kc] show ?thesis by (simp add: e mit_encode_Inr)
qed

text \<open>
  C26: The record of a principal in an MIT database and the entry determine each other: what is written is read back,
  with the name type MIT infers and the lockout counters, which are stored apart, cleared; and every record that is
  accepted is the one that its entry is written as, so no record with wrong counts, a truncated item or trailing
  bytes is accepted.
\<close>

theorem mit_entry_roundtrip:
  "(\<forall>key val. mit_encode e = Inr (key, val) \<and> name_string (mit_principal e) \<noteq> [] \<and>
      list_all gs (name_string (mit_principal e)) \<and> valid_utf8 (mit_realm e) \<longrightarrow>
      mit_decode gs key val = Inr (e\<lparr>mit_principal := (mit_principal e)\<lparr>name_type :=
          infer_name_type (name_string (mit_principal e))\<rparr>,
        mit_last_success := 0, mit_last_failed := 0, mit_fail_auth_count := 0\<rparr>)) \<and>
   (\<forall>key val. mit_decode gs key val = Inr e \<longrightarrow>
      mit_encode e = Inr (mit_unparse_name (mit_principal e) (mit_realm e), val))"
  using mit_decode_encode mit_encode_decode by blast

definition example_mit_entry :: MitEntry where
  "example_mit_entry = \<lparr>mit_principal = \<lparr>name_type = 1, name_string = [[0x75]]\<rparr>, mit_realm = [0x52],
     mit_attributes = 128, mit_max_life = 3600, mit_max_renewable_life = 7200, mit_expiration = 0,
     mit_pw_expiration = 9, mit_last_success = 5, mit_last_failed = 6, mit_fail_auth_count = 1,
     mit_tl_data = [\<lparr>tl_kind = 1, tl_content = [1, 2, 3, 4]\<rparr>],
     mit_key_data = [\<lparr>kd_ver = 2, kd_kvno = 3, kd_fields = [(18, [7, 8]), (0, [])]\<rparr>]\<rparr>"

theorem mit_entry_roundtrip_witness:
  "\<exists>key val. mit_encode example_mit_entry = Inr (key, val) \<and>
     mit_decode (\<lambda>_. True) key val = Inr (example_mit_entry\<lparr>mit_last_success := 0, mit_last_failed := 0,
       mit_fail_auth_count := 0\<rparr>)"
proof -
  have "\<exists>key val. mit_encode example_mit_entry = Inr (key, val)"
    by (simp add: mit_encode_Inr) (simp add: example_mit_entry_def tl_wf_def key_wf_def field_wf_def)
  moreover have "valid_utf8 (mit_realm example_mit_entry)" by code_simp
  ultimately show ?thesis using mit_entry_roundtrip [of example_mit_entry "\<lambda>_. True"]
    by (auto simp: example_mit_entry_def infer_name_type_def)
qed

lemma mit_policy_decode_encode:
  assumes "mit_policy_encode p = Inr val" "valid_utf8 (mp_name p)" "mp_allowed_keysalts p \<noteq> Some []"
    "case mp_allowed_keysalts p of None \<Rightarrow> True | Some k \<Rightarrow> valid_utf8 k"
  shows "mit_policy_decode (mp_name p) val = Inr p"
proof -
  define ks where "ks = (case mp_allowed_keysalts p of None \<Rightarrow> [] | Some k \<Rightarrow> k)"
  define ns where "ns = [mp_pw_min_life p, mp_pw_max_life p, mp_pw_min_length p, mp_pw_min_classes p, mp_pw_history_num p,
    mp_pw_max_fail p, mp_pw_failcnt_interval p, mp_pw_lockout_duration p, mp_attributes p, mp_max_life p,
    mp_max_renewable_life p]"
  have len: "length ks < 2 ^ 32" "length (mp_tl_data p) < 2 ^ 16" "list_all tl_wf (mp_tl_data p)"
    and val: "val = concat (map le32 ns) @ le32 (word_of_nat (length ks)) @ ks @
      le16 (word_of_nat (length (mp_tl_data p))) @ concat (map tl_enc (mp_tl_data p))"
    using assms(1) by (auto simp: mit_policy_encode_def ks_def [symmetric] Let_def rbind_eq_Inr mit_len_Inr mw_tl_data_Inr
        ns_def split: if_splits)
  have u: "unat (word_of_nat (length ks) :: u32) = length ks" using len(1) by (simp add: unat_of_nat)
  have z: "(word_of_nat (length ks) :: u32) = 0 \<longleftrightarrow> mp_allowed_keysalts p = None"
    using assms(3) u by (auto simp: ks_def unat_eq_zero [symmetric] split: option.splits simp del: unat_eq_zero)
  have n: "rd_n mr_u32 11 (concat (map le32 ns) @ s) = Inr (ns, s)" for s
    using mr_u32.rd_n_enc' [of ns 11 s] by (simp add: ns_def)
  have p: "\<lparr>mp_name = mp_name p, mp_pw_min_life = ns ! 0, mp_pw_max_life = ns ! 1, mp_pw_min_length = ns ! 2,
      mp_pw_min_classes = ns ! 3, mp_pw_history_num = ns ! 4, mp_pw_max_fail = ns ! 5,
      mp_pw_failcnt_interval = ns ! 6, mp_pw_lockout_duration = ns ! 7, mp_attributes = ns ! 8,
      mp_max_life = ns ! 9, mp_max_renewable_life = ns ! 10, mp_allowed_keysalts = mp_allowed_keysalts p,
      mp_tl_data = mp_tl_data p\<rparr> = p" by (simp add: ns_def nth_Cons')
  have k: "(if word_of_nat (length ks) = (0 :: u32) then Inr (None, ks @ s)
      else rbind (rd_take mit_truncated (unat (word_of_nat (length ks) :: u32)) (ks @ s)) (\<lambda>(k, s).
        if valid_utf8 k then Inr (Some k, s) else Inl (se_corrupt ''MIT allowed-keysalts is not UTF-8''))) =
      Inr (mp_allowed_keysalts p, s)" for s
    using assms(4) z by (cases "mp_allowed_keysalts p") (simp_all add: u, simp_all add: ks_def)
  show ?thesis
    unfolding mit_policy_decode_def val
    by (simp add: assms(2) n mr_u32.dec_enc k mr_u16.dec_enc mr_tl_data_enc [OF len(2,3), of "[]", simplified] p [simplified])
qed

lemma decode_encode_lockout: "decode_lockout (encode_lockout a b c) = Inr (a, b, c)"
  by (simp add: decode_lockout_def encode_lockout_def)

end
