(* ===== verification/Ulog_Xdr.thy ===== *)
theory Ulog_Xdr
  imports Mit_Codec
begin

text \<open>
  The updates of MIT's incremental propagation and their XDR form, \<open>src/src/kdc/kdb/mit/ulog.rs\<close>. A signed
  number is the word of its bits. A writer returns the bytes it appends; what was written before is a multiple
  of four bytes, so padding the whole buffer is padding the item. A reader's state is the unread rest.

  The interface \<open>xdr_codec\<close> is a writer with a reader that undoes it; counted lists of items are one again.
\<close>

section \<open>Updates\<close>

record Time =
  seconds :: u32
  useconds :: u32

record Last =
  la_sno :: u32
  la_time :: Time

datatype UpdateStatus =
  Upd_Ok | Upd_Error | Upd_FullResyncNeeded | Upd_Busy | Upd_Nil | Upd_PermDenied

definition status_from_u32 :: "u32 \<Rightarrow> UpdateStatus option" where
  "status_from_u32 v =
     (if v = 0 then Some Upd_Ok else if v = 1 then Some Upd_Error else if v = 2 then Some Upd_FullResyncNeeded
      else if v = 3 then Some Upd_Busy else if v = 4 then Some Upd_Nil else if v = 5 then Some Upd_PermDenied
      else None)"

record Key =
  uk_ver :: u32
  uk_kvno :: u32
  uk_enctypes :: "u32 list"
  uk_contents :: "bytes list"

record Princ =
  up_realm :: bytes
  up_components :: "(u32 \<times> bytes) list"
  up_name_type :: u32

record Tl =
  ut_kind :: u16
  ut_data :: bytes

datatype Value =
    V_AttrFlags u32 | V_MaxLife u32 | V_MaxRenewLife u32 | V_Exp u32 | V_PwExp u32 | V_LastSuccess u32
  | V_LastFailed u32 | V_FailAuthCount u32 | V_Princ Princ | V_KeyData "Key list" | V_TlData "Tl list" | V_Len u16
  | V_ModPrinc Princ | V_ModTime u32 | V_ModWhere bytes | V_PwLastChange u32 | V_PwPolicy bytes
  | V_PwPolicySwitch bool | V_PwHistKvno u32 | V_PwHist "Key list list" | V_Extension u32 bytes

fun attr_type :: "Value \<Rightarrow> u32" where
  "attr_type (V_AttrFlags _) = 0" | "attr_type (V_MaxLife _) = 1" | "attr_type (V_MaxRenewLife _) = 2"
| "attr_type (V_Exp _) = 3" | "attr_type (V_PwExp _) = 4" | "attr_type (V_LastSuccess _) = 5"
| "attr_type (V_LastFailed _) = 6" | "attr_type (V_FailAuthCount _) = 7" | "attr_type (V_Princ _) = 8"
| "attr_type (V_KeyData _) = 9" | "attr_type (V_TlData _) = 10" | "attr_type (V_Len _) = 11"
| "attr_type (V_ModPrinc _) = 12" | "attr_type (V_ModTime _) = 13" | "attr_type (V_ModWhere _) = 14"
| "attr_type (V_PwLastChange _) = 15" | "attr_type (V_PwPolicy _) = 16" | "attr_type (V_PwPolicySwitch _) = 17"
| "attr_type (V_PwHistKvno _) = 18" | "attr_type (V_PwHist _) = 19" | "attr_type (V_Extension t _) = t"

record Update =
  u_princ_name :: bytes
  u_sno :: u32
  u_time :: Time
  u_values :: "Value list"
  u_deleted :: bool
  u_commit :: bool
  u_kdcs_seen_by :: "bytes list"
  u_futures :: bytes

definition default_Time :: Time where
  "default_Time = \<lparr>seconds = 0, useconds = 0\<rparr>"

definition default_Update :: Update where
  "default_Update = \<lparr>u_princ_name = [], u_sno = 0, u_time = default_Time, u_values = [], u_deleted = False,
     u_commit = False, u_kdcs_seen_by = [], u_futures = []\<rparr>"

definition deletion :: "bytes \<Rightarrow> Update" where
  "deletion entry_name = default_Update\<lparr>u_princ_name := entry_name, u_deleted := True\<rparr>"

section \<open>Writing\<close>

definition xw_u32 :: "u32 \<Rightarrow> StoreError + bytes" where
  "xw_u32 v = Inr (be32 v)"

definition xw_bool :: "bool \<Rightarrow> StoreError + bytes" where
  "xw_bool b = xw_u32 (if b then 1 else 0)"

definition xw_i16 :: "u16 \<Rightarrow> StoreError + bytes" where
  "xw_i16 v = xw_u32 (word_of_int (sint v))"

definition xw_len :: "nat \<Rightarrow> StoreError + bytes" where
  "xw_len n = (if n < 2 ^ 32 then xw_u32 (word_of_nat n) else Inl (se_corrupt ''XDR array too long''))"

definition pad4 :: "nat \<Rightarrow> nat" where
  "pad4 n = (4 - n mod 4) mod 4"

definition xw_opaque :: "bytes \<Rightarrow> StoreError + bytes" where
  "xw_opaque v = rbind (xw_len (length v)) (\<lambda>l. Inr (l @ v @ replicate (pad4 (length v)) 0))"

fun xw_seq :: "('a \<Rightarrow> StoreError + bytes) \<Rightarrow> 'a list \<Rightarrow> StoreError + bytes" where
  "xw_seq put [] = Inr []"
| "xw_seq put (x # xs) = rbind (put x) (\<lambda>b. rbind (xw_seq put xs) (\<lambda>r. Inr (b @ r)))"

definition xw_list :: "('a \<Rightarrow> StoreError + bytes) \<Rightarrow> 'a list \<Rightarrow> StoreError + bytes" where
  "xw_list put xs = rbind (xw_len (length xs)) (\<lambda>l. rbind (xw_seq put xs) (\<lambda>b. Inr (l @ b)))"

definition xw_time :: "Time \<Rightarrow> StoreError + bytes" where
  "xw_time t = rbind (xw_u32 (seconds t)) (\<lambda>a. rbind (xw_u32 (useconds t)) (\<lambda>b. Inr (a @ b)))"

definition xw_last :: "Last \<Rightarrow> StoreError + bytes" where
  "xw_last l = rbind (xw_u32 (la_sno l)) (\<lambda>a. rbind (xw_time (la_time l)) (\<lambda>b. Inr (a @ b)))"

definition xw_key :: "Key \<Rightarrow> StoreError + bytes" where
  "xw_key k =
     rbind (xw_u32 (uk_ver k)) (\<lambda>a. rbind (xw_u32 (uk_kvno k)) (\<lambda>b.
     rbind (xw_list xw_u32 (uk_enctypes k)) (\<lambda>c. rbind (xw_list xw_opaque (uk_contents k)) (\<lambda>d.
       Inr (a @ b @ c @ d)))))"

definition xw_keys :: "Key list \<Rightarrow> StoreError + bytes" where
  "xw_keys = xw_list xw_key"

definition xw_component :: "u32 \<times> bytes \<Rightarrow> StoreError + bytes" where
  "xw_component c = rbind (xw_u32 (fst c)) (\<lambda>a. rbind (xw_opaque (snd c)) (\<lambda>b. Inr (a @ b)))"

definition xw_princ :: "Princ \<Rightarrow> StoreError + bytes" where
  "xw_princ p =
     rbind (xw_opaque (up_realm p)) (\<lambda>a. rbind (xw_list xw_component (up_components p)) (\<lambda>b.
     rbind (xw_u32 (up_name_type p)) (\<lambda>c. Inr (a @ b @ c))))"

definition xw_tl :: "Tl \<Rightarrow> StoreError + bytes" where
  "xw_tl t = rbind (xw_i16 (ut_kind t)) (\<lambda>a. rbind (xw_opaque (ut_data t)) (\<lambda>b. Inr (a @ b)))"

fun xw_body :: "Value \<Rightarrow> StoreError + bytes" where
  "xw_body (V_AttrFlags x) = xw_u32 x" | "xw_body (V_MaxLife x) = xw_u32 x" | "xw_body (V_MaxRenewLife x) = xw_u32 x"
| "xw_body (V_Exp x) = xw_u32 x" | "xw_body (V_PwExp x) = xw_u32 x" | "xw_body (V_LastSuccess x) = xw_u32 x"
| "xw_body (V_LastFailed x) = xw_u32 x" | "xw_body (V_FailAuthCount x) = xw_u32 x" | "xw_body (V_ModTime x) = xw_u32 x"
| "xw_body (V_PwLastChange x) = xw_u32 x" | "xw_body (V_PwHistKvno x) = xw_u32 x"
| "xw_body (V_Princ p) = xw_princ p" | "xw_body (V_ModPrinc p) = xw_princ p"
| "xw_body (V_KeyData ks) = xw_keys ks" | "xw_body (V_TlData tls) = xw_list xw_tl tls" | "xw_body (V_Len x) = xw_i16 x"
| "xw_body (V_ModWhere s) = xw_opaque s" | "xw_body (V_PwPolicy s) = xw_opaque s"
| "xw_body (V_Extension _ s) = xw_opaque s" | "xw_body (V_PwPolicySwitch b) = xw_bool b"
| "xw_body (V_PwHist hist) = xw_list xw_keys hist"

definition xw_value :: "Value \<Rightarrow> StoreError + bytes" where
  "xw_value v = rbind (xw_u32 (attr_type v)) (\<lambda>a. rbind (xw_body v) (\<lambda>b. Inr (a @ b)))"

definition xw_update :: "Update \<Rightarrow> StoreError + bytes" where
  "xw_update u =
     rbind (xw_opaque (u_princ_name u)) (\<lambda>a. rbind (xw_u32 (u_sno u)) (\<lambda>b. rbind (xw_time (u_time u)) (\<lambda>c.
     rbind (xw_list xw_value (u_values u)) (\<lambda>d. rbind (xw_bool (u_deleted u)) (\<lambda>e.
     rbind (xw_bool (u_commit u)) (\<lambda>f. rbind (xw_list xw_opaque (u_kdcs_seen_by u)) (\<lambda>g.
     rbind (xw_opaque (u_futures u)) (\<lambda>h. Inr (a @ b @ c @ d @ e @ f @ g @ h)))))))))"

definition update_encode :: "Update \<Rightarrow> StoreError + bytes" where
  "update_encode u = xw_update u"

section \<open>Reading\<close>

definition conv :: "string \<Rightarrow> StoreError" where
  "conv what = se_corrupt (''malformed iprop XDR: '' @ what)"

definition xr_u32 :: "bytes \<Rightarrow> StoreError + u32 \<times> bytes" where
  "xr_u32 s = rbind (rd_take (conv ''truncated'') 4 s) (\<lambda>(b, s). Inr (of_be32 b, s))"

definition xr_bool :: "bytes \<Rightarrow> StoreError + bool \<times> bytes" where
  "xr_bool s = rbind (xr_u32 s) (\<lambda>(v, s). Inr (v \<noteq> 0, s))"

definition xr_i16 :: "bytes \<Rightarrow> StoreError + u16 \<times> bytes" where
  "xr_i16 s = rbind (xr_u32 s) (\<lambda>(v, s).
     if - (2 ^ 15) \<le> sint v \<and> sint v < 2 ^ 15 then Inr (word_of_int (sint v), s)
     else Inl (conv ''short out of range''))"

definition xr_count :: "bytes \<Rightarrow> StoreError + nat \<times> bytes" where
  "xr_count s = rbind (xr_u32 s) (\<lambda>(n, s).
     if length s div 4 < unat n then Inl (conv ''array count exceeds data'') else Inr (unat n, s))"

definition xr_opaque :: "bytes \<Rightarrow> StoreError + bytes \<times> bytes" where
  "xr_opaque s =
     rbind (xr_u32 s) (\<lambda>(n, s).
     rbind (rd_take (conv ''truncated'') (unat n) s) (\<lambda>(v, s).
     rbind (rd_take (conv ''truncated'') (pad4 (unat n)) s) (\<lambda>(_, s). Inr (v, s))))"

definition xr_list :: "(bytes \<Rightarrow> StoreError + 'a \<times> bytes) \<Rightarrow> bytes \<Rightarrow> StoreError + 'a list \<times> bytes" where
  "xr_list get s = rbind (xr_count s) (\<lambda>(n, s). rd_n get n s)"

definition xr_time :: "bytes \<Rightarrow> StoreError + Time \<times> bytes" where
  "xr_time s = rbind (xr_u32 s) (\<lambda>(a, s). rbind (xr_u32 s) (\<lambda>(b, s). Inr (\<lparr>seconds = a, useconds = b\<rparr>, s)))"

definition xr_last :: "bytes \<Rightarrow> StoreError + Last \<times> bytes" where
  "xr_last s = rbind (xr_u32 s) (\<lambda>(a, s). rbind (xr_time s) (\<lambda>(b, s). Inr (\<lparr>la_sno = a, la_time = b\<rparr>, s)))"

definition xr_key :: "bytes \<Rightarrow> StoreError + Key \<times> bytes" where
  "xr_key s =
     rbind (xr_u32 s) (\<lambda>(ver, s). rbind (xr_u32 s) (\<lambda>(kvno, s).
     rbind (xr_list xr_u32 s) (\<lambda>(enctypes, s). rbind (xr_list xr_opaque s) (\<lambda>(contents, s).
       Inr (\<lparr>uk_ver = ver, uk_kvno = kvno, uk_enctypes = enctypes, uk_contents = contents\<rparr>, s)))))"

definition xr_keys :: "bytes \<Rightarrow> StoreError + Key list \<times> bytes" where
  "xr_keys = xr_list xr_key"

definition xr_component :: "bytes \<Rightarrow> StoreError + (u32 \<times> bytes) \<times> bytes" where
  "xr_component s = rbind (xr_u32 s) (\<lambda>(m, s). rbind (xr_opaque s) (\<lambda>(d, s). Inr ((m, d), s)))"

definition xr_princ :: "bytes \<Rightarrow> StoreError + Princ \<times> bytes" where
  "xr_princ s =
     rbind (xr_opaque s) (\<lambda>(realm, s). rbind (xr_list xr_component s) (\<lambda>(comps, s).
     rbind (xr_u32 s) (\<lambda>(t, s). Inr (\<lparr>up_realm = realm, up_components = comps, up_name_type = t\<rparr>, s))))"

definition xr_tl :: "bytes \<Rightarrow> StoreError + Tl \<times> bytes" where
  "xr_tl s = rbind (xr_i16 s) (\<lambda>(k, s). rbind (xr_opaque s) (\<lambda>(d, s). Inr (\<lparr>ut_kind = k, ut_data = d\<rparr>, s)))"

definition xr_as :: "('a \<Rightarrow> Value) \<Rightarrow> (bytes \<Rightarrow> StoreError + 'a \<times> bytes) \<Rightarrow> bytes \<Rightarrow> StoreError + Value \<times> bytes" where
  "xr_as c get s = rbind (get s) (\<lambda>(x, s). Inr (c x, s))"

definition xr_body :: "u32 \<Rightarrow> bytes \<Rightarrow> StoreError + Value \<times> bytes" where
  "xr_body t =
     (if t = 0 then xr_as V_AttrFlags xr_u32 else if t = 1 then xr_as V_MaxLife xr_u32
      else if t = 2 then xr_as V_MaxRenewLife xr_u32 else if t = 3 then xr_as V_Exp xr_u32
      else if t = 4 then xr_as V_PwExp xr_u32 else if t = 5 then xr_as V_LastSuccess xr_u32
      else if t = 6 then xr_as V_LastFailed xr_u32 else if t = 7 then xr_as V_FailAuthCount xr_u32
      else if t = 8 then xr_as V_Princ xr_princ else if t = 9 then xr_as V_KeyData xr_keys
      else if t = 10 then xr_as V_TlData (xr_list xr_tl) else if t = 11 then xr_as V_Len xr_i16
      else if t = 12 then xr_as V_ModPrinc xr_princ else if t = 13 then xr_as V_ModTime xr_u32
      else if t = 14 then xr_as V_ModWhere xr_opaque else if t = 15 then xr_as V_PwLastChange xr_u32
      else if t = 16 then xr_as V_PwPolicy xr_opaque else if t = 17 then xr_as V_PwPolicySwitch xr_bool
      else if t = 18 then xr_as V_PwHistKvno xr_u32 else if t = 19 then xr_as V_PwHist (xr_list xr_keys)
      else xr_as (V_Extension t) xr_opaque)"

definition xr_value :: "bytes \<Rightarrow> StoreError + Value \<times> bytes" where
  "xr_value s = rbind (xr_u32 s) (\<lambda>(t, s). xr_body t s)"

definition xr_update :: "bytes \<Rightarrow> StoreError + Update \<times> bytes" where
  "xr_update s =
     rbind (xr_opaque s) (\<lambda>(name, s). rbind (xr_u32 s) (\<lambda>(sno, s). rbind (xr_time s) (\<lambda>(time, s).
     rbind (xr_list xr_value s) (\<lambda>(vs, s). rbind (xr_bool s) (\<lambda>(deleted, s).
     rbind (xr_bool s) (\<lambda>(commit, s). rbind (xr_list xr_opaque s) (\<lambda>(seen, s).
     rbind (xr_opaque s) (\<lambda>(futures, s).
       Inr (\<lparr>u_princ_name = name, u_sno = sno, u_time = time, u_values = vs, u_deleted = deleted,
         u_commit = commit, u_kdcs_seen_by = seen, u_futures = futures\<rparr>, s)))))))))"

definition update_decode :: "bytes \<Rightarrow> StoreError + Update" where
  "update_decode b = rbind (xr_update b) (\<lambda>(u, _). Inr u)"

section \<open>The interface\<close>

locale xdr_codec =
  fixes put :: "'a \<Rightarrow> StoreError + bytes"
    and get :: "bytes \<Rightarrow> StoreError + 'a \<times> bytes"
    and wf :: "'a \<Rightarrow> bool"
  assumes get_put: "put x = Inr b \<Longrightarrow> wf x \<Longrightarrow> get (b @ s) = Inr (x, s)"
    and put_min: "put x = Inr b \<Longrightarrow> 4 \<le> length b"
begin

lemma seq_get:
  "xw_seq put xs = Inr b \<Longrightarrow> list_all wf xs \<Longrightarrow> rd_n get (length xs) (b @ s) = Inr (xs, s)"
  by (induction xs arbitrary: b) (auto simp: get_put)

lemma seq_min: "xw_seq put xs = Inr b \<Longrightarrow> 4 * length xs \<le> length b"
proof (induction xs arbitrary: b)
  case (Cons x xs)
  from Cons.prems obtain c d where "put x = Inr c" "xw_seq put xs = Inr d" "b = c @ d" by auto
  with put_min [OF this(1)] Cons.IH [OF this(2)] show ?case by simp
qed simp

end

text \<open>A counted list of items that have a codec has one.\<close>

lemma xw_len_Inr: "xw_len n = Inr b \<longleftrightarrow> n < 2 ^ 32 \<and> b = be32 (word_of_nat n)"
  by (auto simp: xw_len_def xw_u32_def)

lemma xr_u32_be32 [simp]: "xr_u32 (be32 w @ s) = Inr (w, s)"
  by (simp add: xr_u32_def)

lemma xdr_list:
  assumes "xdr_codec put get good"
  shows "xdr_codec (xw_list put) (xr_list get) (list_all good)"
proof
  fix xs b s assume b: "xw_list put xs = Inr b" and wf: "list_all good xs"
  from b obtain c where c: "length xs < 2 ^ 32" "xw_seq put xs = Inr c" "b = be32 (word_of_nat (length xs)) @ c"
    by (auto simp: xw_list_def xw_len_Inr)
  with xdr_codec.seq_min [OF assms c(2)] xdr_codec.seq_get [OF assms c(2) wf, of s]
  show "xr_list get (b @ s) = Inr (xs, s)" by (simp add: xr_list_def xr_count_def unat_of_nat)
next
  fix xs b assume "xw_list put xs = Inr b"
  then show "4 \<le> length b" by (auto simp: xw_list_def xw_len_Inr)
qed

interpretation xc_u32: xdr_codec xw_u32 xr_u32 "\<lambda>_. True"
  by unfold_locales (auto simp: xw_u32_def)

interpretation xc_bool: xdr_codec xw_bool xr_bool "\<lambda>_. True"
  by unfold_locales (auto simp: xw_bool_def xr_bool_def xw_u32_def)

interpretation xc_i16: xdr_codec xw_i16 xr_i16 "\<lambda>_. True"
proof
  fix x :: u16 and b s assume "xw_i16 x = Inr b"
  moreover have "sint (word_of_int (sint x) :: u32) = sint x"
    using sint_range_size [of x] by (intro sint_word_of_int32) (simp_all add: i32_min_def i32_max_def word_size)
  moreover have "- (2 ^ 15) \<le> sint x \<and> sint x < 2 ^ 15" using sint_range_size [of x] by (simp add: word_size)
  ultimately show "xr_i16 (b @ s) = Inr (x, s)" by (auto simp: xw_i16_def xr_i16_def xw_u32_def)
qed (auto simp: xw_i16_def xw_u32_def)

interpretation xc_opaque: xdr_codec xw_opaque xr_opaque "\<lambda>_. True"
  by unfold_locales (auto simp: xw_opaque_def xr_opaque_def xw_len_Inr unat_of_nat)

interpretation xc_time: xdr_codec xw_time xr_time "\<lambda>_. True"
  by unfold_locales (auto simp: xw_time_def xr_time_def xw_u32_def)

interpretation xc_last: xdr_codec xw_last xr_last "\<lambda>_. True"
  by unfold_locales (auto simp: xw_last_def xr_last_def xw_u32_def xc_time.get_put)

interpretation xc_u32s: xdr_codec "xw_list xw_u32" "xr_list xr_u32" "list_all (\<lambda>_. True)"
  by (rule xdr_list [OF xc_u32.xdr_codec_axioms])

interpretation xc_opaques: xdr_codec "xw_list xw_opaque" "xr_list xr_opaque" "list_all (\<lambda>_. True)"
  by (rule xdr_list [OF xc_opaque.xdr_codec_axioms])

lemma list_all_True [simp]: "list_all (\<lambda>_. True) xs"
  by (simp add: list_all_iff)

interpretation xc_key: xdr_codec xw_key xr_key "\<lambda>_. True"
  by unfold_locales (auto simp: xw_key_def xr_key_def xc_u32.get_put xc_u32s.get_put xc_opaques.get_put dest: xc_u32.put_min)

interpretation xc_keys: xdr_codec xw_keys xr_keys "list_all (\<lambda>_. True)"
  unfolding xw_keys_def xr_keys_def by (rule xdr_list [OF xc_key.xdr_codec_axioms])

interpretation xc_hist: xdr_codec "xw_list xw_keys" "xr_list xr_keys" "list_all (list_all (\<lambda>_. True))"
  by (rule xdr_list [OF xc_keys.xdr_codec_axioms])

interpretation xc_component: xdr_codec xw_component xr_component "\<lambda>_. True"
  by unfold_locales (auto simp: xw_component_def xr_component_def xc_u32.get_put xc_opaque.get_put dest: xc_u32.put_min)

interpretation xc_components: xdr_codec "xw_list xw_component" "xr_list xr_component" "list_all (\<lambda>_. True)"
  by (rule xdr_list [OF xc_component.xdr_codec_axioms])

interpretation xc_princ: xdr_codec xw_princ xr_princ "\<lambda>_. True"
  by unfold_locales (auto simp: xw_princ_def xr_princ_def xc_u32.get_put xc_opaque.get_put xc_components.get_put
      dest: xc_opaque.put_min)

interpretation xc_tl: xdr_codec xw_tl xr_tl "\<lambda>_. True"
  by unfold_locales (auto simp: xw_tl_def xr_tl_def xc_i16.get_put xc_opaque.get_put dest: xc_i16.put_min)

interpretation xc_tls: xdr_codec "xw_list xw_tl" "xr_list xr_tl" "list_all (\<lambda>_. True)"
  by (rule xdr_list [OF xc_tl.xdr_codec_axioms])

text \<open>An extension must not have the type of an attribute that is known.\<close>

definition value_wf :: "Value \<Rightarrow> bool" where
  "value_wf v \<longleftrightarrow> (case v of V_Extension t _ \<Rightarrow> 19 < t | _ \<Rightarrow> True)"

lemmas body_get = xc_u32.get_put xc_princ.get_put xc_keys.get_put xc_tls.get_put xc_i16.get_put xc_opaque.get_put
  xc_bool.get_put xc_hist.get_put

lemma xr_body_xw: "xw_body v = Inr b \<Longrightarrow> value_wf v \<Longrightarrow> xr_body (attr_type v) (b @ s) = Inr (v, s)"
  by (cases v) (auto simp: xr_body_def xr_as_def value_wf_def body_get list_all_iff)

interpretation xc_value: xdr_codec xw_value xr_value value_wf
  by unfold_locales (auto simp: xw_value_def xr_value_def xc_u32.get_put xr_body_xw dest: xc_u32.put_min)

interpretation xc_values: xdr_codec "xw_list xw_value" "xr_list xr_value" "list_all value_wf"
  by (rule xdr_list [OF xc_value.xdr_codec_axioms])

interpretation xc_update: xdr_codec xw_update xr_update "\<lambda>u. list_all value_wf (u_values u)"
  by unfold_locales
    (auto simp: xw_update_def xr_update_def xc_u32.get_put xc_opaque.get_put xc_time.get_put xc_values.get_put
      xc_bool.get_put xc_opaques.get_put dest: xc_u32.put_min)

lemma update_decode_encode:
  "update_encode u = Inr b \<Longrightarrow> list_all value_wf (u_values u) \<Longrightarrow> update_decode (b @ s) = Inr u"
  by (simp add: update_encode_def update_decode_def xc_update.get_put)

end
