(* ===== verification/Ulog_Entry.thy ===== *)
theory Ulog_Entry
  imports Ulog_Xdr "HOL-Library.Code_Target_Nat"
begin

text \<open>
  From a changed entry to a logged update and back, \<open>src/src/kdc/kdb/mit/ulog.rs\<close>: \<open>update_from_entry\<close> on the
  primary, \<open>entry_from_update\<close> on a replica. The lemmas show that a replica that agrees with the primary's old
  entry agrees with the new one after it applies the update. \<open>gs\<close> says which strings are a \<open>GeneralString\<close>.
\<close>

section \<open>The update of a changed entry\<close>

definition LAST_PWD_CHANGE :: u16 where "LAST_PWD_CHANGE = 1"

definition MOD_PRINC :: u16 where "MOD_PRINC = 2"

definition KV5M_DATA :: u32 where "KV5M_DATA = - 1760647422"

definition ulog_princ :: "PrincipalName \<Rightarrow> bytes \<Rightarrow> Princ" where
  "ulog_princ n realm = \<lparr>up_realm = realm, up_components = map (Pair KV5M_DATA) (name_string n),
     up_name_type = word_of_int (name_type n)\<rparr>"

definition find_tl :: "MitEntry \<Rightarrow> u16 \<Rightarrow> bytes option" where
  "find_tl e kind = map_option tl_content (find (\<lambda>t. tl_kind t = kind) (mit_tl_data e))"

definition princ_changed :: "MitEntry \<Rightarrow> MitEntry \<Rightarrow> bool" where
  "princ_changed current new \<longleftrightarrow>
     (let cp = mit_principal current; np = mit_principal new in
      if name_type cp = name_type np \<and> length (name_string cp) = length (name_string np) then
        if length (mit_realm current) = length (mit_realm new) \<and> mit_realm current \<noteq> mit_realm new then
          list_ex (\<lambda>(a, b). \<not> (length a \<le> length b \<and> take (length a) b = a)) (zip (name_string cp) (name_string np))
        else True
      else True)"

definition changed_attrs :: "MitEntry \<Rightarrow> MitEntry \<Rightarrow> nat list" where
  "changed_attrs current new =
     (if mit_attributes current \<noteq> mit_attributes new then [0] else []) @
     (if mit_max_life current \<noteq> mit_max_life new then [1] else []) @
     (if mit_max_renewable_life current \<noteq> mit_max_renewable_life new then [2] else []) @
     (if mit_expiration current \<noteq> mit_expiration new then [3] else []) @
     (if mit_pw_expiration current \<noteq> mit_pw_expiration new then [4] else []) @
     (if princ_changed current new then [8] else []) @
     (if mit_key_data current \<noteq> mit_key_data new then [9] else []) @
     (if mit_tl_data current \<noteq> mit_tl_data new then [10] else [])"

text \<open>The source's \<open>signed\<close>: the value is not negative as an \<open>i32\<close>.\<close>

definition signed_ok :: "u32 \<Rightarrow> bool" where
  "signed_ok v \<longleftrightarrow> 0 \<le> sint v"

text \<open>\<open>xs.get(i)\<close>, or a default.\<close>

definition nth_or :: "'a \<Rightarrow> 'a list \<Rightarrow> nat \<Rightarrow> 'a" where
  "nth_or d xs i = (if i < length xs then xs ! i else d)"

lemma map_nth_or: "map (nth_or d xs) [0..<length xs] = xs"
  by (rule nth_equalityI) (simp_all add: nth_or_def)

definition log_key :: "KeyData \<Rightarrow> Key" where
  "log_key k =
     (let fs = map (nth_or (0, []) (kd_fields k)) [0..<unat (kd_ver k)] in
      \<lparr>uk_ver = ucast (kd_ver k), uk_kvno = ucast (kd_kvno k),
       uk_enctypes = map (\<lambda>(t, _). word_of_int (sint t)) fs, uk_contents = map snd fs\<rparr>)"

definition log_mod_princ :: "(bytes \<Rightarrow> bool) \<Rightarrow> MitEntry \<Rightarrow> Value list" where
  "log_mod_princ gs e =
     (case find_tl e MOD_PRINC of
        None \<Rightarrow> []
      | Some d \<Rightarrow>
          if 5 \<le> length d \<and> last d = 0 then
            case parse_name gs (butlast (drop 4 d)) of
              Inl _ \<Rightarrow> []
            | Inr (name, realm) \<Rightarrow> [V_ModPrinc (ulog_princ name realm), V_ModTime (of_le32 (take 4 d))]
          else [])"

definition other_tl :: "PolicyTlData \<Rightarrow> bool" where
  "other_tl t \<longleftrightarrow> tl_kind t \<noteq> LAST_PWD_CHANGE \<and> tl_kind t \<noteq> MOD_PRINC"

definition log_tl :: "(bytes \<Rightarrow> bool) \<Rightarrow> MitEntry \<Rightarrow> Value list" where
  "log_tl gs e =
     (let stamp = (case find_tl e LAST_PWD_CHANGE of Some d \<Rightarrow> if length d = 4 then of_le32 d else 0 | None \<Rightarrow> 0);
          others = map (\<lambda>t. \<lparr>ut_kind = tl_kind t, ut_data = tl_content t\<rparr>) (filter other_tl (mit_tl_data e)) in
      [V_PwLastChange stamp] @ log_mod_princ gs e @ (if others = [] then [] else [V_TlData others]))"

definition log_attr :: "(bytes \<Rightarrow> bool) \<Rightarrow> MitEntry \<Rightarrow> nat \<Rightarrow> Value list" where
  "log_attr gs e a =
     (if a = 0 \<and> signed_ok (mit_attributes e) then [V_AttrFlags (mit_attributes e)]
      else if a = 1 \<and> signed_ok (mit_max_life e) then [V_MaxLife (mit_max_life e)]
      else if a = 2 \<and> signed_ok (mit_max_renewable_life e) then [V_MaxRenewLife (mit_max_renewable_life e)]
      else if a = 3 \<and> signed_ok (mit_expiration e) then [V_Exp (mit_expiration e)]
      else if a = 4 \<and> signed_ok (mit_pw_expiration e) then [V_PwExp (mit_pw_expiration e)]
      else if a = 8 \<and> name_string (mit_principal e) \<noteq> [] then [V_Princ (ulog_princ (mit_principal e) (mit_realm e))]
      else if a = 9 then [V_KeyData (map log_key (mit_key_data e))]
      else if a = 10 then log_tl gs e
      else if a = 11 then [V_Len 38]
      else [])"

definition update_from_entry :: "(bytes \<Rightarrow> bool) \<Rightarrow> MitEntry option \<Rightarrow> MitEntry \<Rightarrow> Update" where
  "update_from_entry gs current e =
     (let attrs = (case current of None \<Rightarrow> [0..<12] | Some cur \<Rightarrow> changed_attrs cur e) in
      default_Update\<lparr>u_princ_name := mit_unparse_name (mit_principal e) (mit_realm e),
        u_values := concat (map (log_attr gs e) attrs)\<rparr>)"

section \<open>Applying an update\<close>

definition princ_name :: "(bytes \<Rightarrow> bool) \<Rightarrow> Princ \<Rightarrow> StoreError + PrincipalName \<times> bytes" where
  "princ_name gs p =
     (if \<not> list_all (\<lambda>(_, c). gs c) (up_components p) then Inl (se_backend ''invalid principal component in update'')
      else if \<not> valid_utf8 (up_realm p) then Inl (se_backend ''invalid principal realm in update'')
      else Inr (\<lparr>name_type = sint (up_name_type p), name_string = map snd (up_components p)\<rparr>, up_realm p))"

fun set_tl_in :: "u16 \<Rightarrow> bytes \<Rightarrow> PolicyTlData list \<Rightarrow> PolicyTlData list option" where
  "set_tl_in kind data [] = None"
| "set_tl_in kind data (t # ts) =
     (if tl_kind t = kind then Some (t\<lparr>tl_content := data\<rparr> # ts) else map_option ((#) t) (set_tl_in kind data ts))"

definition set_tl :: "u16 \<Rightarrow> bytes \<Rightarrow> MitEntry \<Rightarrow> MitEntry" where
  "set_tl kind data e =
     e\<lparr>mit_tl_data := (case set_tl_in kind data (mit_tl_data e) of
        Some ts \<Rightarrow> ts | None \<Rightarrow> \<lparr>tl_kind = kind, tl_content = data\<rparr> # mit_tl_data e)\<rparr>"

definition entry_key :: "Key \<Rightarrow> StoreError + KeyData" where
  "entry_key k =
     (if 2 < sint (uk_ver k) then Inl (se_backend ''invalid key data version in update'')
      else Inr \<lparr>kd_ver = ucast (uk_ver k), kd_kvno = ucast (uk_kvno k),
        kd_fields = map (\<lambda>i. (ucast (nth_or 0 (uk_enctypes k) i), nth_or [] (uk_contents k) i))
                      [0..<nat (max (sint (uk_ver k)) 0)]\<rparr>)"

fun entry_keys :: "Key list \<Rightarrow> StoreError + KeyData list" where
  "entry_keys [] = Inr []"
| "entry_keys (k # ks) = rbind (entry_key k) (\<lambda>d. rbind (entry_keys ks) (\<lambda>ds. Inr (d # ds)))"

text \<open>The loop's state: the entry, the modifying principal and the modification time seen so far.\<close>

type_synonym replay_state = "MitEntry \<times> (PrincipalName \<times> bytes) option \<times> u32"

fun apply_value :: "(bytes \<Rightarrow> bool) \<Rightarrow> Value \<Rightarrow> replay_state \<Rightarrow> StoreError + replay_state" where
  "apply_value gs (V_AttrFlags v) (e, mp, mt) = Inr (e\<lparr>mit_attributes := v\<rparr>, mp, mt)"
| "apply_value gs (V_MaxLife v) (e, mp, mt) = Inr (e\<lparr>mit_max_life := v\<rparr>, mp, mt)"
| "apply_value gs (V_MaxRenewLife v) (e, mp, mt) = Inr (e\<lparr>mit_max_renewable_life := v\<rparr>, mp, mt)"
| "apply_value gs (V_Exp v) (e, mp, mt) = Inr (e\<lparr>mit_expiration := v\<rparr>, mp, mt)"
| "apply_value gs (V_PwExp v) (e, mp, mt) = Inr (e\<lparr>mit_pw_expiration := v\<rparr>, mp, mt)"
| "apply_value gs (V_Princ p) (e, mp, mt) =
     rbind (princ_name gs p) (\<lambda>(n, realm). Inr (e\<lparr>mit_principal := n, mit_realm := realm\<rparr>, mp, mt))"
| "apply_value gs (V_KeyData ks) (e, mp, mt) = rbind (entry_keys ks) (\<lambda>ds. Inr (e\<lparr>mit_key_data := ds\<rparr>, mp, mt))"
| "apply_value gs (V_TlData ts) (e, mp, mt) = Inr (fold (\<lambda>t. set_tl (ut_kind t) (ut_data t)) ts e, mp, mt)"
| "apply_value gs (V_PwLastChange v) (e, mp, mt) = Inr (set_tl LAST_PWD_CHANGE (le32 v) e, mp, mt)"
| "apply_value gs (V_ModPrinc p) (e, mp, mt) = rbind (princ_name gs p) (\<lambda>m. Inr (e, Some m, mt))"
| "apply_value gs (V_ModTime v) (e, mp, mt) = Inr (e, mp, v)"
| "apply_value gs _ st = Inr st"

fun apply_values :: "(bytes \<Rightarrow> bool) \<Rightarrow> Value list \<Rightarrow> replay_state \<Rightarrow> StoreError + replay_state" where
  "apply_values gs [] st = Inr st"
| "apply_values gs (v # vs) st = rbind (apply_value gs v st) (apply_values gs vs)"

definition empty_entry :: "PrincipalName \<Rightarrow> bytes \<Rightarrow> MitEntry" where
  "empty_entry n realm = \<lparr>mit_principal = n, mit_realm = realm, mit_attributes = 0, mit_max_life = 0,
     mit_max_renewable_life = 0, mit_expiration = 0, mit_pw_expiration = 0, mit_last_success = 0, mit_last_failed = 0,
     mit_fail_auth_count = 0, mit_tl_data = [], mit_key_data = []\<rparr>"

definition set_mod_princ :: "replay_state \<Rightarrow> MitEntry" where
  "set_mod_princ = (\<lambda>(e, mp, mt).
     case mp of
       Some (n, realm) \<Rightarrow> if mt \<noteq> 0 then set_tl MOD_PRINC (le32 mt @ mit_unparse_name n realm @ [0]) e else e
     | None \<Rightarrow> e)"

definition entry_from_update :: "(bytes \<Rightarrow> bool) \<Rightarrow> MitEntry option \<Rightarrow> Update \<Rightarrow> StoreError + MitEntry" where
  "entry_from_update gs current u =
     rbind (case current of
         Some e \<Rightarrow> Inr e
       | None \<Rightarrow> rbind (parse_name gs (u_princ_name u)) (\<lambda>(n, realm). Inr (empty_entry n realm))) (\<lambda>e.
     rbind (apply_values gs (u_values u) (e, None, 0)) (\<lambda>st. Inr (set_mod_princ st)))"

section \<open>Agreement\<close>

text \<open>A replica's entry agrees with the primary's in all but the lockout fields and the order of the tl-data.\<close>

definition entry_agrees :: "MitEntry \<Rightarrow> MitEntry \<Rightarrow> bool" where
  "entry_agrees r e \<longleftrightarrow> mit_principal r = mit_principal e \<and> mit_realm r = mit_realm e \<and>
     mit_attributes r = mit_attributes e \<and> mit_max_life r = mit_max_life e \<and>
     mit_max_renewable_life r = mit_max_renewable_life e \<and> mit_expiration r = mit_expiration e \<and>
     mit_pw_expiration r = mit_pw_expiration e \<and> mit_key_data r = mit_key_data e \<and> find_tl r = find_tl e"

text \<open>
  The entries that the log carries in full: numbers without their high bit, keys with the fields their version says,
  one tl-data item of a kind, a password change time, and a modifying principal that parses.
\<close>

definition mod_princ_ok :: "(bytes \<Rightarrow> bool) \<Rightarrow> bytes \<Rightarrow> bool" where
  "mod_princ_ok gs d \<longleftrightarrow> 5 \<le> length d \<and> last d = 0 \<and> of_le32 (take 4 d) \<noteq> 0 \<and>
     (case parse_name gs (butlast (drop 4 d)) of Inl _ \<Rightarrow> False | Inr (n, realm) \<Rightarrow> mit_unparse_name n realm = butlast (drop 4 d))"

definition loggable :: "(bytes \<Rightarrow> bool) \<Rightarrow> MitEntry \<Rightarrow> bool" where
  "loggable gs e \<longleftrightarrow>
     name_string (mit_principal e) \<noteq> [] \<and> list_all gs (name_string (mit_principal e)) \<and> valid_utf8 (mit_realm e) \<and>
     in_i32 (name_type (mit_principal e)) \<and>
     signed_ok (mit_attributes e) \<and> signed_ok (mit_max_life e) \<and> signed_ok (mit_max_renewable_life e) \<and>
     signed_ok (mit_expiration e) \<and> signed_ok (mit_pw_expiration e) \<and>
     list_all (\<lambda>k. unat (kd_ver k) \<le> 2 \<and> length (kd_fields k) = unat (kd_ver k)) (mit_key_data e) \<and>
     distinct (map tl_kind (mit_tl_data e)) \<and>
     (case find_tl e LAST_PWD_CHANGE of None \<Rightarrow> False | Some d \<Rightarrow> length d = 4) \<and>
     (case find_tl e MOD_PRINC of None \<Rightarrow> True | Some d \<Rightarrow> mod_princ_ok gs d)"

lemma entry_agrees_refl: "entry_agrees e e"
  by (simp add: entry_agrees_def)

section \<open>Names and keys\<close>

lemma parse_name_wf:
  assumes "parse_name gs b = Inr (n, realm)"
  shows "list_all gs (name_string n) \<and> valid_utf8 realm \<and> in_i32 (name_type n)"
  using assms
  by (auto simp: parse_name_def parse_name_inner_def infer_name_type_def in_i32_def i32_min_def i32_max_def
      split: if_splits option.splits)

lemma princ_name_ulog:
  assumes "list_all gs (name_string n)" "valid_utf8 realm" "in_i32 (name_type n)"
  shows "princ_name gs (ulog_princ n realm) = Inr (n, realm)"
  using assms by (simp add: princ_name_def ulog_princ_def list_all_iff comp_def sint_word_of_int32 in_i32_def)

lemma sint_ucast_u16: "sint (ucast (w :: u16) :: u32) = uint w"
proof -
  have "0 \<le> uint w" "uint w < 65536" using unsigned_less [of w, where ?'a = int] by simp_all
  moreover have "i32_min \<le> 0" "65536 \<le> i32_max" by (simp_all add: i32_min_def i32_max_def)
  ultimately have "i32_min \<le> uint w" "uint w \<le> i32_max" by linarith+
  then show ?thesis unfolding ucast_eq by (rule sint_word_of_int32)
qed

lemma ucast_u16_u32 [simp]: "ucast (ucast (w :: u16) :: u32) = w"
  by (rule bit_word_eqI) (simp add: bit_simps)

lemma ucast_sign_extend [simp]: "ucast (scast (w :: u16) :: u32) = w"
  by (rule bit_word_eqI) (simp add: bit_simps)

lemma entry_key_log_key:
  assumes "unat (kd_ver k) \<le> 2" "length (kd_fields k) = unat (kd_ver k)"
  shows "entry_key (log_key k) = Inr k"
proof -
  have v: "sint (ucast (kd_ver k) :: u32) = int (length (kd_fields k))"
    unfolding sint_ucast_u16 assms(2) by simp
  have "log_key k = \<lparr>uk_ver = ucast (kd_ver k), uk_kvno = ucast (kd_kvno k),
      uk_enctypes = map (\<lambda>(t, _). word_of_int (sint t)) (kd_fields k), uk_contents = map snd (kd_fields k)\<rparr>"
    by (simp only: log_key_def Let_def assms(2) [symmetric] map_nth_or)
  moreover have "map (\<lambda>i. (ucast (nth_or 0 (map (\<lambda>(t, _). word_of_int (sint t) :: u32) (kd_fields k)) i),
      nth_or [] (map snd (kd_fields k)) i)) [0..<length (kd_fields k)] = kd_fields k"
    by (rule nth_equalityI) (simp_all add: split_beta nth_or_def)
  moreover have "\<not> 2 < int (length (kd_fields k))" using assms by linarith
  ultimately show ?thesis using assms(2) by (simp add: entry_key_def v)
qed

lemma entry_keys_log_keys:
  "list_all (\<lambda>k. unat (kd_ver k) \<le> 2 \<and> length (kd_fields k) = unat (kd_ver k)) ks \<Longrightarrow>
   entry_keys (map log_key ks) = Inr ks"
  by (induction ks) (simp_all add: entry_key_log_key)

section \<open>Tl-data\<close>

lemma find_set_tl_in:
  "find (\<lambda>t. tl_kind t = k) (case set_tl_in kind d ts of Some ts' \<Rightarrow> ts' | None \<Rightarrow> \<lparr>tl_kind = kind, tl_content = d\<rparr> # ts) =
   (if k = kind then map_option (\<lambda>t. t\<lparr>tl_content := d\<rparr>) (find (\<lambda>t. tl_kind t = k) (ts @ [\<lparr>tl_kind = kind, tl_content = d\<rparr>]))
    else find (\<lambda>t. tl_kind t = k) ts)"
  by (induction ts) (auto split: option.splits)

lemma find_tl_set_tl: "find_tl (set_tl kind d e) = (find_tl e)(kind \<mapsto> d)"
proof
  fix k
  have "find (\<lambda>t. tl_kind t = k) (ts @ [\<lparr>tl_kind = k, tl_content = d\<rparr>]) \<noteq> None" for ts
    by (induction ts) auto
  then show "find_tl (set_tl kind d e) k = ((find_tl e)(kind \<mapsto> d)) k"
    by (auto simp: find_tl_def set_tl_def find_set_tl_in option.map_comp comp_def)
qed

lemma mit_tl_self: "\<exists>ts. e = e\<lparr>mit_tl_data := ts\<rparr>"
  by (rule exI [of _ "mit_tl_data e"]) simp

lemma set_tl_only: "\<exists>ts. set_tl kind d e = e\<lparr>mit_tl_data := ts\<rparr>"
  by (auto simp: set_tl_def)


lemma apply_values_append:
  "apply_values gs (vs @ ws) st = rbind (apply_values gs vs st) (apply_values gs ws)"
proof (induction vs arbitrary: st)
  case (Cons v vs)
  show ?case by (cases "apply_value gs v st") (simp_all add: Cons.IH)
qed simp

lemma fold_set_tl:
  "\<exists>ts'. fold (\<lambda>t. set_tl (ut_kind t) (ut_data t)) ts e = e\<lparr>mit_tl_data := ts'\<rparr> \<and>
     find_tl (e\<lparr>mit_tl_data := ts'\<rparr>) = find_tl e ++ map_of (rev (map (\<lambda>t. (ut_kind t, ut_data t)) ts))"
proof (induction ts arbitrary: e)
  case Nil
  show ?case by (intro exI [of _ "mit_tl_data e"]) simp
next
  case (Cons t ts)
  obtain us where us: "set_tl (ut_kind t) (ut_data t) e = e\<lparr>mit_tl_data := us\<rparr>" using set_tl_only by blast
  from Cons.IH [of "e\<lparr>mit_tl_data := us\<rparr>"] obtain ts' where
    "fold (\<lambda>t. set_tl (ut_kind t) (ut_data t)) ts (e\<lparr>mit_tl_data := us\<rparr>) = e\<lparr>mit_tl_data := ts'\<rparr>"
    "find_tl (e\<lparr>mit_tl_data := ts'\<rparr>) = find_tl (e\<lparr>mit_tl_data := us\<rparr>) ++ map_of (rev (map (\<lambda>t. (ut_kind t, ut_data t)) ts))"
    by auto
  with us find_tl_set_tl [of "ut_kind t" "ut_data t" e] show ?case by (intro exI [of _ ts']) simp
qed


text \<open>The tl-data that an update carries, once applied.\<close>

lemma map_of_rev_distinct: "distinct (map fst xs) \<Longrightarrow> map_of (rev xs) = map_of xs"
proof
  fix k assume d: "distinct (map fst xs)"
  show "map_of (rev xs) k = map_of xs k"
  proof (cases "map_of xs k")
    case None
    then show ?thesis by (metis map_of_eq_None_iff set_rev)
  next
    case (Some v)
    then have "(k, v) \<in> set (rev xs)" by (auto dest: map_of_SomeD)
    then show ?thesis using Some d map_of_is_SomeI [of "rev xs" k v] by (simp add: rev_map [symmetric])
  qed
qed

lemma map_of_tls:
  "map_of (map (\<lambda>t. (tl_kind t, tl_content t)) ts) k = map_option tl_content (find (\<lambda>t. tl_kind t = k) ts)"
  by (induction ts) auto

lemma find_other_tl:
  "find (\<lambda>t. tl_kind t = k) (filter other_tl ts) =
   (if k = LAST_PWD_CHANGE \<or> k = MOD_PRINC then None else find (\<lambda>t. tl_kind t = k) ts)"
  by (induction ts) (auto simp: other_tl_def)

lemma replay_others:
  assumes "distinct (map tl_kind (mit_tl_data new))"
  shows "\<exists>ts. apply_values gs (if filter other_tl (mit_tl_data new) = [] then []
      else [V_TlData (map (\<lambda>t. \<lparr>ut_kind = tl_kind t, ut_data = tl_content t\<rparr>) (filter other_tl (mit_tl_data new)))]) (e, mp, mt) =
      Inr (e\<lparr>mit_tl_data := ts\<rparr>, mp, mt) \<and>
    find_tl (e\<lparr>mit_tl_data := ts\<rparr>) = find_tl e ++ (find_tl new)(LAST_PWD_CHANGE := None, MOD_PRINC := None)"
proof -
  let ?o = "filter other_tl (mit_tl_data new)"
  have "distinct (map fst (map (\<lambda>t. (tl_kind t, tl_content t)) ?o))"
    using distinct_map_filter [OF assms, of other_tl] by (simp add: comp_def)
  then have M: "map_of (rev (map (\<lambda>t. (tl_kind t, tl_content t)) ?o)) =
      (find_tl new)(LAST_PWD_CHANGE := None, MOD_PRINC := None)"
    by (simp add: map_of_rev_distinct) (auto simp: map_of_tls find_other_tl find_tl_def)
  let ?t = "map (\<lambda>t. \<lparr>ut_kind = tl_kind t, ut_data = tl_content t\<rparr>) ?o"
  obtain ts where ts: "fold (\<lambda>t. set_tl (ut_kind t) (ut_data t)) ?t e = e\<lparr>mit_tl_data := ts\<rparr>"
    "find_tl (e\<lparr>mit_tl_data := ts\<rparr>) = find_tl e ++ map_of (rev (map (\<lambda>t. (tl_kind t, tl_content t)) ?o))"
    using fold_set_tl [of ?t e] by (auto simp: comp_def)
  have "apply_values gs (if ?o = [] then [] else [V_TlData ?t]) (e, mp, mt) =
      Inr (fold (\<lambda>t. set_tl (ut_kind t) (ut_data t)) ?t e, mp, mt)" by simp
  then show ?thesis using ts(2) unfolding ts(1) M by blast
qed


lemma find_tl_fields [simp]:
  "find_tl (e\<lparr>mit_attributes := a\<rparr>) = find_tl e" "find_tl (e\<lparr>mit_max_life := a\<rparr>) = find_tl e"
  "find_tl (e\<lparr>mit_max_renewable_life := a\<rparr>) = find_tl e" "find_tl (e\<lparr>mit_expiration := a\<rparr>) = find_tl e"
  "find_tl (e\<lparr>mit_pw_expiration := a\<rparr>) = find_tl e" "find_tl (e\<lparr>mit_principal := n, mit_realm := r\<rparr>) = find_tl e"
  "find_tl (e\<lparr>mit_key_data := ks\<rparr>) = find_tl e"
  by (simp_all add: find_tl_def fun_eq_iff)

lemma replay_mod_princ:
  assumes "loggable gs new"
  shows "\<exists>mp mt. apply_values gs (log_mod_princ gs new) (e, None, 0) = Inr (e, mp, mt) \<and>
    (\<forall>e'. find_tl (set_mod_princ (e', mp, mt)) =
       (case find_tl new MOD_PRINC of None \<Rightarrow> find_tl e' | Some d \<Rightarrow> (find_tl e')(MOD_PRINC \<mapsto> d)) \<and>
       (\<exists>ts. set_mod_princ (e', mp, mt) = e'\<lparr>mit_tl_data := ts\<rparr>))"
proof (cases "find_tl new MOD_PRINC")
  case None
  then show ?thesis by (auto simp: log_mod_princ_def set_mod_princ_def intro: mit_tl_self)
next
  case (Some d)
  with assms have ok: "mod_princ_ok gs d" by (simp add: loggable_def)
  then obtain n realm where p: "parse_name gs (butlast (drop 4 d)) = Inr (n, realm)" "mit_unparse_name n realm = butlast (drop 4 d)"
    by (auto simp: mod_princ_ok_def split: sum.splits)
  have d: "le32 (of_le32 (take 4 d)) @ mit_unparse_name n realm @ [0] = d"
  proof -
    from ok have "5 \<le> length d" "last d = 0" by (simp_all add: mod_princ_ok_def)
    then have "drop 4 d \<noteq> []" "last (drop 4 d) = 0" by auto
    then have "butlast (drop 4 d) @ [0] = drop 4 d" by (metis append_butlast_last_id)
    moreover have "le32 (of_le32 (take 4 d)) = take 4 d" using \<open>5 \<le> length d\<close> by simp
    ultimately show ?thesis by (simp add: p(2))
  qed
  have "apply_values gs (log_mod_princ gs new) (e, None, 0) = Inr (e, Some (n, realm), of_le32 (take 4 d))"
    using ok Some p parse_name_wf [OF p(1)] by (simp add: log_mod_princ_def mod_princ_ok_def princ_name_ulog)
  moreover have "set_mod_princ (e', Some (n, realm), of_le32 (take 4 d)) = set_tl MOD_PRINC d e'" for e'
    using ok d by (simp add: set_mod_princ_def mod_princ_ok_def)
  ultimately show ?thesis using Some set_tl_only by (auto simp: find_tl_set_tl)
qed

lemma replay_tl:
  assumes "loggable gs new"
  shows "\<exists>ts mp mt ts'. apply_values gs (log_tl gs new) (e, None, 0) = Inr (e\<lparr>mit_tl_data := ts\<rparr>, mp, mt) \<and>
    set_mod_princ (e\<lparr>mit_tl_data := ts\<rparr>, mp, mt) = e\<lparr>mit_tl_data := ts'\<rparr> \<and>
    find_tl (e\<lparr>mit_tl_data := ts'\<rparr>) = find_tl e ++ find_tl new"
proof -
  from assms obtain d where d: "find_tl new LAST_PWD_CHANGE = Some d" "length d = 4"
    by (auto simp: loggable_def split: option.splits)
  obtain us where us: "set_tl LAST_PWD_CHANGE d e = e\<lparr>mit_tl_data := us\<rparr>" using set_tl_only by blast
  let ?e = "e\<lparr>mit_tl_data := us\<rparr>"
  from replay_mod_princ [OF assms, of ?e] obtain mp mt where mp:
    "apply_values gs (log_mod_princ gs new) (?e, None, 0) = Inr (?e, mp, mt)"
    "\<And>e'. find_tl (set_mod_princ (e', mp, mt)) =
       (case find_tl new MOD_PRINC of None \<Rightarrow> find_tl e' | Some d \<Rightarrow> (find_tl e')(MOD_PRINC \<mapsto> d))"
    "\<And>e'. \<exists>ts. set_mod_princ (e', mp, mt) = e'\<lparr>mit_tl_data := ts\<rparr>"
    by blast
  have "distinct (map tl_kind (mit_tl_data new))" using assms by (simp add: loggable_def)
  from replay_others [OF this, of gs ?e mp mt] obtain ts where ts:
    "apply_values gs (if filter other_tl (mit_tl_data new) = [] then []
      else [V_TlData (map (\<lambda>t. \<lparr>ut_kind = tl_kind t, ut_data = tl_content t\<rparr>) (filter other_tl (mit_tl_data new)))]) (?e, mp, mt) =
      Inr (e\<lparr>mit_tl_data := ts\<rparr>, mp, mt)"
    "find_tl (e\<lparr>mit_tl_data := ts\<rparr>) = find_tl ?e ++ (find_tl new)(LAST_PWD_CHANGE := None, MOD_PRINC := None)"
    by auto
  obtain ts' where ts': "set_mod_princ (e\<lparr>mit_tl_data := ts\<rparr>, mp, mt) = e\<lparr>mit_tl_data := ts'\<rparr>"
    using mp(3) [of "e\<lparr>mit_tl_data := ts\<rparr>"] by auto
  have "apply_values gs (log_tl gs new) (e, None, 0) = Inr (e\<lparr>mit_tl_data := ts\<rparr>, mp, mt)"
    using ts(1) us d mp(1)
    by (cases "filter other_tl (mit_tl_data new) = []") (simp_all add: log_tl_def Let_def apply_values_append)
  moreover have "find_tl (e\<lparr>mit_tl_data := ts'\<rparr>) = find_tl e ++ find_tl new"
    using mp(2) [of "e\<lparr>mit_tl_data := ts\<rparr>"] ts(2) find_tl_set_tl [of LAST_PWD_CHANGE d e] d(1)
    unfolding ts' us by (auto simp: fun_eq_iff map_add_def split: option.splits)
  ultimately show ?thesis using ts' by blast
qed


section \<open>A replica follows the primary\<close>

text \<open>One attribute, logged because it changed or not logged because the replica has its value.\<close>

abbreviation (input) on :: "bool \<Rightarrow> nat \<Rightarrow> nat list" where
  "on c a \<equiv> if c then [a] else []"

lemma replay_attr:
  assumes "loggable gs new"
  shows "c \<or> mit_attributes e = mit_attributes new \<Longrightarrow>
      apply_values gs (concat (map (log_attr gs new) (on c 0))) (e, mp, mt) = Inr (e\<lparr>mit_attributes := mit_attributes new\<rparr>, mp, mt)"
    and "c \<or> mit_max_life e = mit_max_life new \<Longrightarrow>
      apply_values gs (concat (map (log_attr gs new) (on c 1))) (e, mp, mt) = Inr (e\<lparr>mit_max_life := mit_max_life new\<rparr>, mp, mt)"
    and "c \<or> mit_max_renewable_life e = mit_max_renewable_life new \<Longrightarrow>
      apply_values gs (concat (map (log_attr gs new) (on c 2))) (e, mp, mt) =
      Inr (e\<lparr>mit_max_renewable_life := mit_max_renewable_life new\<rparr>, mp, mt)"
    and "c \<or> mit_expiration e = mit_expiration new \<Longrightarrow>
      apply_values gs (concat (map (log_attr gs new) (on c 3))) (e, mp, mt) = Inr (e\<lparr>mit_expiration := mit_expiration new\<rparr>, mp, mt)"
    and "c \<or> mit_pw_expiration e = mit_pw_expiration new \<Longrightarrow>
      apply_values gs (concat (map (log_attr gs new) (on c 4))) (e, mp, mt) =
      Inr (e\<lparr>mit_pw_expiration := mit_pw_expiration new\<rparr>, mp, mt)"
    and "c \<or> mit_principal e = mit_principal new \<and> mit_realm e = mit_realm new \<Longrightarrow>
      apply_values gs (concat (map (log_attr gs new) (on c 8))) (e, mp, mt) =
      Inr (e\<lparr>mit_principal := mit_principal new, mit_realm := mit_realm new\<rparr>, mp, mt)"
    and "c \<or> mit_key_data e = mit_key_data new \<Longrightarrow>
      apply_values gs (concat (map (log_attr gs new) (on c 9))) (e, mp, mt) = Inr (e\<lparr>mit_key_data := mit_key_data new\<rparr>, mp, mt)"
  using assms by (auto simp: loggable_def log_attr_def princ_name_ulog entry_keys_log_keys)

lemma replay_attr_tl:
  assumes "loggable gs new" and "c \<or> find_tl e = find_tl new"
  shows "\<exists>ts mp mt ts'. apply_values gs (concat (map (log_attr gs new) (on c 10))) (e, None, 0) =
      Inr (e\<lparr>mit_tl_data := ts\<rparr>, mp, mt) \<and>
    set_mod_princ (e\<lparr>mit_tl_data := ts\<rparr>, mp, mt) = e\<lparr>mit_tl_data := ts'\<rparr> \<and>
    find_tl (e\<lparr>mit_tl_data := ts'\<rparr>) = find_tl e ++ find_tl new"
proof (cases c)
  case True
  with replay_tl [OF assms(1), of e] show ?thesis by (simp add: log_attr_def)
next
  case False
  with assms show ?thesis
    by (intro exI [of _ "mit_tl_data e"] exI [of _ None] exI [of _ 0]) (auto simp: set_mod_princ_def map_add_def fun_eq_iff split: option.splits)
qed


text \<open>The lockout fields of an entry, which the log does not carry.\<close>

definition mit_lockout :: "MitEntry \<Rightarrow> u32 \<times> u32 \<times> u32" where
  "mit_lockout e = (mit_last_success e, mit_last_failed e, mit_fail_auth_count e)"

lemma replay_attrs:
  assumes new: "loggable gs new"
    and c: "c0 \<or> mit_attributes e = mit_attributes new" "c1 \<or> mit_max_life e = mit_max_life new"
      "c2 \<or> mit_max_renewable_life e = mit_max_renewable_life new" "c3 \<or> mit_expiration e = mit_expiration new"
      "c4 \<or> mit_pw_expiration e = mit_pw_expiration new"
      "c8 \<or> mit_principal e = mit_principal new \<and> mit_realm e = mit_realm new" "c9 \<or> mit_key_data e = mit_key_data new"
      "c10 \<or> find_tl e = find_tl new"
  shows "\<exists>st. apply_values gs (concat (map (log_attr gs new)
      (on c0 0 @ on c1 1 @ on c2 2 @ on c3 3 @ on c4 4 @ on c8 8 @ on c9 9 @ on c10 10))) (e, None, 0) = Inr st \<and>
    entry_agrees (set_mod_princ st) (new\<lparr>mit_tl_data := mit_tl_data (set_mod_princ st)\<rparr>) \<and>
    find_tl (set_mod_princ st) = find_tl e ++ find_tl new \<and> mit_lockout (set_mod_princ st) = mit_lockout e"
proof -
  let ?e = "e\<lparr>mit_attributes := mit_attributes new, mit_max_life := mit_max_life new,
    mit_max_renewable_life := mit_max_renewable_life new, mit_expiration := mit_expiration new,
    mit_pw_expiration := mit_pw_expiration new, mit_principal := mit_principal new, mit_realm := mit_realm new,
    mit_key_data := mit_key_data new\<rparr>"
  have tl: "find_tl ?e = find_tl e" by (simp add: find_tl_def fun_eq_iff)
  from replay_attr_tl [OF new, of c10 ?e] c(8) tl obtain ts mp mt ts' where ts:
    "apply_values gs (concat (map (log_attr gs new) (on c10 10))) (?e, None, 0) = Inr (?e\<lparr>mit_tl_data := ts\<rparr>, mp, mt)"
    "set_mod_princ (?e\<lparr>mit_tl_data := ts\<rparr>, mp, mt) = ?e\<lparr>mit_tl_data := ts'\<rparr>"
    "find_tl (?e\<lparr>mit_tl_data := ts'\<rparr>) = find_tl e ++ find_tl new"
    by auto
  have "apply_values gs (concat (map (log_attr gs new)
      (on c0 0 @ on c1 1 @ on c2 2 @ on c3 3 @ on c4 4 @ on c8 8 @ on c9 9 @ on c10 10))) (e, None, 0) =
      Inr (?e\<lparr>mit_tl_data := ts\<rparr>, mp, mt)"
    unfolding map_append concat_append apply_values_append
    using c ts(1) by (simp add: replay_attr [OF new] split del: if_split del: One_nat_def)
  then show ?thesis using ts(2,3)
    by (intro exI [of _ "(?e\<lparr>mit_tl_data := ts\<rparr>, mp, mt)"]) (simp add: entry_agrees_def mit_lockout_def find_tl_def fun_eq_iff)
qed


text \<open>No kind of tl-data is taken away: the log has no way to say so.\<close>

definition tl_kept :: "MitEntry \<Rightarrow> MitEntry \<Rightarrow> bool" where
  "tl_kept cur new \<longleftrightarrow> list_all (\<lambda>t. find_tl new (tl_kind t) \<noteq> None) (mit_tl_data cur)"

definition may_follow :: "(bytes \<Rightarrow> bool) \<Rightarrow> MitEntry option \<Rightarrow> MitEntry \<Rightarrow> bool" where
  "may_follow gs current new \<longleftrightarrow> loggable gs new \<and>
     (case current of None \<Rightarrow> True | Some cur \<Rightarrow> mit_realm cur = mit_realm new \<and> tl_kept cur new)"

lemma tl_kept_add:
  assumes "tl_kept cur new"
  shows "find_tl cur ++ find_tl new = find_tl new"
proof
  fix k show "(find_tl cur ++ find_tl new) k = find_tl new k"
  proof (cases "find_tl new k")
    case None
    have "\<not> find_tl cur k \<noteq> None"
    proof
      assume "find_tl cur k \<noteq> None"
      then obtain t where "t \<in> set (mit_tl_data cur)" "tl_kind t = k" by (auto simp: find_tl_def find_None_iff)
      with assms None show False by (auto simp: tl_kept_def list_all_iff)
    qed
    with None show ?thesis by (simp add: map_add_def)
  qed (simp add: map_add_def)
qed

lemma entry_agrees_complete:
  "entry_agrees e (new\<lparr>mit_tl_data := mit_tl_data e\<rparr>) \<Longrightarrow> find_tl e = find_tl new \<Longrightarrow> entry_agrees e new"
  by (simp add: entry_agrees_def)

lemma entry_from_update_add:
  assumes new: "loggable gs new" and u: "u_values u = u_values (update_from_entry gs None new)"
    "u_princ_name u = u_princ_name (update_from_entry gs None new)"
  shows "\<exists>e. entry_from_update gs None u = Inr e \<and> entry_agrees e new \<and> mit_lockout e = (0, 0, 0)"
proof -
  let ?n = "(mit_principal new)\<lparr>name_type := infer_name_type (name_string (mit_principal new))\<rparr>"
  let ?e = "empty_entry ?n (mit_realm new)"
  have name: "parse_name gs (u_princ_name u) = Inr (?n, mit_realm new)"
    using new u(2) by (simp add: update_from_entry_def parse_unparse_name loggable_def)
  let ?vs = "concat (map (log_attr gs new) ([0] @ [1] @ [2] @ [3] @ [4] @ [8] @ [9] @ [10]))"
  have u': "u_values u = ?vs @ [V_Len 38]"
    unfolding u(1) by (simp add: update_from_entry_def upt_rec [of _ 12] log_attr_def)
  obtain st where st: "apply_values gs ?vs (?e, None, 0) = Inr st"
    "entry_agrees (set_mod_princ st) (new\<lparr>mit_tl_data := mit_tl_data (set_mod_princ st)\<rparr>)"
    "find_tl (set_mod_princ st) = find_tl ?e ++ find_tl new" "mit_lockout (set_mod_princ st) = mit_lockout ?e"
    using replay_attrs [OF new, of True ?e True True True True True True True] by auto
  have "find_tl ?e ++ find_tl new = find_tl new"
    by (rule tl_kept_add) (simp add: tl_kept_def empty_entry_def)
  with st have "entry_agrees (set_mod_princ st) new" by (simp add: entry_agrees_complete)
  moreover have "apply_value gs (V_Len 38) st = Inr st" by (cases st) simp
  then have "apply_values gs (u_values u) (?e, None, 0) = Inr st"
    unfolding u' apply_values_append st(1) by simp
  moreover have "mit_lockout ?e = (0, 0, 0)" by (simp add: mit_lockout_def empty_entry_def)
  ultimately show ?thesis using name st(4) by (simp add: entry_from_update_def)
qed

lemma entry_from_update_change:
  assumes new: "loggable gs new" and r: "entry_agrees r cur" and cur: "mit_realm cur = mit_realm new" "tl_kept cur new"
    and u: "u_values u = u_values (update_from_entry gs (Some cur) new)"
  shows "\<exists>e. entry_from_update gs (Some r) u = Inr e \<and> entry_agrees e new \<and> mit_lockout e = mit_lockout r"
proof -
  have "u_values u = concat (map (log_attr gs new) (changed_attrs cur new))"
    unfolding u by (simp add: update_from_entry_def)
  moreover have "princ_changed cur new" using cur(1) by (simp add: princ_changed_def Let_def)
  moreover have "mit_tl_data cur \<noteq> mit_tl_data new \<or> find_tl r = find_tl new"
    using r by (auto simp: entry_agrees_def find_tl_def fun_eq_iff)
  moreover note replay_attrs [OF new, of "mit_attributes cur \<noteq> mit_attributes new" r
      "mit_max_life cur \<noteq> mit_max_life new" "mit_max_renewable_life cur \<noteq> mit_max_renewable_life new"
      "mit_expiration cur \<noteq> mit_expiration new" "mit_pw_expiration cur \<noteq> mit_pw_expiration new" "princ_changed cur new"
      "mit_key_data cur \<noteq> mit_key_data new" "mit_tl_data cur \<noteq> mit_tl_data new"]
  ultimately obtain st where "apply_values gs (u_values u) (r, None, 0) = Inr st"
    "entry_agrees (set_mod_princ st) (new\<lparr>mit_tl_data := mit_tl_data (set_mod_princ st)\<rparr>)"
    "find_tl (set_mod_princ st) = find_tl r ++ find_tl new" "mit_lockout (set_mod_princ st) = mit_lockout r"
    using r unfolding changed_attrs_def entry_agrees_def [of r] by auto
  moreover have "find_tl r ++ find_tl new = find_tl new"
    using r tl_kept_add [OF cur(2)] by (simp add: entry_agrees_def)
  ultimately show ?thesis by (auto simp: entry_from_update_def intro: entry_agrees_complete)
qed

lemma update_from_entry_wf: "list_all value_wf (u_values (update_from_entry gs c e))"
proof -
  have "list_all value_wf (log_mod_princ gs e)"
    by (auto simp: log_mod_princ_def value_wf_def split: option.splits sum.splits)
  then have "list_all value_wf (log_attr gs e a)" for a
    by (simp add: log_attr_def log_tl_def Let_def value_wf_def)
  then show ?thesis by (simp add: update_from_entry_def list_all_iff)
qed


lemma example_loggable: "loggable (\<lambda>_. True) example_mit_entry"
  by code_simp

lemma example_change: "may_follow (\<lambda>_. True) (Some example_mit_entry) (example_mit_entry\<lparr>mit_max_life := 60\<rparr>)"
  by code_simp


end
