(* ===== verification/Ulog_File.thy ===== *)
theory Ulog_File
  imports Ulog_Entry
begin

text \<open>
  The file of the update log, \<open>src/src/kdc/kdb/mit/ulog.rs\<close>: a header and a ring of \<open>n\<close> blocks. The
  file is its bytes; \<open>le\<close> is the byte order of the machine and \<open>now\<close> the clock. An operation returns its result and
  the file it leaves; failures of the file system and records of nearly four gigabytes, whose length overflows, are
  outside the model, as are the locks that make an operation one step. \<open>store_files\<close> keeps every state between two writes.
\<close>

section \<open>Positioned reads and writes\<close>

definition read_zero_padded :: "nat \<Rightarrow> nat \<Rightarrow> bytes \<Rightarrow> bytes" where
  "read_zero_padded len offset f = (let b = take len (drop offset f) in b @ replicate (len - length b) 0)"

definition write_at :: "bytes \<Rightarrow> nat \<Rightarrow> bytes \<Rightarrow> bytes" where
  "write_at data offset f = read_zero_padded offset 0 f @ data @ drop (offset + length data) f"

definition byte_at :: "bytes \<Rightarrow> nat \<Rightarrow> u8" where
  "byte_at f i = (if i < length f then f ! i else 0)"

lemma read_zero_padded_bytes: "read_zero_padded len offset f = map (\<lambda>i. byte_at f (offset + i)) [0..<len]"
  by (rule nth_equalityI) (auto simp: read_zero_padded_def Let_def byte_at_def nth_append)

lemma length_read_zero_padded [simp]: "length (read_zero_padded len offset f) = len"
  by (simp add: read_zero_padded_bytes)

lemma byte_at_write_at:
  "byte_at (write_at data offset f) i =
   (if offset \<le> i \<and> i < offset + length data then data ! (i - offset) else byte_at f i)"
  by (auto simp: byte_at_def write_at_def nth_append read_zero_padded_def Let_def)

lemma read_write_disjoint:
  "o' + len \<le> off \<or> off + length d \<le> o' \<Longrightarrow> read_zero_padded len o' (write_at d off f) = read_zero_padded len o' f"
  by (auto simp: read_zero_padded_bytes byte_at_write_at)

lemma read_write_inside:
  "off \<le> o' \<Longrightarrow> o' + len \<le> off + length d \<Longrightarrow> read_zero_padded len o' (write_at d off f) = take len (drop (o' - off) d)"
  by (rule nth_equalityI) (auto simp: read_zero_padded_bytes byte_at_write_at)

lemma read_write_same: "length d = len \<Longrightarrow> read_zero_padded len off (write_at d off f) = d"
  by (simp add: read_write_inside)

section \<open>Headers\<close>

definition HEADER_SIZE :: nat where "HEADER_SIZE = 40"
definition ENTRY_HEADER_SIZE :: nat where "ENTRY_HEADER_SIZE = 28"
definition ENTRY_DATA_OFFSET :: nat where "ENTRY_DATA_OFFSET = 24"
definition ULOG_BLOCK :: nat where "ULOG_BLOCK = 2048"
definition MAXLOGLEN :: nat where "MAXLOGLEN = 0x10000000"
definition KDB_ULOG_MAGIC :: u32 where "KDB_ULOG_MAGIC = 0x06661212"
definition KDB_ULOG_HDR_MAGIC :: u32 where "KDB_ULOG_HDR_MAGIC = 0x06662323"
definition KDB_STABLE :: u16 where "KDB_STABLE = 1"
definition KDB_UNSTABLE :: u16 where "KDB_UNSTABLE = 2"

record Header =
  h_magic :: u32
  h_version :: u16
  h_num :: u32
  h_first_time :: Time
  h_last_time :: Time
  h_first_sno :: u32
  h_last_sno :: u32
  h_state :: u16
  h_block :: u16

definition ne_u32 :: "bool \<Rightarrow> bytes \<Rightarrow> nat \<Rightarrow> u32" where
  "ne_u32 le b at = ne32 le (take 4 (drop at b))"

definition ne_u16 :: "bool \<Rightarrow> bytes \<Rightarrow> nat \<Rightarrow> u16" where
  "ne_u16 le b at = ne16 le (take 2 (drop at b))"

definition header_decode :: "bool \<Rightarrow> bytes \<Rightarrow> Header" where
  "header_decode le b =
     \<lparr>h_magic = ne_u32 le b 0, h_version = ne_u16 le b 4, h_num = ne_u32 le b 8,
      h_first_time = \<lparr>seconds = ne_u32 le b 12, useconds = ne_u32 le b 16\<rparr>,
      h_last_time = \<lparr>seconds = ne_u32 le b 20, useconds = ne_u32 le b 24\<rparr>,
      h_first_sno = ne_u32 le b 28, h_last_sno = ne_u32 le b 32, h_state = ne_u16 le b 36, h_block = ne_u16 le b 38\<rparr>"

definition header_encode :: "bool \<Rightarrow> Header \<Rightarrow> bytes" where
  "header_encode le h =
     to_ne32 le (h_magic h) @ to_ne16 le (h_version h) @ [0, 0] @ to_ne32 le (h_num h) @
     to_ne32 le (seconds (h_first_time h)) @ to_ne32 le (useconds (h_first_time h)) @
     to_ne32 le (seconds (h_last_time h)) @ to_ne32 le (useconds (h_last_time h)) @
     to_ne32 le (h_first_sno h) @ to_ne32 le (h_last_sno h) @ to_ne16 le (h_state h) @ to_ne16 le (h_block h)"

record EntryHeader =
  eh_magic :: u32
  eh_sno :: u32
  eh_time :: Time
  eh_commit :: bool
  eh_size :: u32

definition entry_decode :: "bool \<Rightarrow> bytes \<Rightarrow> EntryHeader" where
  "entry_decode le b =
     \<lparr>eh_magic = ne_u32 le b 0, eh_sno = ne_u32 le b 4,
      eh_time = \<lparr>seconds = ne_u32 le b 8, useconds = ne_u32 le b 12\<rparr>,
      eh_commit = (ne_u32 le b 16 \<noteq> 0), eh_size = ne_u32 le b 20\<rparr>"

definition entry_encode :: "bool \<Rightarrow> EntryHeader \<Rightarrow> bytes" where
  "entry_encode le e =
     to_ne32 le (eh_magic e) @ to_ne32 le (eh_sno e) @ to_ne32 le (seconds (eh_time e)) @
     to_ne32 le (useconds (eh_time e)) @ to_ne32 le (if eh_commit e then 1 else 0) @ to_ne32 le (eh_size e)"

lemma length_header_encode [simp]: "length (header_encode le h) = 40"
  by (simp add: header_encode_def)

lemma length_entry_encode [simp]: "length (entry_encode le e) = 24"
  by (simp add: entry_encode_def)

lemma header_decode_encode [simp]: "header_decode le (header_encode le h) = h"
  by (simp add: header_decode_def header_encode_def ne_u32_def ne_u16_def)

lemma entry_decode_encode [simp]: "entry_decode le (entry_encode le e @ s) = e"
  by (simp add: entry_decode_def entry_encode_def ne_u32_def)

section \<open>Slots\<close>

definition read_header :: "bool \<Rightarrow> bytes \<Rightarrow> Header" where
  "read_header le f = header_decode le (read_zero_padded HEADER_SIZE 0 f)"

definition write_header :: "bool \<Rightarrow> Header \<Rightarrow> bytes \<Rightarrow> bytes" where
  "write_header le h f = write_at (header_encode le h) 0 f"

definition entry_offset :: "u32 \<Rightarrow> u16 \<Rightarrow> nat" where
  "entry_offset index block = HEADER_SIZE + unat index * unat block"

definition read_entry :: "bool \<Rightarrow> bytes \<Rightarrow> u16 \<Rightarrow> u32 \<Rightarrow> StoreError + EntryHeader \<times> bytes" where
  "read_entry le f block index =
     (let b = read_zero_padded (unat block) (entry_offset index block) f;
          h = entry_decode le b;
          e = unat (eh_size h) + ENTRY_DATA_OFFSET in
      if e \<le> length b then Inr (h, drop ENTRY_DATA_OFFSET (take e b))
      else Inl (se_corrupt ''ulog entry size exceeds its block''))"

definition entry_header :: "bool \<Rightarrow> Header \<Rightarrow> u32 \<Rightarrow> bytes \<Rightarrow> EntryHeader" where
  "entry_header le h index f = entry_decode le (read_zero_padded ENTRY_DATA_OFFSET (entry_offset index (h_block h)) f)"

definition extend_to :: "nat \<Rightarrow> bytes \<Rightarrow> (StoreError + unit) \<times> bytes" where
  "extend_to len f =
     (if 2 ^ 31 - 1 < len then (Inl (se_backend ''ulog too large''), f)
      else (Inr (), if length f < len then f @ replicate (len - length f) 0 else f))"

definition check_sno :: "bool \<Rightarrow> u32 \<Rightarrow> Header \<Rightarrow> u32 \<Rightarrow> Time \<Rightarrow> bytes \<Rightarrow> bool" where
  "check_sno le n h sno time f =
     (let ent = entry_header le h ((sno - 1) mod n) f in eh_sno ent = sno \<and> eh_time ent = time)"

definition sno_status :: "bool \<Rightarrow> u32 \<Rightarrow> Header \<Rightarrow> Last \<Rightarrow> bytes \<Rightarrow> UpdateStatus" where
  "sno_status le n h l f =
     (if la_sno l = h_last_sno h \<and> la_time l = h_last_time h then Upd_Nil
      else if h_num h = 0 \<or> h_last_sno h < la_sno l \<or> la_sno l < h_first_sno h then Upd_FullResyncNeeded
      else if \<not> check_sno le n h (la_sno l) (la_time l) f then Upd_FullResyncNeeded
      else Upd_Ok)"

section \<open>Starting over\<close>

definition set_dummy :: "bool \<Rightarrow> u32 \<Rightarrow> Header \<Rightarrow> u32 \<Rightarrow> Time \<Rightarrow> bytes \<Rightarrow> Header \<times> bytes" where
  "set_dummy le n h sno time f =
     (let b = entry_encode le \<lparr>eh_magic = KDB_ULOG_MAGIC, eh_sno = sno, eh_time = time, eh_commit = False, eh_size = 0\<rparr> @
              replicate (ENTRY_HEADER_SIZE - ENTRY_DATA_OFFSET) 0 in
      (h\<lparr>h_num := 1, h_first_sno := sno, h_last_sno := sno, h_first_time := time, h_last_time := time\<rparr>,
       write_at b (entry_offset ((sno - 1) mod n) (h_block h)) f))"

definition reset :: "bool \<Rightarrow> u32 \<Rightarrow> Time \<Rightarrow> bytes \<Rightarrow> Header \<times> bytes" where
  "reset le n now f =
     (let h = \<lparr>h_magic = KDB_ULOG_HDR_MAGIC, h_version = 1, h_num = 0, h_first_time = default_Time,
               h_last_time = default_Time, h_first_sno = 0, h_last_sno = 0, h_state = 0,
               h_block = word_of_nat ULOG_BLOCK\<rparr>;
          (h, f) = set_dummy le n h 1 now f;
          h = h\<lparr>h_state := KDB_STABLE\<rparr> in
      (h, write_header le h f))"

definition init_header :: "bool \<Rightarrow> u32 \<Rightarrow> Time \<Rightarrow> bytes \<Rightarrow> bytes" where
  "init_header le n now f = snd (reset le n now f)"

definition set_last :: "bool \<Rightarrow> u32 \<Rightarrow> Last \<Rightarrow> bytes \<Rightarrow> bytes" where
  "set_last le n l f =
     (let (h, f) = set_dummy le n (read_header le f) (la_sno l) (la_time l) f in write_header le h f)"

definition get_last :: "bool \<Rightarrow> bytes \<Rightarrow> Last" where
  "get_last le f = (let h = read_header le f in \<lparr>la_sno = h_last_sno h, la_time = h_last_time h\<rparr>)"

definition get_sno_status :: "bool \<Rightarrow> u32 \<Rightarrow> Last \<Rightarrow> bytes \<Rightarrow> UpdateStatus" where
  "get_sno_status le n l f = sno_status le n (read_header le f) l f"

section \<open>Growing the blocks\<close>

definition block_for :: "u32 \<Rightarrow> nat \<Rightarrow> Update \<Rightarrow> StoreError + u16" where
  "block_for n recsize u =
     (let new_block = (recsize div ULOG_BLOCK + 1) * ULOG_BLOCK in
      if 2 ^ 16 \<le> new_block then Inl (se_backend ''ulog overflow caused by principal'')
      else if MAXLOGLEN < HEADER_SIZE + unat n * new_block then Inl (se_backend ''ulog would exceed its maximum size'')
      else Inr (word_of_nat new_block))"

definition update_data :: "Update \<Rightarrow> StoreError + bytes" where
  "update_data u = rbind (update_encode u) (\<lambda>data.
     if 2 ^ 32 \<le> length data then Inl (se_backend ''ulog update too large'') else Inr data)"

definition check_fits :: "bool \<Rightarrow> u32 \<Rightarrow> Update \<Rightarrow> bytes \<Rightarrow> StoreError + unit" where
  "check_fits le n u f =
     rbind (update_data u) (\<lambda>data.
     let recsize = ENTRY_HEADER_SIZE + length data in
     if unat (h_block (read_header le f)) < recsize then rbind (block_for n recsize u) (\<lambda>_. Inr ()) else Inr ())"

definition move_block :: "u16 \<Rightarrow> u16 \<Rightarrow> nat \<Rightarrow> bytes \<Rightarrow> bytes" where
  "move_block old new i f =
     write_at (read_zero_padded (unat old) (HEADER_SIZE + i * unat old) f @ replicate (unat new - unat old) 0)
       (HEADER_SIZE + i * unat new) f"

text \<open>The loop \<open>for i in (0..entries).rev()\<close>, with \<open>k\<close> blocks left.\<close>

fun move_blocks :: "u16 \<Rightarrow> u16 \<Rightarrow> nat \<Rightarrow> bytes \<Rightarrow> bytes" where
  "move_blocks old new 0 f = f"
| "move_blocks old new (Suc k) f = move_blocks old new k (move_block old new k f)"

definition resize :: "bool \<Rightarrow> u32 \<Rightarrow> Header \<Rightarrow> nat \<Rightarrow> Update \<Rightarrow> bytes \<Rightarrow> (StoreError + Header) \<times> bytes" where
  "resize le n h recsize u f =
     (case block_for n recsize u of
        Inl e \<Rightarrow> (Inl e, f)
      | Inr new_block \<Rightarrow>
          (case extend_to (HEADER_SIZE + unat n * unat new_block) f of
             (Inl e, f) \<Rightarrow> (Inl e, f)
           | (Inr _, f) \<Rightarrow>
               let f = move_blocks (h_block h) new_block (unat n) f;
                   h = h\<lparr>h_block := new_block\<rparr> in
               (Inr h, write_header le h f)))"

section \<open>Appending\<close>

definition store_files :: "bool \<Rightarrow> u32 \<Rightarrow> Header \<Rightarrow> Update \<Rightarrow> bytes \<Rightarrow> bytes \<Rightarrow> bytes list" where
  "store_files le n h u data f =
     (let h = h\<lparr>h_state := KDB_UNSTABLE\<rparr>;
          f1 = write_header le h f;
          offset = entry_offset ((u_sno u - 1) mod n) (h_block h);
          ent = \<lparr>eh_magic = KDB_ULOG_MAGIC, eh_sno = u_sno u, eh_time = u_time u, eh_commit = False,
                 eh_size = word_of_nat (length data)\<rparr>;
          block = entry_encode le ent @ data @ replicate (unat (h_block h) - (ENTRY_DATA_OFFSET + length data)) 0;
          f2 = write_at block offset f1;
          f3 = write_at (entry_encode le (ent\<lparr>eh_commit := True\<rparr>)) offset f2;
          h = h\<lparr>h_last_sno := u_sno u, h_last_time := u_time u\<rparr>;
          h = (if h_num h = 0 then h\<lparr>h_num := 1, h_first_sno := u_sno u, h_first_time := u_time u\<rparr>
               else if h_num h < n then h\<lparr>h_num := h_num h + 1\<rparr>
               else let first = entry_header le h (u_sno u mod n) f3 in
                 h\<lparr>h_first_sno := eh_sno first, h_first_time := eh_time first\<rparr>)
      in [f1, f2, f3, write_header le (h\<lparr>h_state := KDB_STABLE\<rparr>) f3])"

definition store_update :: "bool \<Rightarrow> u32 \<Rightarrow> Header \<Rightarrow> Update \<Rightarrow> bytes \<Rightarrow> (StoreError + unit) \<times> bytes" where
  "store_update le n h u f =
     (case update_data u of
        Inl e \<Rightarrow> (Inl e, f)
      | Inr data \<Rightarrow>
          let recsize = ENTRY_HEADER_SIZE + length data in
          (case if unat (h_block h) < recsize then resize le n h recsize u f else (Inr h, f) of
             (Inl e, f) \<Rightarrow> (Inl e, f)
           | (Inr h, f) \<Rightarrow> (Inr (), last (store_files le n h u data f))))"

definition add_update :: "bool \<Rightarrow> u32 \<Rightarrow> Time \<Rightarrow> Time \<Rightarrow> Update \<Rightarrow> bytes \<Rightarrow> (StoreError + Update) \<times> bytes" where
  "add_update le n now now' u f =
     (let h = read_header le f;
          (h, f) = (if h_last_sno h = - 1 then reset le n now f else (h, f));
          u = u\<lparr>u_sno := h_last_sno h + 1, u_time := now'\<rparr> in
      case store_update le n h u f of (Inl e, f) \<Rightarrow> (Inl e, f) | (Inr _, f) \<Rightarrow> (Inr u, f))"

definition store_replayed :: "bool \<Rightarrow> u32 \<Rightarrow> Time \<Rightarrow> Update \<Rightarrow> bytes \<Rightarrow> (StoreError + unit) \<times> bytes" where
  "store_replayed le n now u f =
     (let h = read_header le f;
          (h, f) = (if h_num h \<noteq> 0 \<and> u_sno u \<noteq> h_last_sno h + 1 then reset le n now f else (h, f)) in
      store_update le n h u f)"

section \<open>Serving a replica\<close>

fun read_updates :: "bool \<Rightarrow> u32 \<Rightarrow> u16 \<Rightarrow> bytes \<Rightarrow> nat list \<Rightarrow> StoreError + Update list" where
  "read_updates le n block f [] = Inr []"
| "read_updates le n block f (sno # snos) =
     rbind (read_entry le f block (word_of_nat sno mod n)) (\<lambda>(ent, data).
     rbind (update_decode data) (\<lambda>u.
     rbind (read_updates le n block f snos) (\<lambda>us. Inr (u\<lparr>u_commit := eh_commit ent\<rparr> # us))))"

definition get_entries ::
  "bool \<Rightarrow> u32 \<Rightarrow> Time \<Rightarrow> Last \<Rightarrow> bytes \<Rightarrow> (StoreError + UpdateStatus \<times> Update list \<times> Last) \<times> bytes" where
  "get_entries le n now l f =
     (let h = read_header le f;
          (h, f) = (if h_state h \<noteq> KDB_STABLE then reset le n now f else (h, f));
          status = sno_status le n h l f in
      if status \<noteq> Upd_Ok then (Inr (status, [], \<lparr>la_sno = 0, la_time = default_Time\<rparr>), f)
      else (rbind (read_updates le n (h_block h) f [unat (la_sno l)..<unat (h_last_sno h)]) (\<lambda>us.
              Inr (Upd_Ok, us, \<lparr>la_sno = h_last_sno h, la_time = h_last_time h\<rparr>)), f))"

section \<open>Opening the log\<close>

definition check_on_map :: "bool \<Rightarrow> u32 \<Rightarrow> Time \<Rightarrow> bytes \<Rightarrow> (StoreError + unit) \<times> bytes" where
  "check_on_map le n now f =
     (let h = read_header le f in
      if h_magic h \<noteq> KDB_ULOG_HDR_MAGIC \<and> h_magic h \<noteq> 0 then (Inl (se_corrupt ''ulog has a corrupt header''), f)
      else
        let (h, f) = (if h_magic h \<noteq> KDB_ULOG_HDR_MAGIC then reset le n now f else (h, f));
            (h, f) = (if h_num h \<noteq> 0 \<and> (n < h_num h \<or> \<not> check_sno le n h (h_first_sno h) (h_first_time h) f \<or>
                        \<not> check_sno le n h (h_last_sno h) (h_last_time h) f)
                      then reset le n now f else (h, f)) in
        if h_num h \<noteq> n then extend_to (HEADER_SIZE + unat n * unat (h_block h)) f else (Inr (), f))"

text \<open>\<open>None\<close>: the file does not exist, and is created empty.\<close>

definition ulog_map :: "bool \<Rightarrow> u32 \<Rightarrow> Time \<Rightarrow> bytes option \<Rightarrow> (StoreError + unit) \<times> bytes option" where
  "ulog_map le n now fo =
     (if n = 0 then (Inl (se_backend ''iprop_ulogsize must be positive''), fo)
      else
        case (case fo of
                None \<Rightarrow> extend_to (HEADER_SIZE + unat n * ULOG_BLOCK) []
              | Some f \<Rightarrow> (Inr (), f)) of
          (Inl e, f) \<Rightarrow> (Inl e, Some f)
        | (Inr _, f) \<Rightarrow> apsnd Some (check_on_map le n now f))"

end
