(* ===== verification/Ulog.thy ===== *)
theory Ulog
  imports Ulog_File
begin

text \<open>
  What the update log promises: it is the window of the last updates, each under its serial number. The
  invariant \<open>log_ok\<close> relates the file to that window; every operation of \<open>Ulog_File\<close> refines an operation on it.
\<close>

section \<open>The window\<close>

text \<open>The position before the window and the updates after it.\<close>

record ulog_window =
  lw_sno :: u32
  lw_time :: Time
  lw_updates :: "Update list"

definition lw_start :: "Last \<Rightarrow> ulog_window" where
  "lw_start l = \<lparr>lw_sno = la_sno l, lw_time = la_time l, lw_updates = []\<rparr>"

definition update_last :: "Update \<Rightarrow> Last" where
  "update_last u = \<lparr>la_sno = u_sno u, la_time = u_time u\<rparr>"

text \<open>The positions a replica may have: before the window and after each of its updates.\<close>

definition lw_positions :: "ulog_window \<Rightarrow> Last list" where
  "lw_positions w = \<lparr>la_sno = lw_sno w, la_time = lw_time w\<rparr> # map update_last (lw_updates w)"

definition lw_last :: "ulog_window \<Rightarrow> Last" where
  "lw_last w = last (lw_positions w)"

definition lw_add :: "nat \<Rightarrow> Update \<Rightarrow> ulog_window \<Rightarrow> ulog_window" where
  "lw_add n u w =
     (let us = lw_updates w @ [u] in
      if length us < n then w\<lparr>lw_updates := us\<rparr>
      else \<lparr>lw_sno = u_sno (hd us), lw_time = u_time (hd us), lw_updates = tl us\<rparr>)"

definition committed :: "Update \<Rightarrow> Update" where
  "committed u = u\<lparr>u_commit := True\<rparr>"

definition lw_get :: "Last \<Rightarrow> ulog_window \<Rightarrow> UpdateStatus \<times> Update list \<times> Last" where
  "lw_get l w =
     (let k = unat (la_sno l) - unat (lw_sno w) in
      if l = lw_last w then (Upd_Nil, [], \<lparr>la_sno = 0, la_time = default_Time\<rparr>)
      else if lw_sno w \<le> la_sno l \<and> k < length (lw_positions w) \<and> lw_positions w ! k = l then
        (Upd_Ok, map committed (drop k (lw_updates w)), lw_last w)
      else (Upd_FullResyncNeeded, [], \<lparr>la_sno = 0, la_time = default_Time\<rparr>))"

section \<open>Blocks\<close>

definition slot_bytes :: "bytes \<Rightarrow> u16 \<Rightarrow> nat \<Rightarrow> bytes" where
  "slot_bytes f block i = read_zero_padded (unat block) (HEADER_SIZE + i * unat block) f"

definition slot_entry :: "bool \<Rightarrow> bytes \<Rightarrow> StoreError + EntryHeader \<times> bytes" where
  "slot_entry le b =
     (let h = entry_decode le b; e = unat (eh_size h) + ENTRY_DATA_OFFSET in
      if e \<le> length b then Inr (h, drop ENTRY_DATA_OFFSET (take e b))
      else Inl (se_corrupt ''ulog entry size exceeds its block''))"

lemma length_slot_bytes [simp]: "length (slot_bytes f block i) = unat block"
  by (simp add: slot_bytes_def)

lemma read_entry_slot: "read_entry le f block i = slot_entry le (slot_bytes f block (unat i))"
  by (simp add: read_entry_def slot_entry_def slot_bytes_def entry_offset_def Let_def)

lemma entry_decode_prefix: "24 \<le> length b \<Longrightarrow> take 24 b = take 24 c \<Longrightarrow> entry_decode le b = entry_decode le c"
proof -
  assume t: "24 \<le> length b" "take 24 b = take 24 c"
  have at: "at + 4 \<le> 24 \<Longrightarrow> take 4 (drop at b) = take 4 (drop at c)" for at
  proof -
    assume "at + 4 \<le> 24"
    then have "take 4 (drop at x) = take 4 (drop at (take 24 x))" for x :: bytes by (simp add: drop_take min_def)
    then show ?thesis using t(2) by metis
  qed
  from at [of 0] have "take 4 b = take 4 c" by simp
  with at show ?thesis by (simp add: entry_decode_def ne_u32_def)
qed

lemma entry_header_slot:
  assumes "24 \<le> unat (h_block h)"
  shows "entry_header le h i f = entry_decode le (slot_bytes f (h_block h) (unat i))"
proof -
  have "read_zero_padded 24 off f = take 24 (read_zero_padded (unat (h_block h)) off f)" for off
    using assms by (simp add: read_zero_padded_bytes take_map)
  then show ?thesis
    by (auto simp: entry_header_def slot_bytes_def entry_offset_def ENTRY_DATA_OFFSET_def assms intro: entry_decode_prefix)
qed

text \<open>Blocks and the header do not overlap.\<close>

lemma slot_bytes_write_header [simp]: "slot_bytes (write_header le h f) block i = slot_bytes f block i"
  by (simp add: slot_bytes_def write_header_def read_write_disjoint HEADER_SIZE_def)

lemma read_header_write_header [simp]: "read_header le (write_header le h f) = h"
  by (simp add: read_header_def write_header_def read_write_same HEADER_SIZE_def)

lemma read_header_write_slot [simp]: "read_header le (write_at d (HEADER_SIZE + k) f) = read_header le f"
  by (simp add: read_header_def read_write_disjoint)

lemma block_disjoint:
  fixes i j b d :: nat
  assumes "i \<noteq> j" "d \<le> b"
  shows "i * b + b \<le> j * b \<or> j * b + d \<le> i * b"
proof (cases "i < j")
  case True
  then have "Suc i * b \<le> j * b" by (intro mult_right_mono) auto
  then show ?thesis by simp
next
  case False
  with assms have "Suc j * b \<le> i * b" by (intro mult_right_mono) auto
  then show ?thesis using assms(2) by simp
qed

lemma slot_bytes_write_other:
  assumes "i \<noteq> j" "length d \<le> unat block"
  shows "slot_bytes (write_at d (HEADER_SIZE + j * unat block) f) block i = slot_bytes f block i"
  using block_disjoint [OF assms] by (auto simp: slot_bytes_def intro!: read_write_disjoint)

lemma slot_bytes_write_same:
  "length d = unat block \<Longrightarrow> slot_bytes (write_at d (HEADER_SIZE + i * unat block) f) block i = d"
  by (simp add: slot_bytes_def read_write_same)

lemma read_write_prefix:
  assumes "length d \<le> len"
  shows "read_zero_padded len off (write_at d off f) = d @ drop (length d) (read_zero_padded len off f)"
  using assms by (intro nth_equalityI) (auto simp: read_zero_padded_bytes byte_at_write_at nth_append)

lemma slot_bytes_write_prefix:
  "length d \<le> unat block \<Longrightarrow>
   slot_bytes (write_at d (HEADER_SIZE + i * unat block) f) block i = d @ drop (length d) (slot_bytes f block i)"
  by (simp add: slot_bytes_def read_write_prefix)

section \<open>The invariant\<close>

definition slot_is :: "bool \<Rightarrow> bytes \<Rightarrow> Last \<Rightarrow> bool" where
  "slot_is le b l \<longleftrightarrow> eh_sno (entry_decode le b) = la_sno l \<and> eh_time (entry_decode le b) = la_time l"

definition slot_has :: "bool \<Rightarrow> bytes \<Rightarrow> Update \<Rightarrow> bool" where
  "slot_has le b u \<longleftrightarrow> slot_is le b (update_last u) \<and>
     (case slot_entry le b of
        Inl _ \<Rightarrow> False
      | Inr (e, data) \<Rightarrow> eh_commit e \<and> update_data u = Inr data \<and> list_all value_wf (u_values u))"

definition header_ok :: "u32 \<Rightarrow> Header \<Rightarrow> ulog_window \<Rightarrow> bool" where
  "header_ok n h w \<longleftrightarrow>
     h_magic h = KDB_ULOG_HDR_MAGIC \<and> h_state h = KDB_STABLE \<and> ULOG_BLOCK \<le> unat (h_block h) \<and>
     h_num h = word_of_nat (1 + length (lw_updates w)) \<and> h_first_sno h = lw_sno w \<and> h_first_time h = lw_time w \<and>
     h_last_sno h = la_sno (lw_last w) \<and> h_last_time h = la_time (lw_last w)"

definition window_ok :: "u32 \<Rightarrow> ulog_window \<Rightarrow> bool" where
  "window_ok n w \<longleftrightarrow>
     lw_sno w \<noteq> 0 \<and> unat (lw_sno w) + length (lw_updates w) < 2 ^ 32 \<and> length (lw_updates w) < unat n \<and>
     (\<forall>i < length (lw_updates w). unat (u_sno (lw_updates w ! i)) = unat (lw_sno w) + i + 1)"

definition log_ok :: "bool \<Rightarrow> u32 \<Rightarrow> bytes \<Rightarrow> ulog_window \<Rightarrow> bool" where
  "log_ok le n f w \<longleftrightarrow>
     window_ok n w \<and> header_ok n (read_header le f) w \<and>
     (let slot = (\<lambda>k. slot_bytes f (h_block (read_header le f)) (k mod unat n)); b = unat (lw_sno w) in
      slot_is le (slot (b - 1)) \<lparr>la_sno = lw_sno w, la_time = lw_time w\<rparr> \<and>
      (\<forall>i < length (lw_updates w). slot_has le (slot (b + i)) (lw_updates w ! i)))"

lemma slot_index:
  "s \<noteq> 0 \<Longrightarrow> unat ((s - 1) mod n) = (unat s - 1) mod unat (n :: u32)"
  by (simp add: unat_mod unat_minus_one)

lemma mod_distinct:
  fixes a c n :: nat
  assumes "a < c" "c < a + n"
  shows "a mod n \<noteq> c mod n"
proof
  assume "a mod n = c mod n"
  with assms have "n dvd c - a" by (metis less_imp_le_nat mod_eq_dvd_iff_nat)
  with assms show False by (auto dest: dvd_imp_le)
qed

lemma lw_last_sno:
  assumes "window_ok n w"
  shows "unat (la_sno (lw_last w)) = unat (lw_sno w) + length (lw_updates w)"
proof (cases "lw_updates w" rule: rev_cases)
  case Nil
  then show ?thesis by (simp add: lw_last_def lw_positions_def)
next
  case (snoc us u)
  with assms have "unat (u_sno (lw_updates w ! length us)) = unat (lw_sno w) + length us + 1"
    unfolding window_ok_def by auto
  with snoc show ?thesis by (simp add: lw_last_def lw_positions_def update_last_def)
qed

lemma position_sno:
  assumes "window_ok n w" "k < length (lw_positions w)"
  shows "unat (la_sno (lw_positions w ! k)) = unat (lw_sno w) + k"
  using assms by (cases k) (auto simp: lw_positions_def window_ok_def update_last_def)

section \<open>Starting over\<close>

lemma reset_ok:
  assumes "n \<noteq> 0"
  shows "log_ok le n (snd (reset le n now f)) (lw_start \<lparr>la_sno = 1, la_time = now\<rparr>)"
    and "read_header le (snd (reset le n now f)) = fst (reset le n now f)"
proof -
  let ?e = "\<lparr>eh_magic = KDB_ULOG_MAGIC, eh_sno = 1, eh_time = now, eh_commit = False, eh_size = 0\<rparr>"
  have u: "unat n \<noteq> 0" using assms by (simp add: unat_eq_0)
  have "slot_bytes (snd (reset le n now f)) (word_of_nat ULOG_BLOCK) 0 =
      (entry_encode le ?e @ replicate 4 0) @ drop 28 (slot_bytes f (word_of_nat ULOG_BLOCK) 0)"
    using slot_bytes_write_prefix [of "entry_encode le ?e @ replicate 4 0" "word_of_nat ULOG_BLOCK" 0 f]
    by (simp add: reset_def set_dummy_def Let_def split_def entry_offset_def ENTRY_HEADER_SIZE_def ENTRY_DATA_OFFSET_def
        ULOG_BLOCK_def)
  then show "log_ok le n (snd (reset le n now f)) (lw_start \<lparr>la_sno = 1, la_time = now\<rparr>)"
    using u by (simp add: log_ok_def window_ok_def header_ok_def reset_def set_dummy_def Let_def split_def lw_start_def
        lw_last_def lw_positions_def slot_is_def ULOG_BLOCK_def)
  show "read_header le (snd (reset le n now f)) = fst (reset le n now f)"
    by (simp add: reset_def Let_def split_def)
qed

lemma set_last_ok:
  assumes "log_ok le n f w" "la_sno l \<noteq> 0"
  shows "log_ok le n (set_last le n l f) (lw_start l)"
proof -
  let ?e = "\<lparr>eh_magic = KDB_ULOG_MAGIC, eh_sno = la_sno l, eh_time = la_time l, eh_commit = False, eh_size = 0\<rparr>"
  let ?b = "h_block (read_header le f)" and ?i = "(unat (la_sno l) - 1) mod unat n"
  have b: "2048 \<le> unat ?b" using assms(1) by (simp add: log_ok_def header_ok_def ULOG_BLOCK_def)
  have u: "unat n \<noteq> 0" using assms(1) by (auto simp: log_ok_def window_ok_def)
  have "slot_bytes (set_last le n l f) ?b ?i = (entry_encode le ?e @ replicate 4 0) @ drop 28 (slot_bytes f ?b ?i)"
    using b slot_bytes_write_prefix [of "entry_encode le ?e @ replicate 4 0" ?b ?i f]
    by (simp add: set_last_def set_dummy_def Let_def split_def entry_offset_def ENTRY_HEADER_SIZE_def ENTRY_DATA_OFFSET_def
        slot_index [OF assms(2)])
  then show ?thesis using assms u unsigned_less [of "la_sno l", where ?'a = nat]
    by (simp add: log_ok_def window_ok_def header_ok_def set_last_def set_dummy_def Let_def split_def lw_start_def
        lw_last_def lw_positions_def slot_is_def)
qed

section \<open>Growing the blocks\<close>

lemma read_zero_padded_extend: "read_zero_padded len off (snd (extend_to m f)) = read_zero_padded len off f"
  by (auto simp: read_zero_padded_bytes byte_at_def extend_to_def nth_append)

lemma slot_bytes_extend [simp]: "slot_bytes (snd (extend_to m f)) b i = slot_bytes f b i"
  by (simp add: slot_bytes_def read_zero_padded_extend)

lemma slot_moved:
  fixes i :: nat
  assumes "unat old \<le> unat new"
  shows "i < k \<Longrightarrow> slot_bytes (move_blocks old new k f) new i = slot_bytes f old i @ replicate (unat new - unat old) 0"
    and "k \<le> i \<Longrightarrow> slot_bytes (move_blocks old new k f) new i = slot_bytes f new i"
    and "read_header le (move_blocks old new k f) = read_header le f"
proof (induction k arbitrary: f)
  case (Suc k)
  define d where "d f = slot_bytes f old k @ replicate (unat new - unat old) 0" for f
  define g where "g f = write_at (d f) (HEADER_SIZE + k * unat new) f" for f
  have step: "move_blocks old new (Suc k) f = move_blocks old new k (g f)" for f
    by (simp add: slot_bytes_def d_def g_def move_block_def)
  have len: "length (d f) = unat new" for f using assms by (simp add: d_def)
  {
    case 1
    show ?case
    proof (cases "i = k")
      case True
      then show ?thesis using Suc.IH(2) [of "g f"] slot_bytes_write_same [OF len]
        by (simp add: step g_def d_def del: move_blocks.simps)
    next
      case False
      with 1 have ik: "i < k" by simp
      have "i * unat old + unat old \<le> k * unat new"
      proof -
        have "Suc i * unat old \<le> k * unat new" using ik assms by (intro mult_le_mono) auto
        then show ?thesis by simp
      qed
      then have "slot_bytes (g f) old i = slot_bytes f old i"
        unfolding g_def slot_bytes_def [of _ old i] by (intro read_write_disjoint) simp
      then show ?thesis using Suc.IH(1) [OF ik, of "g f"] by (simp add: step del: move_blocks.simps)
    qed
  next
    case 2
    then show ?case using Suc.IH(2) [of "g f"] slot_bytes_write_other [of i k "d f" new f] len
      by (simp add: step g_def del: move_blocks.simps)
  next
    case 3
    show ?case using Suc.IH(3) [of "g f"] by (simp add: step g_def del: move_blocks.simps)
  }
qed simp_all

lemma slot_is_append: "24 \<le> length b \<Longrightarrow> slot_is le (b @ c) l = slot_is le b l"
  using entry_decode_prefix [of b "b @ c" le] by (simp add: slot_is_def)

lemma slot_has_append:
  assumes "slot_has le b u" "24 \<le> length b"
  shows "slot_has le (b @ c) u"
proof -
  have d: "entry_decode le (b @ c) = entry_decode le b" using entry_decode_prefix [of b "b @ c" le] assms(2) by simp
  have "slot_entry le b = Inr r \<Longrightarrow> slot_entry le (b @ c) = Inr r" for r
    by (auto simp: slot_entry_def Let_def d split: if_splits)
  then show ?thesis using assms by (auto simp: slot_has_def slot_is_append split: sum.splits)
qed

lemma block_for_Inr:
  assumes "block_for n recsize u = Inr b"
  shows "recsize < unat b" "HEADER_SIZE + unat n * unat b \<le> MAXLOGLEN"
proof -
  define m where "m = (recsize div ULOG_BLOCK + 1) * ULOG_BLOCK"
  have "m < 2 ^ 16" and m: "b = word_of_nat m" "HEADER_SIZE + unat n * m \<le> MAXLOGLEN"
    using assms unfolding block_for_def m_def [symmetric] Let_def by (auto split: if_splits)
  then have b: "unat b = m" by (simp add: unat_of_nat)
  show "HEADER_SIZE + unat n * unat b \<le> MAXLOGLEN" unfolding b by (rule m(2))
  show "recsize < unat b" unfolding b m_def ULOG_BLOCK_def by (simp add: dividend_less_div_times)
qed

lemma resize_ok:
  assumes ok: "log_ok le n f w" and b: "block_for n recsize u = Inr b" and r: "unat (h_block (read_header le f)) < recsize"
  shows "\<exists>f'. resize le n (read_header le f) recsize u f = (Inr (read_header le f'), f') \<and> log_ok le n f' w \<and>
    h_block (read_header le f') = b"
proof -
  let ?h = "read_header le f"
  let ?g = "snd (extend_to (HEADER_SIZE + unat n * unat b) f)"
  let ?f = "write_header le (?h\<lparr>h_block := b\<rparr>) (move_blocks (h_block ?h) b (unat n) ?g)"
  have lt: "unat (h_block ?h) \<le> unat b" using r block_for_Inr(1) [OF b] by simp
  have blk: "2048 \<le> unat (h_block ?h)" and n: "0 < unat n"
    using ok by (auto simp: log_ok_def header_ok_def window_ok_def ULOG_BLOCK_def)
  have "fst (extend_to (HEADER_SIZE + unat n * unat b) f) = Inr ()"
    using block_for_Inr(2) [OF b] by (simp add: extend_to_def MAXLOGLEN_def)
  then have rs: "resize le n ?h recsize u f = (Inr (read_header le ?f), ?f)"
    by (cases "extend_to (HEADER_SIZE + unat n * unat b) f") (simp add: resize_def b Let_def)
  have slot: "slot_bytes (move_blocks (h_block ?h) b (unat n) ?g) b (k mod unat n) =
      slot_bytes f (h_block ?h) (k mod unat n) @ replicate (unat b - unat (h_block ?h)) 0" for k
    using slot_moved(1) [OF lt, of "k mod unat n" "unat n" ?g] n
    by simp
  have "log_ok le n ?f w"
    using ok blk lt unfolding log_ok_def Let_def read_header_write_header
    by (auto simp: header_ok_def slot slot_is_append ULOG_BLOCK_def intro!: slot_has_append)
  with rs show ?thesis by auto
qed

section \<open>Appending\<close>

text \<open>The block of a stored update.\<close>

definition update_block :: "bool \<Rightarrow> u16 \<Rightarrow> Update \<Rightarrow> bytes \<Rightarrow> bytes" where
  "update_block le block u data =
     entry_encode le \<lparr>eh_magic = KDB_ULOG_MAGIC, eh_sno = u_sno u, eh_time = u_time u, eh_commit = True,
       eh_size = word_of_nat (length data)\<rparr> @ data @ replicate (unat block - (24 + length data)) 0"

lemma update_block_has:
  assumes "update_data u = Inr data" "list_all value_wf (u_values u)" "28 + length data \<le> unat block"
  shows "slot_has le (update_block le block u data) u"
proof -
  have "length data < 2 ^ 32" using assms(1) by (auto simp: update_data_def split: if_splits)
  then have "unat (word_of_nat (length data) :: u32) = length data" by (simp add: unat_of_nat)
  then show ?thesis using assms
    by (simp add: slot_has_def slot_is_def slot_entry_def update_block_def update_last_def ENTRY_DATA_OFFSET_def Let_def)
qed

text \<open>The file before the header is written for the second time.\<close>

lemma store_slots:
  assumes "u_sno u \<noteq> 0" "28 + length data \<le> unat (h_block h)"
  shows "slot_bytes (store_files le n h u data f ! 2) (h_block h) j =
      (if j = (unat (u_sno u) - 1) mod unat n then update_block le (h_block h) u data else slot_bytes f (h_block h) j)"
    and "read_header le (store_files le n h u data f ! 2) = h\<lparr>h_state := KDB_UNSTABLE\<rparr>"
proof -
  show "read_header le (store_files le n h u data f ! 2) = h\<lparr>h_state := KDB_UNSTABLE\<rparr>"
    by (simp add: store_files_def Let_def entry_offset_def)
  show "slot_bytes (store_files le n h u data f ! 2) (h_block h) j =
      (if j = (unat (u_sno u) - 1) mod unat n then update_block le (h_block h) u data else slot_bytes f (h_block h) j)"
    using assms(2)
    by (auto simp: store_files_def Let_def entry_offset_def slot_index [OF assms(1)] ENTRY_DATA_OFFSET_def update_block_def
        slot_bytes_write_other slot_bytes_write_prefix slot_bytes_write_same)
qed

text \<open>The header of the file when the update is in.\<close>

definition stored_header :: "bool \<Rightarrow> u32 \<Rightarrow> Header \<Rightarrow> Update \<Rightarrow> bytes \<Rightarrow> Header" where
  "stored_header le n h u f3 =
     (let h = h\<lparr>h_last_sno := u_sno u, h_last_time := u_time u, h_state := KDB_STABLE\<rparr> in
      if h_num h = 0 then h\<lparr>h_num := 1, h_first_sno := u_sno u, h_first_time := u_time u\<rparr>
      else if h_num h < n then h\<lparr>h_num := h_num h + 1\<rparr>
      else let first = entry_header le h (u_sno u mod n) f3 in h\<lparr>h_first_sno := eh_sno first, h_first_time := eh_time first\<rparr>)"

lemma last_store_files:
  "last (store_files le n h u data f) = write_header le (stored_header le n h u (store_files le n h u data f ! 2))
     (store_files le n h u data f ! 2)"
  by (cases h) (auto simp: store_files_def stored_header_def Let_def entry_header_def)

lemma window_add:
  assumes "window_ok n w" "unat (u_sno u) = unat (la_sno (lw_last w)) + 1"
  shows "window_ok n (lw_add (unat n) u w)" and "lw_last (lw_add (unat n) u w) = update_last u"
proof -
  let ?us = "lw_updates w @ [u]"
  have us: "unat (u_sno (?us ! i)) = unat (lw_sno w) + i + 1" if "i < length ?us" for i
    using that assms lw_last_sno [OF assms(1)] by (cases "i = length (lw_updates w)") (auto simp: window_ok_def nth_append)
  have b: "unat (lw_sno w) + length ?us < 2 ^ 32"
    using us [of "length (lw_updates w)"] unsigned_less [of "u_sno u", where ?'a = nat] by simp
  obtain v vs where v: "?us = v # vs" by (cases ?us) auto
  have h: "unat (u_sno v) = unat (lw_sno w) + 1" using us [of 0] by (simp add: v)
  show "window_ok n (lw_add (unat n) u w)"
  proof (cases "length ?us < unat n")
    case True
    then show ?thesis using assms(1) b us by (simp add: lw_add_def window_ok_def)
  next
    case False
    have "\<forall>i < length vs. unat (u_sno (vs ! i)) = unat (u_sno v) + i + 1"
      using us [of "Suc _"] h v by (metis Suc_less_eq add.commute add_Suc_right length_Cons nth_Cons_Suc plus_1_eq_Suc add.assoc)
    moreover have "length vs < unat n" using v assms(1) by (auto simp: window_ok_def dest: arg_cong [where f = length])
    moreover have "u_sno v \<noteq> 0" using h by auto
    moreover have "unat (u_sno v) + length vs < 2 ^ 32" using b h by (simp add: v)
    ultimately show ?thesis using False v by (simp add: lw_add_def window_ok_def)
  qed
  show "lw_last (lw_add (unat n) u w) = update_last u"
  proof (cases "length ?us < unat n")
    case True
    then show ?thesis by (simp add: lw_add_def lw_last_def lw_positions_def)
  next
    case False
    have "last (v # vs) = u" by (simp add: v [symmetric])
    then show ?thesis using False v
      by (cases vs) (auto simp: lw_add_def lw_last_def lw_positions_def update_last_def last_map)
  qed
qed

text \<open>Every update of the extended window is in its block; the position before the old window is, unless the ring is full.\<close>

lemma slots_add:
  assumes ok: "log_ok le n f w" and u: "unat (u_sno u) = unat (la_sno (lw_last w)) + 1"
    and d: "update_data u = Inr data" "list_all value_wf (u_values u)" "28 + length data \<le> unat (h_block (read_header le f))"
  defines "h \<equiv> read_header le f"
  defines "f3 \<equiv> store_files le n h u data f ! 2"
  shows "i < length (lw_updates w @ [u]) \<Longrightarrow>
      slot_has le (slot_bytes f3 (h_block h) ((unat (lw_sno w) + i) mod unat n)) ((lw_updates w @ [u]) ! i)"
    and "length (lw_updates w @ [u]) < unat n \<Longrightarrow>
      slot_is le (slot_bytes f3 (h_block h) ((unat (lw_sno w) - 1) mod unat n)) \<lparr>la_sno = lw_sno w, la_time = lw_time w\<rparr>"
proof -
  let ?b = "unat (lw_sno w)" and ?k = "length (lw_updates w)"
  have w: "window_ok n w" using ok by (simp add: log_ok_def)
  have b: "1 \<le> ?b" "?k < unat n" using w by (auto simp: window_ok_def unat_gt_0 Suc_le_eq)
  have s: "unat (u_sno u) - 1 = ?b + ?k" using u lw_last_sno [OF w] by simp
  have "u_sno u \<noteq> 0" using u by auto
  then have slot: "slot_bytes f3 (h_block h) j =
      (if j = (?b + ?k) mod unat n then update_block le (h_block h) u data else slot_bytes f (h_block h) j)" for j
    unfolding f3_def using store_slots(1) [of u data h le n f j] d(3) s by (simp add: h_def)
  {
    assume "i < length (lw_updates w @ [u])"
    then consider "i = ?k" | "i < ?k" by fastforce
    then show "slot_has le (slot_bytes f3 (h_block h) ((?b + i) mod unat n)) ((lw_updates w @ [u]) ! i)"
    proof cases
      case 1
      then show ?thesis using update_block_has [OF d(1,2)] d(3) by (simp add: slot h_def [symmetric])
    next
      case 2
      moreover have "(?b + i) mod unat n \<noteq> (?b + ?k) mod unat n" using 2 b by (intro mod_distinct) auto
      ultimately show ?thesis using ok by (simp add: slot log_ok_def Let_def nth_append h_def [symmetric])
    qed
  }
  {
    assume "length (lw_updates w @ [u]) < unat n"
    then have "(?b - 1) mod unat n \<noteq> (?b + ?k) mod unat n" using b by (intro mod_distinct) auto
    then show "slot_is le (slot_bytes f3 (h_block h) ((?b - 1) mod unat n)) \<lparr>la_sno = lw_sno w, la_time = lw_time w\<rparr>"
      using ok by (simp add: slot log_ok_def Let_def h_def [symmetric])
  }
qed

lemma store_files_ok:
  assumes ok: "log_ok le n f w" and u: "unat (u_sno u) = unat (la_sno (lw_last w)) + 1"
    and d: "update_data u = Inr data" "list_all value_wf (u_values u)" "28 + length data \<le> unat (h_block (read_header le f))"
  shows "log_ok le n (last (store_files le n (read_header le f) u data f)) (lw_add (unat n) u w)"
proof -
  let ?b = "unat (lw_sno w)" and ?us = "lw_updates w @ [u]" and ?h = "read_header le f"
  define f3 where "f3 = store_files le n ?h u data f ! 2"
  have w: "window_ok n w" and hok: "header_ok n ?h w" using ok by (simp_all add: log_ok_def)
  note slots = slots_add [OF ok u d, folded f3_def]
  have num: "unat (h_num ?h) = length ?us" "length ?us \<le> unat n"
    using hok w unsigned_less [of n, where ?'a = nat] by (auto simp: header_ok_def window_ok_def unat_of_nat unat_word_ariths)
  have blk: "24 \<le> unat (h_block ?h)" using hok by (simp add: header_ok_def ULOG_BLOCK_def)
  have wadd: "window_ok n (lw_add (unat n) u w)" "lw_last (lw_add (unat n) u w) = update_last u"
    using window_add [OF w u] .
  show ?thesis
  proof (cases "length ?us < unat n")
    case True
    then have h': "stored_header le n ?h u f3 = ?h\<lparr>h_last_sno := u_sno u, h_last_time := u_time u, h_state := KDB_STABLE,
        h_num := h_num ?h + 1\<rparr>"
      using num(1) by (auto simp: stored_header_def word_less_nat_alt unat_eq_0 [symmetric])
    have "h_num ?h = word_of_nat (length ?us)" unfolding num(1) [symmetric] by simp
    then show ?thesis using True slots wadd hok
      unfolding log_ok_def last_store_files f3_def [symmetric] h'
      by (simp add: lw_add_def header_ok_def update_last_def)
  next
    case False
    then have N: "length ?us = unat n" using num(2) by simp
    obtain v vs where v: "?us = v # vs" by (cases ?us) auto
    have "unat (u_sno u mod n) = ?b mod unat n"
    proof -
      have "unat (u_sno u) = ?b + unat n" using u lw_last_sno [OF w] N by simp
      then show ?thesis by (simp add: unat_mod)
    qed
    then have "entry_header le h (u_sno u mod n) f3 = entry_decode le (slot_bytes f3 (h_block ?h) (?b mod unat n))"
      if "h_block h = h_block ?h" for h using entry_header_slot [of h le "u_sno u mod n" f3] blk that by simp
    moreover have v0: "slot_has le (slot_bytes f3 (h_block ?h) (?b mod unat n)) v" using slots(1) [of 0] by (simp add: v)
    ultimately have h': "stored_header le n ?h u f3 = ?h\<lparr>h_last_sno := u_sno u, h_last_time := u_time u, h_state := KDB_STABLE,
        h_first_sno := u_sno v, h_first_time := u_time v\<rparr>"
      using num(1) N by (auto simp: stored_header_def word_less_nat_alt unat_eq_0 [symmetric] slot_has_def slot_is_def update_last_def)
    have us: "unat (u_sno v) = ?b + 1"
      using v w u lw_last_sno [OF w] by (cases "lw_updates w") (auto simp: window_ok_def)
    have vs: "slot_has le (slot_bytes f3 (h_block ?h) ((unat (u_sno v) + i) mod unat n)) (vs ! i)" if "i < length vs" for i
      using slots(1) [of "Suc i"] that by (simp add: v us)
    have "h_num ?h = word_of_nat (length (v # vs))" unfolding v [symmetric] num(1) [symmetric] by simp
    moreover have "lw_add (unat n) u w = \<lparr>lw_sno = u_sno v, lw_time = u_time v, lw_updates = vs\<rparr>" using False v by (simp add: lw_add_def)
    ultimately show ?thesis using v0 vs wadd hok
      unfolding log_ok_def last_store_files f3_def [symmetric] h'
      by (simp add: header_ok_def update_last_def us slot_has_def)
  qed
qed

lemma store_update_ok:
  assumes ok: "log_ok le n f w" and u: "unat (u_sno u) = unat (la_sno (lw_last w)) + 1" "list_all value_wf (u_values u)"
  shows "case check_fits le n u f of
      Inl e \<Rightarrow> store_update le n (read_header le f) u f = (Inl e, f)
    | Inr _ \<Rightarrow> \<exists>f'. store_update le n (read_header le f) u f = (Inr (), f') \<and> log_ok le n f' (lw_add (unat n) u w)"
proof (cases "update_data u")
  case (Inl e)
  then show ?thesis by (simp add: check_fits_def store_update_def)
next
  case (Inr data)
  let ?h = "read_header le f"
  show ?thesis
  proof (cases "unat (h_block ?h) < ENTRY_HEADER_SIZE + length data")
    case False
    then show ?thesis using Inr store_files_ok [OF ok u(1) Inr u(2)]
      by (simp add: check_fits_def store_update_def Let_def ENTRY_HEADER_SIZE_def)
  next
    case True
    show ?thesis
    proof (cases "block_for n (ENTRY_HEADER_SIZE + length data) u")
      case (Inl e)
      then show ?thesis using Inr True by (simp add: check_fits_def store_update_def resize_def Let_def)
    next
      case (Inr b)
      obtain f' where f': "resize le n ?h (ENTRY_HEADER_SIZE + length data) u f = (Inr (read_header le f'), f')"
        "log_ok le n f' w" "h_block (read_header le f') = b"
        using resize_ok [OF ok Inr True] by blast
      have "28 + length data \<le> unat (h_block (read_header le f'))"
        using block_for_Inr(1) [OF Inr] f'(3) by (simp add: ENTRY_HEADER_SIZE_def)
      from store_files_ok [OF f'(2) u(1) \<open>update_data u = Inr data\<close> u(2) this]
      show ?thesis using Inr True f'(1) \<open>update_data u = Inr data\<close> by (simp add: check_fits_def store_update_def Let_def)
    qed
  qed
qed

text \<open>The window that an update is added to: a new one when the serial numbers are used up.\<close>

definition lw_room :: "Time \<Rightarrow> ulog_window \<Rightarrow> ulog_window" where
  "lw_room now w = (if la_sno (lw_last w) = - 1 then lw_start \<lparr>la_sno = 1, la_time = now\<rparr> else w)"

definition lw_stamp :: "Time \<Rightarrow> ulog_window \<Rightarrow> Update \<Rightarrow> Update" where
  "lw_stamp now w u = u\<lparr>u_sno := la_sno (lw_last w) + 1, u_time := now\<rparr>"

lemma log_header: "log_ok le n f w \<Longrightarrow> header_ok n (read_header le f) w"
  by (simp add: log_ok_def)

lemma lw_last_start [simp]: "lw_last (lw_start l) = l"
  by (cases l) (simp add: lw_last_def lw_start_def lw_positions_def)

lemma unat_succ32: "s \<noteq> - 1 \<Longrightarrow> unat (s + 1 :: u32) = unat s + 1"
  by (metis Suc_eq_plus1 add.commute unatSuc add_eq_0_iff)

lemma add_update_ok:
  assumes ok: "log_ok le n f w" and wf: "list_all value_wf (u_values u)"
  shows "case add_update le n now now' u f of
      (Inl e, f') \<Rightarrow> log_ok le n f' (lw_room now w)
    | (Inr u', f') \<Rightarrow> u' = lw_stamp now' (lw_room now w) u \<and> log_ok le n f' (lw_add (unat n) u' (lw_room now w))"
proof -
  let ?h = "read_header le f" and ?w = "lw_room now w"
  have n: "n \<noteq> 0" using ok by (auto simp: log_ok_def window_ok_def)
  define g where "g = (if h_last_sno ?h = - 1 then snd (reset le n now f) else f)"
  have g: "log_ok le n g ?w" using ok reset_ok(1) [OF n] log_header [OF ok] by (simp add: g_def lw_room_def header_ok_def)
  have hg: "(if h_last_sno ?h = - 1 then reset le n now f else (?h, f)) = (read_header le g, g)"
    using reset_ok(2) [OF n, of le now f] by (simp add: g_def prod_eq_iff)
  have last: "h_last_sno (read_header le g) = la_sno (lw_last ?w)" using log_header [OF g] by (simp add: header_ok_def)
  have "la_sno (lw_last ?w) \<noteq> - 1" by (simp add: lw_room_def)
  then have s: "unat (la_sno (lw_last ?w) + 1) = unat (la_sno (lw_last ?w)) + 1" by (rule unat_succ32)
  let ?u = "lw_stamp now' ?w u"
  have st: "case check_fits le n ?u g of
      Inl e \<Rightarrow> store_update le n (read_header le g) ?u g = (Inl e, g)
    | Inr _ \<Rightarrow> \<exists>f'. store_update le n (read_header le g) ?u g = (Inr (), f') \<and> log_ok le n f' (lw_add (unat n) ?u ?w)"
    by (rule store_update_ok [OF g]) (simp_all add: lw_stamp_def s wf)
  have "add_update le n now now' u f =
      (case store_update le n (read_header le g) ?u g of (Inl e, f) \<Rightarrow> (Inl e, f) | (Inr _, f) \<Rightarrow> (Inr ?u, f))"
    unfolding add_update_def Let_def hg prod.case last lw_stamp_def ..
  then show ?thesis using st g by (auto split: sum.splits)
qed

lemma store_replayed_ok:
  assumes ok: "log_ok le n f w" and u: "u_sno u = la_sno (lw_last w) + 1" "u_sno u \<noteq> 0" "list_all value_wf (u_values u)"
  shows "case store_replayed le n now u f of
      (Inl e, f') \<Rightarrow> f' = f \<and> check_fits le n u f = Inl e
    | (Inr _, f') \<Rightarrow> log_ok le n f' (lw_add (unat n) u w)"
proof -
  have last: "h_last_sno (read_header le f) = la_sno (lw_last w)" using log_header [OF ok] by (simp add: header_ok_def)
  have "la_sno (lw_last w) \<noteq> - 1" using u by auto
  then have s: "unat (u_sno u) = unat (la_sno (lw_last w)) + 1" unfolding u(1) by (rule unat_succ32)
  have "store_replayed le n now u f = store_update le n (read_header le f) u f"
    by (simp add: store_replayed_def Let_def last u(1))
  then show ?thesis using store_update_ok [OF ok s u(3)] by (auto split: sum.splits)
qed

text \<open>An update that fits a block of the initial size.\<close>

definition fits_block :: "Update \<Rightarrow> bool" where
  "fits_block u \<longleftrightarrow> (case update_data u of Inl _ \<Rightarrow> False | Inr data \<Rightarrow> ENTRY_HEADER_SIZE + length data \<le> ULOG_BLOCK)"

lemma fits_block_fits: "log_ok le n f w \<Longrightarrow> fits_block u \<Longrightarrow> check_fits le n u f = Inr ()"
  using log_header [of le n f w] by (auto simp: fits_block_def check_fits_def header_ok_def Let_def split: sum.splits)

section \<open>Serving a replica\<close>

lemma slot_has_read:
  assumes "slot_has le (slot_bytes f b (unat i)) u"
  shows "\<exists>e data. read_entry le f b i = Inr (e, data) \<and> eh_commit e \<and> update_decode data = Inr u"
proof -
  obtain e data where e: "slot_entry le (slot_bytes f b (unat i)) = Inr (e, data)" "eh_commit e" "update_data u = Inr data"
    "list_all value_wf (u_values u)"
    using assms by (auto simp: slot_has_def split: sum.splits)
  then have "update_encode u = Inr data" by (auto simp: update_data_def split: if_splits)
  then have "update_decode data = Inr u" using update_decode_encode [of u data "[]"] e(4) by simp
  with e show ?thesis by (simp add: read_entry_slot)
qed

lemma read_updates_ok:
  assumes "\<forall>i < length us. slot_has le (slot_bytes f b ((s + i) mod unat n)) (us ! i)" and "s + length us \<le> 2 ^ 32"
  shows "read_updates le n b f [s..<s + length us] = Inr (map committed us)"
  using assms
proof (induction us arbitrary: s)
  case (Cons u us)
  have "unat (word_of_nat s mod n) = s mod unat n" using Cons.prems(2) by (simp add: unat_mod unat_of_nat)
  moreover have "slot_has le (slot_bytes f b (s mod unat n)) u" using Cons.prems(1) by force
  ultimately obtain e data where "read_entry le f b (word_of_nat s mod n) = Inr (e, data)" "eh_commit e" "update_decode data = Inr u"
    using slot_has_read [of le f b "word_of_nat s mod n" u] by auto
  moreover have "read_updates le n b f [Suc s..<Suc s + length us] = Inr (map committed us)"
    by (rule Cons.IH) (use Cons.prems in auto)
  ultimately show ?case by (simp add: upt_conv_Cons committed_def del: upt_Suc)
qed simp

lemma check_sno_ok:
  assumes ok: "log_ok le n f w" and k: "k < length (lw_positions w)" and s: "unat sno = unat (lw_sno w) + k"
  shows "check_sno le n (read_header le f) sno time f \<longleftrightarrow> lw_positions w ! k = \<lparr>la_sno = sno, la_time = time\<rparr>"
proof -
  let ?h = "read_header le f"
  have w: "window_ok n w" and blk: "24 \<le> unat (h_block ?h)"
    using ok by (auto simp: log_ok_def header_ok_def ULOG_BLOCK_def)
  have nz: "lw_sno w \<noteq> 0" "1 \<le> unat (lw_sno w)" using w by (auto simp: window_ok_def unat_gt_0 Suc_le_eq)
  then have "sno \<noteq> 0" using s by auto
  have "slot_is le (slot_bytes f (h_block ?h) ((unat sno - 1) mod unat n)) (lw_positions w ! k)"
  proof (cases k)
    case 0
    then show ?thesis using ok s by (simp add: log_ok_def Let_def lw_positions_def)
  next
    case (Suc i)
    with k ok have "slot_has le (slot_bytes f (h_block ?h) ((unat (lw_sno w) + i) mod unat n)) (lw_updates w ! i)"
      by (simp add: log_ok_def Let_def lw_positions_def)
    then show ?thesis using Suc k s by (simp add: slot_has_def lw_positions_def)
  qed
  then have "check_sno le n ?h sno time f \<longleftrightarrow> la_sno (lw_positions w ! k) = sno \<and> la_time (lw_positions w ! k) = time"
    using entry_header_slot [OF blk, of le "(sno - 1) mod n" f] slot_index [OF \<open>sno \<noteq> 0\<close>, of n]
    by (simp add: check_sno_def Let_def slot_is_def)
  then show ?thesis by (cases "lw_positions w ! k") auto
qed

lemma sno_status_ok:
  assumes ok: "log_ok le n f w"
  shows "sno_status le n (read_header le f) l f = fst (lw_get l w)"
proof -
  let ?h = "read_header le f"
  let ?k = "unat (la_sno l) - unat (lw_sno w)"
  have w: "window_ok n w" and h: "header_ok n ?h w" using ok by (simp_all add: log_ok_def)
  have num: "h_num ?h \<noteq> 0"
  proof -
    have "1 + length (lw_updates w) < 2 ^ 32" using w unsigned_less [of n, where ?'a = nat] by (simp add: window_ok_def)
    then have "unat (h_num ?h) = 1 + length (lw_updates w)" using h by (simp only: header_ok_def unat_of_nat) simp
    then show ?thesis by auto
  qed
  have last: "l = lw_last w \<longleftrightarrow> la_sno l = h_last_sno ?h \<and> la_time l = h_last_time ?h"
    using h by (cases l; cases "lw_last w") (auto simp: header_ok_def)
  have range: "h_last_sno ?h < la_sno l \<longleftrightarrow> unat (lw_sno w) + length (lw_updates w) < unat (la_sno l)"
    using h lw_last_sno [OF w] by (simp add: header_ok_def word_less_nat_alt)
  show ?thesis
  proof (cases "lw_sno w \<le> la_sno l \<and> ?k < length (lw_positions w)")
    case True
    then have "check_sno le n ?h (la_sno l) (la_time l) f \<longleftrightarrow> lw_positions w ! ?k = l"
      using check_sno_ok [OF ok, of ?k "la_sno l" "la_time l"] by (cases l) (simp add: word_le_nat_alt)
    moreover have "\<not> h_last_sno ?h < la_sno l" using True unfolding range by (auto simp: lw_positions_def word_le_nat_alt)
    ultimately show ?thesis using True num h last
      by (auto simp: sno_status_def lw_get_def Let_def header_ok_def)
  next
    case False
    then have "h_last_sno ?h < la_sno l \<or> la_sno l < h_first_sno ?h"
      using h unfolding range by (auto simp: header_ok_def lw_positions_def word_le_nat_alt word_less_nat_alt)
    then show ?thesis using False num h last by (auto simp: sno_status_def lw_get_def Let_def header_ok_def)
  qed
qed

text \<open>The log serves what the window has.\<close>

lemma get_entries_ok:
  assumes ok: "log_ok le n f w"
  shows "get_entries le n now l f = (Inr (lw_get l w), f)"
proof -
  let ?h = "read_header le f"
  define k where "k = unat (la_sno l) - unat (lw_sno w)"
  have w: "window_ok n w" and h: "header_ok n ?h w" using ok by (simp_all add: log_ok_def)
  have state: "h_state ?h = KDB_STABLE" using h by (simp add: header_ok_def)
  show ?thesis
  proof (cases "fst (lw_get l w) = Upd_Ok")
    case False
    then have "lw_get l w = (fst (lw_get l w), [], \<lparr>la_sno = 0, la_time = default_Time\<rparr>)"
      by (auto simp: lw_get_def Let_def split: if_splits)
    then show ?thesis using False state sno_status_ok [OF ok, of l] by (simp add: get_entries_def Let_def)
  next
    case True
    then have k: "lw_sno w \<le> la_sno l" "k < length (lw_positions w)"
      and get: "lw_get l w = (Upd_Ok, map committed (drop k (lw_updates w)), lw_last w)"
      by (auto simp: lw_get_def k_def Let_def split: if_splits)
    have la: "unat (la_sno l) = unat (lw_sno w) + k" using k(1) by (simp add: k_def word_le_nat_alt)
    have len: "unat (la_sno l) + length (drop k (lw_updates w)) = unat (h_last_sno ?h)"
      using k(2) la h lw_last_sno [OF w] by (auto simp: header_ok_def lw_positions_def)
    have "read_updates le n (h_block ?h) f [unat (la_sno l)..<unat (la_sno l) + length (drop k (lw_updates w))] =
        Inr (map committed (drop k (lw_updates w)))"
    proof (rule read_updates_ok)
      show "\<forall>i < length (drop k (lw_updates w)).
          slot_has le (slot_bytes f (h_block ?h) ((unat (la_sno l) + i) mod unat n)) (drop k (lw_updates w) ! i)"
      proof (intro allI impI)
        fix i assume "i < length (drop k (lw_updates w))"
        then show "slot_has le (slot_bytes f (h_block ?h) ((unat (la_sno l) + i) mod unat n)) (drop k (lw_updates w) ! i)"
          using ok by (simp add: log_ok_def Let_def la add.assoc)
      qed
      show "unat (la_sno l) + length (drop k (lw_updates w)) \<le> 2 ^ 32"
        unfolding len using unsigned_less [of "h_last_sno ?h", where ?'a = nat] by simp
    qed
    moreover have "\<lparr>la_sno = h_last_sno ?h, la_time = h_last_time ?h\<rparr> = lw_last w"
      using h by (cases "lw_last w") (simp add: header_ok_def)
    ultimately show ?thesis using True state sno_status_ok [OF ok, of l] get unfolding len
      by (simp add: get_entries_def Let_def)
  qed
qed

lemma get_last_ok: "log_ok le n f w \<Longrightarrow> get_last le f = lw_last w"
  by (cases "lw_last w") (auto simp: get_last_def log_ok_def header_ok_def Let_def)

section \<open>A run of the primary\<close>

text \<open>Updates added one after the other, each with the clock's values.\<close>

fun add_all :: "bool \<Rightarrow> u32 \<Rightarrow> (Time \<times> Time \<times> Update) list \<Rightarrow> bytes \<Rightarrow> StoreError + Update list \<times> bytes" where
  "add_all le n [] f = Inr ([], f)"
| "add_all le n ((now, now', u) # us) f =
     (case add_update le n now now' u f of
        (Inl e, _) \<Rightarrow> Inl e
      | (Inr u', f) \<Rightarrow> rbind (add_all le n us f) (\<lambda>(us', f). Inr (u' # us', f)))"

text \<open>An update as it was given: no serial number and no time.\<close>

definition unstamped :: "Update \<Rightarrow> Update" where
  "unstamped u = u\<lparr>u_sno := 0, u_time := default_Time\<rparr>"

lemma window_ok_last: "log_ok le n f w \<Longrightarrow> window_ok n w"
  by (simp add: log_ok_def)

lemma add_all_ok:
  assumes "add_all le n us f = Inr (H, f')" "log_ok le n f w" "list_all (\<lambda>(_, _, u). list_all value_wf (u_values u)) us"
    "unat (la_sno (lw_last w)) + length us < 2 ^ 32"
  shows "log_ok le n f' (fold (lw_add (unat n)) H w) \<and> map unstamped H = map (\<lambda>(_, _, u). unstamped u) us \<and>
    (\<forall>i < length H. unat (u_sno (H ! i)) = unat (la_sno (lw_last w)) + i + 1)"
  using assms
proof (induction us arbitrary: f w H)
  case (Cons t us)
  obtain now now' u where t: "t = (now, now', u)" by (cases t)
  from Cons.prems(1) t obtain u' g H' where g: "add_update le n now now' u f = (Inr u', g)" "add_all le n us g = Inr (H', f')"
    "H = u' # H'"
    by (auto split: sum.splits prod.splits)
  have ne: "la_sno (lw_last w) \<noteq> - 1"
  proof
    assume "la_sno (lw_last w) = - 1"
    then have "unat (la_sno (lw_last w)) = 2 ^ 32 - 1" by (simp add: unsigned_minus_1_eq_mask mask_eq_exp_minus_1)
    with Cons.prems(4) show False by simp
  qed
  then have room: "lw_room now w = w" by (simp add: lw_room_def)
  from add_update_ok [OF Cons.prems(2), of u now now'] Cons.prems(3) g(1)
  have u': "u' = lw_stamp now' w u" and log: "log_ok le n g (lw_add (unat n) u' w)" by (auto simp: t room)
  have sno: "unat (u_sno u') = unat (la_sno (lw_last w)) + 1" using unat_succ32 [OF ne] by (simp add: u' lw_stamp_def)
  have last: "lw_last (lw_add (unat n) u' w) = update_last u'"
    using window_add(2) [OF window_ok_last [OF Cons.prems(2)] sno] .
  have IH: "log_ok le n f' (fold (lw_add (unat n)) H' (lw_add (unat n) u' w)) \<and> map unstamped H' = map (\<lambda>(_, _, u). unstamped u) us \<and>
      (\<forall>i < length H'. unat (u_sno (H' ! i)) = unat (u_sno u') + i + 1)"
    using Cons.IH [OF g(2) log] Cons.prems(3,4) last sno by (simp add: update_last_def)
  have "unstamped u' = unstamped u" by (simp add: u' lw_stamp_def unstamped_def)
  with IH sno show ?case by (auto simp: g(3) t nth_Cons split: nat.splits)
qed simp

lemma lw_positions_nth:
  "lw_positions w ! k = (if k = 0 then \<lparr>la_sno = lw_sno w, la_time = lw_time w\<rparr> else map update_last (lw_updates w) ! (k - 1))"
  by (cases k) (simp_all add: lw_positions_def)

text \<open>The window is the end of the history.\<close>

lemma lw_fold:
  assumes "0 < n" "length (lw_updates w) < n"
  shows "lw_updates (fold (lw_add n) H w) = drop (length (lw_updates w @ H) + 1 - n) (lw_updates w @ H) \<and>
    lw_positions (fold (lw_add n) H w) = drop (length (lw_updates w @ H) + 1 - n) (lw_positions w @ map update_last H)"
  using assms(2)
proof (induction H arbitrary: w)
  case (Cons u H)
  let ?us = "lw_updates w @ [u]"
  show ?case
  proof (cases "length ?us < n")
    case True
    then have "lw_updates (lw_add n u w) = ?us" "lw_positions (lw_add n u w) = lw_positions w @ [update_last u]"
      by (simp_all add: lw_add_def lw_positions_def)
    with Cons.IH [of "lw_add n u w"] True show ?thesis by simp
  next
    case False
    then have N: "length ?us = n" using Cons.prems by simp
    obtain v vs where v: "?us = v # vs" by (cases ?us) auto
    have up: "lw_updates (lw_add n u w) = vs" "lw_positions (lw_add n u w) = map update_last ?us"
      using False v by (auto simp: lw_add_def lw_positions_def update_last_def)
    have vs: "Suc (length vs) = n" using N v by simp
    have P: "lw_positions w @ map update_last (u # H) = \<lparr>la_sno = lw_sno w, la_time = lw_time w\<rparr> # map update_last ?us @ map update_last H"
      by (simp add: lw_positions_def)
    have U: "lw_updates w @ u # H = v # vs @ H" using v by simp
    have L: "length (lw_updates w @ u # H) + 1 - n = Suc (length H)" using N by simp
    have L': "length (vs @ H) + 1 - n = length H" using vs by simp
    have "length (lw_updates (lw_add n u w)) < n" using vs up by simp
    from Cons.IH [OF this] show ?thesis unfolding L unfolding P U up L' fold.simps comp_def by (simp del: drop_append)
  qed
qed (use assms(1) in \<open>auto simp: lw_positions_def\<close>)

lemma lw_last_fold:
  assumes "0 < n" "length (lw_updates w) < n"
  shows "lw_last (fold (lw_add n) H w) = (if H = [] then lw_last w else update_last (last H))"
proof (cases "H = []")
  case False
  have "length (lw_positions w @ map update_last H) = length (lw_updates w @ H) + 1" by (simp add: lw_positions_def)
  then have "last (lw_positions (fold (lw_add n) H w)) = last (lw_positions w @ map update_last H)"
    using lw_fold [OF assms, of H] assms by (simp del: drop_append)
  then show ?thesis using False by (simp add: lw_last_def last_map)
qed simp

lemma lw_get_position:
  assumes "window_ok n w" "k < length (lw_positions w)"
  shows "lw_get (lw_positions w ! k) w =
    (if k = length (lw_updates w) then (Upd_Nil, [], \<lparr>la_sno = 0, la_time = default_Time\<rparr>)
     else (Upd_Ok, map committed (drop k (lw_updates w)), lw_last w))"
proof -
  have s: "unat (la_sno (lw_positions w ! k)) = unat (lw_sno w) + k" by (rule position_sno [OF assms])
  have "lw_last w = lw_positions w ! length (lw_updates w)"
    by (simp add: lw_last_def last_conv_nth lw_positions_def)
  then have "lw_positions w ! k = lw_last w \<longleftrightarrow> k = length (lw_updates w)"
    using s lw_last_sno [OF assms(1)] by (metis add_left_cancel)
  then show ?thesis using s assms(2) by (simp add: lw_get_def Let_def word_le_nat_alt)
qed

lemma lw_get_before:
  assumes "window_ok n w" "unat (la_sno l) < unat (lw_sno w)"
  shows "lw_get l w = (Upd_FullResyncNeeded, [], \<lparr>la_sno = 0, la_time = default_Time\<rparr>)"
proof -
  have "l \<noteq> lw_last w" using lw_last_sno [OF assms(1)] assms(2) by auto
  then show ?thesis using assms(2) by (simp add: lw_get_def Let_def word_le_nat_alt)
qed

text \<open>The position of a replica that has the first \<open>k\<close> updates of a history.\<close>

definition position_after :: "Last \<Rightarrow> Update list \<Rightarrow> nat \<Rightarrow> Last" where
  "position_after l H k = (if k = 0 then l else update_last (H ! (k - 1)))"

lemma history_served:
  assumes f: "log_ok le n f w" and H: "add_all le n us f = Inr (H, f')"
    and wf: "list_all (\<lambda>(_, _, u). list_all value_wf (u_values u)) us"
    and room: "unat (la_sno (lw_last w)) + length us < 2 ^ 32" and k: "k \<le> length H"
  shows "get_entries le n now (position_after (lw_last w) H k) f' =
    (Inr (if k = length H then (Upd_Nil, [], \<lparr>la_sno = 0, la_time = default_Time\<rparr>)
          else if length H - k < unat n then (Upd_Ok, map committed (drop k H), update_last (last H))
          else (Upd_FullResyncNeeded, [], \<lparr>la_sno = 0, la_time = default_Time\<rparr>)), f')"
proof -
  let ?w = "fold (lw_add (unat n)) H w" and ?U = "lw_updates w @ H" and ?P = "lw_positions w @ map update_last H"
  let ?d = "length ?U + 1 - unat n" and ?j = "length (lw_updates w) + k"
  have ok: "log_ok le n f' ?w" and sno: "\<forall>i < length H. unat (u_sno (H ! i)) = unat (la_sno (lw_last w)) + i + 1"
    using add_all_ok [OF H f wf room] by auto
  have w: "window_ok n ?w" and w0: "window_ok n w" using ok f by (auto intro: window_ok_last)
  have n: "0 < unat n" "length (lw_updates w) < unat n" using w0 by (auto simp: window_ok_def)
  have up: "lw_updates ?w = drop ?d ?U" "lw_positions ?w = drop ?d ?P" using lw_fold [OF n, of H] by simp_all
  have P: "?P ! ?j = position_after (lw_last w) H k"
    using k by (cases k) (simp_all add: position_after_def lw_last_def lw_positions_def nth_append last_conv_nth nth_Cons')
  have lenP: "length ?P = length ?U + 1" by (simp add: lw_positions_def)
  have psno: "unat (la_sno (?P ! i)) = unat (lw_sno w) + i" if "i \<le> length ?U" for i
  proof (cases "i < length (lw_positions w)")
    case True
    then show ?thesis using position_sno [OF w0, of i] by (simp add: nth_append)
  next
    case False
    then obtain m where "i = length (lw_positions w) + m" using le_Suc_ex [of _ i] by (auto simp: not_less)
    with that sno lw_last_sno [OF w0] show ?thesis
      by (auto simp: nth_append lw_positions_def update_last_def)
  qed
  have first: "unat (lw_sno ?w) = unat (lw_sno w) + ?d"
  proof -
    have d: "?d \<le> length ?U" using n by simp
    have "\<lparr>la_sno = lw_sno ?w, la_time = lw_time ?w\<rparr> = lw_positions ?w ! 0" by (simp add: lw_positions_nth)
    also have "\<dots> = ?P ! ?d" unfolding up(2) using d lenP by (subst nth_drop) auto
    finally show ?thesis using psno [OF d] by (metis Last.select_convs(1))
  qed
  show ?thesis
  proof (cases "length H - k < unat n")
    case True
    then have j: "?d + (?j - ?d) = ?j" "?j - ?d < length (lw_positions ?w)" using k lenP by (auto simp: up(2))
    have pos: "lw_positions ?w ! (?j - ?d) = position_after (lw_last w) H k"
      unfolding up(2) P [symmetric] using j k lenP by (subst nth_drop) auto
    have "?d \<le> ?j" using j(1) by linarith
    moreover have "?d \<le> length ?U" using n(1) by simp
    ultimately have "?j - ?d = length (lw_updates ?w) \<longleftrightarrow> k = length H"
      unfolding up(1) length_drop by (simp only: eq_diff_iff) simp
    moreover have "drop (?j - ?d) (lw_updates ?w) = drop k H" unfolding up(1) drop_drop using j(1) by (simp add: add.commute)
    moreover note pos
    moreover have "k < length H \<Longrightarrow> lw_last ?w = update_last (last H)" using lw_last_fold [OF n, of H] by auto
    ultimately show ?thesis using lw_get_position [OF w j(2)] k True by (auto simp: get_entries_ok [OF ok])
  next
    case False
    have "unat (la_sno (?P ! ?j)) = unat (lw_sno w) + ?j" using k by (intro psno) simp
    then have "unat (la_sno (position_after (lw_last w) H k)) < unat (lw_sno ?w)" using False k first P by simp
    then show ?thesis using False k n lw_get_before [OF w] by (auto simp: get_entries_ok [OF ok])
  qed
qed

section \<open>Opening the log and crashes\<close>

lemma read_header_extend [simp]: "read_header le (snd (extend_to m f)) = read_header le f"
  by (simp add: read_header_def read_zero_padded_extend)

lemma log_ok_extend: "log_ok le n (snd (extend_to m f)) w \<longleftrightarrow> log_ok le n f w"
  by (simp add: log_ok_def)

lemma check_on_map_ok:
  assumes ok: "log_ok le n f w"
  shows "log_ok le n (snd (check_on_map le n now f)) w \<and>
    (HEADER_SIZE + unat n * unat (h_block (read_header le f)) < 2 ^ 31 \<longrightarrow> fst (check_on_map le n now f) = Inr ())"
proof -
  let ?h = "read_header le f" and ?k = "length (lw_updates w)"
  have w: "window_ok n w" and h: "header_ok n ?h w" using ok by (simp_all add: log_ok_def)
  have num: "unat (h_num ?h) = 1 + ?k"
  proof -
    have "1 + ?k < 2 ^ 32" using w unsigned_less [of n, where ?'a = nat] by (simp add: window_ok_def)
    then show ?thesis using h by (simp only: header_ok_def unat_of_nat) simp
  qed
  have "\<not> n < h_num ?h" using num w by (simp add: word_less_nat_alt window_ok_def)
  moreover have "check_sno le n ?h (h_first_sno ?h) (h_first_time ?h) f"
    using check_sno_ok [OF ok, of 0 "h_first_sno ?h" "h_first_time ?h"] h by (simp add: header_ok_def lw_positions_def)
  moreover have "check_sno le n ?h (h_last_sno ?h) (h_last_time ?h) f"
    using check_sno_ok [OF ok, of ?k "h_last_sno ?h" "h_last_time ?h"] h lw_last_sno [OF w]
    by (simp add: header_ok_def) (simp add: lw_last_def last_conv_nth lw_positions_def)
  ultimately have "check_on_map le n now f =
      (if h_num ?h \<noteq> n then extend_to (HEADER_SIZE + unat n * unat (h_block ?h)) f else (Inr (), f))"
    using h by (simp add: check_on_map_def header_ok_def)
  then show ?thesis using ok log_ok_extend by (auto simp: extend_to_def)
qed

lemma check_on_map_new:
  assumes "h_magic (read_header le f) = 0" "n \<noteq> 0"
  shows "check_on_map le n now f = check_on_map le n now (snd (reset le n now f))"
proof -
  have "h_magic (fst (reset le n now f)) = KDB_ULOG_HDR_MAGIC"
    using log_header [OF reset_ok(1) [OF assms(2)]] reset_ok(2) [OF assms(2)] by (metis header_ok_def)
  moreover have "reset le n now f = (read_header le (snd (reset le n now f)), snd (reset le n now f))"
    by (simp add: reset_ok(2) [OF assms(2)])
  ultimately show ?thesis using assms(1) reset_ok(2) [OF assms(2), of le now f]
    by (simp add: check_on_map_def KDB_ULOG_HDR_MAGIC_def Let_def split_def)
qed

lemma map_new_ok:
  assumes n: "n \<noteq> 0" and len: "HEADER_SIZE + unat n * ULOG_BLOCK < 2 ^ 31"
  shows "\<exists>f. ulog_map le n now None = (Inr (), Some f) \<and> log_ok le n f (lw_start \<lparr>la_sno = 1, la_time = now\<rparr>)"
proof -
  let ?f = "snd (extend_to (HEADER_SIZE + unat n * ULOG_BLOCK) [])" and ?w = "lw_start \<lparr>la_sno = 1, la_time = now\<rparr>"
  have "h_magic (read_header le []) = 0"
    by (simp add: read_header_def header_decode_def read_zero_padded_def ne_u32_def ne32_def HEADER_SIZE_def numeral_eq_Suc
        of_le32_def of_be32_def be_nat_def)
  then have z: "h_magic (read_header le ?f) = 0" by simp
  have r: "log_ok le n (snd (reset le n now ?f)) ?w" by (rule reset_ok(1) [OF n])
  have "h_block (read_header le (snd (reset le n now ?f))) = word_of_nat ULOG_BLOCK"
    unfolding reset_ok(2) [OF n] by (simp add: reset_def set_dummy_def Let_def)
  then have "unat (h_block (read_header le (snd (reset le n now ?f)))) = ULOG_BLOCK" by (simp add: ULOG_BLOCK_def)
  with check_on_map_ok [OF r, of now] len check_on_map_new [OF z n, of now]
  have c: "log_ok le n (snd (check_on_map le n now ?f)) ?w" "fst (check_on_map le n now ?f) = Inr ()" by simp_all
  have "extend_to (HEADER_SIZE + unat n * ULOG_BLOCK) [] = (Inr (), ?f)" using len by (simp add: extend_to_def)
  then have "ulog_map le n now None = apsnd Some (check_on_map le n now ?f)"
    using n by (cases "extend_to (HEADER_SIZE + unat n * ULOG_BLOCK) []") (simp add: ulog_map_def)
  with c show ?thesis by (cases "check_on_map le n now ?f") auto
qed

text \<open>An append that stops between two writes leaves a header that says so, until the last write.\<close>

lemma store_stopped:
  assumes "i < 3"
  shows "h_state (read_header le (store_files le n h u data f ! i)) = KDB_UNSTABLE"
proof -
  have "i = 0 \<or> i = 1 \<or> i = 2" using assms by auto
  then show ?thesis by (auto simp: store_files_def Let_def entry_offset_def)
qed

lemma stopped_resets:
  assumes "n \<noteq> 0" "h_state (read_header le f) \<noteq> KDB_STABLE"
  shows "\<exists>f'. get_entries le n now l f = (Inr (lw_get l (lw_start \<lparr>la_sno = 1, la_time = now\<rparr>)), f') \<and>
    log_ok le n f' (lw_start \<lparr>la_sno = 1, la_time = now\<rparr>)"
proof -
  let ?f = "snd (reset le n now f)"
  have "h_state (read_header le ?f) = KDB_STABLE" using log_header [OF reset_ok(1) [OF assms(1)]] by (simp add: header_ok_def)
  then have "get_entries le n now l f = get_entries le n now l ?f"
    using assms(2) reset_ok(2) [OF assms(1), of le now f] by (simp add: get_entries_def Let_def split_def)
  with get_entries_ok [OF reset_ok(1) [OF assms(1)]] reset_ok(1) [OF assms(1)] show ?thesis by auto
qed

lemma add_update_fits:
  assumes ok: "log_ok le n f w" and room: "la_sno (lw_last w) \<noteq> - 1" and wf: "list_all value_wf (u_values u)"
    and fits: "fits_block (lw_stamp now' w u)"
  shows "\<exists>f'. add_update le n now now' u f = (Inr (lw_stamp now' w u), f')"
proof -
  let ?u = "lw_stamp now' w u"
  have h: "h_last_sno (read_header le f) = la_sno (lw_last w)" using log_header [OF ok] by (simp add: header_ok_def)
  have "unat (u_sno ?u) = unat (la_sno (lw_last w)) + 1" using unat_succ32 [OF room] by (simp add: lw_stamp_def)
  then obtain f' where "store_update le n (read_header le f) ?u f = (Inr (), f')"
    using store_update_ok [OF ok, of ?u] fits_block_fits [OF ok fits] wf by (auto simp: lw_stamp_def)
  then have "add_update le n now now' u f = (Inr ?u, f')"
    using h room unfolding add_update_def Let_def lw_stamp_def by simp
  then show ?thesis by blast
qed

text \<open>
  C7: The update log of a primary that starts with no file. Whatever updates are added, each is given the next serial
  number and is otherwise stored as it is. A replica that has the first k of them is told that it is up to date
  exactly when these are all; it is given exactly the others, in order, while fewer than n are missing, where n is the
  number of blocks of the log; and otherwise it is told to resync in full. So a replica never receives a gap, a
  repetition or an update of another history, however often the log has wrapped around or its blocks have grown.
\<close>

theorem ulog_serves_history:
  assumes new: "ulog_map le n now0 None = (Inr (), Some f)" and H: "add_all le n us f = Inr (H, f')"
    and wf: "list_all (\<lambda>(_, _, u). list_all value_wf (u_values u)) us" and room: "length us < 2 ^ 32 - 1"
    and k: "k \<le> length H"
  shows "map unstamped H = map (\<lambda>(_, _, u). unstamped u) us \<and>
    get_entries le n now (position_after \<lparr>la_sno = 1, la_time = now0\<rparr> H k) f' =
      (Inr (if k = length H then (Upd_Nil, [], \<lparr>la_sno = 0, la_time = default_Time\<rparr>)
            else if length H - k < unat n then (Upd_Ok, map committed (drop k H), update_last (last H))
            else (Upd_FullResyncNeeded, [], \<lparr>la_sno = 0, la_time = default_Time\<rparr>)), f')"
proof -
  have n: "n \<noteq> 0" "HEADER_SIZE + unat n * ULOG_BLOCK < 2 ^ 31"
    using new by (auto simp: ulog_map_def extend_to_def split: if_splits)
  obtain g where "ulog_map le n now0 None = (Inr (), Some g)" "log_ok le n g (lw_start \<lparr>la_sno = 1, la_time = now0\<rparr>)"
    using map_new_ok [OF n] by blast
  with new have ok: "log_ok le n f (lw_start \<lparr>la_sno = 1, la_time = now0\<rparr>)" by simp
  have r: "unat (la_sno (lw_last (lw_start \<lparr>la_sno = 1, la_time = now0\<rparr>))) + length us < 2 ^ 32" using room by simp
  show ?thesis using add_all_ok [OF H ok wf r] history_served [OF ok H wf r k, of now] by simp
qed

definition example_update :: Update where
  "example_update = default_Update\<lparr>u_princ_name := [0x75, 0x40, 0x52], u_values := [V_MaxLife 3600, V_KeyData [
     \<lparr>uk_ver = 1, uk_kvno = 2, uk_enctypes = [18], uk_contents = [[7, 8, 9]]\<rparr>]]\<rparr>"

definition example_log :: bytes where
  "example_log = the (snd (ulog_map True 3 default_Time None))"

lemma example_log_new: "ulog_map True 3 default_Time None = (Inr (), Some example_log)"
  and example_log_ok: "log_ok True 3 example_log (lw_start \<lparr>la_sno = 1, la_time = default_Time\<rparr>)"
  using map_new_ok [of 3 True default_Time] by (auto simp: example_log_def HEADER_SIZE_def ULOG_BLOCK_def)

lemma example_update_fits: "fits_block (example_update\<lparr>u_sno := 2, u_time := default_Time\<rparr>)"
  by code_simp

theorem ulog_serves_history_witness:
  "\<exists>f'. add_all True 3 [(default_Time, default_Time, example_update)] example_log =
      Inr ([example_update\<lparr>u_sno := 2, u_time := default_Time\<rparr>], f') \<and>
    get_entries True 3 default_Time \<lparr>la_sno = 1, la_time = default_Time\<rparr> f' =
      (Inr (Upd_Ok, [committed (example_update\<lparr>u_sno := 2, u_time := default_Time\<rparr>)],
        \<lparr>la_sno = 2, la_time = default_Time\<rparr>), f')"
proof -
  let ?u = "example_update\<lparr>u_sno := 2, u_time := default_Time\<rparr>"
  have wf: "list_all value_wf (u_values example_update)" by (simp add: example_update_def value_wf_def)
  have stamp: "lw_stamp default_Time (lw_start \<lparr>la_sno = 1, la_time = default_Time\<rparr>) example_update = ?u"
    by (simp add: lw_stamp_def)
  obtain f' where "add_update True 3 default_Time default_Time example_update example_log = (Inr ?u, f')"
    using example_update_fits add_update_fits [OF example_log_ok, of example_update default_Time] wf by (auto simp: stamp)
  then have all: "add_all True 3 [(default_Time, default_Time, example_update)] example_log = Inr ([?u], f')" by simp
  show ?thesis using ulog_serves_history [OF example_log_new all, of 0 default_Time] wf all
    by (auto simp: position_after_def update_last_def)
qed



section \<open>Failure while the blocks grow\<close>

text \<open>
  The header is not marked unstable while blocks are moved. In a log of three blocks whose window is in the blocks 1, 2
  and 0, the move of block 1 to twice the block size overwrites block 2, with the old size still in the header. When the
  machine fails at this point, the checks of the next start pass, and a replica is served the update of block
  1 in place of the one of block 2.
\<close>

lemma mod_3_neighbours: "(b - 1) mod 3 = 1" "(b + 1) mod 3 = 0" if "b mod 3 = 2" for b :: nat
proof -
  from that have "b = 3 * (b div 3) + 2" using mult_div_mod_eq [of 3 b] by simp
  then obtain q where "b = 3 * q + 2" ..
  then show "(b - 1) mod 3 = 1" "(b + 1) mod 3 = 0" by simp_all
qed

lemma resize_stopped_serves_wrong:
  assumes ok: "log_ok le 3 f w" and us: "lw_updates w = [u, v]" and b: "unat (lw_sno w) mod 3 = 2"
    and x: "slot_has le (slot_bytes f (h_block (read_header le f)) 1) x"
    and new: "unat new = 2 * unat (h_block (read_header le f))"
  defines "g \<equiv> move_block (h_block (read_header le f)) new 1 (move_block (h_block (read_header le f)) new 2 f)"
  shows "check_on_map le 3 now g = (Inr (), g)"
    and "get_entries le 3 now \<lparr>la_sno = lw_sno w, la_time = lw_time w\<rparr> g =
      (Inr (Upd_Ok, [committed x, committed v], update_last v), g)"
proof -
  let ?h = "read_header le f" and ?b = "unat (lw_sno w)"
  let ?B = "h_block ?h"
  have w: "window_ok 3 w" and h: "header_ok 3 ?h w" using ok by (simp_all add: log_ok_def)
  have blk: "2048 \<le> unat ?B" using h by (simp add: header_ok_def ULOG_BLOCK_def)
  have m1: "(?b - 1) mod 3 = 1" and m2: "(?b + 1) mod 3 = 0" using mod_3_neighbours [OF b] by simp_all
  have rh: "read_header le g = ?h" by (simp add: g_def move_block_def)
  have s0: "slot_bytes g ?B 0 = slot_bytes f ?B 0" and s1: "slot_bytes g ?B 1 = slot_bytes f ?B 1"
    and s2: "slot_bytes g ?B 2 = slot_bytes f ?B 1"
    unfolding g_def move_block_def slot_bytes_def
    by (simp_all add: new read_write_disjoint read_write_inside)
  have sno: "unat (u_sno u) = ?b + 1" "unat (u_sno v) = ?b + 2"
    using w us by (auto simp: window_ok_def dest: spec [of _ 0] spec [of _ 1])
  have eh: "entry_header le ?h i g = entry_decode le (slot_bytes g ?B (unat i))" for i
    using blk by (intro entry_header_slot) simp
  have first: "check_sno le 3 ?h (lw_sno w) (lw_time w) g"
    using ok w s1 eh slot_index [of "lw_sno w" 3] m1
    by (simp add: check_sno_def log_ok_def window_ok_def Let_def slot_is_def)
  have "slot_has le (slot_bytes f ?B 0) v" using ok us m2 by (auto simp: log_ok_def Let_def dest: spec [of _ 1])
  then have v: "slot_has le (slot_bytes g ?B 0) v" by (simp add: s0)
  have "u_sno v \<noteq> 0" using sno(2) by auto
  then have last: "check_sno le 3 ?h (u_sno v) (u_time v) g"
    using v eh slot_index [of "u_sno v" 3] m2 sno(2) by (simp add: check_sno_def Let_def slot_is_def slot_has_def update_last_def)
  have hd: "h_num ?h = 3" "h_first_sno ?h = lw_sno w" "h_first_time ?h = lw_time w" "h_last_sno ?h = u_sno v"
    "h_last_time ?h = u_time v" "h_magic ?h = KDB_ULOG_HDR_MAGIC" "h_state ?h = KDB_STABLE"
    using h us by (simp_all add: header_ok_def lw_last_def lw_positions_def update_last_def)
  show "check_on_map le 3 now g = (Inr (), g)" using first last by (simp add: check_on_map_def rh hd)
  have ne: "lw_sno w \<noteq> u_sno v" "\<not> u_sno v < lw_sno w" using sno(2) by (auto simp: word_less_nat_alt)
  have "\<forall>i < length [x, v]. slot_has le (slot_bytes g ?B ((?b + i) mod unat (3 :: u32))) ([x, v] ! i)"
    using x v s2 b m2 by (auto simp: less_Suc_eq)
  moreover have "?b + length [x, v] \<le> 2 ^ 32" using unsigned_less [of "u_sno v", where ?'a = nat] sno(2) by simp
  ultimately have "read_updates le 3 ?B g [?b..<?b + length [x, v]] = Inr (map committed [x, v])"
    by (rule read_updates_ok)
  then have "read_updates le 3 ?B g [?b..<unat (u_sno v)] = Inr [committed x, committed v]" using sno(2) by simp
  then show "get_entries le 3 now \<lparr>la_sno = lw_sno w, la_time = lw_time w\<rparr> g =
      (Inr (Upd_Ok, [committed x, committed v], update_last v), g)"
    using first ne by (simp add: get_entries_def sno_status_def rh hd Let_def update_last_def)
qed

end
