(* ===== verification/Iprop.thy ===== *)
theory Iprop
  imports Ulog
begin

text \<open>
  Incremental propagation of an LMDB database, \<open>src/crates/krb5-rs-kdb-lmdb/src/store.rs\<close>, from the writes of the
  primary through its update log, the reply of \<open>kadmind\<close> and \<open>kpropd\<close> to the writes of a replica. The databases
  are maps of the stored bytes; LMDB calls do not fail. Parameters: \<open>gs\<close>, the strings that are a
  \<open>GeneralString\<close>, \<open>le\<close>, the byte order of the machine, \<open>rm\<close>, the master keys that \<open>refresh_master\<close>
  finds in a database, and the clock.
\<close>

section \<open>The store\<close>

type_synonym principal_db = "bytes \<Rightarrow> bytes option"

record klmdb =
  kl_db :: principal_db
  kl_lockout :: "(bytes \<Rightarrow> bytes option) option"
  kl_ulog :: "(u32 \<times> bytes) option"

text \<open>The clock as a logged write reads it.\<close>

type_synonym clock = "Time \<times> Time"

definition log_held :: "bool \<Rightarrow> clock \<Rightarrow> Update \<Rightarrow> klmdb \<Rightarrow> (StoreError + unit) \<times> klmdb" where
  "log_held le ts u st =
     (case kl_ulog st of
        None \<Rightarrow> (Inr (), st)
      | Some (n, f) \<Rightarrow>
          (case add_update le n (fst ts) (snd ts) u f of
             (Inl e, f) \<Rightarrow> (Inl e, st\<lparr>kl_ulog := Some (n, f)\<rparr>)
           | (Inr _, f) \<Rightarrow> (Inr (), st\<lparr>kl_ulog := Some (n, f)\<rparr>)))"

definition drop_lockout :: "bytes \<Rightarrow> klmdb \<Rightarrow> klmdb" where
  "drop_lockout key st = st\<lparr>kl_lockout := map_option (\<lambda>m. m(key := None)) (kl_lockout st)\<rparr>"

definition create_raw :: "(bytes \<Rightarrow> bool) \<Rightarrow> bool \<Rightarrow> clock \<Rightarrow> MitEntry \<Rightarrow> klmdb \<Rightarrow> (StoreError + unit) \<times> klmdb" where
  "create_raw gs le ts raw st =
     (case mit_encode raw of
        Inl e \<Rightarrow> (Inl e, st)
      | Inr (key, val) \<Rightarrow>
          if kl_db st key \<noteq> None then (Inl (se_conflict ''Principal or policy already exists''), st)
          else log_held le ts (update_from_entry gs None raw) (st\<lparr>kl_db := (kl_db st)(key \<mapsto> val)\<rparr>))"

definition rename_raw ::
  "(bytes \<Rightarrow> bool) \<Rightarrow> bool \<Rightarrow> (principal_db \<Rightarrow> StoreError + 'k) \<Rightarrow> clock \<Rightarrow> clock \<Rightarrow> PrincipalName \<Rightarrow> bytes \<Rightarrow>
   (MitEntry \<Rightarrow> 'k \<Rightarrow> StoreError + MitEntry) \<Rightarrow> klmdb \<Rightarrow> (StoreError + unit) \<times> klmdb" where
  "rename_raw gs le rm ts ts' name realm f st =
     (let src = mit_unparse_name name realm in
      case rbind (rm (kl_db st)) (\<lambda>keys.
           rbind (case kl_db st src of None \<Rightarrow> Inl (se_not_found ''Principal does not exist'') | Some v \<Rightarrow> Inr v) (\<lambda>val.
           rbind (mit_decode gs src val) (\<lambda>e.
           rbind (f e keys) (\<lambda>renamed.
           rbind (mit_encode renamed) (\<lambda>(dest, val).
             if kl_db st dest \<noteq> None then Inl (se_conflict ''Principal or policy already exists'')
             else Inr (renamed, dest, val)))))) of
        Inl e \<Rightarrow> (Inl e, st)
      | Inr (renamed, dest, val) \<Rightarrow>
          let st = drop_lockout src (st\<lparr>kl_db := (kl_db st)(dest \<mapsto> val, src := None)\<rparr>) in
          (case log_held le ts (update_from_entry gs None renamed) st of
             (Inl e, st) \<Rightarrow> (Inl e, st)
           | (Inr _, st) \<Rightarrow> log_held le ts' (deletion src) st))"

definition update_raw ::
  "(bytes \<Rightarrow> bool) \<Rightarrow> bool \<Rightarrow> (principal_db \<Rightarrow> StoreError + 'k) \<Rightarrow> clock \<Rightarrow> PrincipalName \<Rightarrow> bytes \<Rightarrow>
   (MitEntry \<Rightarrow> 'k \<Rightarrow> StoreError + bool \<times> MitEntry) \<Rightarrow> klmdb \<Rightarrow> (StoreError + bool) \<times> klmdb" where
  "update_raw gs le rm ts name realm f st =
     (let key = mit_unparse_name name realm in
      case rbind (rm (kl_db st)) (\<lambda>keys.
           rbind (case kl_db st key of None \<Rightarrow> Inl (se_not_found ''Principal does not exist'') | Some v \<Rightarrow> Inr v) (\<lambda>val.
           rbind (mit_decode gs key val) (\<lambda>current.
           rbind (f current keys) (\<lambda>(changed, raw).
             if \<not> changed then Inr None
             else rbind (mit_encode raw) (\<lambda>(_, val). Inr (Some (current, raw, val))))))) of
        Inl e \<Rightarrow> (Inl e, st)
      | Inr None \<Rightarrow> (Inr False, st)
      | Inr (Some (current, raw, val)) \<Rightarrow>
          let st = st\<lparr>kl_db := (kl_db st)(key \<mapsto> val)\<rparr> in
          (case log_held le ts (update_from_entry gs (Some current) raw) st of
             (Inl e, st) \<Rightarrow> (Inl e, st)
           | (Inr _, st) \<Rightarrow> (case rm (kl_db st) of Inl e \<Rightarrow> (Inl e, st) | Inr _ \<Rightarrow> (Inr True, st))))"

definition delete_unlogged :: "bytes \<Rightarrow> klmdb \<Rightarrow> bool \<times> klmdb" where
  "delete_unlogged key st =
     (let deleted = kl_db st key \<noteq> None;
          st = st\<lparr>kl_db := (kl_db st)(key := None)\<rparr> in
      (deleted, if deleted then drop_lockout key st else st))"

definition kl_delete_principal :: "bool \<Rightarrow> clock \<Rightarrow> PrincipalName \<Rightarrow> bytes \<Rightarrow> klmdb \<Rightarrow> (StoreError + bool) \<times> klmdb" where
  "kl_delete_principal le ts name realm st =
     (let key = mit_unparse_name name realm; (deleted, st) = delete_unlogged key st in
      if deleted then
        (case log_held le ts (deletion key) st of (Inl e, st) \<Rightarrow> (Inl e, st) | (Inr _, st) \<Rightarrow> (Inr True, st))
      else (Inr False, st))"

section \<open>Replaying updates\<close>

definition replay_put :: "(bytes \<Rightarrow> bool) \<Rightarrow> Update \<Rightarrow> principal_db \<Rightarrow> StoreError + principal_db" where
  "replay_put gs u db =
     rbind (case db (u_princ_name u) of
         None \<Rightarrow> Inr None
       | Some v \<Rightarrow> rbind (mit_decode gs (u_princ_name u) v) (\<lambda>e. Inr (Some e))) (\<lambda>current.
     rbind (entry_from_update gs current u) (\<lambda>e.
     rbind (mit_encode e) (\<lambda>(key, val).
       Inr ((if key \<noteq> u_princ_name u then db(u_princ_name u := None) else db)(key \<mapsto> val)))))"

definition replay_one ::
  "(bytes \<Rightarrow> bool) \<Rightarrow> bool \<Rightarrow> u32 \<Rightarrow> Time \<Rightarrow> Update \<Rightarrow> bytes \<Rightarrow> klmdb \<Rightarrow> (StoreError + unit) \<times> bytes \<times> klmdb" where
  "replay_one gs le n now u f st =
     (case if u_deleted u then Inr (snd (delete_unlogged (u_princ_name u) st))
           else rbind (replay_put gs u (kl_db st)) (\<lambda>db. Inr (st\<lparr>kl_db := db\<rparr>)) of
        Inl e \<Rightarrow> (Inl e, f, st)
      | Inr st \<Rightarrow> (case store_replayed le n now u f of (r, f) \<Rightarrow> (r, f, st)))"

text \<open>The clock is read at most once for an update, and once more when the replay fails.\<close>

fun replay_all ::
  "(bytes \<Rightarrow> bool) \<Rightarrow> bool \<Rightarrow> u32 \<Rightarrow> (nat \<Rightarrow> Time) \<Rightarrow> Update list \<Rightarrow> bytes \<Rightarrow> klmdb \<Rightarrow> (StoreError + unit) \<times> bytes \<times> klmdb" where
  "replay_all gs le n clk [] f st = (Inr (), f, st)"
| "replay_all gs le n clk (u # us) f st =
     (case replay_one gs le n (clk (length us)) u f st of
        (Inl e, f, st) \<Rightarrow> (Inl e, f, st)
      | (Inr _, f, st) \<Rightarrow> replay_all gs le n clk us f st)"

definition replay_updates ::
  "(bytes \<Rightarrow> bool) \<Rightarrow> bool \<Rightarrow> (nat \<Rightarrow> Time) \<Rightarrow> Time \<Rightarrow> Update list \<Rightarrow> klmdb \<Rightarrow> (StoreError + unit) \<times> klmdb" where
  "replay_updates gs le clk now us st =
     (case kl_ulog st of
        None \<Rightarrow> (Inl (se_backend ''Iprop not enabled''), st)
      | Some (n, f) \<Rightarrow>
          (case replay_all gs le n clk (filter u_commit us) f st of
             (Inl e, f, st) \<Rightarrow> (Inl e, st\<lparr>kl_ulog := Some (n, init_header le n now f)\<rparr>)
           | (Inr _, f, st) \<Rightarrow> (Inr (), st\<lparr>kl_ulog := Some (n, f)\<rparr>)))"

section \<open>The reply of the primary\<close>

fun status_code :: "UpdateStatus \<Rightarrow> u32" where
  "status_code Upd_Ok = 0" | "status_code Upd_Error = 1" | "status_code Upd_FullResyncNeeded = 2"
| "status_code Upd_Busy = 3" | "status_code Upd_Nil = 4" | "status_code Upd_PermDenied = 5"

definition short_reply :: "UpdateStatus \<Rightarrow> bytes" where
  "short_reply s = be32 0 @ be32 0 @ be32 0 @ be32 0 @ be32 (status_code s)"

definition incr_reply :: "UpdateStatus \<times> Update list \<times> Last \<Rightarrow> StoreError + bytes" where
  "incr_reply = (\<lambda>(status, us, end').
     rbind (xw_last end') (\<lambda>l.
     rbind (xw_seq xw_update us) (\<lambda>b.
       Inr (l @ be32 (if length us < 2 ^ 32 then word_of_nat (length us) else - 1) @ b @ be32 (status_code status)))))"

definition get_updates :: "bool \<Rightarrow> bool \<Rightarrow> u32 \<Rightarrow> Time \<Rightarrow> Last \<Rightarrow> bytes \<Rightarrow> bytes \<times> bytes" where
  "get_updates le allowed n now l f =
     (if \<not> allowed then (short_reply Upd_PermDenied, f)
      else case get_entries le n now l f of
        (r, f) \<Rightarrow> (case rbind r incr_reply of Inl e \<Rightarrow> short_reply Upd_Error | Inr b \<Rightarrow> b, f))"

definition decode_incr :: "bytes \<Rightarrow> StoreError + Last \<times> Update list \<times> UpdateStatus option" where
  "decode_incr b =
     rbind (xr_last b) (\<lambda>(l, s).
     rbind (xr_u32 s) (\<lambda>(count, s).
     rbind (rd_n xr_update (unat count) s) (\<lambda>(us, s).
     rbind (xr_u32 s) (\<lambda>(status, _). Inr (l, us, status_from_u32 status)))))"

text \<open>One turn of the loop of \<open>do_iprop\<close>: what the replica's databases are after it, and the status it saw.\<close>

definition poll_once ::
  "(bytes \<Rightarrow> bool) \<Rightarrow> bool \<Rightarrow> bool \<Rightarrow> u32 \<Rightarrow> Time \<Rightarrow> bytes \<Rightarrow> (nat \<Rightarrow> Time) \<Rightarrow> Time \<Rightarrow> klmdb \<Rightarrow>
   UpdateStatus option \<times> bytes \<times> klmdb" where
  "poll_once gs le allowed n now f clk now' st =
     (case kl_ulog st of
        None \<Rightarrow> (None, f, st)
      | Some (_, g) \<Rightarrow>
          (case get_updates le allowed n now (get_last le g) f of
             (reply, f) \<Rightarrow>
               (case decode_incr reply of
                  Inl _ \<Rightarrow> (None, f, st)
                | Inr (_, us, status) \<Rightarrow>
                    if status = Some Upd_Ok then (status, f, snd (replay_updates gs le clk now' us st))
                    else (status, f, st))))"

section \<open>One entry\<close>

definition distinct_tl :: "MitEntry \<Rightarrow> bool" where
  "distinct_tl e \<longleftrightarrow> distinct (map tl_kind (mit_tl_data e))"

text \<open>An entry as it is read back.\<close>

definition normal :: "MitEntry \<Rightarrow> MitEntry" where
  "normal e = e\<lparr>mit_principal := (mit_principal e)\<lparr>name_type := infer_name_type (name_string (mit_principal e))\<rparr>,
     mit_last_success := 0, mit_last_failed := 0, mit_fail_auth_count := 0\<rparr>"

lemma set_tl_in_kinds: "set_tl_in kind d ts = Some us \<Longrightarrow> map tl_kind us = map tl_kind ts"
  by (induction ts arbitrary: us) (auto split: if_splits)

lemma set_tl_in_None: "set_tl_in kind d ts = None \<Longrightarrow> kind \<notin> set (map tl_kind ts)"
  by (induction ts) (auto split: if_splits)

lemma distinct_set_tl: "distinct_tl e \<Longrightarrow> distinct_tl (set_tl kind d e)"
  by (auto simp: distinct_tl_def set_tl_def dest: set_tl_in_kinds set_tl_in_None split: option.splits)

lemma distinct_fold_set_tl: "distinct_tl e \<Longrightarrow> distinct_tl (fold (\<lambda>t. set_tl (ut_kind t) (ut_data t)) ts e)"
  by (induction ts arbitrary: e) (simp_all add: distinct_set_tl)

lemma distinct_apply_value: "apply_value gs v (e, mp, mt) = Inr (e', mp', mt') \<Longrightarrow> distinct_tl e \<Longrightarrow> distinct_tl e'"
  by (cases v) (auto simp: distinct_set_tl distinct_fold_set_tl, auto simp: distinct_tl_def)

lemma distinct_apply_values: "apply_values gs vs (e, mp, mt) = Inr (e', mp', mt') \<Longrightarrow> distinct_tl e \<Longrightarrow> distinct_tl e'"
proof (induction vs arbitrary: e mp mt)
  case (Cons v vs)
  then show ?case by (auto elim!: rbind_eq_InrE dest: distinct_apply_value)
qed simp

lemma distinct_entry_from_update:
  assumes "entry_from_update gs current u = Inr e" "case current of None \<Rightarrow> True | Some c \<Rightarrow> distinct_tl c"
  shows "distinct_tl e"
proof -
  obtain c e' mp mt where c: "apply_values gs (u_values u) (c, None, 0) = Inr (e', mp, mt)" "e = set_mod_princ (e', mp, mt)"
    and "distinct_tl c"
    using assms by (auto simp: entry_from_update_def empty_entry_def distinct_tl_def split: option.splits)
  then show ?thesis using distinct_apply_values [OF c(1)]
    by (auto simp: set_mod_princ_def distinct_set_tl split: option.splits)
qed

text \<open>With one item of a kind, the items are the same in another order.\<close>

lemma find_tl_mem: "distinct_tl e \<Longrightarrow> t \<in> set (mit_tl_data e) \<longleftrightarrow> find_tl e (tl_kind t) = Some (tl_content t)"
proof -
  assume d: "distinct_tl e"
  have "find_tl e (tl_kind t) = Some (tl_content t) \<longleftrightarrow>
      (tl_kind t, tl_content t) \<in> set (map (\<lambda>t. (tl_kind t, tl_content t)) (mit_tl_data e))"
    using d map_of_eq_Some_iff [of "map (\<lambda>t. (tl_kind t, tl_content t)) (mit_tl_data e)"]
    by (simp add: find_tl_def map_of_tls [symmetric] distinct_tl_def comp_def)
  moreover have "inj (\<lambda>t :: PolicyTlData. (tl_kind t, tl_content t))" by (rule injI) (simp add: PolicyTlData.equality)
  ultimately show ?thesis using inj_image_mem_iff [of "\<lambda>t :: PolicyTlData. (tl_kind t, tl_content t)" t] by simp
qed

lemma same_tl:
  assumes "find_tl e = find_tl e'" "distinct_tl e" "distinct_tl e'"
  shows "set (mit_tl_data e) = set (mit_tl_data e')" "length (mit_tl_data e) = length (mit_tl_data e')"
proof -
  show s: "set (mit_tl_data e) = set (mit_tl_data e')" using find_tl_mem assms by (metis subsetI subset_antisym)
  have "distinct (mit_tl_data e)" "distinct (mit_tl_data e')" using assms by (auto simp: distinct_tl_def distinct_map)
  with s show "length (mit_tl_data e) = length (mit_tl_data e')" by (metis distinct_card)
qed

lemma entry_agrees_encodable:
  assumes "entry_agrees e e'" "distinct_tl e" "distinct_tl e'" "mit_encode e' = Inr (key, val')"
  shows "\<exists>val. mit_encode e = Inr (key, val)"
  using assms same_tl [OF _ assms(2,3)] unfolding entry_agrees_def mit_encode_Inr list_all_iff by auto

lemma entry_agrees_normal: "entry_agrees e e' \<Longrightarrow> entry_agrees (normal e) (normal e')"
  by (auto simp: entry_agrees_def normal_def find_tl_def fun_eq_iff)

lemma entry_agrees_trans: "entry_agrees a b \<Longrightarrow> entry_agrees b c \<Longrightarrow> entry_agrees a c"
  by (simp add: entry_agrees_def)

section \<open>One update\<close>

text \<open>The entries of a database, and when a replica's database agrees with the primary's.\<close>

definition entry_at :: "(bytes \<Rightarrow> bool) \<Rightarrow> principal_db \<Rightarrow> bytes \<Rightarrow> MitEntry option" where
  "entry_at gs db key =
     (case db key of None \<Rightarrow> None | Some v \<Rightarrow> (case mit_decode gs key v of Inl _ \<Rightarrow> None | Inr e \<Rightarrow> Some e))"

definition readable :: "(bytes \<Rightarrow> bool) \<Rightarrow> principal_db \<Rightarrow> bool" where
  "readable gs db \<longleftrightarrow> (\<forall>key v. db key = Some v \<longrightarrow> (\<exists>e. mit_decode gs key v = Inr e))"

definition db_agrees :: "(bytes \<Rightarrow> bool) \<Rightarrow> principal_db \<Rightarrow> principal_db \<Rightarrow> bool" where
  "db_agrees gs r p \<longleftrightarrow> readable gs r \<and> readable gs p \<and>
     (\<forall>key. rel_option (\<lambda>e e'. entry_agrees e e' \<and> distinct_tl e) (entry_at gs r key) (entry_at gs p key))"

text \<open>What a logged update says of the primary's database before and after the write.\<close>

inductive logs :: "(bytes \<Rightarrow> bool) \<Rightarrow> principal_db \<Rightarrow> Update \<Rightarrow> principal_db \<Rightarrow> bool" for gs :: "bytes \<Rightarrow> bool" where
  logs_put: "\<lbrakk>mit_encode new = Inr (key, val); may_follow gs (entry_at gs db key) new;
     u_values u = u_values (update_from_entry gs (entry_at gs db key) new); u_princ_name u = key; \<not> u_deleted u\<rbrakk> \<Longrightarrow>
     logs gs db u (db(key \<mapsto> val))"
| logs_delete: "\<lbrakk>u_deleted u; u_princ_name u = key\<rbrakk> \<Longrightarrow> logs gs db u (db(key := None))"

inductive logs_all :: "(bytes \<Rightarrow> bool) \<Rightarrow> principal_db \<Rightarrow> Update list \<Rightarrow> principal_db \<Rightarrow> bool" for gs :: "bytes \<Rightarrow> bool" where
  logs_none: "logs_all gs db [] db"
| logs_more: "logs gs db u db' \<Longrightarrow> logs_all gs db' us db'' \<Longrightarrow> logs_all gs db (u # us) db''"

lemma may_follow_loggable: "may_follow gs c e \<Longrightarrow> loggable gs e"
  by (simp add: may_follow_def)

lemma decode_stored:
  assumes "mit_encode e = Inr (key, val)" "loggable gs e"
  shows "mit_decode gs key val = Inr (normal e)"
  unfolding normal_def using assms by (intro mit_decode_encode) (auto simp: loggable_def)

lemma entry_at_upd: "mit_decode gs key v = Inr e \<Longrightarrow> entry_at gs (db(key \<mapsto> v)) = (entry_at gs db)(key \<mapsto> e)"
  by (auto simp: entry_at_def fun_eq_iff)

lemma entry_at_del: "entry_at gs (db(key := None)) = (entry_at gs db)(key := None)"
  by (auto simp: entry_at_def fun_eq_iff)

lemma readable_upd: "readable gs db \<Longrightarrow> mit_decode gs key v = Inr e \<Longrightarrow> readable gs (db(key \<mapsto> v))"
  by (auto simp: readable_def)

lemma readable_del: "readable gs db \<Longrightarrow> readable gs (db(key := None))"
  by (auto simp: readable_def)

lemma db_agrees_upd:
  assumes "db_agrees gs r p" "mit_decode gs key v = Inr e" "mit_decode gs key v' = Inr e'" "entry_agrees e e'" "distinct_tl e"
  shows "db_agrees gs (r(key \<mapsto> v)) (p(key \<mapsto> v'))"
  using assms by (auto simp: db_agrees_def readable_upd entry_at_upd)

lemma db_agrees_del: "db_agrees gs r p \<Longrightarrow> db_agrees gs (r(key := None)) (p(key := None))"
  by (auto simp: db_agrees_def readable_del entry_at_del)

lemma current_entry:
  assumes "readable gs db"
  shows "(case db key of None \<Rightarrow> Inr None | Some v \<Rightarrow> rbind (mit_decode gs key v) (\<lambda>e. Inr (Some e))) = Inr (entry_at gs db key)"
proof (cases "db key")
  case (Some v)
  with assms obtain e where "mit_decode gs key v = Inr e" by (auto simp: readable_def)
  with Some show ?thesis by (simp add: entry_at_def)
qed (simp add: entry_at_def)

lemma entry_agrees_eqs: "entry_agrees e e' \<Longrightarrow> mit_principal e = mit_principal e' \<and> mit_realm e = mit_realm e'"
  by (simp add: entry_agrees_def)

lemma replay_put_agrees:
  assumes db: "db_agrees gs r p" and new: "mit_encode new = Inr (key, val)" "may_follow gs (entry_at gs p key) new"
    and u: "u_values u = u_values (update_from_entry gs (entry_at gs p key) new)" "u_princ_name u = key"
  shows "\<exists>r'. replay_put gs u r = Inr r' \<and> db_agrees gs r' (p(key \<mapsto> val))"
proof -
  have log: "loggable gs new" using new(2) by (rule may_follow_loggable)
  have key: "key = mit_unparse_name (mit_principal new) (mit_realm new)" using new(1) by (simp add: mit_encode_Inr)
  have rel: "rel_option (\<lambda>e e'. entry_agrees e e' \<and> distinct_tl e) (entry_at gs r key) (entry_at gs p key)"
    and rr: "readable gs r" using db by (auto simp: db_agrees_def)
  have "\<exists>e. entry_from_update gs (entry_at gs r key) u = Inr e \<and> entry_agrees e new"
  proof (cases "entry_at gs p key")
    case None
    moreover from this have "entry_at gs r key = None" using rel by simp
    ultimately show ?thesis using entry_from_update_add [OF log, of u] u key by (auto simp: update_from_entry_def)
  next
    case (Some c)
    moreover from this obtain c' where "entry_at gs r key = Some c'" "entry_agrees c' c" using rel by (auto simp: option_rel_Some2)
    ultimately show ?thesis using entry_from_update_change [OF log, of c' c u] u new(2) by (auto simp: may_follow_def)
  qed
  then obtain e where e: "entry_from_update gs (entry_at gs r key) u = Inr e" "entry_agrees e new" by blast
  have "distinct_tl e"
    by (rule distinct_entry_from_update [OF e(1)]) (use rel in \<open>auto simp: option_rel_Some1 split: option.splits\<close>)
  moreover have "distinct_tl new" using log by (simp add: loggable_def distinct_tl_def)
  ultimately obtain v where v: "mit_encode e = Inr (key, v)" using entry_agrees_encodable [OF e(2) _ _ new(1)] by blast
  have dec: "mit_decode gs key v = Inr (normal e)"
    unfolding normal_def using v log entry_agrees_eqs [OF e(2)] by (intro mit_decode_encode) (auto simp: loggable_def)
  have "replay_put gs u r = Inr (r(key \<mapsto> v))"
    unfolding replay_put_def u(2) current_entry [OF rr] by (simp add: e(1) v)
  moreover have "db_agrees gs (r(key \<mapsto> v)) (p(key \<mapsto> val))"
    using \<open>distinct_tl e\<close>
    by (intro db_agrees_upd [OF db dec decode_stored [OF new(1) log] entry_agrees_normal [OF e(2)]]) (simp add: normal_def distinct_tl_def)
  ultimately show ?thesis by blast
qed

lemma kl_db_delete [simp]: "kl_db (snd (delete_unlogged key st)) = (kl_db st)(key := None)"
  by (simp add: delete_unlogged_def drop_lockout_def Let_def)

lemma logs_replayed:
  assumes "logs gs p u p'" "db_agrees gs r p" "kl_db st = r"
    "u_values v = u_values u" "u_princ_name v = u_princ_name u" "u_deleted v = u_deleted u"
  shows "\<exists>st'. replay_one gs le n now v f st =
      (case store_replayed le n now v f of (x, f) \<Rightarrow> (x, f, st')) \<and> db_agrees gs (kl_db st') p'"
  using assms(1)
proof cases
  case (logs_put new key val)
  then obtain r' where "replay_put gs v r = Inr r'" "db_agrees gs r' p'"
    using replay_put_agrees [OF assms(2), of new key val v] assms(4,5) by auto
  then show ?thesis using assms(3,6) logs_put by (intro exI [of _ "st\<lparr>kl_db := r'\<rparr>"]) (simp add: replay_one_def)
next
  case (logs_delete key)
  then show ?thesis using assms db_agrees_del [OF assms(2), of key]
    by (intro exI [of _ "snd (delete_unlogged key st)"]) (simp add: replay_one_def)
qed

section \<open>A list of updates\<close>

text \<open>The updates of a history have consecutive serial numbers, and can be read back.\<close>

definition serial :: "u32 \<Rightarrow> Update list \<Rightarrow> bool" where
  "serial s us \<longleftrightarrow> (\<forall>i < length us. unat (u_sno (us ! i)) = unat s + i + 1)"

lemma serial_Cons: "serial s (u # us) \<longleftrightarrow> unat (u_sno u) = unat s + 1 \<and> serial (u_sno u) us"
  by (auto simp: serial_def nth_Cons split: nat.splits)

lemma replay_all_agrees:
  assumes "logs_all gs p us p'" "db_agrees gs (kl_db st) p" "log_ok le n f v"
    "serial (la_sno (lw_last v)) us" "list_all (\<lambda>u. list_all value_wf (u_values u)) us"
    "replay_all gs le n clk (map committed us) f st = (r, f', st')"
  shows "r = Inr () \<and> db_agrees gs (kl_db st') p' \<and> (\<exists>v'. log_ok le n f' v' \<and> lw_last v' = (if us = [] then lw_last v else update_last (last us))) \<or>
    r \<noteq> Inr () \<and> list_ex (\<lambda>u. \<not> fits_block u) (map committed us)"
  using assms
proof (induction arbitrary: st f v rule: logs_all.induct)
  case (logs_none db)
  then show ?case by auto
next
  case (logs_more db u db' us db'')
  let ?u = "committed u"
  obtain st1 where st1: "replay_one gs le n (clk (length us)) ?u f st =
      (case store_replayed le n (clk (length us)) ?u f of (x, f) \<Rightarrow> (x, f, st1))" "db_agrees gs (kl_db st1) db'"
    using logs_replayed [OF logs_more.hyps(1) logs_more.prems(1) refl, of ?u le n "clk (length us)" f]
    by (auto simp: committed_def)
  obtain x f1 where x: "store_replayed le n (clk (length us)) ?u f = (x, f1)" by force
  have s: "unat (u_sno ?u) = unat (la_sno (lw_last v)) + 1" "serial (u_sno u) us"
    using logs_more.prems(3) by (simp_all add: serial_Cons committed_def)
  have "u_sno ?u = la_sno (lw_last v) + 1" "u_sno ?u \<noteq> 0"
  proof -
    show "u_sno ?u \<noteq> 0" using s(1) by auto
    have "la_sno (lw_last v) \<noteq> - 1" using s(1) unsigned_less [of "u_sno ?u", where ?'a = nat]
      by (auto simp: unsigned_minus_1_eq_mask mask_eq_exp_minus_1)
    then show "u_sno ?u = la_sno (lw_last v) + 1" using s(1) unat_succ32 by (metis word_unat_eq_iff)
  qed
  with store_replayed_ok [OF logs_more.prems(2), of ?u "clk (length us)"] logs_more.prems(4) x
  have f1: "case x of Inl e \<Rightarrow> check_fits le n ?u f = Inl e | Inr _ \<Rightarrow> log_ok le n f1 (lw_add (unat n) ?u v)"
    by (simp add: committed_def split: sum.splits)
  show ?case
  proof (cases x)
    case (Inl e)
    then have "\<not> fits_block ?u" using f1 fits_block_fits [OF logs_more.prems(2), of ?u] by auto
    then show ?thesis using logs_more.prems(5) st1(1) x Inl by auto
  next
    case (Inr y)
    have "lw_last (lw_add (unat n) ?u v) = update_last u"
      using window_add(2) [OF window_ok_last [OF logs_more.prems(2)] s(1)] by (simp add: update_last_def committed_def)
    moreover have "replay_all gs le n clk (map committed us) f1 st1 = (r, f', st')"
      using logs_more.prems(5) st1(1) x Inr by simp
    ultimately show ?thesis
      using logs_more.IH [OF st1(2), of f1 "lw_add (unat n) ?u v"] f1 s(2) logs_more.prems(4) Inr by (auto simp: update_last_def)
  qed
qed

section \<open>The writes of the primary\<close>

datatype 'k kop =
    K_Create MitEntry
  | K_Update PrincipalName bytes "MitEntry \<Rightarrow> 'k \<Rightarrow> StoreError + bool \<times> MitEntry"
  | K_Rename PrincipalName bytes "MitEntry \<Rightarrow> 'k \<Rightarrow> StoreError + MitEntry"
  | K_Delete PrincipalName bytes

fun run_kop ::
  "(bytes \<Rightarrow> bool) \<Rightarrow> bool \<Rightarrow> (principal_db \<Rightarrow> StoreError + 'k) \<Rightarrow> clock \<times> clock \<Rightarrow> 'k kop \<Rightarrow> klmdb \<Rightarrow> (StoreError + unit) \<times> klmdb" where
  "run_kop gs le rm ts (K_Create raw) st = create_raw gs le (fst ts) raw st"
| "run_kop gs le rm ts (K_Update name realm f) st = apfst (map_sum id (\<lambda>_. ())) (update_raw gs le rm (fst ts) name realm f st)"
| "run_kop gs le rm ts (K_Rename name realm f) st = rename_raw gs le rm (fst ts) (snd ts) name realm f st"
| "run_kop gs le rm ts (K_Delete name realm) st = apfst (map_sum id (\<lambda>_. ())) (kl_delete_principal le (fst ts) name realm st)"

text \<open>The entries that a write produces are such as the log can carry, and an update keeps the name.\<close>

fun kop_ok :: "(bytes \<Rightarrow> bool) \<Rightarrow> (principal_db \<Rightarrow> StoreError + 'k) \<Rightarrow> 'k kop \<Rightarrow> principal_db \<Rightarrow> bool" where
  "kop_ok gs rm (K_Create raw) db \<longleftrightarrow> loggable gs raw"
| "kop_ok gs rm (K_Update name realm f) db \<longleftrightarrow>
     (case entry_at gs db (mit_unparse_name name realm) of
        None \<Rightarrow> True
      | Some e \<Rightarrow>
          (case rbind (rm db) (f e) of
             Inr (True, raw) \<Rightarrow> may_follow gs (Some e) raw \<and> mit_unparse_name (mit_principal raw) (mit_realm raw) = mit_unparse_name name realm
           | _ \<Rightarrow> True))"
| "kop_ok gs rm (K_Rename name realm f) db \<longleftrightarrow>
     (case entry_at gs db (mit_unparse_name name realm) of
        None \<Rightarrow> True
      | Some e \<Rightarrow> (case rbind (rm db) (f e) of Inr raw \<Rightarrow> loggable gs raw | Inl _ \<Rightarrow> True))"
| "kop_ok gs rm (K_Delete name realm) db \<longleftrightarrow> True"

text \<open>Writes one after the other; in \<open>kops_ok\<close>, each succeeds or leaves the store as it is.\<close>

fun run_kops ::
  "(bytes \<Rightarrow> bool) \<Rightarrow> bool \<Rightarrow> (principal_db \<Rightarrow> StoreError + 'k) \<Rightarrow> ((clock \<times> clock) \<times> 'k kop) list \<Rightarrow> klmdb \<Rightarrow> klmdb" where
  "run_kops gs le rm [] st = st"
| "run_kops gs le rm ((ts, op) # ops) st = run_kops gs le rm ops (snd (run_kop gs le rm ts op st))"

fun kops_ok ::
  "(bytes \<Rightarrow> bool) \<Rightarrow> bool \<Rightarrow> (principal_db \<Rightarrow> StoreError + 'k) \<Rightarrow> ((clock \<times> clock) \<times> 'k kop) list \<Rightarrow> klmdb \<Rightarrow> bool" where
  "kops_ok gs le rm [] st \<longleftrightarrow> True"
| "kops_ok gs le rm ((ts, op) # ops) st \<longleftrightarrow>
     kop_ok gs rm op (kl_db st) \<and>
     (let (r, st') = run_kop gs le rm ts op st in (r = Inr () \<or> st' = st) \<and> kops_ok gs le rm ops st')"

text \<open>What a write does: it logs what it changes.\<close>

definition write_logged :: "(bytes \<Rightarrow> bool) \<Rightarrow> bool \<Rightarrow> klmdb \<Rightarrow> (Time \<times> Time \<times> Update) list \<Rightarrow> klmdb \<Rightarrow> bool" where
  "write_logged gs le st us st' \<longleftrightarrow>
     logs_all gs (kl_db st) (map (\<lambda>(_, _, u). u) us) (kl_db st') \<and>
     list_all (\<lambda>(_, _, u). list_all value_wf (u_values u)) us \<and>
     (case kl_ulog st of
        None \<Rightarrow> kl_ulog st' = None
      | Some (n, f) \<Rightarrow> (\<exists>H f'. add_all le n us f = Inr (H, f') \<and> kl_ulog st' = Some (n, f')))"

lemma write_logged_none: "write_logged gs le st [] st"
  by (auto simp: write_logged_def intro: logs_none split: option.splits)

lemma logs_all_append: "logs_all gs a us b \<Longrightarrow> logs_all gs b vs c \<Longrightarrow> logs_all gs a (us @ vs) c"
  by (induction rule: logs_all.induct) (auto intro: logs_more)

lemma add_all_append:
  "add_all le n us f = Inr (H, g) \<Longrightarrow> add_all le n vs g = Inr (H', g') \<Longrightarrow> add_all le n (us @ vs) f = Inr (H @ H', g')"
proof (induction us arbitrary: f H)
  case (Cons t us)
  then show ?case by (cases t) (auto split: sum.splits prod.splits)
qed simp

lemma write_logged_append: "write_logged gs le a us b \<Longrightarrow> write_logged gs le b vs c \<Longrightarrow> write_logged gs le a (us @ vs) c"
  by (auto simp: write_logged_def intro: logs_all_append dest: add_all_append split: option.splits)

lemma logs_one: "logs gs a u b \<Longrightarrow> logs_all gs a [u] b"
  by (rule logs_more [OF _ logs_none])

lemma log_held_logged:
  assumes "log_held le ts u st = (Inr (), st')" "logs gs (kl_db st0) u (kl_db st)" "kl_ulog st = kl_ulog st0"
    "list_all value_wf (u_values u)"
  shows "write_logged gs le st0 [(fst ts, snd ts, u)] st'"
  using assms
  by (auto simp: write_logged_def log_held_def intro: logs_one split: option.splits prod.splits sum.splits)

lemma update_princ_name: "u_princ_name (update_from_entry gs c e) = mit_unparse_name (mit_principal e) (mit_realm e)"
  and update_not_deleted: "\<not> u_deleted (update_from_entry gs c e)"
  by (simp_all add: update_from_entry_def default_Update_def)

lemma encode_key: "mit_encode e = Inr (key, val) \<Longrightarrow> key = mit_unparse_name (mit_principal e) (mit_realm e)"
  by (simp add: mit_encode_Inr)

lemma logs_update:
  assumes "mit_encode new = Inr (key, val)" "entry_at gs db key = c" "may_follow gs c new"
  shows "logs gs db (update_from_entry gs c new) (db(key \<mapsto> val))"
  using assms encode_key [OF assms(1)]
  by (intro logs_put) (auto simp: update_princ_name update_not_deleted)

lemma logs_deletion: "logs gs db (deletion key) (db(key := None))"
  by (rule logs_delete) (simp_all add: deletion_def)

lemma deletion_wf: "list_all value_wf (u_values (deletion key))"
  by (simp add: deletion_def default_Update_def)

lemma create_raw_logged:
  assumes "create_raw gs le ts raw st = (Inr (), st')" "loggable gs raw"
  shows "\<exists>us. length us \<le> 2 \<and> write_logged gs le st us st'"
proof -
  from assms(1) obtain key val where e: "mit_encode raw = Inr (key, val)" "kl_db st key = None"
    "log_held le ts (update_from_entry gs None raw) (st\<lparr>kl_db := (kl_db st)(key \<mapsto> val)\<rparr>) = (Inr (), st')"
    by (auto simp: create_raw_def split: sum.splits if_splits)
  have "entry_at gs (kl_db st) key = None" using e(2) by (simp add: entry_at_def)
  then have "logs gs (kl_db st) (update_from_entry gs None raw) ((kl_db st)(key \<mapsto> val))"
    using assms(2) by (intro logs_update [OF e(1)]) (simp_all add: may_follow_def)
  then have "write_logged gs le st [(fst ts, snd ts, update_from_entry gs None raw)] st'"
    by (intro log_held_logged [OF e(3)]) (simp_all add: update_from_entry_wf)
  then show ?thesis by (intro exI conjI) auto
qed

lemma kl_delete_principal_logged:
  assumes "kl_delete_principal le ts name realm st = (Inr b, st')"
  shows "\<exists>us. length us \<le> 2 \<and> write_logged gs le st us st'"
proof (cases "kl_db st (mit_unparse_name name realm)")
  case None
  then have "(kl_db st)(mit_unparse_name name realm := None) = kl_db st" by auto
  then have "st' = st" using assms None by (simp add: kl_delete_principal_def delete_unlogged_def Let_def)
  then show ?thesis using write_logged_none by (intro exI [of _ "[]"]) auto
next
  case (Some v)
  let ?key = "mit_unparse_name name realm"
  have "log_held le ts (deletion ?key) (snd (delete_unlogged ?key st)) = (Inr (), st')"
    using assms Some by (auto simp: kl_delete_principal_def delete_unlogged_def Let_def split: sum.splits prod.splits)
  then have "write_logged gs le st [(fst ts, snd ts, deletion ?key)] st'"
    by (rule log_held_logged) (simp_all add: logs_deletion deletion_wf delete_unlogged_def drop_lockout_def Let_def)
  then show ?thesis by (intro exI conjI) auto
qed

lemma update_raw_logged:
  assumes "update_raw gs le rm ts name realm f st = (Inr b, st')" "kop_ok gs rm (K_Update name realm f) (kl_db st)"
  shows "\<exists>us. length us \<le> 2 \<and> write_logged gs le st us st'"
proof -
  let ?key = "mit_unparse_name name realm"
  obtain keys v cur c raw where r: "rm (kl_db st) = Inr keys" "kl_db st ?key = Some v" "mit_decode gs ?key v = Inr cur"
    "f cur keys = Inr (c, raw)"
    using assms(1) unfolding update_raw_def Let_def by (auto split: sum.splits option.splits)
  show ?thesis
  proof (cases c)
    case False
    then have "st' = st" using assms(1) r by (simp add: update_raw_def)
    then show ?thesis using write_logged_none by (intro exI [of _ "[]"]) auto
  next
    case True
    have cur: "entry_at gs (kl_db st) ?key = Some cur" using r(2,3) by (simp add: entry_at_def)
    have ok: "may_follow gs (Some cur) raw" "mit_unparse_name (mit_principal raw) (mit_realm raw) = ?key"
      using assms(2) r True cur by simp_all
    obtain key val where val': "mit_encode raw = Inr (key, val)"
      using assms(1) r True unfolding update_raw_def Let_def by (auto split: sum.splits)
    then have val: "mit_encode raw = Inr (?key, val)" using encode_key [OF val'] ok(2) by simp
    have held: "log_held le ts (update_from_entry gs (Some cur) raw) (st\<lparr>kl_db := (kl_db st)(?key \<mapsto> val)\<rparr>) = (Inr (), st')"
      using assms(1) r True val unfolding update_raw_def Let_def by (auto split: sum.splits prod.splits)
    have "logs gs (kl_db st) (update_from_entry gs (Some cur) raw) ((kl_db st)(?key \<mapsto> val))"
      by (rule logs_update [OF val cur ok(1)])
    then have "write_logged gs le st [(fst ts, snd ts, update_from_entry gs (Some cur) raw)] st'"
      by (intro log_held_logged [OF held]) (simp_all add: update_from_entry_wf)
    then show ?thesis by (intro exI conjI) auto
  qed
qed

lemma rename_raw_logged:
  assumes "rename_raw gs le rm ts ts' name realm f st = (Inr (), st')" "kop_ok gs rm (K_Rename name realm f) (kl_db st)"
  shows "\<exists>us. length us \<le> 2 \<and> write_logged gs le st us st'"
proof -
  let ?src = "mit_unparse_name name realm"
  obtain keys v cur raw dest val where r: "rm (kl_db st) = Inr keys" "kl_db st ?src = Some v" "mit_decode gs ?src v = Inr cur"
    "f cur keys = Inr raw" "mit_encode raw = Inr (dest, val)" "kl_db st dest = None"
    using assms(1) unfolding rename_raw_def Let_def by (auto split: sum.splits option.splits if_splits)
  let ?st = "st\<lparr>kl_db := (kl_db st)(dest \<mapsto> val)\<rparr>"
  let ?sd = "drop_lockout ?src (st\<lparr>kl_db := (kl_db st)(dest \<mapsto> val, ?src := None)\<rparr>)"
  obtain st1 where held: "log_held le ts (update_from_entry gs None raw) ?sd = (Inr (), st1)"
    "log_held le ts' (deletion ?src) st1 = (Inr (), st')"
    using assms(1) r unfolding rename_raw_def Let_def by (auto split: sum.splits prod.splits)
  have "loggable gs raw" using assms(2) r by (simp add: entry_at_def)
  then have put: "logs gs (kl_db st) (update_from_entry gs None raw) (kl_db ?st)"
    using r(6) logs_update [OF r(5), of gs "kl_db st" None] by (simp add: entry_at_def may_follow_def)
  have del: "logs gs (kl_db ?st) (deletion ?src) (kl_db ?sd)"
    using logs_deletion [of gs "kl_db ?st" ?src] by (simp add: drop_lockout_def)
  have db: "kl_db st1 = kl_db ?sd" "kl_db st' = kl_db ?sd"
    using held by (auto simp: log_held_def split: option.splits sum.splits prod.splits)
  have "logs_all gs (kl_db st) [update_from_entry gs None raw, deletion ?src] (kl_db st')"
    unfolding db(2) using put del by (intro logs_more [OF put] logs_one)
  moreover have "case kl_ulog st of None \<Rightarrow> kl_ulog st' = None
      | Some (n, f) \<Rightarrow> \<exists>H f'. add_all le n [(fst ts, snd ts, update_from_entry gs None raw), (fst ts', snd ts', deletion ?src)] f =
          Inr (H, f') \<and> kl_ulog st' = Some (n, f')"
    using held by (auto simp: log_held_def drop_lockout_def split: option.splits sum.splits prod.splits)
  ultimately have "write_logged gs le st [(fst ts, snd ts, update_from_entry gs None raw), (fst ts', snd ts', deletion ?src)] st'"
    by (simp add: write_logged_def update_from_entry_wf deletion_wf)
  then show ?thesis by (intro exI conjI) auto
qed

lemma run_kop_logged:
  assumes "kop_ok gs rm op (kl_db st)" "run_kop gs le rm ts op st = (r, st')" "r = Inr () \<or> st' = st"
  shows "\<exists>us. length us \<le> 2 \<and> write_logged gs le st us st'"
proof (cases "r = Inr ()")
  case False
  with assms(3) have "st' = st" by simp
  then show ?thesis using write_logged_none by (intro exI [of _ "[]"]) auto
next
  case True
  show ?thesis
  proof (cases op)
    case (K_Create raw)
    then show ?thesis using assms True create_raw_logged [of gs le "fst ts" raw st st'] by simp
  next
    case (K_Update name realm f)
    then obtain b where "update_raw gs le rm (fst ts) name realm f st = (Inr b, st')"
      using assms True by (cases "update_raw gs le rm (fst ts) name realm f st"; cases "fst (update_raw gs le rm (fst ts) name realm f st)") auto
    then show ?thesis using update_raw_logged assms(1) K_Update by blast
  next
    case (K_Rename name realm f)
    then show ?thesis using assms True rename_raw_logged [of gs le rm "fst ts" "snd ts" name realm f st st'] by simp
  next
    case (K_Delete name realm)
    then obtain b where "kl_delete_principal le (fst ts) name realm st = (Inr b, st')"
      using assms True by (cases "kl_delete_principal le (fst ts) name realm st"; cases "fst (kl_delete_principal le (fst ts) name realm st)") auto
    then show ?thesis using kl_delete_principal_logged by blast
  qed
qed

lemma run_kops_logged:
  "kops_ok gs le rm ops st \<Longrightarrow> \<exists>us. length us \<le> 2 * length ops \<and> write_logged gs le st us (run_kops gs le rm ops st)"
proof (induction ops arbitrary: st)
  case Nil
  then show ?case using write_logged_none by (intro exI [of _ "[]"]) auto
next
  case (Cons t ops)
  obtain ts op where t: "t = (ts, op)" by (cases t)
  obtain r st' where r: "run_kop gs le rm ts op st = (r, st')" by force
  with Cons.prems t have ok: "kop_ok gs rm op (kl_db st)" "r = Inr () \<or> st' = st" "kops_ok gs le rm ops st'" by auto
  obtain us where us: "length us \<le> 2" "write_logged gs le st us st'" using run_kop_logged [OF ok(1) r ok(2)] by blast
  obtain vs where vs: "length vs \<le> 2 * length ops" "write_logged gs le st' vs (run_kops gs le rm ops st')"
    using Cons.IH [OF ok(3)] by blast
  from us vs write_logged_append [OF us(2) vs(2)] show ?case by (intro exI [of _ "us @ vs"]) (simp add: t r)
qed

text \<open>
  A write that the log refuses is in the database all the same: the caller gets the error, and the replicas never
  hear of the entry.
\<close>

lemma create_raw_unlogged:
  assumes "kl_ulog st = Some (n, f)" "mit_encode raw = Inr (key, val)" "kl_db st key = None"
    "add_update le n (fst ts) (snd ts) (update_from_entry gs None raw) f = (Inl e, f)"
  shows "create_raw gs le ts raw st = (Inl e, st\<lparr>kl_db := (kl_db st)(key \<mapsto> val)\<rparr>)"
  using assms by (cases st) (simp add: create_raw_def log_held_def)

section \<open>The wire\<close>

lemma status_from_code [simp]: "status_from_u32 (status_code s) = Some s"
  by (cases s) (simp_all add: status_from_u32_def)

lemma xw_seq_Inr: "(\<And>x. x \<in> set xs \<Longrightarrow> \<exists>b. put x = Inr b) \<Longrightarrow> \<exists>b. xw_seq put xs = Inr b"
proof (induction xs)
  case (Cons x xs)
  then obtain b c where "put x = Inr b" "xw_seq put xs = Inr c" by fastforce
  then show ?case by simp
qed simp

lemma encode_committed: "update_encode u = Inr b \<Longrightarrow> \<exists>c. xw_update (committed u) = Inr c"
  by (auto simp: update_encode_def xw_update_def committed_def xw_bool_def xw_u32_def)

lemma decode_incr_reply:
  assumes "incr_reply (s, us, l) = Inr b" "list_all (\<lambda>u. list_all value_wf (u_values u)) us" "length us < 2 ^ 32"
  shows "decode_incr b = Inr (l, us, Some s)"
proof -
  obtain c d where c: "xw_last l = Inr c" "xw_seq xw_update us = Inr d"
    "b = c @ be32 (word_of_nat (length us)) @ d @ be32 (status_code s)"
    using assms(1,3) by (auto simp: incr_reply_def)
  then show ?thesis using assms(2,3) xr_u32_be32 [of "status_code s" "[]"]
    by (simp add: decode_incr_def xc_last.get_put [OF c(1)] xc_update.seq_get unat_of_nat)
qed

lemma window_update:
  assumes "log_ok le n f w" "u \<in> set (lw_updates w)"
  shows "list_all value_wf (u_values u)" and "\<exists>b. update_encode u = Inr b"
proof -
  from assms obtain i where "i < length (lw_updates w)" "u = lw_updates w ! i" by (metis in_set_conv_nth)
  with assms(1) obtain b where "slot_has le b u" by (auto simp: log_ok_def Let_def)
  then show "list_all value_wf (u_values u)" "\<exists>b. update_encode u = Inr b"
    by (auto simp: slot_has_def update_data_def split: sum.splits if_splits)
qed

lemma get_updates_ok:
  assumes ok: "log_ok le n f w" and get: "lw_get l w = (s, us, e)"
  shows "\<exists>reply. get_updates le True n now l f = (reply, f) \<and> decode_incr reply = Inr (e, us, Some s)"
proof -
  have us: "\<exists>k. us = map committed (drop k (lw_updates w))"
    using get by (auto simp: lw_get_def Let_def split: if_splits intro: exI [of _ "length (lw_updates w)"])
  then have mem: "\<exists>v \<in> set (lw_updates w). u = committed v" if "u \<in> set us" for u
    using that by (auto dest!: in_set_dropD)
  have "\<exists>b. xw_seq xw_update us = Inr b"
    by (rule xw_seq_Inr) (metis mem window_update(2) [OF ok] encode_committed)
  moreover have "\<exists>c. xw_last e = Inr c" by (simp add: xw_last_def xw_time_def xw_u32_def)
  ultimately obtain b where b: "incr_reply (s, us, e) = Inr b" by (auto simp: incr_reply_def)
  have "list_all (\<lambda>u. list_all value_wf (u_values u)) us"
    unfolding list_all_iff [of _ us] using mem window_update(1) [OF ok] by (fastforce simp: committed_def)
  moreover have "length us < 2 ^ 32"
    using us window_ok_last [OF ok] unsigned_less [of n, where ?'a = nat] by (auto simp: window_ok_def)
  ultimately show ?thesis using decode_incr_reply [OF b] by (simp add: get_updates_def get_entries_ok [OF ok] get b)
qed

section \<open>A poll\<close>

lemma logs_cong:
  assumes "logs gs a u b" "unstamped u = unstamped v"
  shows "logs gs a v b"
proof -
  have v: "u_values v = u_values u" "u_princ_name v = u_princ_name u" "u_deleted v = u_deleted u"
    using assms(2) by (cases u; cases v; simp add: unstamped_def)+
  from assms(1) show ?thesis
  proof cases
    case (logs_put new key val)
    then show ?thesis using v logs.logs_put [of new key val gs a v] by simp
  next
    case (logs_delete key)
    then show ?thesis using v logs.logs_delete [of v key gs a] by simp
  qed
qed

lemma logs_all_cong: "logs_all gs a us b \<Longrightarrow> map unstamped us = map unstamped vs \<Longrightarrow> logs_all gs a vs b"
proof (induction arbitrary: vs rule: logs_all.induct)
  case (logs_more db u db' us db'')
  then obtain v vs' where "vs = v # vs'" "unstamped u = unstamped v" "map unstamped us = map unstamped vs'" by (cases vs) auto
  with logs_more show ?case by (auto intro: logs_all.logs_more dest: logs_cong)
qed (simp add: logs_none)

lemma unstamped_wf: "unstamped u = unstamped v \<Longrightarrow> u_values u = u_values v"
  by (cases u; cases v) (simp add: unstamped_def)

lemma replay_updates_committed:
  assumes "kl_ulog r = Some (m, g)" "log_ok le m g v" "logs_all gs p H p'" "db_agrees gs (kl_db r) p"
    "serial (la_sno (lw_last v)) H" "list_all (\<lambda>u. list_all value_wf (u_values u)) H" "H \<noteq> []"
  shows "\<exists>g'. kl_ulog (snd (replay_updates gs le clk now (map committed H) r)) = Some (m, g') \<and>
    (fst (replay_updates gs le clk now (map committed H) r) = Inr () \<and>
       db_agrees gs (kl_db (snd (replay_updates gs le clk now (map committed H) r))) p' \<and> get_last le g' = update_last (last H) \<or>
     fst (replay_updates gs le clk now (map committed H) r) \<noteq> Inr () \<and> get_last le g' = \<lparr>la_sno = 1, la_time = now\<rparr> \<and>
       list_ex (\<lambda>u. \<not> fits_block u) (map committed H))"
proof -
  have f: "filter u_commit (map committed H) = map committed H" by (simp add: filter_id_conv committed_def)
  obtain x g' r' where x: "replay_all gs le m clk (map committed H) g r = (x, g', r')" by (metis prod_cases3)
  show ?thesis
  proof (cases x)
    case (Inl e)
    have "m \<noteq> 0" using assms(2) by (auto simp: log_ok_def window_ok_def)
    then have "get_last le (init_header le m now g') = \<lparr>la_sno = 1, la_time = now\<rparr>"
      using get_last_ok [OF reset_ok(1), of m le now g'] by (simp add: init_header_def)
    moreover have "list_ex (\<lambda>u. \<not> fits_block u) (map committed H)" using replay_all_agrees [OF assms(3,4,2,5,6) x] Inl by blast
    ultimately show ?thesis using Inl x assms(1) f by (simp add: replay_updates_def)
  next
    case (Inr y)
    then have "x = Inr ()" by simp
    with replay_all_agrees [OF assms(3,4,2,5,6) x] obtain v' where "db_agrees gs (kl_db r') p'" "log_ok le m g' v'"
      "lw_last v' = update_last (last H)" using assms(7) by auto
    with Inr x assms(1) f get_last_ok show ?thesis by (simp add: replay_updates_def)
  qed
qed

text \<open>
  C4: Incremental propagation, from end to end. A replica starts at the primary's position with a database that
  agrees with the primary's. The primary then creates, changes, renames and deletes principals, with entries
  that the log can carry; each write succeeds or fails without a change, so none is refused by the log after it is in the
  database. When the replica polls next, either it is told that nothing changed, and nothing did; or it receives updates,
  and after replaying them its database agrees with the primary's again and its position is the primary's; or the
  replay failed, which takes an update larger than a block, and its log starts over, so that the next poll asks for a full
  resync; or it is told to resync because at least as many updates were logged as the log has room for. It is never left
  behind with a position that says otherwise.
\<close>

theorem iprop_replica_follows:
  assumes primary: "kl_ulog p = Some (n, f)" "log_ok le n f w"
    and replica: "kl_ulog r = Some (m, g)" "log_ok le m g v" "get_last le g = get_last le f"
    and agree: "db_agrees gs (kl_db r) (kl_db p)"
    and ops: "kops_ok gs le rm ops p" "unat (la_sno (get_last le f)) + 2 * length ops < 2 ^ 32"
  shows "\<exists>f' status r'. kl_ulog (run_kops gs le rm ops p) = Some (n, f') \<and>
    poll_once gs le True n now f' clk now' r = (status, f', r') \<and>
    (status = Some Upd_Nil \<and> r' = r \<and> db_agrees gs (kl_db r) (kl_db (run_kops gs le rm ops p)) \<or>
     status = Some Upd_Ok \<and> (\<exists>g'. kl_ulog r' = Some (m, g') \<and>
        (db_agrees gs (kl_db r') (kl_db (run_kops gs le rm ops p)) \<and> get_last le g' = get_last le f' \<or>
         get_last le g' = \<lparr>la_sno = 1, la_time = now'\<rparr> \<and>
           (\<exists>us e. get_entries le n now (get_last le g) f' = (Inr (Upd_Ok, us, e), f') \<and> list_ex (\<lambda>u. \<not> fits_block u) us))) \<or>
     status = Some Upd_FullResyncNeeded \<and> r' = r \<and>
       unat (la_sno (get_last le f)) + unat n \<le> unat (la_sno (get_last le f')))"
proof -
  let ?p = "run_kops gs le rm ops p"
  obtain us where us: "length us \<le> 2 * length ops" "write_logged gs le p us ?p" using run_kops_logged [OF ops(1)] by blast
  from us(2) primary(1) obtain H f' where H: "add_all le n us f = Inr (H, f')" "kl_ulog ?p = Some (n, f')"
    and logs: "logs_all gs (kl_db p) (map (\<lambda>(_, _, u). u) us) (kl_db ?p)"
    and wf: "list_all (\<lambda>(_, _, u). list_all value_wf (u_values u)) us"
    by (auto simp: write_logged_def)
  have last: "get_last le f = lw_last w" "get_last le g = lw_last w" "lw_last v = lw_last w"
    using primary(2) replica(2,3) get_last_ok by metis+
  have room: "unat (la_sno (lw_last w)) + length us < 2 ^ 32" using us(1) ops(2) last by simp
  let ?w = "fold (lw_add (unat n)) H w"
  have ok: "log_ok le n f' ?w" and un: "map unstamped H = map unstamped (map (\<lambda>(_, _, u). u) us)"
    and ser: "serial (la_sno (lw_last v)) H"
    using add_all_ok [OF H(1) primary(2) wf room] by (auto simp: serial_def last comp_def split_def)
  have logsH: "logs_all gs (kl_db p) H (kl_db ?p)" using logs_all_cong [OF logs] un by simp
  have wfH: "list_all (\<lambda>u. list_all value_wf (u_values u)) H"
  proof -
    have "u_values (H ! i) = u_values (snd (snd (us ! i)))" if "i < length H" for i
      using un that by (intro unstamped_wf) (metis (no_types, lifting) length_map nth_map split_def)
    moreover have "length H = length us" using un by (metis length_map)
    ultimately show ?thesis using wf by (auto simp: list_all_length split_def)
  qed
  have get: "lw_get (lw_last w) ?w = (if H = [] then (Upd_Nil, [], \<lparr>la_sno = 0, la_time = default_Time\<rparr>)
      else if length H < unat n then (Upd_Ok, map committed H, update_last (last H))
      else (Upd_FullResyncNeeded, [], \<lparr>la_sno = 0, la_time = default_Time\<rparr>))"
    using history_served [OF primary(2) H(1) wf room, of 0] get_entries_ok [OF ok, of undefined "lw_last w"]
    by (auto simp: position_after_def split: if_splits)
  obtain st vs e where sve: "lw_get (lw_last w) ?w = (st, vs, e)" by (metis prod_cases3)
  obtain reply where reply: "get_updates le True n now (lw_last w) f' = (reply, f')" "decode_incr reply = Inr (e, vs, Some st)"
    using get_updates_ok [OF ok sve] by blast
  have poll: "poll_once gs le True n now f' clk now' r =
      (if st = Upd_Ok then (Some st, f', snd (replay_updates gs le clk now' vs r)) else (Some st, f', r))"
    by (simp add: poll_once_def replica(1) last reply)
  consider "H = []" | "H \<noteq> []" "length H < unat n" | "H \<noteq> []" "unat n \<le> length H" by linarith
  moreover have lastH: "get_last le f' = update_last (last H)" if "H \<noteq> []"
    using that primary(2) get_last_ok [OF ok] lw_last_fold [of "unat n" w H] by (auto simp: log_ok_def window_ok_def)
  ultimately show ?thesis
  proof cases
    case 1
    then have "kl_db ?p = kl_db p" using logsH by (auto elim: logs_all.cases)
    then show ?thesis using 1 get sve poll H(2) agree by auto
  next
    case 2
    then have "vs = map committed H" "st = Upd_Ok" using get sve by auto
    moreover from this have "get_entries le n now (get_last le g) f' = (Inr (Upd_Ok, map committed H, e), f')"
      using get_entries_ok [OF ok] sve last by simp
    ultimately show ?thesis using lastH [OF 2(1)] replay_updates_committed [OF replica(1,2) logsH agree ser wfH 2(1), of clk now'] poll H(2) by auto
  next
    case 3
    have "unat (la_sno (get_last le f')) = unat (la_sno (lw_last w)) + length H"
      unfolding lastH [OF 3(1)] using ser 3(1) by (simp add: serial_def last update_last_def last_conv_nth)
    then show ?thesis using 3 get sve poll H(2) last by auto
  qed
qed

definition example_store :: klmdb where
  "example_store = \<lparr>kl_db = (\<lambda>_. None), kl_lockout = None, kl_ulog = Some (3, example_log)\<rparr>"

definition example_clock :: "clock \<times> clock" where
  "example_clock = ((default_Time, default_Time), (default_Time, default_Time))"

lemma example_create:
  "\<exists>st. create_raw (\<lambda>_. True) True (fst example_clock) example_mit_entry example_store = (Inr (), st)"
proof -
  let ?gs = "\<lambda>_ :: bytes. True" and ?w = "lw_start \<lparr>la_sno = 1, la_time = default_Time\<rparr>"
  let ?u = "update_from_entry ?gs None example_mit_entry"
  obtain key val where e: "mit_encode example_mit_entry = Inr (key, val)"
    by (simp add: mit_encode_Inr) (simp add: example_mit_entry_def tl_wf_def key_wf_def field_wf_def)
  have "fits_block (?u\<lparr>u_sno := 2, u_time := default_Time\<rparr>)" by code_simp
  then have "fits_block (lw_stamp default_Time ?w ?u)" by (simp add: lw_stamp_def)
  from add_update_fits [OF example_log_ok _ update_from_entry_wf this]
  obtain f' where "add_update True 3 default_Time default_Time ?u example_log = (Inr (lw_stamp default_Time ?w ?u), f')"
    by auto
  then show ?thesis using e by (simp add: create_raw_def log_held_def example_store_def example_clock_def)
qed

theorem iprop_replica_follows_witness:
  "\<exists>f' status r'. kl_ulog (run_kops (\<lambda>_. True) True (\<lambda>_. Inr ()) [(example_clock, K_Create example_mit_entry)] example_store) = Some (3, f') \<and>
    poll_once (\<lambda>_. True) True True 3 default_Time f' (\<lambda>_. default_Time) default_Time example_store = (status, f', r') \<and>
    (status = Some Upd_Nil \<or> status = Some Upd_Ok \<or> status = Some Upd_FullResyncNeeded)"
proof -
  obtain st where st: "create_raw (\<lambda>_. True) True (fst example_clock) example_mit_entry example_store = (Inr (), st)"
    using example_create by blast
  have ok: "kops_ok (\<lambda>_. True) True (\<lambda>_. Inr ()) [(example_clock, K_Create example_mit_entry)] example_store"
    using st example_loggable by simp
  have "db_agrees (\<lambda>_. True) (kl_db example_store) (kl_db example_store)"
    by (simp add: db_agrees_def readable_def entry_at_def example_store_def)
  moreover have "kl_ulog example_store = Some (3, example_log)" by (simp add: example_store_def)
  moreover have "get_last True example_log = \<lparr>la_sno = 1, la_time = default_Time\<rparr>" using get_last_ok [OF example_log_ok] by simp
  ultimately show ?thesis
    using iprop_replica_follows [OF _ example_log_ok _ example_log_ok _ _ ok, of example_store default_Time "\<lambda>_. default_Time" default_Time]
    by auto
qed

end
