(* ===== verification/Spec2Isabelle.thy ===== *)
theory Spec2Isabelle
  imports Seq_State Nfold Aes_Cts Keytab_File Lockout Transit Ccache Replication_System Iprop
begin

text \<open>
  A verification development for krb5-rs, a Kerberos V5 implementation in Rust: a client and server library
  (\<open>src/src\<close>), a KDC (\<open>src/src/kdc\<close>) and database back ends for it (\<open>src/crates\<close>).

  \<^bold>\<open>How the program is modelled.\<close> Each Rust function is a HOL function of the same name where the name is free.
  Fixed-width unsigned integers are words, \<open>i64\<close> values and times are \<open>int\<close> with the checked, saturating or wrapping
  operation of the source written out, a \<open>String\<close> is its UTF-8 bytes, a \<open>Result\<close> is a sum whose left side is the
  error, a \<open>HashMap\<close> is a map, and a panic is \<open>None\<close>. Functions that change state take the state and return it. A
  loop is a recursive function with its termination proof; the loops whose end depends on another party
  (\<open>copy_pages\<close> and \<open>bootstrap\<close> of the replication engine) are partial functions, whose end is a theorem. Code outside
  the repository is a parameter: the AES block cipher, the string-to-key functions, \<open>GeneralString::from_bytes\<close>, the
  file system, the database engines. What a database engine does in a step (an error, a retry, the read timestamp)
  is a script the state carries, and the theorems hold for every script.

  \<^bold>\<open>The parts, their theories, and what is shown.\<close>

  \<^item> \<open>Krb_Prelude\<close>, \<open>Krb_Types\<close>, \<open>Utf8\<close>: results, integers, byte readers with the interfaces \<open>codec\<close> and \<open>exact_codec\<close>;
    the flags, names and errors of \<open>types/\<close> and \<open>kdc/error.rs\<close>; the UTF-8 functions of the standard library.

  \<^item> \<open>Seq_State\<close> (\<open>gssapi/seqstate.rs\<close>): the receive window of per-message tokens refines the set of numbers seen; no
    replay is accepted; which verdict is given; when the shift panics.

  \<^item> \<open>Nfold\<close>, \<open>Aes_Cts\<close> (\<open>crypto/nfold.rs\<close>, \<open>crypto/aes_cts.rs\<close>): n-fold is the ones-complement sum of RFC 3961;
    decryption inverts encryption, also over a stream of messages with a chained initialization vector.

  \<^item> \<open>Keytab\<close>, \<open>Keytab_File\<close> (\<open>keytab/\<close>): the interface \<open>keytab\<close> of the trait, interpreted by the MEMORY keytab and by
    the FILE keytab on the bytes of its file with holes; the entry format round trips; which entry is selected.

  \<^item> \<open>Kdb_Entry\<close>, \<open>Auth_State\<close>, \<open>Lockout\<close>, \<open>Kdc_Policy\<close> (\<open>kdc/db.rs\<close>, \<open>kdc/store.rs\<close>, \<open>kdc/lockout.rs\<close>,
    \<open>kdc/policy.rs\<close>): the principal store, the counters behind the interfaces \<open>auth_store\<close> and \<open>shared_auth_store\<close>, the
    bound on password guessing, refusal when the counters cannot be read, ticket flags and times along chains of
    requests.

  \<^item> \<open>Deltat\<close>, \<open>Profile\<close>, \<open>Transit\<close> (\<open>profile/\<close>, \<open>protocol/transit.rs\<close>): the configuration tree and its parser, the
    capaths and hierarchical paths between realms, and the compressed list of transited realms with its check.

  \<^item> \<open>Ccache_Marshal\<close>, \<open>Ccache\<close> (\<open>ccache/\<close>): the record formats round trip; the FILE cache refines a list of credentials
    under the interface \<open>ccache\<close>; configuration entries can be read back.

  \<^item> \<open>Replication\<close>, \<open>Replica_Db\<close>, \<open>Replica_Apply\<close>, \<open>Replica\<close> (\<open>kdc/replication.rs\<close> and the crate
    \<open>krb5-rs-kdb-turso\<close>): the replica's tables and every statement on them; applying changes is last-writer-wins on the
    interface \<open>versioned_store\<close>, so replicas converge; a batch and the switch to a rebuilt database are atomic under
    failures of any statement; the interface \<open>replica_sink\<close> and its interpretation.

  \<^item> \<open>Replication_Engine\<close>, \<open>Engine_Correct\<close> (\<open>kdc/replication/engine.rs\<close>): the engine and the gates over any source and
    sink; the interfaces \<open>replication_source\<close> and \<open>replication\<close>; under their laws every cycle ends, keeps the replica in
    step with the source, and a truncated poll leaves less to do.

  \<^item> \<open>Authority\<close>, \<open>Authority_Read\<close>, \<open>Authority_History\<close>, \<open>Authority_Mvcc\<close>, \<open>Authority_Source\<close>, \<open>Authority_Snapshot\<close> (the
    crate \<open>krb5-rs-kdb-cockroach\<close>): the authoritative database as a history of committed states, its transactions, its
    replication log with buckets and pruning, polls and paged snapshots. The invariant \<open>state_ok\<close> relates rows and log,
    \<open>evolves\<close> relates two times, and the database satisfies the laws of \<open>replication_source\<close>.

  \<^item> \<open>Replication_System\<close>: the engine between the two databases. The replica holds the authority's live data as of its
    checkpoint after any run; the first synchronisation ends; a ticket passes the strict gate only with fresh data and
    the authority's consent.

  \<^item> \<open>Mit_Name\<close>, \<open>Mit_Codec\<close> (\<open>kdc/kdb/mit/name.rs\<close>, \<open>kdc/kdb/mit/codec.rs\<close>): the database key of a principal and the
    records of an MIT LMDB database; what is written is read back, and what is accepted is what would be written.

  \<^item> \<open>Ulog_Xdr\<close>, \<open>Ulog_Entry\<close>, \<open>Ulog_File\<close>, \<open>Ulog\<close> (\<open>kdc/kdb/mit/ulog.rs\<close>): the updates of MIT's incremental propagation in
    XDR under the interface \<open>xdr_codec\<close>; how a changed entry becomes an update and an update an entry, with an entry
    that agrees at the end; the log's file, a header and a ring of blocks, which refines the window of the last updates
    through appending, growing blocks, starting over and reopening; a poll gets exactly the updates after its position
    or is told to resync, also when an append is cut off between two writes.

  \<^item> \<open>Iprop\<close> (\<open>krb5-rs-kdb-lmdb\<close>, the replies of \<open>kadmind\<close>, the loop of \<open>kpropd\<close>): the logged writes of a primary and
    the replay on a replica. After a poll the replica's principals agree with the primary's, or its position makes the next
    poll ask for a full resync.

  \<^bold>\<open>Assumptions that are visible in the statements.\<close> A history of the authority (\<open>history\<close>) consists of serializable
  transactions whose commit timestamps do not decrease (\<open>timely\<close>) and lie within the transaction timeout and the skew
  margin of the transaction's start, which is what \<open>scan_buckets\<close> relies on; operations are called with nonempty
  names (\<open>op_ok\<close>). A read at a timestamp sees the commits up to it. Included profiles nest to a depth that is an
  argument of the parser; the witnesses use small depths, and the theorems hold for each. The update log carries an
  entry in full only when its numbers lack the high bit, no kind of tl-data is taken away and the modifying principal
  parses (\<open>loggable\<close>, \<open>may_follow\<close>); serial numbers are not used up between two polls. The writes of a primary succeed or
  change nothing (\<open>kops_ok\<close>): one that the log refuses is in the database and not in the log
  (\<open>create_raw_unlogged\<close>), and the propagation theorem does not cover it.

  \<^bold>\<open>Not modelled.\<close> ASN.1 (the \<open>rasn\<close> crate and the types derived for it) and what only moves decoded messages: the
  request handlers apart from their policy steps, the client exchanges, GSS-API tokens and negotiation, PAC, PKINIT,
  SPAKE, FAST and S4U; ciphers and checksums other than those above (they call crypto crates); sockets, name lookup and
  RPC transport; of the LMDB back end the policies, the loading of dumps and the conversion of entries to records, and LMDB's
  own failures; the LDAP and file back ends and the MIT dump formats; the locks of the update log; the daemons' command
  lines; key encryption of stored entries; the retry protocol of the authority's write transactions. A query limit is compared as a natural
  number, so its saturation at \<open>i64::MAX\<close> is not represented.
\<close>

end
